(* ===== verification/Prelude.thy ===== *)
theory Prelude
  imports Main "HOL-Library.Word" "HOL-Library.List_Lexorder"
begin

text \<open>
  Shared vocabulary of the development: bytes and keys, Rust's \<open>Result\<close> as a sum type whose
  left part is the error, the integer operations of the standard library that saturate or report
  overflow, and the generic facts on the lexicographic order of byte strings that the components
  use. Keys are lists of 8-bit words; \<open>Vec<u8>\<close> is ordered lexicographically in Rust, which is
  the order that \<open>List_Lexorder\<close> gives to lists over a linear order.
\<close>

named_theorems key_order \<open>facts on the lexicographic order of keys\<close>
named_theorems result_simps \<open>unfolding of the result combinators\<close>
named_theorems word_arith \<open>unfolding of saturating and checked word arithmetic\<close>

type_synonym byte = "8 word"
type_synonym bytes = "byte list"
type_synonym key = bytes
type_synonym val_bytes = bytes
type_synonym u64 = "64 word"
type_synonym u32 = "32 word"

definition ok_bind :: "'e + 'a \<Rightarrow> ('a \<Rightarrow> 'e + 'b) \<Rightarrow> 'e + 'b" where
  "ok_bind r f = (case r of Inl e \<Rightarrow> Inl e | Inr x \<Rightarrow> f x)"

definition saturating_add :: "'w::len word \<Rightarrow> 'w word \<Rightarrow> 'w word" where
  "saturating_add a b = (if unat a + unat b < 2 ^ LENGTH('w) then a + b else - 1)"

definition saturating_sub :: "'w::len word \<Rightarrow> 'w word \<Rightarrow> 'w word" where
  "saturating_sub a b = (if b \<le> a then a - b else 0)"

definition checked_add :: "'w::len word \<Rightarrow> 'w word \<Rightarrow> 'w word option" where
  "checked_add a b = (if unat a + unat b < 2 ^ LENGTH('w) then Some (a + b) else None)"

definition saturating_mul :: "'w::len word \<Rightarrow> 'w word \<Rightarrow> 'w word" where
  "saturating_mul a b = (if unat a * unat b < 2 ^ LENGTH('w) then a * b else - 1)"

subsection \<open>Results\<close>

lemma ok_bind_simps [simp, result_simps]:
  "ok_bind (Inl e) f = Inl e"
  "ok_bind (Inr x) f = f x"
  by (simp_all add: ok_bind_def)

lemma ok_bind_Inr_iff [result_simps]: "ok_bind r f = Inr y \<longleftrightarrow> (\<exists>x. r = Inr x \<and> f x = Inr y)"
  by (auto simp: ok_bind_def split: sum.splits)

subsection \<open>Saturating arithmetic\<close>

lemma unat_saturating_add [word_arith]:
  "unat (saturating_add a (b :: 'w::len word)) = min (unat a + unat b) (2 ^ LENGTH('w) - 1)"
proof (cases "unat a + unat b < 2 ^ LENGTH('w)")
  case True
  then have "unat (a + b) = unat a + unat b" by (simp add: unat_word_ariths)
  with True show ?thesis by (simp add: saturating_add_def)
next
  case False
  then show ?thesis by (simp add: saturating_add_def unsigned_minus_1_eq_mask mask_eq_exp_minus_1)
qed

lemma unat_saturating_sub [word_arith]: "unat (saturating_sub a b) = unat a - unat b"
  by (auto simp: saturating_sub_def unat_sub word_le_nat_alt)

lemma unat_less_exp [simp]: "unat (a :: 'w::len word) < 2 ^ LENGTH('w)"
  by (rule unsigned_less)

lemma saturating_add_ge [word_arith]: "a \<le> saturating_add a (b :: 'w::len word)"
proof -
  have "unat a \<le> 2 ^ LENGTH('w) - 1" using unat_less_exp [of a] by (metis Suc_diff_1 less_Suc_eq_le zero_less_numeral zero_less_power)
  then show ?thesis by (simp add: word_le_nat_alt unat_saturating_add)
qed

lemma checked_add_Some: "checked_add a (b :: 'w::len word) = Some c \<Longrightarrow> unat c = unat a + unat b"
  by (auto simp: checked_add_def unat_word_ariths split: if_splits)

subsection \<open>The lexicographic order on byte strings\<close>

lemma append_less_same [simp, key_order]:
  "(p :: 'a::linorder list) @ x < p @ y \<longleftrightarrow> x < y"
  by (induction p) auto

lemma append_le_same [simp, key_order]:
  "(p :: 'a::linorder list) @ x \<le> p @ y \<longleftrightarrow> x \<le> y"
  by (induction p) auto

lemma append_less_equal_length [key_order]:
  assumes "length a = length b"
  shows "(a :: 'a::linorder list) @ x < b @ y \<longleftrightarrow> a < b \<or> a = b \<and> x < y"
  using assms by (induction a b rule: list_induct2) auto

lemma append_less_long_left [key_order]:
  "length b < length a \<Longrightarrow> (a :: 'a::linorder list) @ x < b \<longleftrightarrow> a < b"
proof (induction b arbitrary: a)
  case (Cons c b) then show ?case by (cases a) auto
qed simp

lemma append_less_long_right [key_order]:
  "length b < length a \<Longrightarrow> b < (a :: 'a::linorder list) @ x \<longleftrightarrow> b < a"
proof (induction b arbitrary: a)
  case Nil then show ?case by (cases a) auto
next
  case (Cons c b) then show ?case by (cases a) auto
qed

lemma less_append [key_order]: "x \<noteq> [] \<Longrightarrow> (a :: 'a::linorder list) < a @ x"
  by (induction a) (auto simp: neq_Nil_conv)

lemma le_append [simp, key_order]: "(a :: 'a::linorder list) \<le> a @ x"
  by (induction a) auto

lemma bytes_less_snoc0 [key_order]: "(k :: key) < k @ [0]"
  by (rule less_append) simp

lemma bytes_snoc0_le_iff [key_order]: "(k :: key) @ [0] \<le> x \<longleftrightarrow> k < x"
proof (induction k arbitrary: x)
  case Nil then show ?case by (cases x) (auto simp: word_gt_0 order.strict_iff_order)
next
  case (Cons b k) then show ?case by (cases x) auto
qed

text \<open>The addition of signed 64-bit integers that saturates.\<close>

definition I64_MAX :: int where "I64_MAX = 2 ^ 63 - 1"

definition i64_saturating_add :: "int \<Rightarrow> int \<Rightarrow> int" where
  "i64_saturating_add a b = max (- (2 ^ 63)) (min I64_MAX (a + b))"

end
