(* ===== verification/Proto.thy ===== *)
theory Proto
  imports Prelude
begin

text \<open>
  The protocol messages that the client inspects (\<open>generated/kvrpcpb.rs\<close>, \<open>errorpb.rs\<close>,
  \<open>metapb.rs\<close>, \<open>deadlock.rs\<close>), field by field. \<open>LockInfo\<close> nests itself, so it is a datatype with
  selectors; every other message is a record. Protobuf enumerations are 32-bit integers on the
  wire and are kept as integers where the client treats them so.
\<close>

datatype (plugins only: code size) lock_info = LockInfo
  (li_primary_lock: bytes) (li_lock_version: u64) (li_key: bytes) (li_lock_ttl: u64)
  (li_txn_size: u64) (li_lock_type: int) (li_lock_for_update_ts: u64)
  (li_use_async_commit: bool) (li_min_commit_ts: u64) (li_secondaries: "bytes list")
  (li_duration_to_last_update_ms: u64) (li_shared_lock_infos: "lock_info list")
  (li_is_txn_file: bool)

record write_conflict =
  wc_start_ts :: u64
  wc_conflict_ts :: u64
  wc_key :: bytes
  wc_primary :: bytes
  wc_conflict_commit_ts :: u64
  wc_reason :: int

record already_exist =
  ae_key :: bytes

record wait_for_entry =
  wf_txn :: u64
  wf_wait_for_txn :: u64
  wf_key_hash :: u64
  wf_key :: bytes
  wf_resource_group_tag :: bytes
  wf_wait_time :: u64

record deadlock =
  dl_lock_ts :: u64
  dl_lock_key :: bytes
  dl_deadlock_key_hash :: u64
  dl_wait_chain :: "wait_for_entry list"
  dl_deadlock_key :: bytes

record commit_ts_expired =
  ce_start_ts :: u64
  ce_attempted_commit_ts :: u64
  ce_key :: bytes
  ce_min_commit_ts :: u64

record txn_not_found =
  tnf_start_ts :: u64
  tnf_primary_key :: bytes

record commit_ts_too_large =
  ctl_commit_ts :: u64

record assertion_failed =
  af_start_ts :: u64
  af_key :: bytes
  af_assertion :: int
  af_existing_start_ts :: u64
  af_existing_commit_ts :: u64

record primary_mismatch =
  pm_lock_info :: "lock_info option"

record txn_lock_not_found =
  tl_key :: bytes

record mvcc_lock =
  ml_type :: int
  ml_start_ts :: u64
  ml_primary :: bytes
  ml_short_value :: bytes
  ml_ttl :: u64
  ml_for_update_ts :: u64
  ml_txn_size :: u64
  ml_use_async_commit :: bool
  ml_secondaries :: "bytes list"
  ml_rollback_ts :: "u64 list"
  ml_last_change_ts :: u64
  ml_versions_to_last_change :: u64

record mvcc_write =
  mw_type :: int
  mw_start_ts :: u64
  mw_commit_ts :: u64
  mw_short_value :: bytes
  mw_has_overlapped_rollback :: bool
  mw_has_gc_fence :: bool
  mw_gc_fence :: u64
  mw_last_change_ts :: u64
  mw_versions_to_last_change :: u64

record mvcc_value =
  mv_start_ts :: u64
  mv_value :: bytes

record mvcc_info =
  mi_lock :: "mvcc_lock option"
  mi_writes :: "mvcc_write list"
  mi_values :: "mvcc_value list"

record mvcc_debug_info =
  md_key :: bytes
  md_mvcc :: "mvcc_info option"

record debug_info =
  di_mvcc_info :: "mvcc_debug_info list"

record key_error =
  ke_locked :: "lock_info option"
  ke_retryable :: string
  ke_abort :: string
  ke_conflict :: "write_conflict option"
  ke_already_exist :: "already_exist option"
  ke_deadlock :: "deadlock option"
  ke_commit_ts_expired :: "commit_ts_expired option"
  ke_txn_not_found :: "txn_not_found option"
  ke_commit_ts_too_large :: "commit_ts_too_large option"
  ke_assertion_failed :: "assertion_failed option"
  ke_primary_mismatch :: "primary_mismatch option"
  ke_txn_lock_not_found :: "txn_lock_not_found option"
  ke_debug_info :: "debug_info option"

record region_epoch =
  conf_ver :: u64
  version :: u64

record peer =
  peer_id :: u64
  peer_store_id :: u64
  peer_role :: int
  peer_is_witness :: bool

text \<open>\<open>metapb.Region\<close>; its encryption metadata and flashback marks are never read by the client.\<close>

record metapb_region =
  mr_id :: u64
  mr_start_key :: bytes
  mr_end_key :: bytes
  mr_region_epoch :: "region_epoch option"
  mr_peers :: "peer list"

record epoch_not_match =
  enm_current_regions :: "metapb_region list"

record not_leader =
  nl_region_id :: u64
  nl_leader :: "peer option"

record server_is_busy =
  sb_reason :: string
  sb_backoff_ms :: u64
  sb_estimated_wait_ms :: u32
  sb_applied_index :: u64

record data_is_not_ready =
  dn_region_id :: u64
  dn_peer_id :: u64
  dn_safe_ts :: u64

record region_error_msg =
  re_message :: string
  re_not_leader :: "not_leader option"
  re_region_not_found :: "u64 option"
  re_key_not_in_region :: bool
  re_epoch_not_match :: "epoch_not_match option"
  re_server_is_busy :: "server_is_busy option"
  re_stale_command :: bool
  re_store_not_match :: bool
  re_raft_entry_too_large :: bool
  re_max_timestamp_not_synced :: bool
  re_read_index_not_ready :: bool
  re_proposal_in_merging_mode :: bool
  re_data_is_not_ready :: "data_is_not_ready option"
  re_region_not_initialized :: bool
  re_disk_full :: bool
  re_recovery_in_progress :: bool
  re_flashback_in_progress :: bool
  re_flashback_not_prepared :: bool
  re_is_witness :: bool
  re_mismatch_peer_id :: bool
  re_bucket_version_not_match :: bool
  re_undetermined_result :: "string option"

text \<open>\<open>kvrpcpb.Op\<close>, \<open>kvrpcpb.Assertion\<close>, \<open>kvrpcpb.AssertionLevel\<close> and \<open>kvrpcpb.Mutation\<close>.\<close>

datatype op = OpPut | OpDel | OpLock | OpRollback | OpInsert | OpPessimisticLock
  | OpCheckNotExists | OpSharedLock | OpSharedPessimisticLock

datatype assertion = AssertionNone | AssertionExist | AssertionNotExist

datatype assertion_level = LevelOff | LevelFast | LevelStrict

record proto_mutation =
  pm_op :: op
  pm_key :: bytes
  pm_value :: bytes
  pm_assertion :: assertion

record key_range =
  kr_start_key :: bytes
  kr_end_key :: bytes

record proto_kv_pair =
  kv_error :: "key_error option"
  kv_key :: bytes
  kv_value :: bytes
  kv_commit_ts :: u64

definition default_key_error :: key_error where
  "default_key_error = \<lparr>ke_locked = None, ke_retryable = [], ke_abort = [], ke_conflict = None,
     ke_already_exist = None, ke_deadlock = None, ke_commit_ts_expired = None,
     ke_txn_not_found = None, ke_commit_ts_too_large = None, ke_assertion_failed = None,
     ke_primary_mismatch = None, ke_txn_lock_not_found = None, ke_debug_info = None\<rparr>"

definition default_region_error :: region_error_msg where
  "default_region_error = \<lparr>re_message = [], re_not_leader = None, re_region_not_found = None,
     re_key_not_in_region = False, re_epoch_not_match = None, re_server_is_busy = None,
     re_stale_command = False, re_store_not_match = False, re_raft_entry_too_large = False,
     re_max_timestamp_not_synced = False, re_read_index_not_ready = False,
     re_proposal_in_merging_mode = False, re_data_is_not_ready = None,
     re_region_not_initialized = False, re_disk_full = False, re_recovery_in_progress = False,
     re_flashback_in_progress = False, re_flashback_not_prepared = False, re_is_witness = False,
     re_mismatch_peer_id = False, re_bucket_version_not_match = False,
     re_undetermined_result = None\<rparr>"

text \<open>The default message, in which every field is zero, as a starting point for updates.\<close>

definition default_lock_info :: lock_info where
  "default_lock_info = LockInfo [] 0 [] 0 0 0 0 False 0 [] 0 [] False"

end
