(* ===== verification/Errors.thy ===== *)
theory Errors
  imports Proto
begin

text \<open>
  The error type of the client (\<open>common/errors.rs\<close>): the enumeration \<open>Error\<close> with its source
  constructors, the conversion from \<open>kvrpcpb.KeyError\<close>, and the queries that recurse through the
  wrapping constructors. Constructors that wrap an opaque value of another crate (IO, channel,
  transport, URL, join, semver) carry no payload, except the gRPC status, which carries its code.
\<close>

datatype write_conflict_reason = ReasonUnknown | Optimistic | PessimisticRetry | SelfRolledBack
  | RcCheckTs | LazyUniquenessCheck | NotLockedKeyConflict

fun write_conflict_reason_from :: "int \<Rightarrow> write_conflict_reason" where
  "write_conflict_reason_from x =
     (if x = 1 then Optimistic
      else if x = 2 then PessimisticRetry
      else if x = 3 then SelfRolledBack
      else if x = 4 then RcCheckTs
      else if x = 5 then LazyUniquenessCheck
      else if x = 6 then NotLockedKeyConflict
      else ReasonUnknown)"

record write_conflict_error =
  wce_start_ts :: u64
  wce_conflict_ts :: u64
  wce_conflict_commit_ts :: u64
  wce_key :: bytes
  wce_primary :: bytes
  wce_reason :: write_conflict_reason

definition write_conflict_error_from :: "write_conflict \<Rightarrow> write_conflict_error" where
  "write_conflict_error_from c = \<lparr>wce_start_ts = wc_start_ts c, wce_conflict_ts = wc_conflict_ts c,
     wce_conflict_commit_ts = wc_conflict_commit_ts c, wce_key = wc_key c,
     wce_primary = wc_primary c, wce_reason = write_conflict_reason_from (wc_reason c)\<rparr>"

record key_exists_error =
  kee_key :: bytes

definition key_exists_error_from :: "already_exist \<Rightarrow> key_exists_error" where
  "key_exists_error_from e = \<lparr>kee_key = ae_key e\<rparr>"

datatype assertion_kind = KindNone | KindExist | KindNotExist

fun assertion_kind_from :: "int \<Rightarrow> assertion_kind" where
  "assertion_kind_from x =
     (if x = 1 then KindExist else if x = 2 then KindNotExist else KindNone)"

record assertion_failed_error =
  afe_start_ts :: u64
  afe_key :: bytes
  afe_assertion :: assertion_kind
  afe_existing_start_ts :: u64
  afe_existing_commit_ts :: u64

definition assertion_failed_error_from :: "assertion_failed \<Rightarrow> assertion_failed_error" where
  "assertion_failed_error_from f = \<lparr>afe_start_ts = af_start_ts f, afe_key = af_key f,
     afe_assertion = assertion_kind_from (af_assertion f),
     afe_existing_start_ts = af_existing_start_ts f,
     afe_existing_commit_ts = af_existing_commit_ts f\<rparr>"

record deadlock_wait_for_entry =
  dwe_txn :: u64
  dwe_wait_for_txn :: u64
  dwe_key_hash :: u64
  dwe_key :: bytes
  dwe_resource_group_tag :: bytes
  dwe_wait_time_ms :: u64

record deadlock_error =
  dle_lock_ts :: u64
  dle_lock_key :: bytes
  dle_deadlock_key_hash :: u64
  dle_wait_chain :: "deadlock_wait_for_entry list"
  dle_deadlock_key :: bytes

definition deadlock_error_from :: "deadlock \<Rightarrow> deadlock_error" where
  "deadlock_error_from d = \<lparr>dle_lock_ts = dl_lock_ts d, dle_lock_key = dl_lock_key d,
     dle_deadlock_key_hash = dl_deadlock_key_hash d,
     dle_wait_chain = map (\<lambda>e. \<lparr>dwe_txn = wf_txn e, dwe_wait_for_txn = wf_wait_for_txn e,
        dwe_key_hash = wf_key_hash e, dwe_key = wf_key e,
        dwe_resource_group_tag = wf_resource_group_tag e,
        dwe_wait_time_ms = wf_wait_time e\<rparr>) (dl_wait_chain d),
     dle_deadlock_key = dl_deadlock_key d\<rparr>"

text \<open>\<open>region::RegionVerId\<close>.\<close>

record region_ver_id =
  rv_id :: u64
  rv_conf_ver :: u64
  rv_ver :: u64

text \<open>\<open>std::ops::Bound<Key>\<close> and \<open>kv::BoundRange\<close> (used by one of the errors).\<close>

datatype 'a bound = Included 'a | Excluded 'a | Unbounded

record bound_range =
  br_from :: "key bound"
  br_to :: "key bound"

datatype (plugins only: code size) error =
    Unimplemented
  | DuplicateKeyInsertion
  | WriteConflict write_conflict_error
  | Deadlock deadlock_error
  | KeyExists key_exists_error
  | AssertionFailed assertion_failed_error
  | Retryable string
  | ResourceGroupThrottled
  | TxnAborted string
  | CommitTsTooLarge u64
  | CommitTsLag u64 u64
  | TxnNotFound u64
  | ResolveLockError "lock_info list"
  | InvalidTransactionType
  | OperationAfterCommitError
  | OnePcFailure
  | NoPrimaryKey
  | WriteConflictInLatch u64
  | InvalidPipelinedTransaction string
  | InvalidPessimisticLockOptions string
  | UnsupportedMode
  | NoCurrentRegions
  | EntryNotFoundInRegionCache
  | Io
  | Channel
  | Grpc
  | GrpcAPI nat
  | Url
  | Canceled
  | RegionError region_error_msg
  | UndeterminedError error
  | KeyError key_error
  | ExtractedErrors "error list"
  | MultipleKeyErrors "error list"
  | ColumnFamilyError string
  | JoinError
  | RegionForKeyNotFound bytes
  | RegionForRangeNotFound bound_range
  | RegionNotFoundInResponse u64
  | LeaderNotFound region_ver_id
  | MaxScanLimitExceeded u32 u32
  | InvalidSemver
  | KvError string
  | InternalError string
  | StringError string
  | PessimisticLockError error "bytes list"
  | KeyspaceNotFound string

definition error_from_key_error :: "key_error \<Rightarrow> error" where
  "error_from_key_error e =
    (case ke_conflict e of Some conflict \<Rightarrow> WriteConflict (write_conflict_error_from conflict)
     | None \<Rightarrow>
     if ke_retryable e \<noteq> [] then Retryable (ke_retryable e)
     else (case ke_assertion_failed e of Some failed \<Rightarrow> AssertionFailed (assertion_failed_error_from failed)
     | None \<Rightarrow>
     (case ke_already_exist e of Some exist \<Rightarrow> KeyExists (key_exists_error_from exist)
     | None \<Rightarrow>
     (case ke_deadlock e of Some d \<Rightarrow> Deadlock (deadlock_error_from d)
     | None \<Rightarrow>
     if ke_abort e \<noteq> [] then TxnAborted (ke_abort e)
     else (case ke_commit_ts_too_large e of Some c \<Rightarrow> CommitTsTooLarge (ctl_commit_ts c)
     | None \<Rightarrow>
     (case ke_txn_not_found e of Some t \<Rightarrow> TxnNotFound (tnf_start_ts t)
     | None \<Rightarrow> KeyError e))))))"

fun is_write_conflict :: "error \<Rightarrow> bool" where
  "is_write_conflict (WriteConflict c) = True"
| "is_write_conflict (UndeterminedError inner) = is_write_conflict inner"
| "is_write_conflict (PessimisticLockError inner ks) = is_write_conflict inner"
| "is_write_conflict (MultipleKeyErrors errors) = list_ex is_write_conflict errors"
| "is_write_conflict (ExtractedErrors errors) = list_ex is_write_conflict errors"
| "is_write_conflict _ = False"

fun is_deadlock :: "error \<Rightarrow> bool" where
  "is_deadlock (Deadlock d) = True"
| "is_deadlock (UndeterminedError inner) = is_deadlock inner"
| "is_deadlock (PessimisticLockError inner ks) = is_deadlock inner"
| "is_deadlock (MultipleKeyErrors errors) = list_ex is_deadlock errors"
| "is_deadlock (ExtractedErrors errors) = list_ex is_deadlock errors"
| "is_deadlock _ = False"

fun is_key_exists :: "error \<Rightarrow> bool" where
  "is_key_exists (KeyExists k) = True"
| "is_key_exists (UndeterminedError inner) = is_key_exists inner"
| "is_key_exists (PessimisticLockError inner ks) = is_key_exists inner"
| "is_key_exists (MultipleKeyErrors errors) = list_ex is_key_exists errors"
| "is_key_exists (ExtractedErrors errors) = list_ex is_key_exists errors"
| "is_key_exists _ = False"

fun is_assertion_failed :: "error \<Rightarrow> bool" where
  "is_assertion_failed (AssertionFailed f) = True"
| "is_assertion_failed (UndeterminedError inner) = is_assertion_failed inner"
| "is_assertion_failed (PessimisticLockError inner ks) = is_assertion_failed inner"
| "is_assertion_failed (MultipleKeyErrors errors) = list_ex is_assertion_failed errors"
| "is_assertion_failed (ExtractedErrors errors) = list_ex is_assertion_failed errors"
| "is_assertion_failed _ = False"

fun is_undetermined :: "error \<Rightarrow> bool" where
  "is_undetermined (UndeterminedError inner) = True"
| "is_undetermined (PessimisticLockError inner ks) = is_undetermined inner"
| "is_undetermined (MultipleKeyErrors errors) = list_ex is_undetermined errors"
| "is_undetermined (ExtractedErrors errors) = list_ex is_undetermined errors"
| "is_undetermined _ = False"

type_synonym 'a res = "error + 'a"

subsection \<open>Streams and lists of results\<close>

text \<open>The successes of a list of results in order, its first failure, and whether it has one.\<close>

definition oks :: "'a res list \<Rightarrow> 'a list" where
  "oks xs = List.map_filter (\<lambda>x. case x of Inl _ \<Rightarrow> None | Inr y \<Rightarrow> Some y) xs"

lemma oks_simps [simp]: "oks [] = []" "oks (Inl e # xs) = oks xs" "oks (Inr y # xs) = y # oks xs"
  by (simp_all add: oks_def map_filter_simps)

definition failed :: "'a res list \<Rightarrow> bool" where
  "failed xs \<longleftrightarrow> list_ex isl xs"

lemma failed_simps [simp]: "\<not> failed []" "failed (Inl e # xs)" "failed (Inr y # xs) = failed xs"
  by (simp_all add: failed_def)

lemma oks_map: "oks (map (map_sum id f) xs) = map f (oks xs)"
proof (induction xs)
  case (Cons x xs)
  then show ?case by (cases x) simp_all
qed simp

lemma failed_map: "failed (map (map_sum id f) xs) = failed xs"
proof (induction xs)
  case (Cons x xs)
  then show ?case by (cases x) simp_all
qed simp

fun first_error :: "'a res list \<Rightarrow> error option" where
  "first_error [] = None"
| "first_error (Inl e # xs) = Some e"
| "first_error (Inr x # xs) = first_error xs"

lemma first_error_None: "first_error xs = None \<longleftrightarrow> \<not> failed xs"
  by (induction xs rule: first_error.induct) simp_all

lemma first_error_oks: "first_error xs = None \<Longrightarrow> xs = map Inr (oks xs)"
  by (induction xs rule: first_error.induct) simp_all

end
