(* ===== verification/Kv_Codec.thy ===== *)
theory Kv_Codec
  imports Errors
begin

text \<open>
  The memcomparable byte encoding (\<open>kv/codec.rs\<close>). \<open>encode_bytes\<close> is the loop over an index of
  the source, \<open>decode_bytes_in_place\<close> the loop over a read and a write offset into one buffer,
  with \<open>copy_within\<close> on the overlapping ranges; a decoder returns the buffer it leaves behind and
  the result. \<open>enc_spec\<close> and \<open>dec_spec\<close> are the group-wise reference functions.
\<close>

unbundle bit_operations_syntax

definition ENC_GROUP_SIZE :: nat where "ENC_GROUP_SIZE = 8"
definition ENC_MARKER :: byte where "ENC_MARKER = 0xff"
definition ENC_ASC_PADDING :: bytes where "ENC_ASC_PADDING = replicate ENC_GROUP_SIZE 0"
definition ENC_DESC_PADDING :: bytes where "ENC_DESC_PADDING = replicate ENC_GROUP_SIZE (NOT 0)"

definition max_encoded_bytes_size :: "nat \<Rightarrow> nat" where
  "max_encoded_bytes_size n = (n div ENC_GROUP_SIZE + 1) * (ENC_GROUP_SIZE + 1)"

definition adjust_bytes_order :: "bytes \<Rightarrow> bool \<Rightarrow> bytes" where
  "adjust_bytes_order bs desc = (if desc then map (\<lambda>b. NOT b) bs else bs)"

function encode_bytes_from :: "bytes \<Rightarrow> bool \<Rightarrow> nat \<Rightarrow> bytes" where
  "encode_bytes_from key desc index =
    (if index \<le> length key then
       (let remain = length key - index;
            pad = (if remain > ENC_GROUP_SIZE then 0 else ENC_GROUP_SIZE - remain);
            group = (if remain > ENC_GROUP_SIZE
              then adjust_bytes_order (take ENC_GROUP_SIZE (drop index key)) desc
              else adjust_bytes_order (drop index key) desc
                   @ take pad (if desc then ENC_DESC_PADDING else ENC_ASC_PADDING))
        in group @ adjust_bytes_order [ENC_MARKER - of_nat pad] desc
           @ encode_bytes_from key desc (index + ENC_GROUP_SIZE))
     else [])"
  by pat_completeness auto
termination
  by (relation "measure (\<lambda>(key, desc, index). Suc (length key) - index)")
     (auto simp: ENC_GROUP_SIZE_def)

definition encode_bytes :: "bytes \<Rightarrow> bool \<Rightarrow> bytes" where
  "encode_bytes key desc = encode_bytes_from key desc 0"

text \<open>\<open>slice::copy_within(src..src_end, dest)\<close>, for ranges inside the slice.\<close>

definition copy_within :: "'a list \<Rightarrow> nat \<Rightarrow> nat \<Rightarrow> nat \<Rightarrow> 'a list" where
  "copy_within data src src_end dest =
     map (\<lambda>i. if dest \<le> i \<and> i < dest + (src_end - src) then data ! (src + (i - dest)) else data ! i)
       [0..<length data]"

function decode_bytes_loop :: "bool \<Rightarrow> bytes \<Rightarrow> nat \<Rightarrow> nat \<Rightarrow> bytes \<times> unit res" where
  "decode_bytes_loop desc data write_offset read_offset =
    (let marker_offset = read_offset + ENC_GROUP_SIZE in
     if marker_offset \<ge> length data then (data, Inl (InternalError ''unexpected EOF''))
     else
       (let data' = copy_within data read_offset marker_offset write_offset;
            write_offset' = write_offset + ENC_GROUP_SIZE;
            read_offset' = read_offset + (ENC_GROUP_SIZE + 1);
            marker = data' ! marker_offset;
            pad_size = (if desc then unat marker else unat (ENC_MARKER - marker))
        in if pad_size > 0 then
             if pad_size > ENC_GROUP_SIZE then (data', Inl (InternalError ''invalid key padding''))
             else if take pad_size (drop (write_offset' - pad_size) data')
                       \<noteq> take pad_size (if desc then ENC_DESC_PADDING else ENC_ASC_PADDING)
                  then (data', Inl (InternalError ''invalid key padding''))
             else (let data'' = take (write_offset' - pad_size) data'
                   in (if desc then map (\<lambda>k. NOT k) data'' else data'', Inr ()))
           else decode_bytes_loop desc data' write_offset' read_offset'))"
  by pat_completeness auto
termination
  by (relation "measure (\<lambda>(desc, data, w, r). length data - r)")
     (auto simp: ENC_GROUP_SIZE_def copy_within_def)

definition decode_bytes_in_place :: "bytes \<Rightarrow> bool \<Rightarrow> bytes \<times> unit res" where
  "decode_bytes_in_place data desc =
     (if data = [] then (data, Inr ()) else decode_bytes_loop desc data 0 0)"

text \<open>Reference functions: one group at a time.\<close>

fun enc_spec :: "bytes \<Rightarrow> bytes" where
  "enc_spec key =
     (if length key \<ge> 8 then take 8 key @ 0xff # enc_spec (drop 8 key)
      else key @ replicate (8 - length key) 0 @ [0xff - of_nat (8 - length key)])"

declare enc_spec.simps [simp del]

fun dec_spec :: "bytes \<Rightarrow> bytes option" where
  "dec_spec data =
     (if length data \<le> 8 then None
      else let pad = unat (0xff - data ! 8) in
        if pad = 0 then map_option ((@) (take 8 data)) (dec_spec (drop 9 data))
        else if pad \<le> 8 \<and> drop (8 - pad) (take 8 data) = replicate pad 0
             then Some (take (8 - pad) data) else None)"

declare dec_spec.simps [simp del]

declare encode_bytes_from.simps [simp del] decode_bytes_loop.simps [simp del]

subsection \<open>The encoder against the reference\<close>

lemma encode_bytes_from_spec:
  "index \<le> length key \<Longrightarrow> encode_bytes_from key desc index = adjust_bytes_order (enc_spec (drop index key)) desc"
proof (induction key desc index rule: encode_bytes_from.induct)
  case (1 key desc index)
  note IH = 1(1)
  consider (big) "length key - index > 8" | (eq) "length key - index = 8" | (small) "length key - index < 8"
    by linarith
  then show ?case
  proof cases
    case big
    then have "encode_bytes_from key desc (index + 8) = adjust_bytes_order (enc_spec (drop 8 (drop index key))) desc"
      using IH 1(2) by (simp add: ENC_GROUP_SIZE_def add.commute)
    with big 1(2) show ?thesis
      by (simp add: encode_bytes_from.simps [of key desc index] enc_spec.simps [of "drop index key"]
          ENC_GROUP_SIZE_def ENC_MARKER_def adjust_bytes_order_def)
  next
    case eq
    then have "encode_bytes_from key desc (index + 8) = adjust_bytes_order (enc_spec (drop 8 (drop index key))) desc"
      using IH 1(2) by (simp add: ENC_GROUP_SIZE_def add.commute)
    with eq 1(2) show ?thesis
      by (simp add: encode_bytes_from.simps [of key desc index] enc_spec.simps [of "drop index key"]
          ENC_GROUP_SIZE_def ENC_MARKER_def adjust_bytes_order_def)
  next
    case small
    then have "\<not> index + 8 \<le> length key" using 1(2) by linarith
    then have "encode_bytes_from key desc (index + 8) = []"
      by (simp add: encode_bytes_from.simps [of key desc "index + 8"])
    with small 1(2) show ?thesis
      by (simp add: encode_bytes_from.simps [of key desc index] enc_spec.simps [of "drop index key"]
          ENC_GROUP_SIZE_def ENC_MARKER_def ENC_ASC_PADDING_def ENC_DESC_PADDING_def adjust_bytes_order_def)
  qed
qed

lemma encode_bytes_spec: "encode_bytes key desc = adjust_bytes_order (enc_spec key) desc"
  using encode_bytes_from_spec [of 0 key desc] by (simp add: encode_bytes_def)

lemma enc_spec_length: "length (enc_spec key) = max_encoded_bytes_size (length key)"
proof (induction key rule: enc_spec.induct)
  case (1 key)
  show ?case
  proof (cases "length key \<ge> 8")
    case True
    have "length key div 8 = Suc ((length key - 8) div 8)"
      using True by (simp add: le_div_geq)
    with 1 True show ?thesis
      by (simp add: enc_spec.simps [of key] max_encoded_bytes_size_def ENC_GROUP_SIZE_def)
  next
    case False
    then show ?thesis
      by (simp add: enc_spec.simps [of key] max_encoded_bytes_size_def ENC_GROUP_SIZE_def)
  qed
qed

lemma enc_spec_ne [simp]: "enc_spec key \<noteq> []"
  by (simp add: enc_spec.simps [of key])

subsection \<open>The in-place decoder against the reference\<close>

lemma length_copy_within [simp]: "length (copy_within data s e d) = length data"
  by (simp add: copy_within_def)

lemma copy_within_append:
  assumes "r + n \<le> length data" "w \<le> r"
  shows "copy_within data r (r + n) w = take w data @ take n (drop r data) @ drop (w + n) data"
proof (rule nth_equalityI)
  show "length (copy_within data r (r + n) w)
      = length (take w data @ take n (drop r data) @ drop (w + n) data)"
    using assms by simp
next
  fix i assume "i < length (copy_within data r (r + n) w)"
  then have i: "i < length data" by simp
  then show "copy_within data r (r + n) w ! i
      = (take w data @ take n (drop r data) @ drop (w + n) data) ! i"
    using assms by (auto simp: copy_within_def nth_append)
qed

lemma not_byte_cancel [simp]: "0xff - NOT (m :: byte) = m"
proof -
  have "(0xff :: byte) = - 1" by simp
  then show ?thesis by (simp add: not_eq_complement)
qed

lemma map_NOT_eq_replicate:
  "map (\<lambda>k. NOT k) xs = replicate n (0 :: byte) \<longleftrightarrow> xs = replicate n (NOT 0)"
proof -
  have "xs = replicate n (NOT 0)" if "map (\<lambda>k. NOT k) xs = replicate n (0 :: byte)"
  proof -
    have "map (\<lambda>k. NOT k) (map (\<lambda>k. NOT k) xs) = map (\<lambda>k. NOT k) (replicate n (0 :: byte))"
      using that by simp
    then show ?thesis by (simp add: comp_def)
  qed
  then show ?thesis by auto
qed

lemma adjust_replicate_iff:
  "xs = replicate n (if desc then NOT 0 else (0 :: byte)) \<longleftrightarrow> adjust_bytes_order xs desc = replicate n 0"
  using map_NOT_eq_replicate [of xs n] by (auto simp: adjust_bytes_order_def)

lemma adjust_involution [simp]: "adjust_bytes_order (adjust_bytes_order bs desc) desc = bs"
  by (simp add: adjust_bytes_order_def comp_def)

lemma length_adjust [simp]: "length (adjust_bytes_order bs desc) = length bs"
  by (simp add: adjust_bytes_order_def)

lemma adjust_take: "adjust_bytes_order (take n bs) desc = take n (adjust_bytes_order bs desc)"
  by (simp add: adjust_bytes_order_def take_map)

lemma adjust_drop: "adjust_bytes_order (drop n bs) desc = drop n (adjust_bytes_order bs desc)"
  by (simp add: adjust_bytes_order_def drop_map)

lemma adjust_append: "adjust_bytes_order (a @ b) desc = adjust_bytes_order a desc @ adjust_bytes_order b desc"
  by (simp add: adjust_bytes_order_def)

lemma adjust_nth: "i < length bs \<Longrightarrow>
    (if desc then unat (bs ! i) else unat (ENC_MARKER - bs ! i)) = unat (0xff - adjust_bytes_order bs desc ! i)"
  by (auto simp: adjust_bytes_order_def ENC_MARKER_def)

definition decoded :: "bytes \<Rightarrow> bytes option \<Rightarrow> bytes \<times> unit res \<Rightarrow> bool" where
  "decoded done spec out = (case spec of Some k \<Rightarrow> out = (done @ k, Inr ()) | None \<Rightarrow> \<exists>d e. out = (d, Inl e))"

lemma decode_bytes_loop_spec:
  assumes "w \<le> r" "w \<le> length data"
  shows "decoded (adjust_bytes_order (take w data) desc)
           (dec_spec (adjust_bytes_order (drop r data) desc)) (decode_bytes_loop desc data w r)"
  using assms
proof (induction desc data w r rule: decode_bytes_loop.induct)
  case (1 desc data w r)
  let ?D = "adjust_bytes_order (drop r data) desc"
  show ?case
  proof (cases "r + 8 < length data")
    case False
    then have "length data - r \<le> 8" "length data \<le> r + 8" by auto
    then show ?thesis
      by (simp add: decoded_def decode_bytes_loop.simps [of desc data w r]
          dec_spec.simps [of ?D] ENC_GROUP_SIZE_def)
  next
    case True
    define data' where "data' = copy_within data r (r + 8) w"
    have data': "data' = take w data @ take 8 (drop r data) @ drop (w + 8) data"
      unfolding data'_def using True 1(2) by (intro copy_within_append) auto
    have len': "length data' = length data" by (simp add: data'_def)
    have marker: "data' ! (r + 8) = drop r data ! 8"
      using True 1(2) by (auto simp: data' nth_append add.commute)
    have take': "take (w + 8) data' = take w data @ take 8 (drop r data)"
      using True 1(2) by (simp add: data')
    have drop': "drop (r + 9) data' = drop 9 (drop r data)"
      using True 1(2) by (simp add: data' add.commute)
    define pad where "pad = unat (0xff - ?D ! 8)"
    have pad: "(if desc then unat (data' ! (r + 8)) else unat (ENC_MARKER - data' ! (r + 8))) = pad"
      unfolding marker pad_def using True by (subst adjust_nth) simp_all
    have padD: "desc \<Longrightarrow> unat (data' ! (r + 8)) = pad"
      and padA: "\<not> desc \<Longrightarrow> unat (ENC_MARKER - data' ! (r + 8)) = pad"
      using pad by auto
    have len: "length ?D > 8" using True by simp
    have step: "decode_bytes_loop desc data w r =
          (if pad = 0 then decode_bytes_loop desc data' (w + 8) (r + 9)
           else if pad > 8 then (data', Inl (InternalError ''invalid key padding''))
           else if take pad (drop (w + 8 - pad) data') \<noteq> take pad (if desc then ENC_DESC_PADDING else ENC_ASC_PADDING)
                then (data', Inl (InternalError ''invalid key padding''))
           else (adjust_bytes_order (take (w + 8 - pad) data') desc, Inr ()))"
      using True
      by (subst decode_bytes_loop.simps)
         (cases desc; simp add: Let_def ENC_GROUP_SIZE_def data'_def [symmetric] padD padA adjust_bytes_order_def)
    show ?thesis
    proof (cases "pad = 0")
      case True0: True
      have "decoded (adjust_bytes_order (take (w + 8) data') desc)
          (dec_spec (adjust_bytes_order (drop (r + 9) data') desc)) (decode_bytes_loop desc data' (w + 8) (r + 9))"
        using 1(1) [OF refl _ refl refl refl refl refl] True 1(2,3) True0 pad len'
        unfolding ENC_GROUP_SIZE_def data'_def [symmetric] by simp
      moreover have "decode_bytes_loop desc data w r = decode_bytes_loop desc data' (w + 8) (r + 9)"
        using True0 by (simp add: step)
      moreover have "dec_spec ?D = map_option ((@) (take 8 ?D)) (dec_spec (drop 9 ?D))"
        using len True0 by (simp add: dec_spec.simps [of ?D] pad_def)
      ultimately show ?thesis
        unfolding take' drop' by (auto simp: decoded_def adjust_take adjust_drop adjust_append split: option.splits)
    next
      case Pos: False
      have slice: "take pad (drop (w + 8 - pad) data') = drop (8 - pad) (take 8 (drop r data))" if "pad \<le> 8"
      proof -
        have "take pad (drop (w + 8 - pad) data') = drop (w + 8 - pad) (take (w + 8) data')"
          using that by (simp add: take_drop)
        then show ?thesis unfolding take' using that True 1(2) by simp
      qed
      have slice': "adjust_bytes_order (drop (8 - pad) (take 8 (drop r data))) desc = drop (8 - pad) (take 8 ?D)"
        by (simp add: adjust_take adjust_drop)
      have padding: "take pad (if desc then ENC_DESC_PADDING else ENC_ASC_PADDING)
          = replicate pad (if desc then NOT 0 else (0 :: byte))" if "pad \<le> 8"
        using that by (simp add: ENC_DESC_PADDING_def ENC_ASC_PADDING_def ENC_GROUP_SIZE_def)
      have out: "take (w + 8 - pad) data' = take w data @ take (8 - pad) (drop r data)" if "pad \<le> 8"
      proof -
        have "take (w + 8 - pad) data' = take (w + (8 - pad)) (take (w + 8) data')" using that by simp
        also have "\<dots> = take w data @ take (8 - pad) (drop r data)"
          unfolding take' take_append using 1(2,3) True by simp
        finally show ?thesis .
      qed
      have loop: "decode_bytes_loop desc data w r =
          (if pad > 8 then (data', Inl (InternalError ''invalid key padding''))
           else if take pad (drop (w + 8 - pad) data') \<noteq> take pad (if desc then ENC_DESC_PADDING else ENC_ASC_PADDING)
                then (data', Inl (InternalError ''invalid key padding''))
           else (adjust_bytes_order (take (w + 8 - pad) data') desc, Inr ()))"
        using Pos by (simp add: step)
      have spec: "dec_spec ?D = (if pad \<le> 8 \<and> drop (8 - pad) (take 8 ?D) = replicate pad 0
             then Some (take (8 - pad) ?D) else None)"
        using len Pos by (subst dec_spec.simps) (simp only: Let_def pad_def [symmetric], simp)
      show ?thesis
      proof (cases "pad \<le> 8")
        case le: True
        show ?thesis
          unfolding loop spec slice [OF le] padding [OF le] adjust_replicate_iff slice' out [OF le]
          using le by (simp add: decoded_def adjust_append adjust_take adjust_drop)
      next
        case False
        then show ?thesis unfolding loop spec by (simp add: decoded_def)
      qed
    qed
  qed
qed

lemma decode_bytes_in_place_spec:
  "data \<noteq> [] \<Longrightarrow> decoded [] (dec_spec (adjust_bytes_order data desc)) (decode_bytes_in_place data desc)"
  using decode_bytes_loop_spec [of 0 0 data desc]
  by (cases desc) (simp_all add: decode_bytes_in_place_def adjust_bytes_order_def)

subsection \<open>Round trip, canonicity and order\<close>

lemma pad_marker: "n \<le> 8 \<Longrightarrow> unat (0xff - (0xff - of_nat n) :: byte) = n"
  by (simp add: unat_of_nat)

lemma dec_enc_spec: "dec_spec (enc_spec key @ rest) = Some key"
proof (induction key rule: enc_spec.induct)
  case (1 key)
  let ?d = "enc_spec key @ rest"
  show ?case
  proof (cases "length key \<ge> 8")
    case True
    then have d: "?d = take 8 key @ 0xff # (enc_spec (drop 8 key) @ rest)"
      by (simp add: enc_spec.simps [of key])
    have len: "length (take 8 key) = 8" using True by simp
    have "dec_spec ?d = map_option ((@) (take 8 key)) (dec_spec (enc_spec (drop 8 key) @ rest))"
      unfolding d using len by (subst dec_spec.simps) (simp add: nth_append)
    with 1 True show ?thesis by simp
  next
    case False
    let ?p = "8 - length key"
    from False have d: "?d = (key @ replicate ?p 0) @ (0xff - of_nat ?p) # rest"
      by (simp add: enc_spec.simps [of key])
    have len: "length (key @ replicate ?p (0 :: byte)) = 8" using False by simp
    have take8: "take 8 ?d = key @ replicate ?p 0" unfolding d using len by simp
    have nth8: "?d ! 8 = 0xff - of_nat ?p" unfolding d using len by (simp add: nth_append)
    have pad: "unat (0xff - ?d ! 8) = ?p" unfolding nth8 by (rule pad_marker) simp
    have "dec_spec ?d = Some (take (8 - ?p) ?d)"
      using False by (subst dec_spec.simps) (simp only: pad Let_def take8, simp add: d)
    also have "take (8 - ?p) ?d = key" unfolding d using False by simp
    finally show ?thesis .
  qed
qed

lemma dec_spec_canonical: "dec_spec data = Some key \<Longrightarrow> \<exists>rest. data = enc_spec key @ rest"
proof (induction data arbitrary: key rule: dec_spec.induct)
  case (1 data)
  then have len: "length data > 8" by (simp add: dec_spec.simps [of data] split: if_splits)
  let ?pad = "unat (0xff - data ! 8)"
  have split: "data = take 8 data @ data ! 8 # drop 9 data"
    using id_take_nth_drop [of 8 data] len by simp
  show ?case
  proof (cases "?pad = 0")
    case True
    then have m: "data ! 8 = 0xff" by (metis diff_eq_diff_eq diff_self unat_eq_zero)
    have "dec_spec data = map_option ((@) (take 8 data)) (dec_spec (drop 9 data))"
      using len True by (subst dec_spec.simps) simp
    then obtain k where k: "dec_spec (drop 9 data) = Some k" "key = take 8 data @ k"
      using 1(2) by (cases "dec_spec (drop 9 data)") auto
    from 1(1) [OF _ refl True k(1)] len obtain rest where "drop 9 data = enc_spec k @ rest"
      by auto
    moreover have "enc_spec key = take 8 data @ 0xff # enc_spec k"
      using k(2) len by (subst enc_spec.simps) simp
    ultimately show ?thesis using split m by (metis append.assoc append_Cons)
  next
    case False
    have eq: "dec_spec data = (if ?pad \<le> 8 \<and> drop (8 - ?pad) (take 8 data) = replicate ?pad 0
             then Some (take (8 - ?pad) data) else None)"
      using len False by (subst dec_spec.simps) (simp add: Let_def)
    with 1(2) have p: "?pad \<le> 8" "drop (8 - ?pad) (take 8 data) = replicate ?pad 0"
      and k: "key = take (8 - ?pad) data"
      by (auto split: if_splits)
    have lk: "length key = 8 - ?pad" using k len by simp
    have short: "length key < 8" "8 - length key = ?pad" using lk False p(1) by linarith+
    have "take 8 data = key @ replicate ?pad 0"
      using p k by (metis append_take_drop_id diff_le_self min.absorb1 take_take)
    moreover have "data ! 8 = 0xff - of_nat ?pad" by simp
    moreover have "enc_spec key = key @ replicate ?pad 0 @ [0xff - of_nat ?pad]"
      using lk short by (subst enc_spec.simps) simp
    ultimately have "data = enc_spec key @ drop 9 data" using split by simp
    then show ?thesis ..
  qed
qed

lemma enc_spec_prefix_free: "enc_spec a @ x = enc_spec b @ y \<Longrightarrow> a = b \<and> x = y"
  using dec_enc_spec [of a x] dec_enc_spec [of b y] by simp

lemma pad_less:
  "length a \<le> n \<Longrightarrow> length b \<le> n \<Longrightarrow>
   a < b \<longleftrightarrow> a @ replicate (n - length a) 0 < b @ replicate (n - length b) (0 :: byte)
     \<or> a @ replicate (n - length a) 0 = b @ replicate (n - length b) 0 \<and> length a < length b"
proof (induction n arbitrary: a b)
  case (Suc n)
  show ?case
  proof (cases a)
    case Nil
    show ?thesis
    proof (cases b)
      case (Cons y ys)
      then show ?thesis using Suc.IH [of "[]" ys] Suc.prems Nil
        by (cases ys) (auto simp: word_gt_0)
    qed (simp add: Nil)
  next
    case (Cons x xs)
    show ?thesis
    proof (cases b)
      case Nil
      then show ?thesis using Suc.IH [of xs "[]"] Suc.prems Cons by auto
    next
      case (Cons y ys)
      then show ?thesis using Suc.IH [of xs ys] Suc.prems \<open>a = x # xs\<close> by auto
    qed
  qed
qed simp

text \<open>The first group of an encoding: eight padded bytes and the marker.\<close>

definition grp :: "bytes \<Rightarrow> bytes" where
  "grp key = take 8 key @ replicate (8 - length key) 0"

definition mark :: "bytes \<Rightarrow> byte" where
  "mark key = 0xff - of_nat (8 - min 8 (length key))"

lemma length_grp [simp]: "length (grp key) = 8"
  by (simp add: grp_def)

lemma enc_spec_group:
  "enc_spec key = grp key @ mark key # (if length key \<ge> 8 then enc_spec (drop 8 key) else [])"
  by (subst enc_spec.simps) (auto simp: grp_def mark_def min_def)

lemma mark_less: "mark a < mark b \<longleftrightarrow> min 8 (length a) < min 8 (length b)"
proof -
  have u: "unat (0xff - of_nat n :: byte) = 255 - n" if "n \<le> 8" for n
  proof -
    have "unat (0xff - of_nat n :: byte) = unat (0xff :: byte) - unat (of_nat n :: byte)"
      using that by (intro unat_sub) (simp add: word_le_nat_alt unat_of_nat)
    with that show ?thesis by (simp add: unat_of_nat)
  qed
  show ?thesis
    unfolding mark_def word_less_nat_alt by (subst (1 2) u) auto
qed

lemma mark_eq: "mark a = mark b \<longleftrightarrow> min 8 (length a) = min 8 (length b)"
  using mark_less [of a b] mark_less [of b a]
  by (metis less_irrefl mark_def nat_neq_iff)

lemma grp_less:
  "a < b \<longleftrightarrow> grp a < grp b \<or> grp a = grp b \<and>
     (mark a < mark b \<or> mark a = mark b \<and> 8 \<le> length a \<and> 8 \<le> length b \<and> drop 8 a < drop 8 b)"
proof -
  let ?a = "take 8 a" and ?b = "take 8 b"
  have pad_a: "?a @ replicate (8 - length ?a) 0 = grp a" by (simp add: grp_def min_def)
  have pad_b: "?b @ replicate (8 - length ?b) 0 = grp b" by (simp add: grp_def min_def)
  have g: "?a < ?b \<longleftrightarrow> grp a < grp b \<or> grp a = grp b \<and> min 8 (length a) < min 8 (length b)"
    using pad_less [of ?a 8 ?b] unfolding pad_a pad_b by (simp add: min.commute)
  have ge: "?a = ?b \<longleftrightarrow> grp a = grp b \<and> min 8 (length a) = min 8 (length b)"
  proof
    assume "?a = ?b"
    moreover have "min 8 (length a) = length ?a" "min 8 (length b) = length ?b"
      by (simp_all add: min.commute)
    ultimately show "grp a = grp b \<and> min 8 (length a) = min 8 (length b)"
      unfolding pad_a [symmetric] pad_b [symmetric] by simp
  next
    assume e: "grp a = grp b \<and> min 8 (length a) = min 8 (length b)"
    then have "length ?a = length ?b" by (simp add: min.commute)
    with e show "?a = ?b" unfolding pad_a [symmetric] pad_b [symmetric] by simp
  qed
  have "a < b \<longleftrightarrow> ?a < ?b \<or> ?a = ?b \<and> drop 8 a < drop 8 b"
  proof (cases "length ?a = length ?b")
    case True
    then show ?thesis using append_less_equal_length [OF True, of "drop 8 a" "drop 8 b"] by simp
  next
    case False
    show ?thesis
    proof (cases "length ?a < length ?b")
      case True
      then have "length a < 8" by (auto simp: min_def split: if_splits)
      then have a: "?a = a" by simp
      have "a < ?b @ drop 8 b \<longleftrightarrow> a < ?b" using append_less_long_right True unfolding a .
      then show ?thesis using False unfolding a by auto
    next
      case F2: False
      with False have l: "length ?b < length ?a" by linarith
      then have "length b < 8" by (auto simp: min_def split: if_splits)
      then have b: "?b = b" by simp
      have "?a @ drop 8 a < b \<longleftrightarrow> ?a < b" using append_less_long_left l unfolding b .
      then show ?thesis using False unfolding b by auto
    qed
  qed
  moreover have "drop 8 a < drop 8 b \<Longrightarrow> min 8 (length a) = min 8 (length b) \<Longrightarrow> 8 \<le> length a \<and> 8 \<le> length b"
    by (cases "length b \<le> 8") (auto simp: min_def split: if_splits)
  ultimately show ?thesis unfolding g ge mark_less mark_eq by blast
qed

lemma enc_spec_less: "enc_spec a < enc_spec b \<longleftrightarrow> a < b"
proof (induction a arbitrary: b rule: enc_spec.induct)
  case (1 a)
  have "enc_spec a < enc_spec b \<longleftrightarrow> grp a < grp b \<or> grp a = grp b \<and>
     (mark a < mark b \<or> mark a = mark b \<and> 8 \<le> length a \<and> 8 \<le> length b \<and> drop 8 a < drop 8 b)"
    unfolding enc_spec_group [of a] enc_spec_group [of b]
    using 1 mark_eq [of a b]
    by (cases "8 \<le> length a"; cases "8 \<le> length b"; subst append_less_equal_length; simp)
  then show ?case unfolding grp_less [of a b] .
qed

lemma less_not_prefix_append:
  "(a :: 'a::linorder list) < b \<Longrightarrow> (\<nexists>r. b = a @ r) \<Longrightarrow> a @ x < b @ y"
proof (induction a arbitrary: b)
  case (Cons c a) then show ?case by (cases b) auto
qed simp

lemma unat_NOT_byte: "unat (NOT (x :: byte)) = 255 - unat x"
proof -
  have "NOT x = - 1 - x" by (simp add: not_eq_complement)
  moreover have "unat (- 1 :: byte) = 255" by (simp add: unsigned_minus_1_eq_mask mask_eq_exp_minus_1)
  ultimately show ?thesis using unat_sub [of x "- 1"] by simp
qed

lemma NOT_less_byte: "NOT c < NOT d \<longleftrightarrow> (d :: byte) < c"
proof -
  have "unat c \<le> 255" "unat d \<le> 255"
    using unat_less_exp [of c] unat_less_exp [of d] by simp_all
  then show ?thesis unfolding word_less_nat_alt unat_NOT_byte by linarith
qed

lemma map_NOT_less:
  "(\<nexists>r. b = a @ r) \<Longrightarrow> (\<nexists>r. a = b @ r) \<Longrightarrow>
   map (\<lambda>k. NOT k) a < map (\<lambda>k. NOT k) (b :: bytes) \<longleftrightarrow> b < a"
proof (induction a arbitrary: b)
  case (Cons c a)
  then obtain d b' where b: "b = d # b'" by (cases b) auto
  have "NOT c < NOT d \<longleftrightarrow> d < c" for c d :: byte
    by (rule NOT_less_byte)
  with Cons show ?case unfolding b by auto
qed simp

lemma adjust_enc_less:
  "adjust_bytes_order (enc_spec a) desc < adjust_bytes_order (enc_spec b) desc
     \<longleftrightarrow> (if desc then b < a else a < b)"
proof (cases "desc \<and> a \<noteq> b")
  case True
  have "\<nexists>r. enc_spec b = enc_spec a @ r" "\<nexists>r. enc_spec a = enc_spec b @ r"
    using True enc_spec_prefix_free by (metis append_Nil2)+
  with True show ?thesis
    by (simp add: adjust_bytes_order_def map_NOT_less enc_spec_less)
next
  case False
  then show ?thesis by (auto simp: adjust_bytes_order_def enc_spec_less)
qed

lemma encode_bytes_inj: "encode_bytes a desc = encode_bytes b desc \<longleftrightarrow> a = b"
proof -
  have "a = b" if "encode_bytes a desc = encode_bytes b desc"
  proof -
    have "adjust_bytes_order (encode_bytes a desc) desc = adjust_bytes_order (encode_bytes b desc) desc"
      using that by simp
    then have "enc_spec a = enc_spec b" by (simp add: encode_bytes_spec)
    then show ?thesis using enc_spec_prefix_free [of a "[]" b "[]"] by simp
  qed
  then show ?thesis by auto
qed

lemma decode_encode: "decode_bytes_in_place (encode_bytes key desc @ rest) desc = (key, Inr ())"
proof -
  have "encode_bytes key desc \<noteq> []"
    by (metis adjust_involution encode_bytes_spec enc_spec_ne length_0_conv length_adjust)
  then have "decoded [] (dec_spec (adjust_bytes_order (encode_bytes key desc @ rest) desc))
      (decode_bytes_in_place (encode_bytes key desc @ rest) desc)"
    by (intro decode_bytes_in_place_spec) simp
  then show ?thesis by (simp add: adjust_append encode_bytes_spec dec_enc_spec decoded_def)
qed

subsection \<open>What the codec guarantees\<close>

text \<open>C33: decoding an encoding in place gives the original bytes back, in both orders, even when
  arbitrary bytes follow the encoding in the buffer.\<close>

theorem decode_encode_round_trip:
  "decode_bytes_in_place (encode_bytes key desc @ rest) desc = (key, Inr ())"
  by (rule decode_encode)

text \<open>The in-place decoder accepts only canonical input: when it succeeds on a non-empty
  buffer, the buffer starts with the encoding of the bytes it leaves.\<close>

theorem decode_bytes_canonical:
  assumes "data \<noteq> []" "decode_bytes_in_place data desc = (key, Inr ())"
  shows "\<exists>rest. data = encode_bytes key desc @ rest"
proof -
  have "dec_spec (adjust_bytes_order data desc) = Some key"
    using decode_bytes_in_place_spec [OF assms(1), of desc] assms(2)
    by (auto simp: decoded_def split: option.splits)
  then obtain rest where "adjust_bytes_order data desc = enc_spec key @ rest"
    using dec_spec_canonical by blast
  then have "adjust_bytes_order (adjust_bytes_order data desc) desc = adjust_bytes_order (enc_spec key @ rest) desc"
    by simp
  then show ?thesis by (auto simp: adjust_append encode_bytes_spec)
qed

theorem decode_bytes_canonical_witness:
  "\<exists>rest. [1, 0, 0, 0, 0, 0, 0, 0, 0xf8, 7] = encode_bytes [1] False @ rest"
proof -
  have "encode_bytes [1] False @ [7] = [1, 0, 0, 0, 0, 0, 0, 0, 0xf8, 7]"
    by (simp add: encode_bytes_spec adjust_bytes_order_def enc_spec.simps numeral_eq_Suc)
  then have "decode_bytes_in_place [1, 0, 0, 0, 0, 0, 0, 0, 0xf8, 7] False = ([1], Inr ())"
    using decode_encode [of "[1]" False "[7]"] by simp
  then show ?thesis by (intro decode_bytes_canonical) simp_all
qed

text \<open>The encoding preserves the byte order (reversed for the descending variant), is
  injective, and has exactly the size that \<open>max_encoded_bytes_size\<close> computes.\<close>

theorem encode_bytes_order:
  "(encode_bytes a desc < encode_bytes b desc \<longleftrightarrow> (if desc then b < a else a < b))
   \<and> (encode_bytes a desc = encode_bytes b desc \<longleftrightarrow> a = b)
   \<and> length (encode_bytes a desc) = max_encoded_bytes_size (length a)"
  by (simp add: encode_bytes_inj) (simp add: encode_bytes_spec adjust_enc_less enc_spec_length)

end
