(* ===== verification/Kv_Key.thy ===== *)
theory Kv_Key
  imports Kv_Codec
begin

text \<open>
  Keys and key ranges (\<open>kv/key.rs\<close>, \<open>kv/bound_range.rs\<close>). A key is its byte string; a range has a
  lower and an upper bound. \<open>into_keys\<close> lowers a range to the half-open pair of keys that requests
  carry, where a missing or empty end key stands for the end of the key space.
\<close>

definition EMPTY :: key where "EMPTY = []"

definition is_empty :: "key \<Rightarrow> bool" where
  "is_empty k = (k = [])"

definition zero_terminated :: "key \<Rightarrow> bool" where
  "zero_terminated k = (if k = [] then False else last k = 0)"

definition next_key :: "key \<Rightarrow> key" where
  "next_key k = k @ [0]"

definition into_lower_bound :: "key \<Rightarrow> key bound" where
  "into_lower_bound k = (if zero_terminated k then Excluded (butlast k) else Included k)"

definition into_upper_bound :: "key \<Rightarrow> key bound" where
  "into_upper_bound k = (if zero_terminated k then Included (butlast k) else Excluded k)"

definition to_encoded :: "key \<Rightarrow> key" where
  "to_encoded k = encode_bytes k False"

fun next_prefix_key_loop :: "bytes \<Rightarrow> nat \<Rightarrow> key" where
  "next_prefix_key_loop buf 0 = EMPTY"
| "next_prefix_key_loop buf (Suc i) =
     (let buf' = buf[i := buf ! i + 1]
      in if buf' ! i \<noteq> 0 then buf' else next_prefix_key_loop buf' i)"

definition next_prefix_key :: "key \<Rightarrow> key" where
  "next_prefix_key k = next_prefix_key_loop k (length k)"

definition new_bound_range :: "key bound \<Rightarrow> key bound \<Rightarrow> bound_range" where
  "new_bound_range lo to = \<lparr>br_from = lo, br_to = to\<rparr>"

definition range_from :: "key \<Rightarrow> bound_range" where
  "range_from lo = \<lparr>br_from = Included lo, br_to = Unbounded\<rparr>"

definition into_keys :: "bound_range \<Rightarrow> key \<times> key option" where
  "into_keys r =
    ((case br_from r of Included v \<Rightarrow> v | Excluded v \<Rightarrow> next_key v | Unbounded \<Rightarrow> EMPTY),
     (case br_to r of Included v \<Rightarrow> Some (next_key v) | Excluded v \<Rightarrow> Some v | Unbounded \<Rightarrow> None))"

definition start_bound :: "bound_range \<Rightarrow> key bound" where
  "start_bound r = (case br_from r of Included f \<Rightarrow> Included f | Excluded f \<Rightarrow> Excluded f | Unbounded \<Rightarrow> Unbounded)"

definition end_bound :: "bound_range \<Rightarrow> key bound" where
  "end_bound r = (case br_to r of
      Included t \<Rightarrow> if is_empty t then Unbounded else Included t
    | Excluded t \<Rightarrow> if is_empty t then Unbounded else Excluded t
    | Unbounded \<Rightarrow> Unbounded)"

definition from_range :: "key \<Rightarrow> key \<Rightarrow> bound_range" where
  "from_range start en = new_bound_range (Included start) (Excluded en)"

definition from_range_inclusive :: "key \<Rightarrow> key \<Rightarrow> bound_range" where
  "from_range_inclusive start en = new_bound_range (Included start) (Included en)"

definition from_range_to :: "key \<Rightarrow> bound_range" where
  "from_range_to en = new_bound_range Unbounded (Excluded en)"

definition from_range_to_inclusive :: "key \<Rightarrow> bound_range" where
  "from_range_to_inclusive en = new_bound_range Unbounded (Included en)"

definition from_range_full :: bound_range where
  "from_range_full = new_bound_range Unbounded Unbounded"

definition from_opt_pair :: "key \<Rightarrow> key option \<Rightarrow> bound_range" where
  "from_opt_pair start en = new_bound_range (into_lower_bound start)
     (case en of None \<Rightarrow> Unbounded | Some to \<Rightarrow> into_upper_bound to)"

definition from_pair :: "key \<Rightarrow> key \<Rightarrow> bound_range" where
  "from_pair start en = new_bound_range (into_lower_bound start) (into_upper_bound en)"

definition key_range_of_bound_range :: "bound_range \<Rightarrow> key_range" where
  "key_range_of_bound_range r = (case into_keys r of (start, en) \<Rightarrow>
     \<lparr>kr_start_key = start, kr_end_key = (case en of None \<Rightarrow> [] | Some e \<Rightarrow> e)\<rparr>)"

definition bound_range_of_key_range :: "key_range \<Rightarrow> bound_range" where
  "bound_range_of_key_range r =
     new_bound_range (into_lower_bound (kr_start_key r)) (into_upper_bound (kr_end_key r))"

text \<open>Membership: \<open>RangeBounds::contains\<close> on the bounds of a range, and the half-open interval that
  TiKV reads from a start and an end key, an empty end key meaning no limit.\<close>

definition in_bounds :: "bound_range \<Rightarrow> key \<Rightarrow> bool" where
  "in_bounds r k =
    ((case start_bound r of Included s \<Rightarrow> s \<le> k | Excluded s \<Rightarrow> s < k | Unbounded \<Rightarrow> True)
     \<and> (case end_bound r of Included e \<Rightarrow> k \<le> e | Excluded e \<Rightarrow> k < e | Unbounded \<Rightarrow> True))"

definition in_half_open :: "key \<Rightarrow> key \<Rightarrow> key \<Rightarrow> bool" where
  "in_half_open s e k \<longleftrightarrow> s \<le> k \<and> (e = [] \<or> k < e)"

definition in_key_range :: "key_range \<Rightarrow> key \<Rightarrow> bool" where
  "in_key_range r k = in_half_open (kr_start_key r) (kr_end_key r) k"

lemma next_key_least: "next_key k \<le> x \<longleftrightarrow> k < x"
  by (simp add: next_key_def bytes_snoc0_le_iff)

lemma less_next_key: "x < next_key k \<longleftrightarrow> x \<le> k"
  using next_key_least [of k x] by (meson not_le)

lemma next_key_not_Nil [simp]: "next_key k \<noteq> []"
  by (simp add: next_key_def)

lemma zero_terminated_butlast: "zero_terminated k \<Longrightarrow> next_key (butlast k) = k"
  by (auto simp: zero_terminated_def next_key_def split: if_splits) (metis append_butlast_last_id)

lemma to_encoded_less [key_order]: "to_encoded a < to_encoded b \<longleftrightarrow> a < b"
  by (simp add: to_encoded_def encode_bytes_spec adjust_enc_less)

lemma to_encoded_eq [simp]: "to_encoded a = to_encoded b \<longleftrightarrow> a = b"
  by (simp add: to_encoded_def encode_bytes_inj)

lemma to_encoded_le [key_order]: "to_encoded a \<le> to_encoded b \<longleftrightarrow> a \<le> b"
  using to_encoded_less [of b a] by (meson not_le)

lemma to_encoded_not_Nil [simp]: "to_encoded k \<noteq> []"
  by (simp add: to_encoded_def encode_bytes_spec adjust_bytes_order_def)

lemma decode_to_encoded [simp]: "decode_bytes_in_place (to_encoded k) False = (k, Inr ())"
  using decode_encode [of k False "[]"] by (simp add: to_encoded_def)

subsection \<open>The prefix successor\<close>

lemma next_prefix_key_loop_step:
  "next_prefix_key_loop (q @ x # r) (Suc (length q)) =
     (if x + 1 \<noteq> 0 then q @ (x + 1) # r else next_prefix_key_loop (q @ 0 # r) (length q))"
  by (simp add: Let_def)

lemma byte_succ_eq_0 [simp]: "(b :: byte) + 1 = 0 \<longleftrightarrow> b = 0xff"
proof -
  have "(- 1 :: byte) = 0xff" by simp
  then show ?thesis by (simp only: add_eq_0_iff2)
qed

lemma next_prefix_key_loop_carry:
  assumes "b \<noteq> 0xff"
  shows "next_prefix_key_loop ((p @ b # replicate n 0xff) @ r) (length (p @ b # replicate n 0xff))
     = p @ (b + 1) # replicate n 0 @ r"
proof (induction n arbitrary: r)
  case 0
  then show ?case using next_prefix_key_loop_step [of p b r] assms by simp
next
  case (Suc n)
  let ?q = "p @ b # replicate n (0xff :: byte)"
  have "(p @ b # replicate (Suc n) 0xff) @ r = ?q @ 0xff # r"
    by (simp add: replicate_append_same [symmetric])
  then have "next_prefix_key_loop ((p @ b # replicate (Suc n) 0xff) @ r) (length (p @ b # replicate (Suc n) (0xff :: byte)))
      = next_prefix_key_loop (?q @ 0 # r) (length ?q)"
    using next_prefix_key_loop_step [of ?q "0xff" r] by simp
  also have "\<dots> = p @ (b + 1) # replicate (Suc n) 0 @ r"
    using Suc.IH [of "0 # r"] by (simp add: replicate_app_Cons_same)
  finally show ?case .
qed

lemma next_prefix_key_carry:
  "b \<noteq> 0xff \<Longrightarrow> next_prefix_key (p @ b # replicate n 0xff) = p @ (b + 1) # replicate n 0"
  using next_prefix_key_loop_carry [of b p n "[]"] by (simp add: next_prefix_key_def)

lemma next_prefix_key_max: "next_prefix_key (replicate n 0xff) = []"
proof -
  have "next_prefix_key_loop (replicate n 0xff @ r) n = []" for r
  proof (induction n arbitrary: r)
    case (Suc n)
    have "replicate (Suc n) 0xff @ r = replicate n (0xff :: byte) @ 0xff # r"
      by (simp add: replicate_app_Cons_same)
    then show ?case using Suc.IH [of "0 # r"] next_prefix_key_loop_step [of "replicate n 0xff" "0xff" r] by simp
  qed (simp add: EMPTY_def)
  from this [of "[]"] show ?thesis by (simp add: next_prefix_key_def)
qed

lemma split_last_not_max:
  "(\<exists>n. k = replicate n (0xff :: byte)) \<or> (\<exists>p b n. b \<noteq> 0xff \<and> k = p @ b # replicate n 0xff)"
proof (induction k rule: rev_induct)
  case Nil
  have "[] = replicate 0 (0xff :: byte)" by simp
  then show ?case by blast
next
  case (snoc x k)
  show ?case
  proof (cases "x = 0xff")
    case False
    then have "k @ [x] = k @ x # replicate 0 0xff" by simp
    with False show ?thesis by blast
  next
    case True
    from snoc show ?thesis
    proof
      assume "\<exists>n. k = replicate n 0xff"
      then obtain n where "k @ [x] = replicate (Suc n) 0xff" using True by (metis replicate_Suc replicate_append_same)
      then show ?thesis by blast
    next
      assume "\<exists>p b n. b \<noteq> 0xff \<and> k = p @ b # replicate n 0xff"
      then obtain p b n where "b \<noteq> 0xff" "k = p @ b # replicate n 0xff" by blast
      moreover from this have "k @ [x] = p @ b # replicate (Suc n) 0xff"
        using True by (simp add: replicate_append_same)
      ultimately show ?thesis by blast
    qed
  qed
qed

lemma less_byte_succ: "b \<noteq> 0xff \<Longrightarrow> (b :: byte) < b + 1"
  using unatSuc [of b] byte_succ_eq_0 [of b] by (simp add: word_less_nat_alt add.commute)

lemma key_range_keys:
  "br_to r \<noteq> Included [] \<Longrightarrow> in_key_range (key_range_of_bound_range r) k = in_bounds r k"
  by (auto simp: in_key_range_def in_half_open_def in_bounds_def key_range_of_bound_range_def into_keys_def
      start_bound_def end_bound_def is_empty_def EMPTY_def next_key_least less_next_key split: bound.splits)

subsection \<open>What ranges guarantee\<close>

text \<open>\<open>next_key\<close> is the immediate successor in byte order: nothing lies between a key and its
  successor, so an exclusive bound on a key is an inclusive bound on its successor and
  conversely.\<close>

theorem next_key_successor:
  "k < next_key k \<and> (next_key k \<le> x \<longleftrightarrow> k < x) \<and> (x < next_key k \<longleftrightarrow> x \<le> k)"
  by (simp add: next_key_least less_next_key)

text \<open>Lowering a range to the start and end key of a request keeps exactly the keys that
  \<open>RangeBounds\<close> admits, except when the upper bound is the inclusive empty key, which
  \<open>end_bound\<close> takes for unbounded.\<close>

theorem key_range_same_keys:
  "br_to r \<noteq> Included [] \<Longrightarrow> in_key_range (key_range_of_bound_range r) k = in_bounds r k"
  by (rule key_range_keys)

theorem key_range_same_keys_witness:
  "in_key_range (key_range_of_bound_range (from_range_inclusive [1] [2])) [2]
     = in_bounds (from_range_inclusive [1] [2]) [2]"
  by (rule key_range_same_keys) (simp add: from_range_inclusive_def new_bound_range_def)

text \<open>With the inclusive empty upper bound the two readings of a range differ: as
  \<open>RangeBounds\<close> it has no upper limit, lowered to keys it holds the empty key only.\<close>

theorem inclusive_empty_bound_diverges:
  "in_bounds (from_range_to_inclusive []) k
   \<and> (in_key_range (key_range_of_bound_range (from_range_to_inclusive [])) k \<longleftrightarrow> k = [])"
  by (auto simp: in_key_range_def in_half_open_def in_bounds_def key_range_of_bound_range_def into_keys_def
      start_bound_def end_bound_def is_empty_def EMPTY_def less_next_key from_range_to_inclusive_def
      new_bound_range_def)

text \<open>The wire form of a range survives the conversion to a \<open>BoundRange\<close> and back, and,
  unless its end key is the single zero byte, the \<open>BoundRange\<close> built from it admits exactly the
  keys of the wire form.\<close>

theorem key_range_round_trip:
  "key_range_of_bound_range (bound_range_of_key_range r) = r
   \<and> (kr_end_key r \<noteq> [0] \<longrightarrow> in_bounds (bound_range_of_key_range r) k = in_key_range r k)"
proof -
  have rt: "key_range_of_bound_range (bound_range_of_key_range r) = r"
    by (cases r) (simp add: bound_range_of_key_range_def key_range_of_bound_range_def into_keys_def
      into_lower_bound_def into_upper_bound_def new_bound_range_def zero_terminated_butlast)
  have "in_bounds (bound_range_of_key_range r) k = in_key_range r k" if "kr_end_key r \<noteq> [0]"
  proof -
    have "br_to (bound_range_of_key_range r) \<noteq> Included []"
      using that zero_terminated_butlast [of "kr_end_key r"]
      by (auto simp: bound_range_of_key_range_def into_upper_bound_def new_bound_range_def next_key_def)
    then show ?thesis using key_range_keys [of "bound_range_of_key_range r" k] rt by simp
  qed
  with rt show ?thesis by blast
qed

theorem key_range_round_trip_witness:
  "in_bounds (bound_range_of_key_range \<lparr>kr_start_key = [1, 0], kr_end_key = [2]\<rparr>) [1, 7]
     = in_key_range \<lparr>kr_start_key = [1, 0], kr_end_key = [2]\<rparr> [1, 7]"
  using key_range_round_trip [of "\<lparr>kr_start_key = [1, 0], kr_end_key = [2]\<rparr>" "[1, 7]"] by simp

text \<open>Every key with a given prefix lies from that prefix up to its prefix successor, and the
  successor is the empty key (no limit) exactly for a prefix of 0xff bytes.\<close>

theorem next_prefix_key_covers:
  "in_half_open p (next_prefix_key p) (p @ s)
   \<and> (next_prefix_key p = [] \<longleftrightarrow> p = replicate (length p) 0xff)"
proof -
  from split_last_not_max [of p] show ?thesis
  proof (elim disjE exE conjE)
    fix n assume "p = replicate n 0xff"
    then show ?thesis by (simp add: next_prefix_key_max in_half_open_def)
  next
    fix q b n assume b: "b \<noteq> 0xff" and p: "p = q @ b # replicate n 0xff"
    have "b < b + 1" using b by (simp add: less_byte_succ)
    moreover have "0xff \<notin> {b}" using b by simp
    moreover have "p \<noteq> replicate (length p) 0xff"
      unfolding p using b by (metis in_set_conv_decomp in_set_replicate)
    ultimately show ?thesis using b by (simp add: p next_prefix_key_carry in_half_open_def)
  qed
qed

end
