(* ===== verification/Keyspace.thy ===== *)
theory Keyspace
  imports Kv_Key
begin

text \<open>
  API v2 keyspaces (\<open>request/keyspace.rs\<close>): the four-byte prefix of a keyspace, its application to
  keys, pairs, ranges and mutations, and its removal from everything a response or an error may
  carry. \<open>truncate_epoch_not_match\<close> returns \<open>None\<close> where the source panics (\<open>split_off\<close> beyond the
  end of the key), and otherwise the \<open>Result\<close> of the source.
\<close>

datatype keyspace = Disable | Enable u32
datatype key_mode = Raw | Txn
datatype api_version = V1 | V1ttl | V2

definition RAW_KEY_PREFIX :: byte where "RAW_KEY_PREFIX = 0x72"
definition TXN_KEY_PREFIX :: byte where "TXN_KEY_PREFIX = 0x78"
definition KEYSPACE_PREFIX_LEN :: nat where "KEYSPACE_PREFIX_LEN = 4"
definition MAX_KEYSPACE_ID :: u32 where "MAX_KEYSPACE_ID = push_bit 24 1 - 1"

fun api_version_of :: "keyspace \<Rightarrow> api_version" where
  "api_version_of Disable = V1"
| "api_version_of (Enable i) = V2"

definition try_enable :: "u32 \<Rightarrow> keyspace res" where
  "try_enable keyspace_id =
     (if keyspace_id > MAX_KEYSPACE_ID then Inl (InternalError ''invalid keyspace_id'')
      else Inr (Enable keyspace_id))"

text \<open>\<open>u32::to_be_bytes\<close>.\<close>

definition to_be_bytes :: "u32 \<Rightarrow> bytes" where
  "to_be_bytes w = [ucast (drop_bit 24 w), ucast (drop_bit 16 w), ucast (drop_bit 8 w), ucast w]"

fun mode_prefix :: "key_mode \<Rightarrow> byte" where
  "mode_prefix Raw = RAW_KEY_PREFIX"
| "mode_prefix Txn = TXN_KEY_PREFIX"

definition keyspace_prefix :: "u32 \<Rightarrow> key_mode \<Rightarrow> bytes" where
  "keyspace_prefix keyspace_id mode = (to_be_bytes keyspace_id)[0 := mode_prefix mode]"

fun carry_rev :: "bytes \<Rightarrow> bytes" where
  "carry_rev [] = []"
| "carry_rev (b # bs) = (if b + 1 = 0 then (b + 1) # carry_rev bs else (b + 1) # bs)"

definition keyspace_end_prefix :: "u32 \<Rightarrow> key_mode \<Rightarrow> bytes" where
  "keyspace_end_prefix keyspace_id mode = rev (carry_rev (rev (keyspace_prefix keyspace_id mode)))"

definition prepend_bytes :: "bytes \<Rightarrow> bytes \<Rightarrow> bytes" where
  "prepend_bytes vec prefix =
     (let resized = vec @ replicate (length prefix) 0;
          moved = copy_within resized 0 (length vec) (length prefix)
      in prefix @ drop (length prefix) moved)"

definition pretruncate_bytes :: "nat \<Rightarrow> bytes \<Rightarrow> bytes" where
  "pretruncate_bytes n vec =
     (if length vec < n then vec else take (length vec - n) (copy_within vec n (length vec) 0))"

definition encode_key :: "keyspace \<Rightarrow> key_mode \<Rightarrow> key \<Rightarrow> key" where
  "encode_key ks mode k =
     (case ks of Disable \<Rightarrow> k | Enable i \<Rightarrow> prepend_bytes k (keyspace_prefix i mode))"

definition truncate_key :: "keyspace \<Rightarrow> key \<Rightarrow> key" where
  "truncate_key ks k = (case ks of Disable \<Rightarrow> k | Enable i \<Rightarrow> pretruncate_bytes KEYSPACE_PREFIX_LEN k)"

record kv_pair =
  kp_key :: key
  kp_value :: val_bytes
  kp_commit_ts :: u64

datatype mutation = Put key val_bytes | Delete key

fun mutation_key :: "mutation \<Rightarrow> key" where
  "mutation_key (Put k v) = k"
| "mutation_key (Delete k) = k"

definition encode_kv_pair :: "keyspace \<Rightarrow> key_mode \<Rightarrow> kv_pair \<Rightarrow> kv_pair" where
  "encode_kv_pair ks mode p = p\<lparr>kp_key := encode_key ks mode (kp_key p)\<rparr>"

definition encode_bound_range :: "keyspace \<Rightarrow> key_mode \<Rightarrow> bound_range \<Rightarrow> bound_range" where
  "encode_bound_range ks mode r =
    (let lo = (case br_from r of
           Included key \<Rightarrow> Included (encode_key ks mode key)
         | Excluded key \<Rightarrow> Excluded (encode_key ks mode key)
         | Unbounded \<Rightarrow> Included (encode_key ks mode []));
         to_end = Excluded (case ks of Disable \<Rightarrow> []
           | Enable i \<Rightarrow> prepend_bytes [] (keyspace_end_prefix i mode));
         hi = (case br_to r of
           Included key \<Rightarrow> if \<not> is_empty key then Included (encode_key ks mode key) else to_end
         | Excluded key \<Rightarrow> if \<not> is_empty key then Excluded (encode_key ks mode key) else to_end
         | Unbounded \<Rightarrow> to_end)
     in \<lparr>br_from = lo, br_to = hi\<rparr>)"

fun encode_mutation :: "keyspace \<Rightarrow> key_mode \<Rightarrow> mutation \<Rightarrow> mutation" where
  "encode_mutation ks mode (Put key val) = Put (encode_key ks mode key) val"
| "encode_mutation ks mode (Delete key) = Delete (encode_key ks mode key)"

definition truncate_kv_pair :: "keyspace \<Rightarrow> kv_pair \<Rightarrow> kv_pair" where
  "truncate_kv_pair ks p = p\<lparr>kp_key := truncate_key ks (kp_key p)\<rparr>"

definition truncate_range :: "keyspace \<Rightarrow> key \<times> key \<Rightarrow> key \<times> key" where
  "truncate_range ks r = (truncate_key ks (fst r), truncate_key ks (snd r))"

definition truncate_ranges :: "keyspace \<Rightarrow> (key \<times> key) list \<Rightarrow> (key \<times> key) list" where
  "truncate_ranges ks rs = map (truncate_range ks) rs"

definition truncate_kv_pairs :: "keyspace \<Rightarrow> kv_pair list \<Rightarrow> kv_pair list" where
  "truncate_kv_pairs ks ps = map (truncate_kv_pair ks) ps"

fun truncate_lock_info :: "keyspace \<Rightarrow> lock_info \<Rightarrow> lock_info" where
  "truncate_lock_info ks (LockInfo primary_lock lock_version key lock_ttl txn_size lock_type
      for_update_ts use_async min_commit_ts secondaries dur shared is_txn_file) =
   LockInfo (truncate_key ks primary_lock) lock_version (truncate_key ks key) lock_ttl txn_size
      lock_type for_update_ts use_async min_commit_ts (map (truncate_key ks) secondaries) dur shared
      is_txn_file"

definition truncate_lock_infos :: "keyspace \<Rightarrow> lock_info list \<Rightarrow> lock_info list" where
  "truncate_lock_infos ks ls = map (truncate_lock_info ks) ls"

definition truncate_primary_mismatch :: "keyspace \<Rightarrow> primary_mismatch \<Rightarrow> primary_mismatch" where
  "truncate_primary_mismatch ks m = m\<lparr>pm_lock_info := map_option (truncate_lock_info ks) (pm_lock_info m)\<rparr>"

definition truncate_txn_lock_not_found :: "keyspace \<Rightarrow> txn_lock_not_found \<Rightarrow> txn_lock_not_found" where
  "truncate_txn_lock_not_found ks m = m\<lparr>tl_key := truncate_key ks (tl_key m)\<rparr>"

definition truncate_mvcc_debug_info :: "keyspace \<Rightarrow> mvcc_debug_info \<Rightarrow> mvcc_debug_info" where
  "truncate_mvcc_debug_info ks m = m\<lparr>md_key := truncate_key ks (md_key m)\<rparr>"

definition truncate_debug_info :: "keyspace \<Rightarrow> debug_info \<Rightarrow> debug_info" where
  "truncate_debug_info ks m = m\<lparr>di_mvcc_info := map (truncate_mvcc_debug_info ks) (di_mvcc_info m)\<rparr>"

definition truncate_write_conflict :: "keyspace \<Rightarrow> write_conflict \<Rightarrow> write_conflict" where
  "truncate_write_conflict ks m =
     m\<lparr>wc_key := truncate_key ks (wc_key m), wc_primary := truncate_key ks (wc_primary m)\<rparr>"

definition truncate_already_exist :: "keyspace \<Rightarrow> already_exist \<Rightarrow> already_exist" where
  "truncate_already_exist ks m = m\<lparr>ae_key := truncate_key ks (ae_key m)\<rparr>"

definition truncate_commit_ts_expired :: "keyspace \<Rightarrow> commit_ts_expired \<Rightarrow> commit_ts_expired" where
  "truncate_commit_ts_expired ks m = m\<lparr>ce_key := truncate_key ks (ce_key m)\<rparr>"

definition truncate_txn_not_found :: "keyspace \<Rightarrow> txn_not_found \<Rightarrow> txn_not_found" where
  "truncate_txn_not_found ks m = m\<lparr>tnf_primary_key := truncate_key ks (tnf_primary_key m)\<rparr>"

definition truncate_assertion_failed :: "keyspace \<Rightarrow> assertion_failed \<Rightarrow> assertion_failed" where
  "truncate_assertion_failed ks m = m\<lparr>af_key := truncate_key ks (af_key m)\<rparr>"

definition truncate_deadlock :: "keyspace \<Rightarrow> deadlock \<Rightarrow> deadlock" where
  "truncate_deadlock ks m = m\<lparr>dl_lock_key := truncate_key ks (dl_lock_key m),
     dl_deadlock_key := truncate_key ks (dl_deadlock_key m),
     dl_wait_chain := map (\<lambda>e. e\<lparr>wf_key := truncate_key ks (wf_key e)\<rparr>) (dl_wait_chain m)\<rparr>"

definition truncate_key_error :: "keyspace \<Rightarrow> key_error \<Rightarrow> key_error" where
  "truncate_key_error ks m =
    (if ks = Disable then m else
     m\<lparr>ke_locked := map_option (truncate_lock_info ks) (ke_locked m),
       ke_primary_mismatch := map_option (truncate_primary_mismatch ks) (ke_primary_mismatch m),
       ke_txn_lock_not_found := map_option (truncate_txn_lock_not_found ks) (ke_txn_lock_not_found m),
       ke_debug_info := map_option (truncate_debug_info ks) (ke_debug_info m),
       ke_conflict := map_option (truncate_write_conflict ks) (ke_conflict m),
       ke_already_exist := map_option (truncate_already_exist ks) (ke_already_exist m),
       ke_deadlock := map_option (truncate_deadlock ks) (ke_deadlock m),
       ke_commit_ts_expired := map_option (truncate_commit_ts_expired ks) (ke_commit_ts_expired m),
       ke_txn_not_found := map_option (truncate_txn_not_found ks) (ke_txn_not_found m),
       ke_assertion_failed := map_option (truncate_assertion_failed ks) (ke_assertion_failed m)\<rparr>)"

definition infer_key_mode_from_key :: "bytes \<Rightarrow> key_mode option" where
  "infer_key_mode_from_key key = (case key of [] \<Rightarrow> None
     | b # _ \<Rightarrow> if b = RAW_KEY_PREFIX then Some Raw else if b = TXN_KEY_PREFIX then Some Txn else None)"

definition infer_key_mode_from_region :: "metapb_region \<Rightarrow> key_mode option" where
  "infer_key_mode_from_region r = (case infer_key_mode_from_key (mr_start_key r) of
     Some m \<Rightarrow> Some m | None \<Rightarrow> infer_key_mode_from_key (mr_end_key r))"

fun find_map :: "('a \<Rightarrow> 'b option) \<Rightarrow> 'a list \<Rightarrow> 'b option" where
  "find_map f [] = None"
| "find_map f (x # xs) = (case f x of Some y \<Rightarrow> Some y | None \<Rightarrow> find_map f xs)"

fun decode_regions :: "metapb_region list \<Rightarrow> (metapb_region list) res" where
  "decode_regions [] = Inr []"
| "decode_regions (r # rs) =
    (case decode_bytes_in_place (mr_start_key r) False of (_, Inl e) \<Rightarrow> Inl e
     | (s, Inr _) \<Rightarrow>
    (case decode_bytes_in_place (mr_end_key r) False of (_, Inl e) \<Rightarrow> Inl e
     | (e, Inr _) \<Rightarrow> ok_bind (decode_regions rs) (\<lambda>rs'. Inr (r\<lparr>mr_start_key := s, mr_end_key := e\<rparr> # rs'))))"

text \<open>\<open>Vec::split_off\<close>: panics when the position is beyond the end.\<close>

definition split_off :: "'a list \<Rightarrow> nat \<Rightarrow> 'a list option" where
  "split_off xs n = (if n > length xs then None else Some (drop n xs))"

text \<open>One turn of the loop over the regions: \<open>None\<close> is a panic, \<open>Some None\<close> a \<open>continue\<close>.\<close>

definition truncate_region :: "bytes \<Rightarrow> bytes \<Rightarrow> metapb_region \<Rightarrow> metapb_region option option" where
  "truncate_region prefix en r =
    (let s = mr_start_key r; e = mr_end_key r in
     if e \<noteq> [] \<and> e \<le> prefix then Some None
     else if s \<noteq> [] \<and> s \<ge> en then Some None
     else
      (let s' = (if s = [] \<or> s < prefix then prefix else s);
           e' = (if e = [] \<or> e > en then en else e)
       in if s' \<ge> e' then Some None
          else (case (if s' = prefix then Some [] else split_off s' KEYSPACE_PREFIX_LEN) of
                  None \<Rightarrow> None
                | Some s'' \<Rightarrow> (case (if e' = en then Some [] else split_off e' KEYSPACE_PREFIX_LEN) of
                    None \<Rightarrow> None
                  | Some e'' \<Rightarrow> Some (Some (r\<lparr>mr_start_key := s'', mr_end_key := e''\<rparr>))))))"

fun truncate_regions :: "bytes \<Rightarrow> bytes \<Rightarrow> metapb_region list \<Rightarrow> metapb_region list option" where
  "truncate_regions prefix en [] = Some []"
| "truncate_regions prefix en (r # rs) = (case truncate_region prefix en r of
      None \<Rightarrow> None
    | Some None \<Rightarrow> truncate_regions prefix en rs
    | Some (Some r') \<Rightarrow> map_option ((#) r') (truncate_regions prefix en rs))"

definition truncate_epoch_not_match :: "epoch_not_match \<Rightarrow> u32 \<Rightarrow> (epoch_not_match res) option" where
  "truncate_epoch_not_match err keyspace_id =
    (case decode_regions (enm_current_regions err) of Inl e \<Rightarrow> Some (Inl e)
     | Inr regions \<Rightarrow>
       (let mode = (case find_map infer_key_mode_from_region regions of Some m \<Rightarrow> m | None \<Rightarrow> Raw)
        in map_option (\<lambda>rs. Inr (err\<lparr>enm_current_regions := rs\<rparr>))
             (truncate_regions (keyspace_prefix keyspace_id mode) (keyspace_end_prefix keyspace_id mode) regions)))"

definition truncate_region_error :: "keyspace \<Rightarrow> region_error_msg \<Rightarrow> region_error_msg option" where
  "truncate_region_error ks m = (case ks of Disable \<Rightarrow> Some m
     | Enable i \<Rightarrow> (case re_epoch_not_match m of None \<Rightarrow> Some m
       | Some enm \<Rightarrow> (case truncate_epoch_not_match enm i of None \<Rightarrow> None
          | Some (Inl e) \<Rightarrow> Some (m\<lparr>re_epoch_not_match := Some enm\<rparr>)
          | Some (Inr enm') \<Rightarrow> Some (m\<lparr>re_epoch_not_match := Some enm'\<rparr>))))"

text \<open>Truncation of an error, \<open>None\<close> standing for the panic inside a nested region error.\<close>

fun truncate_error :: "keyspace \<Rightarrow> error \<Rightarrow> error option" where
  "truncate_error ks (RegionError err) =
     (if ks = Disable then Some (RegionError err) else map_option RegionError (truncate_region_error ks err))"
| "truncate_error ks (WriteConflict c) =
     Some (if ks = Disable then WriteConflict c else
       WriteConflict (c\<lparr>wce_key := truncate_key ks (wce_key c), wce_primary := truncate_key ks (wce_primary c)\<rparr>))"
| "truncate_error ks (Deadlock d) =
     Some (if ks = Disable then Deadlock d else
       Deadlock (d\<lparr>dle_lock_key := truncate_key ks (dle_lock_key d),
         dle_deadlock_key := truncate_key ks (dle_deadlock_key d),
         dle_wait_chain := map (\<lambda>e. e\<lparr>dwe_key := truncate_key ks (dwe_key e)\<rparr>) (dle_wait_chain d)\<rparr>))"
| "truncate_error ks (KeyExists k) =
     Some (if ks = Disable then KeyExists k else KeyExists (k\<lparr>kee_key := truncate_key ks (kee_key k)\<rparr>))"
| "truncate_error ks (AssertionFailed f) =
     Some (if ks = Disable then AssertionFailed f else
       AssertionFailed (f\<lparr>afe_key := truncate_key ks (afe_key f)\<rparr>))"
| "truncate_error ks (ResolveLockError locks) = Some (ResolveLockError (truncate_lock_infos ks locks))"
| "truncate_error ks (KeyError k) = Some (KeyError (truncate_key_error ks k))"
| "truncate_error ks (PessimisticLockError inner success_keys) =
     (if ks = Disable then Some (PessimisticLockError inner success_keys)
      else map_option (\<lambda>i. PessimisticLockError i (map (truncate_key ks) success_keys)) (truncate_error ks inner))"
| "truncate_error ks (UndeterminedError inner) =
     (if ks = Disable then Some (UndeterminedError inner)
      else map_option UndeterminedError (truncate_error ks inner))"
| "truncate_error ks (MultipleKeyErrors errors) =
     (if ks = Disable then Some (MultipleKeyErrors errors)
      else map_option MultipleKeyErrors (those (map (truncate_error ks) errors)))"
| "truncate_error ks (ExtractedErrors errors) =
     (if ks = Disable then Some (ExtractedErrors errors)
      else map_option ExtractedErrors (those (map (truncate_error ks) errors)))"
| "truncate_error ks other = Some other"

definition truncate_result :: "keyspace \<Rightarrow> 'a res \<Rightarrow> 'a res option" where
  "truncate_result ks r = (case r of Inr x \<Rightarrow> Some (Inr x) | Inl e \<Rightarrow> map_option Inl (truncate_error ks e))"

subsection \<open>The prefix arithmetic\<close>

lemma length_keyspace_prefix [simp]: "length (keyspace_prefix i m) = 4"
  by (simp add: keyspace_prefix_def to_be_bytes_def)

lemma keyspace_prefix_cons:
  "keyspace_prefix i m = [mode_prefix m, ucast (drop_bit 16 i), ucast (drop_bit 8 i), ucast i]"
  by (simp add: keyspace_prefix_def to_be_bytes_def)

lemma prepend_bytes_append [simp]: "prepend_bytes vec prefix = prefix @ vec"
proof -
  let ?n = "length prefix"
  let ?m = "copy_within (vec @ replicate ?n 0) 0 (length vec) ?n"
  have "drop ?n ?m = vec"
  proof (rule nth_equalityI)
    show "length (drop ?n ?m) = length vec" by simp
  next
    fix j assume "j < length (drop ?n ?m)"
    then have j: "j < length vec" by simp
    then show "drop ?n ?m ! j = vec ! j" by (simp add: copy_within_def nth_append)
  qed
  then show ?thesis by (simp add: prepend_bytes_def)
qed

lemma pretruncate_bytes_drop [simp]:
  "pretruncate_bytes n vec = (if length vec < n then vec else drop n vec)"
proof (cases "length vec < n")
  case False
  have "take (length vec - n) (copy_within vec n (length vec) 0) = drop n vec"
    using False by (intro nth_equalityI) (auto simp: copy_within_def)
  with False show ?thesis by (simp add: pretruncate_bytes_def)
qed (simp add: pretruncate_bytes_def)

lemma encode_key_Enable: "encode_key (Enable i) m k = keyspace_prefix i m @ k"
  by (simp add: encode_key_def)

lemma encode_key_Disable [simp]: "encode_key Disable m k = k"
  by (simp add: encode_key_def)

lemma truncate_encode_key: "truncate_key ks (encode_key ks m k) = k"
  by (cases ks) (simp_all add: truncate_key_def encode_key_def KEYSPACE_PREFIX_LEN_def)

lemma encode_key_less: "encode_key ks m a < encode_key ks m b \<longleftrightarrow> a < b"
  by (cases ks) (simp_all add: encode_key_def)

lemma encode_key_le: "encode_key ks m a \<le> encode_key ks m b \<longleftrightarrow> a \<le> b"
  by (cases ks) (simp_all add: encode_key_def)

lemma mode_prefix_not_max: "mode_prefix m \<noteq> 0xff"
  by (cases m) (simp_all add: RAW_KEY_PREFIX_def TXN_KEY_PREFIX_def)

lemma MAX_KEYSPACE_ID_mask: "MAX_KEYSPACE_ID = mask 24"
  by (simp add: MAX_KEYSPACE_ID_def mask_eq_exp_minus_1 push_bit_eq_mult)

lemma low_bytes_eq:
  assumes "(i :: u32) \<le> MAX_KEYSPACE_ID" "j \<le> MAX_KEYSPACE_ID"
    and "(ucast (drop_bit 16 i) :: byte) = ucast (drop_bit 16 j)"
    and "(ucast (drop_bit 8 i) :: byte) = ucast (drop_bit 8 j)" "(ucast i :: byte) = ucast j"
  shows "i = j"
proof (rule bit_word_eqI)
  fix n assume n: "n < LENGTH(32)"
  have high: "bit w n = (n < 24 \<and> bit w n)" if "w \<le> MAX_KEYSPACE_ID" for w :: u32
  proof -
    have "unat w < 2 ^ 24" using that by (simp add: MAX_KEYSPACE_ID_def word_le_nat_alt)
    then have "take_bit 24 w = w"
      by (simp add: word_unat_eq_iff unsigned_take_bit_eq take_bit_nat_eq_self)
    then show ?thesis by (metis bit_take_bit_iff)
  qed
  have byte: "bit (i :: u32) (k + l) = bit j (k + l)" if "(ucast (drop_bit k i) :: byte) = ucast (drop_bit k j)" "l < 8" for k l
  proof -
    have "bit (ucast (drop_bit k i) :: byte) l = bit (ucast (drop_bit k j) :: byte) l" using that by simp
    with that(2) show ?thesis by (simp add: bit_ucast_iff bit_drop_bit_eq)
  qed
  consider "n < 8" | "8 \<le> n" "n < 16" | "16 \<le> n" "n < 24" | "24 \<le> n" by linarith
  then show "bit i n = bit j n"
  proof cases
    case 1 then show ?thesis using byte [of 0 n] assms(5) by simp
  next
    case 2 then show ?thesis using byte [of 8 "n - 8"] assms(4) by simp
  next
    case 3 then show ?thesis using byte [of 16 "n - 16"] assms(3) by simp
  next
    case 4 then show ?thesis using high [OF assms(1)] high [OF assms(2)] by simp
  qed
qed

lemma keyspace_prefix_eq_iff:
  assumes "i \<le> MAX_KEYSPACE_ID" "j \<le> MAX_KEYSPACE_ID"
  shows "keyspace_prefix i m = keyspace_prefix j n \<longleftrightarrow> i = j \<and> m = n"
proof -
  have "mode_prefix m = mode_prefix n \<longleftrightarrow> m = n"
    by (cases m; cases n) (simp_all add: RAW_KEY_PREFIX_def TXN_KEY_PREFIX_def)
  then show ?thesis
    using low_bytes_eq [OF assms] by (auto simp: keyspace_prefix_cons)
qed

lemma carry_rev_max: "carry_rev (replicate n 0xff @ b # q) =
    (if b = 0xff then replicate n 0 @ carry_rev (b # q) else replicate n 0 @ (b + 1) # q)"
  by (induction n) (auto simp del: byte_succ_eq_0 simp: byte_succ_eq_0)

lemma less_carry_iff:
  assumes b: "b \<noteq> 0xff" and t: "length t = length (q @ b # replicate n (0xff :: byte))"
  shows "t < q @ (b + 1) # replicate n 0 \<longleftrightarrow> t \<le> q @ b # replicate n 0xff"
proof -
  obtain q' c r where t': "t = q' @ c # r" "length q' = length q" "length r = n"
  proof
    show "t = take (length q) t @ t ! length q # drop (Suc (length q)) t"
      using t by (simp add: id_take_nth_drop)
  qed (use t in auto)
  have max: "a < 0xff \<or> a = 0xff" for a :: byte
    using unat_less_exp [of a] by (auto simp: word_less_nat_alt word_unat_eq_iff)
  have rep: "r \<le> replicate (length r) 0xff" "\<not> r < replicate (length r) 0" for r :: bytes
    by (induction r) (use max in auto)
  have c: "c < b + 1 \<longleftrightarrow> c \<le> b"
  proof -
    have "unat (b + 1) = Suc (unat b)" using b unatSuc [of b] byte_succ_eq_0 [of b] by (simp add: add.commute)
    then show ?thesis by (simp add: word_less_nat_alt word_le_nat_alt less_Suc_eq_le)
  qed
  have "t < q @ (b + 1) # replicate n 0 \<longleftrightarrow> q' < q \<or> q' = q \<and> c \<le> b"
    unfolding t' using t'(2,3) rep(2) [of r] c by (subst append_less_equal_length) auto
  moreover have "t \<le> q @ b # replicate n 0xff \<longleftrightarrow> q' < q \<or> q' = q \<and> c \<le> b"
    unfolding t' le_less using t'(2,3) rep(1) [of r] by (subst append_less_equal_length) (auto simp: le_less)
  ultimately show ?thesis by simp
qed

lemma keyspace_prefix_split:
  obtains q b n where "b \<noteq> 0xff" "keyspace_prefix i m = q @ b # replicate n 0xff"
    "keyspace_end_prefix i m = q @ (b + 1) # replicate n 0"
proof -
  have "keyspace_prefix i m \<noteq> replicate n 0xff" for n
    using mode_prefix_not_max [of m] by (cases n) (auto simp: keyspace_prefix_cons)
  then obtain q b n where b: "b \<noteq> 0xff" and p: "keyspace_prefix i m = q @ b # replicate n 0xff"
    using split_last_not_max [of "keyspace_prefix i m"] by blast
  have "keyspace_end_prefix i m = q @ (b + 1) # replicate n 0"
    using b by (simp add: keyspace_end_prefix_def p carry_rev_max)
  with b p show thesis by (rule that)
qed

lemma length_keyspace_end_prefix [simp]: "length (keyspace_end_prefix i m) = 4"
proof -
  obtain q b n where p: "keyspace_prefix i m = q @ b # replicate n 0xff"
    "keyspace_end_prefix i m = q @ (b + 1) # replicate n 0"
    using keyspace_prefix_split by metis
  have "length (keyspace_prefix i m) = 4" by simp
  then show ?thesis unfolding p by simp
qed

lemma less_end_prefix:
  "length t = 4 \<Longrightarrow> t < keyspace_end_prefix i m \<longleftrightarrow> t \<le> keyspace_prefix i m"
proof -
  assume t: "length t = 4"
  obtain q b n where *: "b \<noteq> 0xff" and p: "keyspace_prefix i m = q @ b # replicate n 0xff"
    "keyspace_end_prefix i m = q @ (b + 1) # replicate n 0"
    using keyspace_prefix_split by metis
  have "length (keyspace_prefix i m) = 4" by simp
  then show ?thesis using less_carry_iff [OF *, of t q n] t unfolding p by simp
qed

lemma prefix_less_end: "keyspace_prefix i m @ k < keyspace_end_prefix i m"
proof -
  have "keyspace_prefix i m < keyspace_end_prefix i m" using less_end_prefix [of "keyspace_prefix i m"] by simp
  then have "keyspace_prefix i m @ k < keyspace_end_prefix i m @ []"
    by (subst append_less_equal_length) simp_all
  then show ?thesis by simp
qed

lemma keyspace_interval:
  assumes "length x \<ge> 4" "keyspace_prefix i m \<le> x" "x < keyspace_end_prefix i m"
  shows "x = keyspace_prefix i m @ drop 4 x"
proof -
  let ?t = "take 4 x"
  have x: "x = ?t @ drop 4 x" and t: "length ?t = 4" using assms(1) by simp_all
  have "?t @ drop 4 x < keyspace_end_prefix i m @ []" using assms(3) by simp
  then have "?t < keyspace_end_prefix i m"
    using append_less_equal_length [of ?t "keyspace_end_prefix i m" "drop 4 x" "[]"] t by simp
  then have "?t \<le> keyspace_prefix i m" using less_end_prefix t by blast
  moreover have "\<not> ?t < keyspace_prefix i m"
  proof
    assume "?t < keyspace_prefix i m"
    then have "?t @ drop 4 x < keyspace_prefix i m @ []"
      using append_less_equal_length [of ?t "keyspace_prefix i m" "drop 4 x" "[]"] t by simp
    with assms(2) show False by simp
  qed
  ultimately show ?thesis using x by simp
qed

subsection \<open>Ranges and regions\<close>

lemma in_bounds_encode:
  "in_bounds (encode_bound_range ks m r) (encode_key ks m k) \<longleftrightarrow> in_bounds r k"
proof (cases ks)
  case Disable
  then show ?thesis
    by (auto simp: in_bounds_def encode_bound_range_def start_bound_def end_bound_def is_empty_def
        Let_def split: bound.splits)
next
  case (Enable i)
  have e: "keyspace_end_prefix i m \<noteq> []"
    by (metis length_keyspace_end_prefix list.size(3) zero_neq_numeral)
  then show ?thesis
    using Enable prefix_less_end [of i m k]
    by (auto simp: in_bounds_def encode_bound_range_def start_bound_def end_bound_def is_empty_def
        encode_key_Enable Let_def split: bound.splits)
qed

lemma lower_bound_prefix:
  "in_bounds (encode_bound_range (Enable i) m r) x \<Longrightarrow> keyspace_prefix i m \<le> x \<and> x < keyspace_end_prefix i m"
proof -
  assume x: "in_bounds (encode_bound_range (Enable i) m r) x"
  have ne: "keyspace_prefix i m \<noteq> []" "keyspace_end_prefix i m \<noteq> []"
    by (metis length_keyspace_prefix list.size(3) zero_neq_numeral,
        metis length_keyspace_end_prefix list.size(3) zero_neq_numeral)
  have "keyspace_prefix i m \<le> keyspace_prefix i m @ k" for k by simp
  with x have "keyspace_prefix i m \<le> x"
    by (auto simp: in_bounds_def encode_bound_range_def start_bound_def encode_key_Enable Let_def
        intro: order_trans less_imp_le split: bound.splits) (metis le_append less_imp_le order_trans)+
  moreover have "x < keyspace_end_prefix i m"
    using x ne prefix_less_end [of i m]
    by (auto simp: in_bounds_def encode_bound_range_def end_bound_def is_empty_def encode_key_Enable Let_def
        intro: order.strict_trans le_less_trans split: bound.splits if_splits)
  ultimately show ?thesis by blast
qed

lemma encode_bound_range_to: "br_to (encode_bound_range ks m r) \<noteq> Included []"
  by (cases ks) (auto simp: encode_bound_range_def Let_def is_empty_def encode_key_def
      split: bound.splits dest: arg_cong [where f = length])

text \<open>A region in which the keyspace prefix is stripped holds a user key exactly when the original
  region holds the encoded key.\<close>

definition region_has :: "metapb_region \<Rightarrow> key \<Rightarrow> bool" where
  "region_has r k = in_half_open (mr_start_key r) (mr_end_key r) k"

lemma stripped_key:
  assumes "s = [] \<or> 4 \<le> length s" "\<not> s < keyspace_prefix i m" "s < keyspace_end_prefix i m"
  shows "s = keyspace_prefix i m @ drop 4 s"
proof -
  have "keyspace_prefix i m \<noteq> []" by (metis length_keyspace_prefix list.size(3) zero_neq_numeral)
  then have "s \<noteq> []" using assms(2) by (cases "keyspace_prefix i m") auto
  then show ?thesis using assms by (intro keyspace_interval) auto
qed

lemma truncate_region_spec:
  assumes "mr_start_key r = [] \<or> 4 \<le> length (mr_start_key r)"
    and "mr_end_key r = [] \<or> 4 \<le> length (mr_end_key r)"
  shows "\<exists>out. truncate_region (keyspace_prefix i m) (keyspace_end_prefix i m) r = Some out
    \<and> (\<forall>k. region_has r (keyspace_prefix i m @ k) \<longleftrightarrow> (case out of None \<Rightarrow> False | Some r' \<Rightarrow> region_has r' k))"
proof -
  define P E s e where "P = keyspace_prefix i m" and "E = keyspace_end_prefix i m"
    and "s = mr_start_key r" and "e = mr_end_key r"
  have lP: "length P = 4" "length E = 4" by (simp_all add: P_def E_def)
  have PE: "P @ k < E" for k unfolding P_def E_def by (rule prefix_less_end)
  have PE0: "P < E" using PE [of "[]"] by simp
  have sa: "s = P @ drop 4 s" if "s \<noteq> []" "\<not> s < P" "s < E"
    using stripped_key [of s i m] assms(1) that unfolding P_def E_def s_def by simp
  have ea: "e = P @ drop 4 e" if "e \<noteq> []" "\<not> e < P" "e < E"
    using stripped_key [of e i m] assms(2) that unfolding P_def E_def e_def by simp
  have has: "region_has r x \<longleftrightarrow> s \<le> x \<and> (e = [] \<or> x < e)" for x
    by (simp add: region_has_def in_half_open_def s_def e_def)
  consider (skip_e) "e \<noteq> []" "e \<le> P" | (skip_s) "\<not> (e \<noteq> [] \<and> e \<le> P)" "s \<noteq> []" "E \<le> s"
    | (cut) "\<not> (e \<noteq> [] \<and> e \<le> P)" "\<not> (s \<noteq> [] \<and> E \<le> s)" by blast
  then show ?thesis
  proof cases
    case skip_e
    have "\<not> P @ k < e" for k using skip_e(2) by (metis le_append leD order_trans)
    then show ?thesis using skip_e by (simp add: truncate_region_def P_def E_def has e_def [symmetric])
  next
    case skip_s
    have "\<not> s \<le> P @ k" for k using skip_s(3) PE by (metis leD order_trans)
    then show ?thesis
      using skip_s by (simp add: truncate_region_def has s_def [symmetric] e_def [symmetric] P_def [symmetric] E_def [symmetric])
  next
    case cut
    define sl where "sl \<longleftrightarrow> s = [] \<or> s < P \<or> s = P"
    define el where "el \<longleftrightarrow> e = [] \<or> E \<le> e"
    have l4: "4 \<le> length x" if "x = P @ drop 4 x" for x using that lP by (metis le_add1 length_append)
    have s_cut1: "s = P @ drop 4 s" if "\<not> sl" using that sa cut(2) by (auto simp: sl_def not_le)
    have e_cut1: "e = P @ drop 4 e" if "\<not> el" using that ea cut(1) by (auto simp: el_def not_le)
    note s_cut = s_cut1 l4 [OF s_cut1] and e_cut = e_cut1 l4 [OF e_cut1]
    define out where "out = (if \<not> sl \<and> \<not> el \<and> e \<le> s then None
       else Some (r\<lparr>mr_start_key := (if sl then [] else drop 4 s), mr_end_key := (if el then [] else drop 4 e)\<rparr>))"
    have "truncate_region P E r = Some out"
    proof -
      have s': "(if s = [] \<or> s < P then P else s) = (if sl then P else s)" by (auto simp: sl_def)
      have e': "(if e = [] \<or> E < e then E else e) = (if el then E else e)" by (auto simp: el_def)
      have cmp: "(if el then E else e) \<le> (if sl then P else s) \<longleftrightarrow> \<not> sl \<and> \<not> el \<and> e \<le> s"
        using cut PE0 by (auto simp: sl_def el_def not_le)
      have sP: "(if sl then P else s) = P \<longleftrightarrow> sl" by (auto simp: sl_def)
      have eE: "(if el then E else e) = E \<longleftrightarrow> el" by (auto simp: el_def)
      have so: "(if (if sl then P else s) = P then Some [] else split_off (if sl then P else s) KEYSPACE_PREFIX_LEN)
          = Some (if sl then [] else drop 4 s)"
        unfolding sP by (cases sl) (use s_cut(2) in \<open>auto simp: split_off_def KEYSPACE_PREFIX_LEN_def\<close>)
      have eo: "(if (if el then E else e) = E then Some [] else split_off (if el then E else e) KEYSPACE_PREFIX_LEN)
          = Some (if el then [] else drop 4 e)"
        unfolding eE by (cases el) (use e_cut(2) in \<open>auto simp: split_off_def KEYSPACE_PREFIX_LEN_def\<close>)
      show ?thesis
        unfolding truncate_region_def Let_def s_def [symmetric] e_def [symmetric] s' e' cmp so eo
        using cut by (simp add: out_def)
    qed
    moreover have "region_has r (P @ k) \<longleftrightarrow> (case out of None \<Rightarrow> False | Some r' \<Rightarrow> region_has r' k)" for k
    proof -
      have s_le: "s \<le> P @ k \<longleftrightarrow> (if sl then [] else drop 4 s) \<le> k"
      proof (cases sl)
        case True
        have "P \<le> P @ k" by simp
        with True have "s \<le> P @ k" unfolding sl_def by (metis Nil_le_Cons less_imp_le order_trans)
        then show ?thesis using True by simp
      next
        case False
        then show ?thesis using s_cut(1) by (metis append_le_same)
      qed
      have e_le: "(e = [] \<or> P @ k < e) \<longleftrightarrow> (el \<or> k < drop 4 e)"
      proof (cases el)
        case True
        then show ?thesis using PE [of k] unfolding el_def by (metis order.strict_trans2)
      next
        case False
        then have "e \<noteq> []" by (simp add: el_def)
        then show ?thesis using e_cut(1) False by (metis append_less_same)
      qed
      have ne: "\<not> el \<Longrightarrow> drop 4 e \<noteq> []" using e_cut cut(1) by (metis append_Nil2 el_def order_refl)
      show ?thesis
      proof (cases "\<not> sl \<and> \<not> el \<and> e \<le> s")
        case True
        then have "drop 4 e \<le> drop 4 s" using s_cut(1) e_cut(1) by (metis append_le_same)
        then show ?thesis using True unfolding has s_le e_le by (auto simp: out_def)
      next
        case False
        then show ?thesis unfolding has s_le e_le out_def using ne
          by (auto simp: region_has_def in_half_open_def)
      qed
    qed
    ultimately show ?thesis unfolding P_def E_def by blast
  qed
qed

lemma truncate_regions_spec:
  assumes "\<forall>r \<in> set rs. (mr_start_key r = [] \<or> 4 \<le> length (mr_start_key r))
      \<and> (mr_end_key r = [] \<or> 4 \<le> length (mr_end_key r))"
  shows "\<exists>out. truncate_regions (keyspace_prefix i m) (keyspace_end_prefix i m) rs = Some out
    \<and> (\<forall>k. (\<exists>r' \<in> set out. region_has r' k) \<longleftrightarrow> (\<exists>r \<in> set rs. region_has r (keyspace_prefix i m @ k)))"
  using assms
proof (induction rs)
  case (Cons r rs)
  then obtain out where out: "truncate_regions (keyspace_prefix i m) (keyspace_end_prefix i m) rs = Some out"
    "\<And>k. (\<exists>r' \<in> set out. region_has r' k) \<longleftrightarrow> (\<exists>r \<in> set rs. region_has r (keyspace_prefix i m @ k))"
    by auto
  obtain o' where o': "truncate_region (keyspace_prefix i m) (keyspace_end_prefix i m) r = Some o'"
    "\<And>k. region_has r (keyspace_prefix i m @ k) \<longleftrightarrow> (case o' of None \<Rightarrow> False | Some r' \<Rightarrow> region_has r' k)"
    using truncate_region_spec [of r i m] Cons.prems by auto
  show ?case using out o' by (cases o') auto
qed simp

subsection \<open>Truncated errors\<close>

lemma list_ex_those:
  "those (map f es) = Some es' \<Longrightarrow> (\<And>e e'. e \<in> set es \<Longrightarrow> f e = Some e' \<Longrightarrow> P e' = P e)
     \<Longrightarrow> list_ex P es' = list_ex P es"
proof (induction es arbitrary: es')
  case (Cons e es)
  then obtain e1 es1 where "f e = Some e1" "those (map f es) = Some es1" "es' = e1 # es1"
    by (auto split: option.splits)
  moreover from this have "P e1 = P e" using Cons.prems(2) [of e e1] by simp
  moreover have "list_ex P es1 = list_ex P es" using Cons.IH [of es1] Cons.prems(2) calculation by simp
  ultimately show ?case by simp
qed simp

lemmas truncate_error_queries =
  is_write_conflict.simps is_deadlock.simps is_key_exists.simps is_assertion_failed.simps is_undetermined.simps

lemma truncate_error_query:
  "truncate_error ks e = Some e' \<Longrightarrow> is_write_conflict e' = is_write_conflict e
     \<and> is_deadlock e' = is_deadlock e \<and> is_key_exists e' = is_key_exists e
     \<and> is_assertion_failed e' = is_assertion_failed e \<and> is_undetermined e' = is_undetermined e"
proof (induction ks e arbitrary: e' rule: truncate_error.induct)
  case (10 ks errors)
  show ?case
  proof (cases "ks = Disable")
    case False
    then obtain es' where es': "those (map (truncate_error ks) errors) = Some es'" "e' = MultipleKeyErrors es'"
      using 10(2) by auto
    show ?thesis using 10(1) [OF False] list_ex_those [OF es'(1)] unfolding es'(2) by simp
  qed (use 10 in auto)
next
  case (11 ks errors)
  show ?case
  proof (cases "ks = Disable")
    case False
    then obtain es' where es': "those (map (truncate_error ks) errors) = Some es'" "e' = ExtractedErrors es'"
      using 11(2) by auto
    show ?thesis using 11(1) [OF False] list_ex_those [OF es'(1)] unfolding es'(2) by simp
  qed (use 11 in auto)
qed (auto split: if_splits)

subsection \<open>What keyspaces guarantee\<close>

text \<open>C34: within a keyspace, encoding a key keeps the order, and truncation gives the key back.\<close>

theorem keyspace_round_trip:
  "truncate_key ks (encode_key ks mode k) = k
   \<and> (encode_key ks mode a < encode_key ks mode b \<longleftrightarrow> a < b)"
  by (simp add: truncate_encode_key encode_key_less)

text \<open>Keyspaces that \<open>try_enable\<close> accepts do not overlap: equal encoded keys come from the same
  keyspace, the same mode and the same key.\<close>

theorem keyspaces_disjoint:
  assumes "try_enable i = Inr ks" "try_enable j = Inr ks'"
    and "encode_key ks mode k = encode_key ks' mode' k'"
  shows "ks = ks' \<and> mode = mode' \<and> k = k'"
proof -
  have "i \<le> MAX_KEYSPACE_ID" "j \<le> MAX_KEYSPACE_ID" "ks = Enable i" "ks' = Enable j"
    using assms(1,2) by (auto simp: try_enable_def split: if_splits)
  then show ?thesis using assms(3) keyspace_prefix_eq_iff [of i j mode mode']
    by (auto simp: encode_key_Enable)
qed

theorem keyspaces_disjoint_witness:
  "\<exists>ks ks'. try_enable 1 = Inr ks \<and> try_enable 2 = Inr ks' \<and> encode_key ks Txn [5] \<noteq> encode_key ks' Txn [5]"
  using keyspaces_disjoint [of 1 "Enable 1" 2 "Enable 2" Txn "[5]" Txn "[5]"]
  by (auto simp: try_enable_def MAX_KEYSPACE_ID_def)

text \<open>An identifier above 24 bits, which \<open>Keyspace::Enable\<close> can hold when it is built without
  \<open>try_enable\<close>, shares all its keys with the keyspace of its low 24 bits.\<close>

theorem oversized_keyspace_aliases:
  "encode_key (Enable 0x1000001) mode k = encode_key (Enable 1) mode k \<and> isl (try_enable 0x1000001)"
proof -
  have "keyspace_prefix 0x1000001 mode = keyspace_prefix 1 mode"
    by (simp add: keyspace_prefix_cons drop_bit_eq_div)
  then show ?thesis by (simp add: encode_key_Enable try_enable_def MAX_KEYSPACE_ID_def)
qed

text \<open>Encoding a range selects exactly the encodings of the keys that the range admits, both as
  bounds and as the keys of a request, and every key of at least four bytes in the encoded range
  belongs to the keyspace.\<close>

theorem encoded_range_exact:
  assumes "4 \<le> length x" "in_key_range (key_range_of_bound_range (encode_bound_range (Enable i) mode r)) x"
  shows "\<exists>k. x = encode_key (Enable i) mode k \<and> in_bounds r k"
proof -
  have x: "in_bounds (encode_bound_range (Enable i) mode r) x"
    using assms(2) key_range_keys [OF encode_bound_range_to] by simp
  then have "x = keyspace_prefix i mode @ drop 4 x"
    using keyspace_interval [OF assms(1)] lower_bound_prefix by blast
  then have "x = encode_key (Enable i) mode (drop 4 x)" by (simp add: encode_key_Enable)
  with x show ?thesis using in_bounds_encode by metis
qed

theorem encoded_range_exact_witness:
  "\<exists>k. encode_key (Enable 3) Txn [9] = encode_key (Enable 3) Txn k \<and> in_bounds (from_range [8] [10]) k"
proof (rule encoded_range_exact)
  show "in_key_range (key_range_of_bound_range (encode_bound_range (Enable 3) Txn (from_range [8] [10])))
      (encode_key (Enable 3) Txn [9])"
    unfolding key_range_keys [OF encode_bound_range_to] in_bounds_encode
    by (simp add: in_bounds_def from_range_def new_bound_range_def start_bound_def end_bound_def is_empty_def)
qed (simp add: encode_key_Enable)

text \<open>Conversely, a key is admitted by a range exactly when its encoding is in the encoded
  range, for every keyspace, every mode and every form of bounds.\<close>

theorem encoded_range_complete:
  "in_key_range (key_range_of_bound_range (encode_bound_range ks mode r)) (encode_key ks mode k) \<longleftrightarrow> in_bounds r k"
  unfolding key_range_keys [OF encode_bound_range_to] by (rule in_bounds_encode)

text \<open>When no decoded region boundary is a non-empty key shorter than the prefix, truncating an
  \<open>EpochNotMatch\<close> error does not panic, and a user key is in one of the resulting regions exactly
  when its encoding is in one of the decoded regions.\<close>

theorem truncate_epoch_not_match_covers:
  assumes "decode_regions (enm_current_regions err) = Inr regions"
    and "find_map infer_key_mode_from_region regions = Some mode"
    and "\<forall>r \<in> set regions. (mr_start_key r = [] \<or> 4 \<le> length (mr_start_key r))
      \<and> (mr_end_key r = [] \<or> 4 \<le> length (mr_end_key r))"
  shows "\<exists>err'. truncate_epoch_not_match err i = Some (Inr err')
    \<and> (\<forall>k. (\<exists>r' \<in> set (enm_current_regions err'). region_has r' k)
          \<longleftrightarrow> (\<exists>r \<in> set regions. region_has r (encode_key (Enable i) mode k)))"
  using truncate_regions_spec [OF assms(3), of i mode] assms(1,2)
  by (auto simp: truncate_epoch_not_match_def encode_key_Enable)

theorem truncate_epoch_not_match_covers_witness:
  "\<exists>err'. truncate_epoch_not_match \<lparr>enm_current_regions = [\<lparr>mr_id = 7,
      mr_start_key = to_encoded [0x72, 0, 0, 1, 5], mr_end_key = to_encoded [0x72, 0, 0, 1, 9],
      mr_region_epoch = None, mr_peers = []\<rparr>]\<rparr> 1 = Some (Inr err')
    \<and> (\<exists>r' \<in> set (enm_current_regions err'). region_has r' [6])"
proof -
  let ?r = "\<lparr>mr_id = 7, mr_start_key = [0x72, 0, 0, 1, 5], mr_end_key = [0x72, 0, 0, 1, 9],
      mr_region_epoch = None, mr_peers = []\<rparr> :: metapb_region"
  have "region_has ?r (encode_key (Enable 1) Raw [6])"
    by (simp add: region_has_def in_half_open_def encode_key_Enable keyspace_prefix_cons
        RAW_KEY_PREFIX_def drop_bit_eq_div)
  moreover have "\<exists>err'. truncate_epoch_not_match \<lparr>enm_current_regions = [\<lparr>mr_id = 7,
      mr_start_key = to_encoded [0x72, 0, 0, 1, 5], mr_end_key = to_encoded [0x72, 0, 0, 1, 9],
      mr_region_epoch = None, mr_peers = []\<rparr>]\<rparr> 1 = Some (Inr err')
    \<and> (\<forall>k. (\<exists>r' \<in> set (enm_current_regions err'). region_has r' k)
          \<longleftrightarrow> (\<exists>r \<in> set [?r]. region_has r (encode_key (Enable 1) Raw k)))"
    by (rule truncate_epoch_not_match_covers)
       (simp_all add: infer_key_mode_from_region_def infer_key_mode_from_key_def RAW_KEY_PREFIX_def)
  ultimately show ?thesis by auto
qed

text \<open>A region boundary shorter than the prefix that lies inside the keyspace makes the
  truncation of an \<open>EpochNotMatch\<close> error panic: keyspace 255 ends at \<open>r 0 1 0\<close>, and the boundary
  \<open>r 0 1\<close> sorts between the start and the end of the keyspace.\<close>

theorem truncate_epoch_not_match_panics:
  "truncate_epoch_not_match \<lparr>enm_current_regions = [\<lparr>mr_id = 7, mr_start_key = to_encoded [0x72, 0, 1],
      mr_end_key = to_encoded [0x73], mr_region_epoch = None, mr_peers = []\<rparr>]\<rparr> 255 = None"
  by (simp add: truncate_epoch_not_match_def infer_key_mode_from_region_def
      infer_key_mode_from_key_def RAW_KEY_PREFIX_def truncate_region_def keyspace_prefix_cons
      keyspace_end_prefix_def drop_bit_eq_div split_off_def KEYSPACE_PREFIX_LEN_def Let_def)

text \<open>Truncating the keys inside an error changes none of the answers of the error's queries.\<close>

theorem truncate_error_keeps_queries:
  assumes "truncate_error ks e = Some e'"
  shows "is_write_conflict e' = is_write_conflict e \<and> is_deadlock e' = is_deadlock e
     \<and> is_key_exists e' = is_key_exists e \<and> is_assertion_failed e' = is_assertion_failed e
     \<and> is_undetermined e' = is_undetermined e"
  using truncate_error_query [OF assms] .

theorem truncate_error_keeps_queries_witness:
  "is_key_exists (UndeterminedError (KeyExists \<lparr>kee_key = [9]\<rparr>))
     = is_key_exists (UndeterminedError (KeyExists \<lparr>kee_key = [0x78, 0, 0, 1, 9]\<rparr>))"
proof -
  have "truncate_error (Enable 1) (UndeterminedError (KeyExists \<lparr>kee_key = [0x78, 0, 0, 1, 9]\<rparr>))
      = Some (UndeterminedError (KeyExists \<lparr>kee_key = [9]\<rparr>))"
    by (simp add: truncate_key_def KEYSPACE_PREFIX_LEN_def)
  from truncate_error_keeps_queries [OF this] show ?thesis by simp
qed

end
