(* ===== verification/BTree_Map.thy ===== *)
theory BTree_Map
  imports Prelude
begin

text \<open>
  The interface of an ordered map, as a locale, and its model on association lists with strictly
  increasing keys, which stand for \<open>std::collections::BTreeMap\<close>: \<open>insert\<close> replaces, iteration
  follows the key order. The locale holds the consequences that the components need, once.
\<close>

fun bt_insert :: "'k::linorder \<Rightarrow> 'v \<Rightarrow> ('k \<times> 'v) list \<Rightarrow> ('k \<times> 'v) list" where
  "bt_insert k v [] = [(k, v)]"
| "bt_insert k v ((k', v') # m) =
     (if k < k' then (k, v) # (k', v') # m
      else if k = k' then (k, v) # m
      else (k', v') # bt_insert k v m)"

fun bt_remove :: "'k::linorder \<Rightarrow> ('k \<times> 'v) list \<Rightarrow> ('k \<times> 'v) list" where
  "bt_remove k [] = []"
| "bt_remove k ((k', v') # m) = (if k = k' then m else (k', v') # bt_remove k m)"

definition bt_get :: "('k \<times> 'v) list \<Rightarrow> 'k \<Rightarrow> 'v option" where
  "bt_get m k = map_of m k"

definition bt_inv :: "('k::linorder \<times> 'v) list \<Rightarrow> bool" where
  "bt_inv m = sorted_wrt (<) (map fst m)"

locale ordered_map =
  fixes empty :: "'m"
    and get :: "'m \<Rightarrow> 'k::linorder \<Rightarrow> 'v option"
    and insert :: "'k \<Rightarrow> 'v \<Rightarrow> 'm \<Rightarrow> 'm"
    and remove :: "'k \<Rightarrow> 'm \<Rightarrow> 'm"
    and entries :: "'m \<Rightarrow> ('k \<times> 'v) list"
    and inv :: "'m \<Rightarrow> bool"
  assumes inv_empty: "inv empty"
    and inv_insert: "inv m \<Longrightarrow> inv (insert k v m)"
    and inv_remove: "inv m \<Longrightarrow> inv (remove k m)"
    and get_empty: "get empty k = None"
    and get_insert: "inv m \<Longrightarrow> get (insert k v m) k' = (if k' = k then Some v else get m k')"
    and get_remove: "inv m \<Longrightarrow> get (remove k m) k' = (if k' = k then None else get m k')"
    and entries_sorted: "inv m \<Longrightarrow> sorted_wrt (<) (map fst (entries m))"
    and get_entries: "inv m \<Longrightarrow> get m k = map_of (entries m) k"
begin

lemma distinct_keys: "inv m \<Longrightarrow> distinct (map fst (entries m))"
  using entries_sorted strict_sorted_iff by blast

lemma in_entries: "inv m \<Longrightarrow> (k, v) \<in> set (entries m) \<longleftrightarrow> get m k = Some v"
  by (simp add: get_entries map_of_eq_Some_iff distinct_keys)

lemma get_None: "inv m \<Longrightarrow> get m k = None \<longleftrightarrow> k \<notin> fst ` set (entries m)"
  by (simp add: get_entries map_of_eq_None_iff)

lemma insert_same: "inv m \<Longrightarrow> get (insert k v m) k = Some v"
  by (simp add: get_insert)

lemma entries_determined:
  assumes "inv m" "inv m'" "\<And>k. get m k = get m' k"
  shows "entries m = entries m'"
proof -
  have "sorted (map fst (entries m))" "distinct (map fst (entries m))"
    "sorted (map fst (entries m'))" "distinct (map fst (entries m'))"
    using assms(1,2) entries_sorted distinct_keys strict_sorted_iff by blast+
  moreover have "set (entries m) = set (entries m')"
  proof (rule set_eqI)
    fix x show "x \<in> set (entries m) \<longleftrightarrow> x \<in> set (entries m')"
      using in_entries [OF assms(1)] in_entries [OF assms(2)] assms(3) by (cases x) simp
  qed
  moreover have "inj_on fst (set (entries m) \<union> set (entries m'))"
    using calculation by (auto simp: distinct_map)
  ultimately show ?thesis by (intro map_sorted_distinct_set_unique [of fst]) auto
qed

end

lemma bt_inv_Cons: "bt_inv (x # m) \<longleftrightarrow> (\<forall>y \<in> fst ` set m. fst x < y) \<and> bt_inv m"
  by (auto simp: bt_inv_def)

lemma fst_set_bt_insert: "fst ` set (bt_insert k v m) = Set.insert k (fst ` set m)"
  by (induction k v m rule: bt_insert.induct) auto

lemma bt_inv_insert: "bt_inv m \<Longrightarrow> bt_inv (bt_insert k v m)"
  by (induction k v m rule: bt_insert.induct) (auto simp: bt_inv_Cons fst_set_bt_insert [simplified])

lemma set_bt_remove: "fst ` set (bt_remove k m) \<subseteq> fst ` set m"
  by (induction k m rule: bt_remove.induct) auto

lemma bt_inv_remove: "bt_inv m \<Longrightarrow> bt_inv (bt_remove k m)"
proof (induction k m rule: bt_remove.induct)
  case (2 k k' v' m)
  then have "\<forall>y \<in> fst ` set m. k' < y" by (simp add: bt_inv_Cons)
  then have "\<forall>y \<in> fst ` set (bt_remove k m). k' < y" using set_bt_remove [of k m] by blast
  with 2 show ?case by (simp add: bt_inv_Cons)
qed simp

lemma bt_get_insert: "bt_inv m \<Longrightarrow> bt_get (bt_insert k v m) k' = (if k' = k then Some v else bt_get m k')"
  by (induction k v m rule: bt_insert.induct) (auto simp: bt_get_def bt_inv_Cons)

lemma bt_get_remove: "bt_inv m \<Longrightarrow> bt_get (bt_remove k m) k' = (if k' = k then None else bt_get m k')"
proof (induction k m rule: bt_remove.induct)
  case (2 k k1 v1 m)
  have "map_of m k1 = None" using 2(2) by (force simp: bt_inv_Cons map_of_eq_None_iff)
  with 2 show ?case by (auto simp: bt_get_def bt_inv_Cons)
qed (simp add: bt_get_def)

interpretation bt: ordered_map "[]" bt_get bt_insert bt_remove "\<lambda>m. m" bt_inv
proof (unfold_locales, goal_cases)
  case 1 show ?case by (simp add: bt_inv_def)
next
  case (2 m k v) then show ?case by (rule bt_inv_insert)
next
  case (3 m k) then show ?case by (rule bt_inv_remove)
next
  case (4 k) show ?case by (simp add: bt_get_def)
next
  case (5 m k v k') then show ?case by (rule bt_get_insert)
next
  case (6 m k k') then show ?case by (rule bt_get_remove)
next
  case (7 m) then show ?case by (simp add: bt_inv_def)
next
  case (8 m k) show ?case by (simp add: bt_get_def)
qed

declare bt.inv_empty [simp] bt.get_empty [simp]

lemma bt_inv_filter: "bt_inv m \<Longrightarrow> bt_inv (filter P m)"
  by (induction m) (auto simp: bt_inv_Cons)

lemma bt_get_filter: "bt_inv m \<Longrightarrow> bt_get (filter (\<lambda>p. P (fst p)) m) k = (if P k then bt_get m k else None)"
  by (induction m) (auto simp: bt_get_def bt_inv_Cons)

lemma bt_get_filter_entry:
  "bt_inv m \<Longrightarrow> bt_get (filter P m) k = (case bt_get m k of None \<Rightarrow> None | Some v \<Rightarrow> if P (k, v) then Some v else None)"
proof (induction m)
  case (Cons x m)
  obtain k' v' where x: "x = (k', v')" by (cases x)
  have "map_of m k' = None" using Cons.prems by (force simp: x bt_inv_Cons map_of_eq_None_iff)
  then show ?case using Cons by (auto simp: x bt_get_def bt_inv_Cons)
qed (simp add: bt_get_def)

end
