(* ===== verification/Key_Flags.thy ===== *)
theory Key_Flags
  imports Proto
begin

text \<open>
  Per-key flags (\<open>transaction/key_flags.rs\<close>): a 16-bit set of flags and the operations on it.
\<close>

unbundle bit_operations_syntax

type_synonym key_flags = "16 word"

definition PRESUME_KEY_NOT_EXISTS :: key_flags where "PRESUME_KEY_NOT_EXISTS = push_bit 0 1"
definition PREWRITE_ONLY :: key_flags where "PREWRITE_ONLY = push_bit 1 1"
definition ASSERT_EXIST :: key_flags where "ASSERT_EXIST = push_bit 2 1"
definition ASSERT_NOT_EXIST :: key_flags where "ASSERT_NOT_EXIST = push_bit 3 1"

datatype flags_op = SetPresumeKeyNotExists | DelPresumeKeyNotExists | SetPrewriteOnly
  | DelPrewriteOnly | SetAssertExist | SetAssertNotExist | SetAssertUnknown | SetAssertNone

definition has_presume_key_not_exists :: "key_flags \<Rightarrow> bool" where
  "has_presume_key_not_exists f = (f AND PRESUME_KEY_NOT_EXISTS \<noteq> 0)"

definition has_prewrite_only :: "key_flags \<Rightarrow> bool" where
  "has_prewrite_only f = (f AND PREWRITE_ONLY \<noteq> 0)"

definition has_assert_exist :: "key_flags \<Rightarrow> bool" where
  "has_assert_exist f = (f AND ASSERT_EXIST \<noteq> 0 \<and> f AND ASSERT_NOT_EXIST = 0)"

definition has_assert_not_exist :: "key_flags \<Rightarrow> bool" where
  "has_assert_not_exist f = (f AND ASSERT_NOT_EXIST \<noteq> 0 \<and> f AND ASSERT_EXIST = 0)"

definition has_assert_unknown :: "key_flags \<Rightarrow> bool" where
  "has_assert_unknown f = (f AND ASSERT_EXIST \<noteq> 0 \<and> f AND ASSERT_NOT_EXIST \<noteq> 0)"

definition has_assertion_flags :: "key_flags \<Rightarrow> bool" where
  "has_assertion_flags f = (f AND (ASSERT_EXIST OR ASSERT_NOT_EXIST) \<noteq> 0)"

fun apply_flag :: "key_flags \<Rightarrow> flags_op \<Rightarrow> key_flags" where
  "apply_flag f SetPresumeKeyNotExists = f OR PRESUME_KEY_NOT_EXISTS"
| "apply_flag f DelPresumeKeyNotExists = f AND NOT PRESUME_KEY_NOT_EXISTS"
| "apply_flag f SetPrewriteOnly = f OR PREWRITE_ONLY"
| "apply_flag f DelPrewriteOnly = f AND NOT PREWRITE_ONLY"
| "apply_flag f SetAssertExist = (f AND NOT ASSERT_NOT_EXIST) OR ASSERT_EXIST"
| "apply_flag f SetAssertNotExist = (f AND NOT ASSERT_EXIST) OR ASSERT_NOT_EXIST"
| "apply_flag f SetAssertUnknown = f OR (ASSERT_EXIST OR ASSERT_NOT_EXIST)"
| "apply_flag f SetAssertNone = f AND NOT (ASSERT_EXIST OR ASSERT_NOT_EXIST)"

lemma flag_const_bits:
  "bit PRESUME_KEY_NOT_EXISTS n \<longleftrightarrow> n = 0" "bit PREWRITE_ONLY n \<longleftrightarrow> n = 1"
  "bit ASSERT_EXIST n \<longleftrightarrow> n = 2" "bit ASSERT_NOT_EXIST n \<longleftrightarrow> n = 3"
  unfolding PRESUME_KEY_NOT_EXISTS_def PREWRITE_ONLY_def ASSERT_EXIST_def ASSERT_NOT_EXIST_def
    bit_push_bit_iff bit_1_iff by auto

lemma and_eq_0_bits: "(f AND c = 0) \<longleftrightarrow> (\<forall>n. \<not> (bit f n \<and> bit c n))" for f c :: key_flags
proof -
  have "(f AND c = 0) \<longleftrightarrow> (\<forall>n. bit (f AND c) n = bit (0 :: key_flags) n)" by (metis bit_word_eqI)
  then show ?thesis by (simp add: bit_and_iff)
qed

lemma flag_bits:
  "has_presume_key_not_exists f \<longleftrightarrow> bit f 0"
  "has_prewrite_only f \<longleftrightarrow> bit f 1"
  "has_assert_exist f \<longleftrightarrow> bit f 2 \<and> \<not> bit f 3"
  "has_assert_not_exist f \<longleftrightarrow> bit f 3 \<and> \<not> bit f 2"
  "has_assert_unknown f \<longleftrightarrow> bit f 2 \<and> bit f 3"
  "has_assertion_flags f \<longleftrightarrow> bit f 2 \<or> bit f 3"
  unfolding has_presume_key_not_exists_def has_prewrite_only_def has_assert_exist_def
      has_assert_not_exist_def has_assert_unknown_def has_assertion_flags_def and_eq_0_bits
      bit_or_iff flag_const_bits by auto

lemma apply_flag_bits:
  assumes "n < 16"
  shows "bit (apply_flag f op) n =
    (case op of
       SetPresumeKeyNotExists \<Rightarrow> n = 0 \<or> bit f n
     | DelPresumeKeyNotExists \<Rightarrow> n \<noteq> 0 \<and> bit f n
     | SetPrewriteOnly \<Rightarrow> n = 1 \<or> bit f n
     | DelPrewriteOnly \<Rightarrow> n \<noteq> 1 \<and> bit f n
     | SetAssertExist \<Rightarrow> n = 2 \<or> n \<noteq> 3 \<and> bit f n
     | SetAssertNotExist \<Rightarrow> n = 3 \<or> n \<noteq> 2 \<and> bit f n
     | SetAssertUnknown \<Rightarrow> n = 2 \<or> n = 3 \<or> bit f n
     | SetAssertNone \<Rightarrow> n \<noteq> 2 \<and> n \<noteq> 3 \<and> bit f n)"
  using assms by (cases op) (auto simp: bit_simps flag_const_bits)

text \<open>Every flag operation establishes the flag it names, clears the opposite assertion, and
  leaves the flags of the other groups as they were; the three assertion states are exclusive and
  together are exactly the keys with an assertion flag.\<close>

theorem flag_operations:
  "has_presume_key_not_exists (apply_flag f op) = (op = SetPresumeKeyNotExists \<or>
     has_presume_key_not_exists f \<and> op \<noteq> DelPresumeKeyNotExists)
   \<and> has_prewrite_only (apply_flag f op) = (op = SetPrewriteOnly \<or> has_prewrite_only f \<and> op \<noteq> DelPrewriteOnly)
   \<and> has_assert_exist (apply_flag f SetAssertExist) \<and> has_assert_not_exist (apply_flag f SetAssertNotExist)
   \<and> has_assert_unknown (apply_flag f SetAssertUnknown) \<and> \<not> has_assertion_flags (apply_flag f SetAssertNone)
   \<and> has_assertion_flags f = (has_assert_exist f \<or> has_assert_not_exist f \<or> has_assert_unknown f)
   \<and> \<not> (has_assert_exist f \<and> has_assert_not_exist f)"
  by (cases op) (simp_all add: flag_bits apply_flag_bits del: apply_flag.simps, blast+)

end
