(* ===== verification/Txn_Buffer.thy ===== *)
theory Txn_Buffer
  imports Keyspace BTree_Map Key_Flags
begin

text \<open>
  The transaction buffer (\<open>transaction/buffer.rs\<close>): reads and writes of a transaction overlaid on
  the store. The entry map is an ordered map, the two hash maps are partial functions. Operations
  that mutate the buffer return the new buffer; operations that fetch take the fetching closure as
  an argument and return the buffer together with the result. \<open>scan_and_fetch\<close> returns \<open>None\<close> where
  \<open>BTreeMap::range\<close> panics.
\<close>

datatype buffer_entry = Cached "val_bytes option" | Locked "val_bytes option option"
  | EPut val_bytes | EDel | EInsert val_bytes | ECheckNotExist

datatype mutation_value = Determined "val_bytes option" | Undetermined

datatype read_value_state = RLocal "val_bytes option" | RCached "val_bytes option" | RUndetermined

record buffer =
  primary_key :: "key option"
  entry_map :: "(key \<times> buffer_entry) list"
  flags_map :: "key \<rightharpoonup> key_flags"
  read_commit_ts :: "key \<rightharpoonup> u64"
  is_pessimistic :: bool

definition new_buffer :: "bool \<Rightarrow> buffer" where
  "new_buffer pess = \<lparr>primary_key = None, entry_map = [], flags_map = Map.empty,
     read_commit_ts = Map.empty, is_pessimistic = pess\<rparr>"

definition get_primary_key :: "buffer \<Rightarrow> key option" where
  "get_primary_key b = primary_key b"

definition primary_key_or :: "key \<Rightarrow> buffer \<Rightarrow> buffer" where
  "primary_key_or k b = b\<lparr>primary_key := (case primary_key b of None \<Rightarrow> Some k | Some p \<Rightarrow> Some p)\<rparr>"

fun to_proto_with_key :: "buffer_entry \<Rightarrow> key \<Rightarrow> proto_mutation option" where
  "to_proto_with_key (Cached v) key = None"
| "to_proto_with_key (EPut v) key =
     Some \<lparr>pm_op = OpPut, pm_key = key, pm_value = v, pm_assertion = AssertionNone\<rparr>"
| "to_proto_with_key EDel key =
     Some \<lparr>pm_op = OpDel, pm_key = key, pm_value = [], pm_assertion = AssertionNone\<rparr>"
| "to_proto_with_key (Locked v) key =
     Some \<lparr>pm_op = OpLock, pm_key = key, pm_value = [], pm_assertion = AssertionNone\<rparr>"
| "to_proto_with_key (EInsert v) key =
     Some \<lparr>pm_op = OpInsert, pm_key = key, pm_value = v, pm_assertion = AssertionNone\<rparr>"
| "to_proto_with_key ECheckNotExist key =
     Some \<lparr>pm_op = OpCheckNotExists, pm_key = key, pm_value = [], pm_assertion = AssertionNone\<rparr>"

fun get_value :: "buffer_entry \<Rightarrow> mutation_value" where
  "get_value (Cached value) = Determined value"
| "get_value (EPut value) = Determined (Some value)"
| "get_value EDel = Determined None"
| "get_value (Locked None) = Undetermined"
| "get_value (Locked (Some value)) = Determined value"
| "get_value (EInsert value) = Determined (Some value)"
| "get_value ECheckNotExist = Determined None"

definition get_from_mutations :: "buffer \<Rightarrow> key \<Rightarrow> mutation_value" where
  "get_from_mutations b k =
     (case bt_get (entry_map b) k of Some e \<Rightarrow> get_value e | None \<Rightarrow> Undetermined)"

definition buffer_get :: "buffer \<Rightarrow> key \<Rightarrow> val_bytes option" where
  "buffer_get b k = (case get_from_mutations b k of Determined v \<Rightarrow> v | Undetermined \<Rightarrow> None)"

definition read_value_state_of :: "buffer \<Rightarrow> key \<Rightarrow> read_value_state" where
  "read_value_state_of b k = (case bt_get (entry_map b) k of
      Some (EPut v) \<Rightarrow> RLocal (Some v) | Some (EInsert v) \<Rightarrow> RLocal (Some v)
    | Some EDel \<Rightarrow> RLocal None | Some ECheckNotExist \<Rightarrow> RLocal None
    | Some (Cached v) \<Rightarrow> RCached v
    | Some (Locked (Some v)) \<Rightarrow> RCached v
    | Some (Locked None) \<Rightarrow> RUndetermined | None \<Rightarrow> RUndetermined)"

definition cached_commit_ts :: "buffer \<Rightarrow> key \<Rightarrow> u64 option" where
  "cached_commit_ts b k = read_commit_ts b k"

definition update_cache :: "key \<Rightarrow> val_bytes option \<Rightarrow> buffer \<Rightarrow> buffer \<times> unit res" where
  "update_cache k value b =
    (case bt_get (entry_map b) k of
       Some (Locked None) \<Rightarrow> (b\<lparr>entry_map := bt_insert k (Locked (Some value)) (entry_map b)\<rparr>, Inr ())
     | None \<Rightarrow> (b\<lparr>entry_map := bt_insert k (Cached value) (entry_map b)\<rparr>, Inr ())
     | Some (Cached v) \<Rightarrow> (b, if value \<noteq> v then Inl (InternalError ''buffer cache mismatch (entry=cached)'') else Inr ())
     | Some (Locked (Some v)) \<Rightarrow> (b, if value \<noteq> v then Inl (InternalError ''buffer cache mismatch (entry=cached)'') else Inr ())
     | Some (EPut v) \<Rightarrow> (b, if value \<noteq> Some v then Inl (InternalError ''buffer cache mismatch (entry=put)'') else Inr ())
     | Some EDel \<Rightarrow> (b, if value \<noteq> None then Inl (InternalError ''buffer cache mismatch (entry=del)'') else Inr ())
     | Some (EInsert v) \<Rightarrow> (b, if value \<noteq> Some v then Inl (InternalError ''buffer cache mismatch (entry=insert)'') else Inr ())
     | Some ECheckNotExist \<Rightarrow> (b, if value \<noteq> None then Inl (InternalError ''buffer cache mismatch (entry=check_not_exist)'') else Inr ()))"

definition update_read_cache :: "key \<Rightarrow> val_bytes option \<Rightarrow> u64 \<Rightarrow> buffer \<Rightarrow> buffer \<times> unit res" where
  "update_read_cache k value commit_ts b =
    (case update_cache k value b of
       (b', Inl e) \<Rightarrow> (b', Inl e)
     | (b', Inr _) \<Rightarrow>
         (if value = None then b'\<lparr>read_commit_ts := (read_commit_ts b')(k := None)\<rparr>
          else if commit_ts \<noteq> 0 then b'\<lparr>read_commit_ts := (read_commit_ts b')(k \<mapsto> commit_ts)\<rparr>
          else b', Inr ()))"

definition get_or_else :: "key \<Rightarrow> (key \<Rightarrow> val_bytes option res) \<Rightarrow> buffer \<Rightarrow> buffer \<times> val_bytes option res" where
  "get_or_else k f b =
    (case get_from_mutations b k of
       Determined v \<Rightarrow> (b, Inr v)
     | Undetermined \<Rightarrow>
        (case f k of Inl e \<Rightarrow> (b, Inl e)
         | Inr v \<Rightarrow> (case update_cache k v b of (b', Inl e) \<Rightarrow> (b', Inl e) | (b', Inr _) \<Rightarrow> (b', Inr v))))"

text \<open>\<open>KvPair::new\<close>.\<close>

definition new_kv_pair :: "key \<Rightarrow> val_bytes \<Rightarrow> kv_pair" where
  "new_kv_pair k v = \<lparr>kp_key = k, kp_value = v, kp_commit_ts = 0\<rparr>"

fun update_cache_all :: "(key \<times> val_bytes) list \<Rightarrow> buffer \<Rightarrow> buffer \<times> unit res" where
  "update_cache_all [] b = (b, Inr ())"
| "update_cache_all ((k, v) # ps) b =
     (case update_cache k (Some v) b of
        (b', Inl e) \<Rightarrow> (b', Inl e)
      | (b', Inr _) \<Rightarrow> update_cache_all ps b')"

definition batch_get_or_else ::
  "key list \<Rightarrow> (key list \<Rightarrow> kv_pair list res) \<Rightarrow> buffer \<Rightarrow> buffer \<times> kv_pair list res" where
  "batch_get_or_else ks f b =
    (let undetermined = filter (\<lambda>k. get_from_mutations b k = Undetermined) ks;
         determined = filter (\<lambda>k. get_from_mutations b k \<noteq> Undetermined) ks;
         cached = List.map_filter (\<lambda>k. case get_from_mutations b k of
             Determined (Some v) \<Rightarrow> Some (new_kv_pair k v)
           | Determined None \<Rightarrow> None | Undetermined \<Rightarrow> None) determined
     in case f undetermined of Inl e \<Rightarrow> (b, Inl e)
        | Inr fetched \<Rightarrow>
           (case update_cache_all (map (\<lambda>p. (kp_key p, kp_value p)) fetched) b of
              (b', Inl e) \<Rightarrow> (b', Inl e)
            | (b', Inr _) \<Rightarrow> (b', Inr (cached @ fetched))))"

text \<open>\<open>BTreeMap::range\<close> panics when the start is above the end, or equal to it with both bounds
  excluded.\<close>

definition range_panics :: "bound_range \<Rightarrow> bool" where
  "range_panics r =
    (case (start_bound r, end_bound r) of
       (Included s, Included e) \<Rightarrow> s > e
     | (Included s, Excluded e) \<Rightarrow> s > e
     | (Excluded s, Included e) \<Rightarrow> s > e
     | (Excluded s, Excluded e) \<Rightarrow> s \<ge> e
     | _ \<Rightarrow> False)"

definition bt_range :: "bound_range \<Rightarrow> (key \<times> 'v) list \<Rightarrow> (key \<times> 'v) list" where
  "bt_range r m = filter (\<lambda>p. in_bounds r (fst p)) m"

definition bt_collect :: "(key \<times> 'v) list \<Rightarrow> (key \<times> 'v) list" where
  "bt_collect ps = fold (\<lambda>(k, v) m. bt_insert k v m) ps []"

definition override_local :: "(key \<times> buffer_entry) list \<Rightarrow> (key \<times> val_bytes) list \<Rightarrow> (key \<times> val_bytes) list" where
  "override_local ms results =
     fold (\<lambda>(k, m) res. case m of EPut v \<Rightarrow> bt_insert k v res | EDel \<Rightarrow> bt_remove k res | _ \<Rightarrow> res) ms results"

definition count_u32 :: "nat \<Rightarrow> u32" where
  "count_u32 n = (if n < 2 ^ 32 then of_nat n else - 1)"

definition redundant_limit :: "u32 \<Rightarrow> (key \<times> buffer_entry) list \<Rightarrow> u32" where
  "redundant_limit limit ms = saturating_add limit (count_u32 (length (filter (\<lambda>(k, m). m = EDel) ms)))"

definition scan_and_fetch ::
  "bound_range \<Rightarrow> u32 \<Rightarrow> bool \<Rightarrow> bool \<Rightarrow> (bound_range \<Rightarrow> u32 \<Rightarrow> kv_pair list res) \<Rightarrow> buffer
     \<Rightarrow> (buffer \<times> kv_pair list res) option" where
  "scan_and_fetch r limit upd rev_ord f b =
    (if range_panics r then None
     else let ms = bt_range r (entry_map b) in
       Some (case f r (redundant_limit limit ms) of Inl e \<Rightarrow> (b, Inl e)
       | Inr pairs \<Rightarrow>
         (let results = override_local ms (bt_collect (map (\<lambda>p. (kp_key p, kp_value p)) pairs));
              ordered = map (\<lambda>(k, v). new_kv_pair k v) (if rev_ord then rev results else results);
              out = take (unat limit) ordered
          in if upd then
               (case update_cache_all results b of
                  (b', Inl e) \<Rightarrow> (b', Inl e) | (b', Inr _) \<Rightarrow> (b', Inr out))
             else (b, Inr out))))"

definition update_key_flags :: "key \<Rightarrow> flags_op list \<Rightarrow> buffer \<Rightarrow> buffer" where
  "update_key_flags k ops b =
    (let origin = (case flags_map b k of Some f \<Rightarrow> f | None \<Rightarrow> 0);
         next = foldl apply_flag origin ops
     in if next = 0 then b\<lparr>flags_map := (flags_map b)(k := None)\<rparr>
        else b\<lparr>flags_map := (flags_map b)(k \<mapsto> next)\<rparr>)"

definition key_flags_of :: "buffer \<Rightarrow> key \<Rightarrow> key_flags" where
  "key_flags_of b k = (case flags_map b k of Some f \<Rightarrow> f | None \<Rightarrow> 0)"

definition set_assertion :: "key \<Rightarrow> assertion \<Rightarrow> buffer \<Rightarrow> buffer" where
  "set_assertion k a b = update_key_flags k [case a of AssertionExist \<Rightarrow> SetAssertExist
     | AssertionNotExist \<Rightarrow> SetAssertNotExist | _ \<Rightarrow> SetAssertNone] b"

definition lock :: "key \<Rightarrow> buffer \<Rightarrow> buffer" where
  "lock k b =
    (let b1 = primary_key_or k b in
     case bt_get (entry_map b1) k of
       None \<Rightarrow> b1\<lparr>entry_map := bt_insert k (Locked None) (entry_map b1)\<rparr>
     | Some (Cached v) \<Rightarrow> b1\<lparr>entry_map := bt_insert k (Locked (Some v)) (entry_map b1)\<rparr>
     | Some _ \<Rightarrow> b1)"

definition unlock :: "key \<Rightarrow> buffer \<Rightarrow> buffer" where
  "unlock k b =
    (case bt_get (entry_map b) k of
       Some (Locked (Some v)) \<Rightarrow> b\<lparr>entry_map := bt_insert k (Cached v) (entry_map b)\<rparr>
     | Some (Locked None) \<Rightarrow> b\<lparr>entry_map := bt_remove k (entry_map b)\<rparr>
     | _ \<Rightarrow> b)"

definition insert_entry :: "key \<Rightarrow> buffer_entry \<Rightarrow> buffer \<Rightarrow> buffer" where
  "insert_entry k e b =
    (let b1 = (case e of Cached _ \<Rightarrow> b | ECheckNotExist \<Rightarrow> b | _ \<Rightarrow> primary_key_or k b);
         b2 = (case e of EPut _ \<Rightarrow> update_key_flags k [DelPrewriteOnly] b1
                | EDel \<Rightarrow> update_key_flags k [DelPrewriteOnly] b1
                | EInsert _ \<Rightarrow> update_key_flags k [DelPrewriteOnly] b1
                | _ \<Rightarrow> b1)
     in b2\<lparr>entry_map := bt_insert k e (entry_map b2)\<rparr>)"

definition put :: "key \<Rightarrow> val_bytes \<Rightarrow> buffer \<Rightarrow> buffer" where
  "put k v b =
    (case bt_get (entry_map b) k of
       Some (EInsert _) \<Rightarrow> b\<lparr>entry_map := bt_insert k (EInsert v) (entry_map b)\<rparr>
     | Some ECheckNotExist \<Rightarrow> b\<lparr>entry_map := bt_insert k (EInsert v) (entry_map b)\<rparr>
     | _ \<Rightarrow> insert_entry k (EPut v) b)"

definition insert :: "key \<Rightarrow> val_bytes \<Rightarrow> buffer \<Rightarrow> buffer" where
  "insert k v b =
    (case bt_get (entry_map b) k of
       Some EDel \<Rightarrow> b\<lparr>entry_map := bt_insert k (EPut v) (entry_map b)\<rparr>
     | _ \<Rightarrow> insert_entry k (EInsert v) b)"

definition delete :: "key \<Rightarrow> buffer \<Rightarrow> buffer" where
  "delete k b =
    (let presume = has_presume_key_not_exists (key_flags_of b k);
         check = (case bt_get (entry_map b) k of
             Some (EInsert _) \<Rightarrow> \<not> is_pessimistic b
           | Some ECheckNotExist \<Rightarrow> \<not> is_pessimistic b
           | Some (EPut _) \<Rightarrow> \<not> is_pessimistic b \<and> presume
           | _ \<Rightarrow> False)
     in if check
        then update_key_flags k [SetPrewriteOnly] (b\<lparr>entry_map := bt_insert k ECheckNotExist (entry_map b)\<rparr>)
        else insert_entry k EDel b)"

fun mutate :: "mutation \<Rightarrow> buffer \<Rightarrow> buffer" where
  "mutate (Put k v) b = put k v b"
| "mutate (Delete k) b = delete k b"

definition assertion_for_key :: "buffer \<Rightarrow> key \<Rightarrow> assertion" where
  "assertion_for_key b k =
    (let flags = key_flags_of b k in
     if has_assert_exist flags then AssertionExist
     else if has_assert_not_exist flags then AssertionNotExist
     else AssertionNone)"

definition lower_entry :: "buffer \<Rightarrow> assertion_level \<Rightarrow> key \<Rightarrow> buffer_entry \<Rightarrow> proto_mutation option" where
  "lower_entry b level k e = (case to_proto_with_key e k of None \<Rightarrow> None
    | Some pb \<Rightarrow>
      (let pb1 = (if pm_op pb = OpPut \<and> has_presume_key_not_exists (key_flags_of b k)
                  then pb\<lparr>pm_op := OpInsert\<rparr> else pb);
           pb2 = (if level \<noteq> LevelOff then pb1\<lparr>pm_assertion := assertion_for_key b k\<rparr> else pb1)
       in Some pb2))"

definition to_proto_mutations :: "buffer \<Rightarrow> assertion_level \<Rightarrow> proto_mutation list" where
  "to_proto_mutations b level = List.map_filter (\<lambda>(k, e). lower_entry b level k e) (entry_map b)"

definition mutation_for_key :: "buffer \<Rightarrow> key \<Rightarrow> assertion_level \<Rightarrow> proto_mutation option" where
  "mutation_for_key b k level =
     (case bt_get (entry_map b) k of None \<Rightarrow> None | Some e \<Rightarrow> lower_entry b level k e)"

definition get_write_size :: "buffer \<Rightarrow> nat" where
  "get_write_size b = sum_list (map (\<lambda>(k, v). case v of
      EPut val \<Rightarrow> length val + length k
    | EInsert val \<Rightarrow> length val + length k
    | EDel \<Rightarrow> length k
    | _ \<Rightarrow> 0) (entry_map b))"

text \<open>The operations of the buffer as atomic steps. \<open>unlock\<close> is used by pessimistic rollback only;
  the flag of the relation says whether it is among the steps.\<close>

inductive buffer_step :: "bool \<Rightarrow> buffer \<Rightarrow> buffer \<Rightarrow> bool" for unlocking :: bool where
  step_put: "buffer_step unlocking b (put k v b)"
| step_insert: "buffer_step unlocking b (insert k v b)"
| step_delete: "buffer_step unlocking b (delete k b)"
| step_lock: "buffer_step unlocking b (lock k b)"
| step_unlock: "unlocking \<Longrightarrow> buffer_step unlocking b (unlock k b)"
| step_flags: "buffer_step unlocking b (update_key_flags k ops b)"
| step_assertion: "buffer_step unlocking b (set_assertion k a b)"
| step_read_cache: "update_read_cache k v ts b = (b', r) \<Longrightarrow> buffer_step unlocking b b'"
| step_get: "get_or_else k f b = (b', r) \<Longrightarrow> buffer_step unlocking b b'"
| step_batch_get: "batch_get_or_else ks g b = (b', rs) \<Longrightarrow> buffer_step unlocking b b'"
| step_scan: "scan_and_fetch rng limit upd rv h b = Some (b', rs) \<Longrightarrow> buffer_step unlocking b b'"

inductive buffer_reach :: "bool \<Rightarrow> bool \<Rightarrow> buffer \<Rightarrow> bool" for unlocking pess :: bool where
  reach_new: "buffer_reach unlocking pess (new_buffer pess)"
| reach_step: "buffer_reach unlocking pess b \<Longrightarrow> buffer_step unlocking b b' \<Longrightarrow> buffer_reach unlocking pess b'"

definition is_cached :: "buffer_entry \<Rightarrow> bool" where
  "is_cached e = (case e of Cached _ \<Rightarrow> True | _ \<Rightarrow> False)"

definition buffer_inv :: "buffer \<Rightarrow> bool" where
  "buffer_inv b \<longleftrightarrow> bt_inv (entry_map b) \<and> (\<forall>k. flags_map b k \<noteq> Some 0)
     \<and> (primary_key b = None \<longrightarrow> (\<forall>k e. bt_get (entry_map b) k = Some e \<longrightarrow> is_cached e))"

text \<open>The primary key is a key that the transaction writes or locks.\<close>

definition primary_mutated :: "buffer \<Rightarrow> bool" where
  "primary_mutated b \<longleftrightarrow> (\<forall>p. primary_key b = Some p \<longrightarrow>
     (\<exists>e. bt_get (entry_map b) p = Some e \<and> \<not> is_cached e))"

text \<open>What the transaction reads at a key: the buffered value where the buffer determines one, the
  snapshot of the store elsewhere.\<close>

definition view :: "(key \<Rightarrow> val_bytes option) \<Rightarrow> buffer \<Rightarrow> key \<Rightarrow> val_bytes option" where
  "view store b k = (case get_from_mutations b k of Determined v \<Rightarrow> v | Undetermined \<Rightarrow> store k)"

subsection \<open>Entries after each operation\<close>

lemma primary_key_or_sel [simp]:
  "entry_map (primary_key_or k b) = entry_map b" "flags_map (primary_key_or k b) = flags_map b"
  "is_pessimistic (primary_key_or k b) = is_pessimistic b"
  "primary_key (primary_key_or k b) = Some (case primary_key b of None \<Rightarrow> k | Some p \<Rightarrow> p)"
  by (simp_all add: primary_key_or_def split: option.splits)

lemma update_key_flags_sel [simp]:
  "entry_map (update_key_flags k ops b) = entry_map b"
  "primary_key (update_key_flags k ops b) = primary_key b"
  "is_pessimistic (update_key_flags k ops b) = is_pessimistic b"
  by (simp_all add: update_key_flags_def Let_def)

lemma key_flags_update: "key_flags_of (update_key_flags k ops b) k' =
    (if k' = k then foldl apply_flag (key_flags_of b k) ops else key_flags_of b k')"
  by (auto simp: update_key_flags_def key_flags_of_def Let_def split: option.splits)

lemma flags_nonzero_update:
  "(\<forall>k. flags_map b k \<noteq> Some 0) \<Longrightarrow> flags_map (update_key_flags k ops b) k' \<noteq> Some 0"
  by (auto simp: update_key_flags_def Let_def split: option.splits)

definition put_entry :: "buffer_entry option \<Rightarrow> val_bytes \<Rightarrow> buffer_entry" where
  "put_entry old v = (case old of Some (EInsert _) \<Rightarrow> EInsert v | Some ECheckNotExist \<Rightarrow> EInsert v | _ \<Rightarrow> EPut v)"

definition ins_entry :: "buffer_entry option \<Rightarrow> val_bytes \<Rightarrow> buffer_entry" where
  "ins_entry old v = (case old of Some EDel \<Rightarrow> EPut v | _ \<Rightarrow> EInsert v)"

definition lock_entry :: "buffer_entry option \<Rightarrow> buffer_entry" where
  "lock_entry old = (case old of None \<Rightarrow> Locked None | Some (Cached v) \<Rightarrow> Locked (Some v) | Some e \<Rightarrow> e)"

definition checks_not_exist :: "buffer \<Rightarrow> key \<Rightarrow> bool" where
  "checks_not_exist b k \<longleftrightarrow> \<not> is_pessimistic b \<and> (case bt_get (entry_map b) k of
     Some (EInsert _) \<Rightarrow> True | Some ECheckNotExist \<Rightarrow> True
   | Some (EPut _) \<Rightarrow> has_presume_key_not_exists (key_flags_of b k) | _ \<Rightarrow> False)"

lemma entry_map_insert_entry: "entry_map (insert_entry k e b) = bt_insert k e (entry_map b)"
  by (cases e) (simp_all add: insert_entry_def Let_def)

lemma entry_map_put: "entry_map (put k v b) = bt_insert k (put_entry (bt_get (entry_map b) k) v) (entry_map b)"
  by (simp add: put_def put_entry_def entry_map_insert_entry split: option.splits buffer_entry.splits)

lemma entry_map_insert: "entry_map (insert k v b) = bt_insert k (ins_entry (bt_get (entry_map b) k) v) (entry_map b)"
  by (simp add: insert_def ins_entry_def entry_map_insert_entry split: option.splits buffer_entry.splits)

lemma delete_alt: "delete k b = (if checks_not_exist b k
    then update_key_flags k [SetPrewriteOnly] (b\<lparr>entry_map := bt_insert k ECheckNotExist (entry_map b)\<rparr>)
    else insert_entry k EDel b)"
  by (simp add: delete_def checks_not_exist_def Let_def split: option.splits buffer_entry.splits)

lemma entry_map_delete: "entry_map (delete k b) =
    bt_insert k (if checks_not_exist b k then ECheckNotExist else EDel) (entry_map b)"
  by (simp add: delete_alt entry_map_insert_entry)

lemma bt_insert_same: "bt_inv m \<Longrightarrow> bt_get m k = Some e \<Longrightarrow> bt_insert k e m = m"
  by (rule bt.entries_determined) (auto simp: bt.get_insert bt.inv_insert)

lemma entry_map_lock: "bt_inv (entry_map b) \<Longrightarrow>
    entry_map (lock k b) = bt_insert k (lock_entry (bt_get (entry_map b) k)) (entry_map b)"
  by (auto simp: lock_def lock_entry_def Let_def bt_insert_same split: option.splits buffer_entry.splits)

lemmas entry_map_ops = entry_map_put entry_map_insert entry_map_delete entry_map_lock

lemma primary_key_ops:
  "primary_key (lock k b) = Some (case primary_key b of None \<Rightarrow> k | Some p \<Rightarrow> p)"
  "primary_key (unlock k b) = primary_key b"
  "primary_key (set_assertion k a b) = primary_key b"
  "primary_key (insert_entry k e b) = (case e of Cached _ \<Rightarrow> primary_key b | ECheckNotExist \<Rightarrow> primary_key b
     | _ \<Rightarrow> Some (case primary_key b of None \<Rightarrow> k | Some p \<Rightarrow> p))"
  by (auto simp: lock_def unlock_def set_assertion_def insert_entry_def Let_def
      split: option.splits buffer_entry.splits)

lemma update_cache_sel [simp]:
  "primary_key (fst (update_cache k v b)) = primary_key b"
  "flags_map (fst (update_cache k v b)) = flags_map b"
  "is_pessimistic (fst (update_cache k v b)) = is_pessimistic b"
  by (simp_all add: update_cache_def split: option.splits buffer_entry.splits)

definition cache_entry :: "buffer_entry option \<Rightarrow> val_bytes option \<Rightarrow> buffer_entry" where
  "cache_entry old v = (case old of None \<Rightarrow> Cached v | Some (Locked None) \<Rightarrow> Locked (Some v) | Some e \<Rightarrow> e)"

lemma entry_map_update_cache: "bt_inv (entry_map b) \<Longrightarrow>
    entry_map (fst (update_cache k v b)) = bt_insert k (cache_entry (bt_get (entry_map b) k) v) (entry_map b)"
  by (auto simp: update_cache_def cache_entry_def bt_insert_same split: option.splits buffer_entry.splits)

lemma is_cached_cache_entry: "is_cached (cache_entry old v) \<longleftrightarrow> (case old of None \<Rightarrow> True | Some e \<Rightarrow> is_cached e)"
  by (auto simp: cache_entry_def is_cached_def split: option.splits buffer_entry.splits)

lemma not_cached_entries [simp]:
  "\<not> is_cached (put_entry old v)" "\<not> is_cached (ins_entry old v)" "\<not> is_cached (lock_entry old)"
  "\<not> is_cached EDel" "\<not> is_cached ECheckNotExist" "\<not> is_cached (EPut v)" "\<not> is_cached (EInsert v)"
  by (auto simp: put_entry_def ins_entry_def lock_entry_def is_cached_def split: option.splits buffer_entry.splits)

subsection \<open>The invariant\<close>

definition keeps :: "buffer \<Rightarrow> buffer \<Rightarrow> bool" where
  "keeps b b' \<longleftrightarrow> buffer_inv b' \<and> (primary_mutated b \<longrightarrow> primary_mutated b')"

lemma keeps_refl: "buffer_inv b \<Longrightarrow> keeps b b"
  by (simp add: keeps_def)

lemma keeps_trans: "keeps a b \<Longrightarrow> keeps b c \<Longrightarrow> keeps a c"
  by (simp add: keeps_def)

lemma keeps_mutation:
  assumes "buffer_inv b" "entry_map b' = bt_insert k e (entry_map b)" "\<not> is_cached e"
    and "\<forall>k. flags_map b' k \<noteq> Some 0"
    and "primary_key b' = Some (case primary_key b of None \<Rightarrow> k | Some p \<Rightarrow> p)"
  shows "keeps b b'"
  using assms by (auto simp: keeps_def buffer_inv_def primary_mutated_def bt.inv_insert bt.get_insert
      split: option.splits)

lemma primary_Some: "buffer_inv b \<Longrightarrow> bt_get (entry_map b) k = Some e \<Longrightarrow> \<not> is_cached e \<Longrightarrow>
    primary_key b = Some (case primary_key b of None \<Rightarrow> k | Some p \<Rightarrow> p)"
  by (cases "primary_key b") (auto simp: buffer_inv_def)

lemma flags_ok: "buffer_inv b \<Longrightarrow> \<forall>k. flags_map b k \<noteq> Some 0"
  by (simp add: buffer_inv_def)

lemma insert_entry_flags_ok: "buffer_inv b \<Longrightarrow> \<forall>k'. flags_map (insert_entry k e b) k' \<noteq> Some 0"
  using flags_nonzero_update [of "primary_key_or k b" k "[DelPrewriteOnly]"] flags_nonzero_update [of b k "[DelPrewriteOnly]"]
  by (auto simp: insert_entry_def Let_def flags_ok split: buffer_entry.splits)

lemma keeps_put: "buffer_inv b \<Longrightarrow> keeps b (put k v b)"
proof (rule keeps_mutation [OF _ entry_map_put])
  assume inv: "buffer_inv b"
  show "\<forall>k'. flags_map (put k v b) k' \<noteq> Some 0"
    using insert_entry_flags_ok [OF inv] flags_ok [OF inv]
    by (auto simp: put_def split: option.splits buffer_entry.splits)
  show "primary_key (put k v b) = Some (case primary_key b of None \<Rightarrow> k | Some p \<Rightarrow> p)"
    using primary_Some [OF inv, of k] by (auto simp: put_def primary_key_ops split: option.splits buffer_entry.splits)
qed auto

lemma keeps_insert: "buffer_inv b \<Longrightarrow> keeps b (insert k v b)"
proof (rule keeps_mutation [OF _ entry_map_insert])
  assume inv: "buffer_inv b"
  show "\<forall>k'. flags_map (insert k v b) k' \<noteq> Some 0"
    using insert_entry_flags_ok [OF inv] flags_ok [OF inv]
    by (auto simp: insert_def split: option.splits buffer_entry.splits)
  show "primary_key (insert k v b) = Some (case primary_key b of None \<Rightarrow> k | Some p \<Rightarrow> p)"
    using primary_Some [OF inv, of k] by (auto simp: insert_def primary_key_ops split: option.splits buffer_entry.splits)
qed auto

lemma keeps_delete: "buffer_inv b \<Longrightarrow> keeps b (delete k b)"
proof (rule keeps_mutation [OF _ entry_map_delete])
  assume inv: "buffer_inv b"
  have f: "\<forall>k. flags_map (b\<lparr>entry_map := m\<rparr>) k \<noteq> Some 0" for m using flags_ok [OF inv] by simp
  show "\<forall>k'. flags_map (delete k b) k' \<noteq> Some 0"
    using insert_entry_flags_ok [OF inv] flags_nonzero_update [OF f] by (auto simp: delete_alt)
  show "primary_key (delete k b) = Some (case primary_key b of None \<Rightarrow> k | Some p \<Rightarrow> p)"
  proof (cases "checks_not_exist b k")
    case True
    then obtain e where "bt_get (entry_map b) k = Some e" "\<not> is_cached e"
      by (auto simp: checks_not_exist_def split: option.splits buffer_entry.splits)
    then show ?thesis using True primary_Some [OF inv] by (simp add: delete_alt)
  qed (simp add: delete_alt primary_key_ops)
qed auto

lemma keeps_lock: "buffer_inv b \<Longrightarrow> keeps b (lock k b)"
proof (rule keeps_mutation [OF _ entry_map_lock])
  assume inv: "buffer_inv b"
  then show "bt_inv (entry_map b)" by (simp add: buffer_inv_def)
  show "\<forall>k'. flags_map (lock k b) k' \<noteq> Some 0"
    using flags_ok [OF inv] by (auto simp: lock_def Let_def split: option.splits buffer_entry.splits)
qed (auto simp: primary_key_ops)

lemma keeps_flags: "buffer_inv b \<Longrightarrow> keeps b (update_key_flags k ops b)"
  using flags_nonzero_update [of b k ops] by (auto simp: keeps_def buffer_inv_def primary_mutated_def)

lemma keeps_update_cache: "buffer_inv b \<Longrightarrow> keeps b (fst (update_cache k v b))"
  by (auto simp: keeps_def buffer_inv_def primary_mutated_def entry_map_update_cache bt.inv_insert bt.get_insert
      is_cached_cache_entry split: option.splits if_splits)

lemma keeps_update_cache_all: "buffer_inv b \<Longrightarrow> keeps b (fst (update_cache_all ps b))"
proof (induction ps b rule: update_cache_all.induct)
  case (2 k v ps b)
  have k: "keeps b (fst (update_cache k (Some v) b))" using 2(2) by (rule keeps_update_cache)
  show ?case
  proof (cases "update_cache k (Some v) b")
    case (Pair b' r)
    show ?thesis
    proof (cases r)
      case (Inl e) then show ?thesis using k Pair by simp
    next
      case (Inr u)
      then have "keeps b' (fst (update_cache_all ps b'))"
        using 2(1) [OF Pair [symmetric] Inr] k Pair by (simp add: keeps_def)
      then show ?thesis using k Pair Inr by (auto intro: keeps_trans)
    qed
  qed
qed (simp add: keeps_refl)

lemma unlock_inv: "buffer_inv b \<Longrightarrow> buffer_inv (unlock k b)"
  by (auto simp: buffer_inv_def unlock_def bt.inv_insert bt.inv_remove bt.get_insert bt.get_remove is_cached_def
      split: option.splits buffer_entry.splits if_splits)

lemma get_or_else_buffer: "fst (get_or_else k f b) = b \<or> (\<exists>v. fst (get_or_else k f b) = fst (update_cache k v b))"
proof (cases "get_from_mutations b k")
  case Undetermined
  show ?thesis
  proof (cases "f k")
    case (Inr v)
    then have "fst (get_or_else k f b) = fst (update_cache k v b)"
      using Undetermined by (simp add: get_or_else_def split: prod.splits sum.splits)
    then show ?thesis by blast
  qed (simp add: Undetermined get_or_else_def)
qed (simp add: get_or_else_def)

lemma keeps_get_or_else: "buffer_inv b \<Longrightarrow> keeps b (fst (get_or_else k f b))"
  using get_or_else_buffer [of k f b] keeps_update_cache [of b k] keeps_refl [of b] by metis

lemma batch_get_buffer: "fst (batch_get_or_else ks g b) = b \<or> (\<exists>ps. fst (batch_get_or_else ks g b) = fst (update_cache_all ps b))"
proof (cases "g (filter (\<lambda>k. get_from_mutations b k = Undetermined) ks)")
  case (Inr fetched)
  then have "fst (batch_get_or_else ks g b) = fst (update_cache_all (map (\<lambda>p. (kp_key p, kp_value p)) fetched) b)"
    by (simp add: batch_get_or_else_def Let_def split: prod.splits sum.splits)
  then show ?thesis by blast
qed (simp add: batch_get_or_else_def Let_def)

lemma keeps_batch_get: "buffer_inv b \<Longrightarrow> keeps b (fst (batch_get_or_else ks g b))"
  using batch_get_buffer [of ks g b] keeps_update_cache_all [of b] keeps_refl [of b] by metis

lemma scan_buffer: "scan_and_fetch rng limit upd rv h b = Some out \<Longrightarrow>
    fst out = b \<or> (\<exists>ps. fst out = fst (update_cache_all ps b))"
proof -
  assume s: "scan_and_fetch rng limit upd rv h b = Some out"
  let ?ms = "bt_range rng (entry_map b)"
  have np: "\<not> range_panics rng" using s by (simp add: scan_and_fetch_def split: if_splits)
  show ?thesis
  proof (cases "h rng (redundant_limit limit ?ms)")
    case (Inl e) then show ?thesis using s np by (simp add: scan_and_fetch_def Let_def) (metis fst_conv)
  next
    case (Inr pairs)
    let ?res = "override_local ?ms (bt_collect (map (\<lambda>p. (kp_key p, kp_value p)) pairs))"
    show ?thesis
    proof (cases upd)
      case True
      then have "fst out = fst (update_cache_all ?res b)"
        using s np Inr by (auto simp: scan_and_fetch_def Let_def split: prod.splits sum.splits)
      then show ?thesis by blast
    next
      case False
      then show ?thesis using s np Inr by (auto simp: scan_and_fetch_def Let_def)
    qed
  qed
qed

lemma keeps_scan: "buffer_inv b \<Longrightarrow> scan_and_fetch rng limit upd rv h b = Some out \<Longrightarrow> keeps b (fst out)"
  using scan_buffer [of rng limit upd rv h b out] keeps_update_cache_all [of b] keeps_refl [of b] by metis

lemma keeps_read_cache: "buffer_inv b \<Longrightarrow> update_read_cache k v ts b = (b', r) \<Longrightarrow> keeps b b'"
proof -
  assume inv: "buffer_inv b" and u: "update_read_cache k v ts b = (b', r)"
  obtain b1 r1 where c: "update_cache k v b = (b1, r1)" by (cases "update_cache k v b")
  have "keeps b b1" using keeps_update_cache [OF inv, of k v] c by simp
  moreover have "keeps b1 (b1\<lparr>read_commit_ts := m\<rparr>)" if "buffer_inv b1" for m
    using that by (auto simp: keeps_def buffer_inv_def primary_mutated_def)
  ultimately show "keeps b b'" using u c
    by (auto simp: update_read_cache_def keeps_def split: sum.splits if_splits)
qed

lemma step_keeps: "buffer_step u b b' \<Longrightarrow> buffer_inv b \<Longrightarrow> keeps b b' \<or> (u \<and> (\<exists>k. b' = unlock k b))"
proof (elim buffer_step.cases, goal_cases)
  case (9 k f b0 b1 r) then show ?thesis using keeps_get_or_else [of b0 k f] by simp
next
  case (10 ks g b0 b1 r) then show ?thesis using keeps_batch_get [of b0 ks g] by simp
next
  case (11 rng limit upd rv h b0 b1 r) then show ?thesis using keeps_scan [of b0 rng limit upd rv h "(b1, r)"] by simp
next
  case (8 k v ts b0 b1 r) then show ?thesis using keeps_read_cache by blast
qed (auto simp: keeps_put keeps_insert keeps_delete keeps_lock keeps_flags set_assertion_def)

lemma reach_inv: "buffer_reach u pess b \<Longrightarrow> buffer_inv b \<and> (\<not> u \<longrightarrow> primary_mutated b)"
proof (induction rule: buffer_reach.induct)
  case reach_new
  show ?case by (auto simp: new_buffer_def buffer_inv_def primary_mutated_def)
next
  case (reach_step b b')
  then have "buffer_inv b" by simp
  from step_keeps [OF reach_step(2) this] show ?case
    using reach_step unlock_inv by (auto simp: keeps_def)
qed

subsection \<open>Reads through the buffer\<close>

lemma view_update_cache:
  assumes "bt_inv (entry_map b)" "v = store k" "get_from_mutations b k = Undetermined"
  shows "snd (update_cache k v b) = Inr () \<and> (\<forall>k'. view store (fst (update_cache k v b)) k' = view store b k')
     \<and> get_from_mutations (fst (update_cache k v b)) k = Determined v"
proof -
  have e: "bt_get (entry_map b) k = None \<or> bt_get (entry_map b) k = Some (Locked None)"
    using assms(3) by (auto simp: get_from_mutations_def split: option.splits elim!: get_value.elims)
  have "snd (update_cache k v b) = Inr ()" using e by (auto simp: update_cache_def)
  moreover have "view store (fst (update_cache k v b)) k' = view store b k'" for k'
    using assms e by (auto simp: view_def get_from_mutations_def entry_map_update_cache bt.get_insert cache_entry_def)
  moreover have "get_from_mutations (fst (update_cache k v b)) k = Determined v"
    using assms(1) e by (auto simp: get_from_mutations_def entry_map_update_cache bt.get_insert cache_entry_def)
  ultimately show ?thesis by blast
qed

lemma view_update_cache_same:
  assumes "bt_inv (entry_map b)" "v = view store b k"
  shows "snd (update_cache k v b) = Inr () \<and> (\<forall>k'. view store (fst (update_cache k v b)) k' = view store b k')"
proof (cases "get_from_mutations b k = Undetermined")
  case True
  then have "v = store k" using assms(2) by (simp add: view_def)
  then show ?thesis using view_update_cache [OF assms(1) _ True, of v store] by blast
next
  case False
  then show ?thesis using assms
    by (auto simp: update_cache_def view_def get_from_mutations_def split: option.splits buffer_entry.splits)
qed

lemma view_update_cache_all:
  "bt_inv (entry_map b) \<Longrightarrow> (\<forall>(k, v) \<in> set ps. view store b k = Some v) \<Longrightarrow>
   snd (update_cache_all ps b) = Inr () \<and> (\<forall>k'. view store (fst (update_cache_all ps b)) k' = view store b k')"
proof (induction ps b rule: update_cache_all.induct)
  case (2 k v ps b)
  obtain b' r where p: "update_cache k (Some v) b = (b', r)" by (cases "update_cache k (Some v) b")
  have s: "r = Inr ()" "\<And>k'. view store b' k' = view store b k'"
    using view_update_cache_same [OF 2(2), of "Some v" store k] 2(3) p by auto
  have "bt_inv (entry_map b')" using entry_map_update_cache [OF 2(2), of k "Some v"] p 2(2) by (simp add: bt.inv_insert)
  then show ?case using 2(1) [OF p [symmetric] s(1)] 2(3) p s by auto
qed simp

lemma get_or_else_view:
  assumes "bt_inv (entry_map b)"
  shows "snd (get_or_else k (\<lambda>k. Inr (store k)) b) = Inr (view store b k)
     \<and> (\<forall>k'. view store (fst (get_or_else k (\<lambda>k. Inr (store k)) b)) k' = view store b k')"
proof (cases "get_from_mutations b k")
  case (Determined v)
  then show ?thesis by (simp add: get_or_else_def view_def)
next
  case Undetermined
  from view_update_cache [OF assms refl Undetermined, of store] show ?thesis
    by (cases "update_cache k (store k) b") (simp add: get_or_else_def Undetermined view_def)
qed

lemma keeps_read_determined: "bt_inv (entry_map b) \<Longrightarrow>
   get_from_mutations (fst (get_or_else k (\<lambda>k. Inr (store k)) b)) k = Determined (view store b k)"
  using view_update_cache [of b "store k" store k]
  by (cases "get_from_mutations b k"; cases "update_cache k (store k) b")
     (simp_all add: get_or_else_def view_def)

lemma set_map_filter: "set (List.map_filter f xs) = {y. \<exists>x \<in> set xs. f x = Some y}"
  by (auto simp: List.map_filter_def image_iff) force

lemma cached_pair_iff:
  "(case mv of Determined (Some v) \<Rightarrow> Some (new_kv_pair k v) | Determined None \<Rightarrow> None | Undetermined \<Rightarrow> None) = Some y
     \<longleftrightarrow> (\<exists>v. mv = Determined (Some v) \<and> y = new_kv_pair k v)"
  by (cases mv) (auto split: option.splits)

lemma kv_new_kv_pair [simp]: "kp_key (new_kv_pair k v) = k" "kp_value (new_kv_pair k v) = v"
  by (simp_all add: new_kv_pair_def)

lemma batch_get_view:
  assumes "bt_inv (entry_map b)"
    and f: "f (filter (\<lambda>k. get_from_mutations b k = Undetermined) ks) = Inr fetched"
    and st: "(\<lambda>p. (kp_key p, kp_value p)) ` set fetched
       = {(k, v). k \<in> set ks \<and> get_from_mutations b k = Undetermined \<and> store k = Some v}"
  shows "\<exists>out. snd (batch_get_or_else ks f b) = Inr out
     \<and> (\<lambda>p. (kp_key p, kp_value p)) ` set out = {(k, v). k \<in> set ks \<and> view store b k = Some v}
     \<and> (\<forall>k'. view store (fst (batch_get_or_else ks f b)) k' = view store b k')"
proof -
  define kv :: "kv_pair \<Rightarrow> key \<times> val_bytes" where "kv = (\<lambda>p. (kp_key p, kp_value p))"
  define cached where "cached = List.map_filter (\<lambda>k. case get_from_mutations b k of
             Determined (Some v) \<Rightarrow> Some (new_kv_pair k v)
           | Determined None \<Rightarrow> None | Undetermined \<Rightarrow> None)
       (filter (\<lambda>k. get_from_mutations b k \<noteq> Undetermined) ks)"
  define upd where "upd = update_cache_all (map kv fetched) b"
  have kv: "kv (new_kv_pair k v) = (k, v)" for k v by (simp add: kv_def)
  have st': "kv ` set fetched = {(k, v). k \<in> set ks \<and> get_from_mutations b k = Undetermined \<and> store k = Some v}"
    using st by (simp add: kv_def)
  have "\<forall>(k, v) \<in> set (map kv fetched). view store b k = Some v"
    unfolding set_map st' by (simp add: view_def split: prod.splits)
  then have u: "snd upd = Inr ()" "\<And>k'. view store (fst upd) k' = view store b k'"
    using view_update_cache_all [OF assms(1)] unfolding upd_def by blast+
  have out: "batch_get_or_else ks f b = (fst upd, Inr (cached @ fetched))"
    using f u(1) unfolding batch_get_or_else_def Let_def cached_def [symmetric] kv_def [symmetric]
    by (cases upd) (simp add: upd_def)
  have "set cached = {new_kv_pair k v | k v. k \<in> set ks \<and> get_from_mutations b k = Determined (Some v)}"
    unfolding cached_def set_map_filter cached_pair_iff by auto
  then have "kv ` set cached = {(k, v). k \<in> set ks \<and> get_from_mutations b k = Determined (Some v)}"
    using kv by (auto simp: image_iff) metis
  then have "kv ` set (cached @ fetched) = {(k, v). k \<in> set ks \<and> view store b k = Some v}"
    unfolding set_append image_Un st' view_def by (auto split: mutation_value.splits)
  with out u(2) show ?thesis by (simp add: kv_def)
qed

end
