(* ===== verification/Txn_Scan.thy ===== *)
theory Txn_Scan
  imports Txn_Buffer
begin

text \<open>
  Correctness of scans over a transaction buffer (\<open>Buffer::scan_and_fetch\<close> in
  \<open>transaction/buffer.rs\<close>): fetching as many extra entries as the buffer has deletions in the range
  is enough for the first \<open>limit\<close> entries of the overlaid range, in both directions.
\<close>

subsection \<open>Scans\<close>

definition ord :: "bool \<Rightarrow> 'a list \<Rightarrow> 'a list" where
  "ord rv xs = (if rv then rev xs else xs)"

definition before :: "bool \<Rightarrow> key \<Rightarrow> key \<Rightarrow> bool" where
  "before rv a b = (if rv then b < a else a < b)"

lemma ord_sel [simp]: "length (ord rv xs) = length xs" "set (ord rv xs) = set xs"
  "map g (ord rv xs) = ord rv (map g xs)" "filter Q (ord rv xs) = ord rv (filter Q xs)"
  by (simp_all add: ord_def rev_map rev_filter)

lemma ord_sorted: "bt_inv m \<Longrightarrow> sorted_wrt (before rv) (map fst (ord rv m))"
  by (cases rv) (simp_all add: ord_def bt_inv_def sorted_wrt_rev rev_map [symmetric] before_def [abs_def]
      del: sorted_wrt_map)

lemma sorted_wrt_split:
  "sorted_wrt (before rv) (map fst xs) \<Longrightarrow>
   xs = filter (\<lambda>p. \<not> before rv x (fst p)) xs @ filter (\<lambda>p. before rv x (fst p)) xs"
proof (induction xs)
  case (Cons a xs)
  show ?case
  proof (cases "before rv x (fst a)")
    case True
    then have "\<forall>y \<in> set xs. before rv x (fst y)"
      using Cons.prems by (auto simp: before_def split: if_splits)
    then have "filter (\<lambda>p. \<not> before rv x (fst p)) xs = []" "filter (\<lambda>p. before rv x (fst p)) xs = xs"
      by (auto simp: filter_empty_conv filter_id_conv)
    with True show ?thesis by simp
  next
    case False
    with Cons show ?thesis by simp
  qed
qed simp

lemma take_overlay:
  assumes "bt_inv A" "bt_inv B" "\<And>k. \<not> before rv x k \<Longrightarrow> bt_get A k = bt_get B k"
    and "n \<le> length (filter (\<lambda>p. \<not> before rv x (fst p)) A)"
  shows "take n (ord rv A) = take n (ord rv B)"
proof -
  let ?P = "\<lambda>k. \<not> before rv x k"
  have AB: "filter (\<lambda>p. ?P (fst p)) A = filter (\<lambda>p. ?P (fst p)) B"
    using bt.entries_determined [OF bt_inv_filter bt_inv_filter, OF assms(1,2)]
      bt_get_filter [OF assms(1), of ?P] bt_get_filter [OF assms(2), of ?P] assms(3) by metis
  have A: "take n (ord rv m) = take n (ord rv (filter (\<lambda>p. ?P (fst p)) m))"
    if "bt_inv m" "n \<le> length (filter (\<lambda>p. ?P (fst p)) m)" for m :: "(key \<times> 'a) list"
  proof -
    have "ord rv m = ord rv (filter (\<lambda>p. ?P (fst p)) m) @ ord rv (filter (\<lambda>p. before rv x (fst p)) m)"
      using sorted_wrt_split [OF ord_sorted [OF that(1), of rv], of x] by simp
    from arg_cong [OF this, of "take n"] that(2) show ?thesis by simp
  qed
  show ?thesis using A [OF assms(1,4)] A [OF assms(2)] assms(4) AB by simp
qed

lemma bt_collect_inv: "bt_inv (bt_collect ps)"
proof -
  have "bt_inv m \<Longrightarrow> bt_inv (fold (\<lambda>(k, v) m. bt_insert k v m) ps m)" for m
    by (induction ps arbitrary: m) (auto simp: bt.inv_insert)
  then show ?thesis by (simp add: bt_collect_def)
qed

lemma bt_collect_get: "distinct (map fst ps) \<Longrightarrow> bt_get (bt_collect ps) k = map_of ps k"
proof -
  have "distinct (map fst ps) \<Longrightarrow> bt_inv m \<Longrightarrow> bt_get (fold (\<lambda>(k, v) m. bt_insert k v m) ps m) k
      = (case map_of ps k of Some v \<Rightarrow> Some v | None \<Rightarrow> bt_get m k)" for m
  proof (induction ps arbitrary: m)
    case (Cons p ps)
    obtain k1 v1 where p: "p = (k1, v1)" by (cases p)
    have "map_of ps k1 = None" using Cons.prems(1) p by (simp add: map_of_eq_None_iff)
    then show ?case using Cons by (auto simp: p bt.inv_insert bt.get_insert split: option.splits)
  qed simp
  from this [of "[]"] show "distinct (map fst ps) \<Longrightarrow> ?thesis" by (simp add: bt_collect_def split: option.splits)
qed

lemma override_local_inv: "bt_inv m \<Longrightarrow> bt_inv (override_local ms m)"
  unfolding override_local_def
  by (induction ms arbitrary: m) (auto simp: bt.inv_insert bt.inv_remove split: buffer_entry.splits)

definition overlay :: "buffer_entry option \<Rightarrow> val_bytes option \<Rightarrow> val_bytes option" where
  "overlay e old = (case e of Some (EPut v) \<Rightarrow> Some v | Some EDel \<Rightarrow> None | _ \<Rightarrow> old)"

lemma override_local_get:
  "bt_inv ms \<Longrightarrow> bt_inv m \<Longrightarrow> bt_get (override_local ms m) k = overlay (bt_get ms k) (bt_get m k)"
proof (induction ms arbitrary: m)
  case (Cons p ms)
  obtain k1 e where p: "p = (k1, e)" by (cases p)
  define m1 where "m1 = (case e of EPut v \<Rightarrow> bt_insert k1 v m | EDel \<Rightarrow> bt_remove k1 m | _ \<Rightarrow> m)"
  have m1: "bt_inv m1" "\<And>k. bt_get m1 k = (if k = k1 then overlay (Some e) (bt_get m k) else bt_get m k)"
    using Cons.prems(2) by (auto simp: m1_def overlay_def bt.inv_insert bt.inv_remove bt.get_insert bt.get_remove
        split: buffer_entry.splits)
  have "override_local (p # ms) m = override_local ms m1"
    by (simp add: override_local_def p m1_def)
  moreover have "bt_get ms k1 = None"
    using Cons.prems(1) by (force simp: p bt_inv_Cons bt_get_def map_of_eq_None_iff)
  moreover have "bt_inv ms" using Cons.prems(1) by (simp add: bt_inv_Cons)
  ultimately show ?case using Cons.IH [OF _ m1(1)] m1(2) [of k]
    by (cases "k = k1") (simp_all add: p bt_get_def overlay_def [of None])
qed (simp add: override_local_def overlay_def)

text \<open>Fetching a prefix of the range that is long enough gives the same first entries.\<close>

lemma take_before_last:
  assumes "sorted_wrt (before rv) (map fst xs)" "0 < n" "n \<le> length xs"
  shows "filter (\<lambda>p. \<not> before rv (fst (xs ! (n - 1))) (fst p)) xs = take n xs"
proof -
  let ?x = "fst (xs ! (n - 1))"
  have lt: "before rv (fst (xs ! i)) (fst (xs ! j))" if "i < j" "j < length xs" for i j
    using assms(1) that by (simp add: sorted_wrt_iff_nth_less)
  have asym: "before rv a b \<Longrightarrow> \<not> before rv b a" for a b by (auto simp: before_def split: if_splits)
  have "\<forall>p \<in> set (take n xs). \<not> before rv ?x (fst p)"
  proof
    fix p assume "p \<in> set (take n xs)"
    then obtain i where i: "i < n" "i < length xs" "p = xs ! i" by (auto simp: in_set_conv_nth)
    show "\<not> before rv ?x (fst p)"
    proof (cases "i = n - 1")
      case True then show ?thesis using i asym [of ?x ?x] by (auto simp: before_def)
    next
      case False
      then show ?thesis using lt [of i "n - 1"] i assms asym by auto
    qed
  qed
  moreover have "\<forall>p \<in> set (drop n xs). before rv ?x (fst p)"
  proof
    fix p assume "p \<in> set (drop n xs)"
    then obtain i where "i < length xs - n" "p = xs ! (n + i)" by (auto simp: in_set_conv_nth)
    then show "before rv ?x (fst p)" using lt [of "n - 1" "n + i"] assms(2) by simp
  qed
  ultimately have "filter (\<lambda>p. \<not> before rv ?x (fst p)) (take n xs @ drop n xs) = take n xs"
    by (simp only: filter_append) (simp add: filter_id_conv filter_empty_conv)
  then show ?thesis by simp
qed

lemma map_of_filter_fst: "map_of (filter (\<lambda>p. P (fst p)) xs) k = (if P k then map_of xs k else None)"
  by (induction xs) auto

lemma ord_map_of: "bt_inv m \<Longrightarrow> map_of (ord rv m) = map_of m"
proof (cases rv)
  case True
  assume "bt_inv m"
  then have d: "distinct (map fst m)" by (rule bt.distinct_keys)
  show "map_of (ord rv m) = map_of m"
    unfolding ord_def using True d by (subst map_of_inject_set) (simp_all add: rev_map [symmetric])
qed (simp add: ord_def)

lemma ord_distinct: "bt_inv m \<Longrightarrow> distinct (map fst (ord rv m))"
  using bt.distinct_keys [of m] by (cases rv) (simp_all add: ord_def rev_map [symmetric])

lemma scan_first_entries:
  assumes R: "bt_inv R" and ms: "bt_inv ms"
    and n: "l + length (filter (\<lambda>(k, m). m = EDel) ms) \<le> n"
  shows "take l (ord rv (override_local ms (bt_collect (take n (ord rv R)))))
       = take l (ord rv (override_local ms R))"
proof -
  define F where "F = take n (ord rv R)"
  define A where "A = override_local ms (bt_collect F)"
  define M where "M = override_local ms R"
  have dF: "distinct (map fst F)" unfolding F_def using distinct_take [OF ord_distinct [OF R, of rv], of n] by (simp only: take_map)
  have invs: "bt_inv A" "bt_inv M" unfolding A_def M_def using override_local_inv bt_collect_inv R by auto
  have getA: "bt_get A k = overlay (bt_get ms k) (map_of F k)" for k
    unfolding A_def using override_local_get [OF ms bt_collect_inv] bt_collect_get [OF dF] by simp
  have getM: "bt_get M k = overlay (bt_get ms k) (bt_get R k)" for k
    unfolding M_def using override_local_get [OF ms R] .
  have "take l (ord rv A) = take l (ord rv M)"
  proof (cases "length R \<le> n")
    case True
    then have "map_of F k = bt_get R k" for k by (simp add: F_def ord_map_of [OF R] bt_get_def)
    then have "A = M" using bt.entries_determined [OF invs] getA getM by simp
    then show ?thesis by simp
  next
    case False
    show ?thesis
    proof (cases "n = 0")
      case True
      then show ?thesis using n by simp
    next
      case n0: False
      define x where "x = fst (ord rv R ! (n - 1))"
      have F: "F = filter (\<lambda>p. \<not> before rv x (fst p)) (ord rv R)"
        unfolding F_def x_def using take_before_last [OF ord_sorted [OF R]] n0 False by simp
      have FR: "map_of F k = (if before rv x k then None else bt_get R k)" for k
        unfolding F map_of_filter_fst [where P = "\<lambda>k. \<not> before rv x k"] ord_map_of [OF R] by (simp add: bt_get_def)
      let ?A = "filter (\<lambda>p. \<not> before rv x (fst p)) A"
      let ?D = "fst ` set (filter (\<lambda>(k, m). m = EDel) ms)"
      have "fst ` set F - ?D \<subseteq> fst ` set ?A"
      proof
        fix k assume k: "k \<in> fst ` set F - ?D"
        then obtain v where v: "map_of F k = Some v" using map_of_eq_None_iff [of F k] by auto
        have "bt_get ms k \<noteq> Some EDel"
        proof
          assume "bt_get ms k = Some EDel"
          then have "(k, EDel) \<in> set (filter (\<lambda>(k, m). m = EDel) ms)" using bt.in_entries [OF ms] by simp
          then have "k \<in> ?D" by (rule image_eqI [rotated]) simp
          with k show False by blast
        qed
        then have "\<exists>w. overlay (bt_get ms k) (Some v) = Some w"
          by (auto simp: overlay_def split: option.splits buffer_entry.splits)
        then obtain w where "bt_get A k = Some w" unfolding getA v by blast
        then have "(k, w) \<in> set A" using bt.in_entries [OF invs(1)] by simp
        moreover have "\<not> before rv x k" using v FR [of k] by (auto split: if_splits)
        ultimately have "(k, w) \<in> set ?A" by simp
        then show "k \<in> fst ` set ?A" by (rule image_eqI [rotated]) simp
      qed
      then have "card (fst ` set F - ?D) \<le> card (fst ` set ?A)" by (intro card_mono) auto
      moreover have "card (fst ` set F) = n"
        using distinct_card [OF dF] False by (simp add: F_def)
      moreover have "card ?D \<le> length (filter (\<lambda>(k, m). m = EDel) ms)"
        by (rule order_trans [OF card_image_le card_length]) simp
      moreover have "card (fst ` set F) - card ?D \<le> card (fst ` set F - ?D)" by (rule diff_card_le_card_Diff) simp
      moreover have "card (fst ` set ?A) \<le> length ?A" by (rule order_trans [OF card_image_le card_length]) simp
      ultimately have "l \<le> length ?A" using n by linarith
      then show ?thesis
        using take_overlay [OF invs, of rv x l] getA getM FR by simp
    qed
  qed
  then show ?thesis unfolding A_def M_def F_def .
qed

text \<open>The buffer agrees with the snapshot on what it has cached, and has no insertion or
  not-exist check inside the range.\<close>

definition scan_consistent :: "bound_range \<Rightarrow> (key \<Rightarrow> val_bytes option) \<Rightarrow> buffer \<Rightarrow> bool" where
  "scan_consistent r store b \<longleftrightarrow> list_all (\<lambda>(k, e). in_bounds r k \<longrightarrow>
     (case e of Cached v \<Rightarrow> v = store k | Locked (Some v) \<Rightarrow> v = store k
      | EInsert _ \<Rightarrow> False | ECheckNotExist \<Rightarrow> False | _ \<Rightarrow> True)) (entry_map b)"

text \<open>What TiKV answers to a scan: the first \<open>n\<close> pairs of the snapshot in the range.\<close>

definition tikv_scan :: "bool \<Rightarrow> (key \<times> val_bytes) list \<Rightarrow> bound_range \<Rightarrow> u32 \<Rightarrow> kv_pair list res" where
  "tikv_scan rv store r n = Inr (map (\<lambda>(k, v). new_kv_pair k v) (take (unat n) (ord rv (bt_range r store))))"

lemma bt_get_range: "bt_inv m \<Longrightarrow> bt_get (bt_range r m) k = (if in_bounds r k then bt_get m k else None)"
  unfolding bt_range_def by (rule bt_get_filter [where P = "in_bounds r"])

lemma overlay_view:
  assumes "bt_inv (entry_map b)" "scan_consistent r store b" "in_bounds r k"
  shows "overlay (bt_get (entry_map b) k) (store k) = view store b k"
proof (cases "bt_get (entry_map b) k")
  case (Some e)
  then have "(k, e) \<in> set (entry_map b)" using bt.in_entries [OF assms(1)] by simp
  with assms(2,3) have "case e of Cached v \<Rightarrow> v = store k | Locked (Some v) \<Rightarrow> v = store k
      | EInsert _ \<Rightarrow> False | ECheckNotExist \<Rightarrow> False | _ \<Rightarrow> True"
    by (auto simp: scan_consistent_def list_all_iff)
  then show ?thesis using Some
    by (auto simp: overlay_def view_def get_from_mutations_def split: buffer_entry.splits option.splits)
qed (simp add: overlay_def view_def get_from_mutations_def)

lemma redundant_limit_enough:
  "unat limit + length (filter (\<lambda>(k, m). m = EDel) ms) < 2 ^ 32 \<Longrightarrow>
   unat (redundant_limit limit ms) = unat limit + length (filter (\<lambda>(k, m). m = EDel) ms)"
  by (simp add: redundant_limit_def unat_saturating_add count_u32_def unat_of_nat)

lemma scan_results:
  fixes rv :: bool
  assumes inv: "bt_inv (entry_map b)" and st: "bt_inv store"
    and con: "scan_consistent r (bt_get store) b"
    and lim: "unat limit + length (filter (\<lambda>(k, m). m = EDel) (bt_range r (entry_map b))) < 2 ^ 32"
  defines "ms \<equiv> bt_range r (entry_map b)" and "R \<equiv> bt_range r store"
  defines "res \<equiv> override_local ms (bt_collect (take (unat (redundant_limit limit ms)) (ord rv R)))"
  shows "take (unat limit) (ord rv res) = take (unat limit) (ord rv (override_local ms R))"
    and "bt_inv (override_local ms R)"
    and "\<And>k. bt_get (override_local ms R) k = (if in_bounds r k then view (bt_get store) b k else None)"
    and "\<forall>(k, v) \<in> set res. view (bt_get store) b k = Some v"
proof -
  have ms: "bt_inv ms" and R: "bt_inv R"
    unfolding ms_def R_def bt_range_def by (simp_all add: bt_inv_filter inv st)
  show "take (unat limit) (ord rv res) = take (unat limit) (ord rv (override_local ms R))"
    unfolding res_def by (rule scan_first_entries [OF R ms]) (use redundant_limit_enough lim in \<open>simp add: ms_def\<close>)
  show "bt_inv (override_local ms R)" by (rule override_local_inv [OF R])
  show g: "bt_get (override_local ms R) k = (if in_bounds r k then view (bt_get store) b k else None)" for k
    unfolding override_local_get [OF ms R] unfolding ms_def R_def bt_get_range [OF inv] bt_get_range [OF st]
    using overlay_view [OF inv con, of k] by (simp add: overlay_def)
  let ?F = "take (unat (redundant_limit limit ms)) (ord rv R)"
  have dF: "distinct (map fst ?F)"
    using distinct_take [OF ord_distinct [OF R, of rv]] by (simp only: take_map)
  show "\<forall>(k, v) \<in> set res. view (bt_get store) b k = Some v"
  proof (clarify)
    fix k v assume "(k, v) \<in> set res"
    then have kv: "overlay (bt_get ms k) (map_of ?F k) = Some v"
      using bt.in_entries [OF override_local_inv [OF bt_collect_inv]] override_local_get [OF ms bt_collect_inv]
        bt_collect_get [OF dF] unfolding res_def by simp
    have "overlay (bt_get ms k) (bt_get R k) = Some v"
    proof (cases "map_of ?F k")
      case None
      then show ?thesis using kv by (auto simp: overlay_def split: option.splits buffer_entry.splits)
    next
      case (Some w)
      then have "(k, w) \<in> set R" using map_of_SomeD in_set_takeD by fastforce
      then have "bt_get R k = Some w" using bt.in_entries [OF R] by simp
      then show ?thesis using kv Some by simp
    qed
    then show "view (bt_get store) b k = Some v"
      using g [of k] override_local_get [OF ms R, of k] by (simp split: if_splits)
  qed
qed

lemma scan_and_fetch_tikv:
  assumes inv: "bt_inv (entry_map b)" and st: "bt_inv store" and np: "\<not> range_panics r"
    and con: "scan_consistent r (bt_get store) b"
    and lim: "unat limit + length (filter (\<lambda>(k, m). m = EDel) (bt_range r (entry_map b))) < 2 ^ 32"
  shows "\<exists>b' M. scan_and_fetch r limit upd rv (tikv_scan rv store) b
       = Some (b', Inr (map (\<lambda>(k, v). new_kv_pair k v) (take (unat limit) (ord rv M))))
     \<and> bt_inv M \<and> (\<forall>k. bt_get M k = (if in_bounds r k then view (bt_get store) b k else None))
     \<and> (\<forall>k. view (bt_get store) b' k = view (bt_get store) b k)"
proof -
  define ms where "ms = bt_range r (entry_map b)"
  define F where "F = take (unat (redundant_limit limit ms)) (ord rv (bt_range r store))"
  define res where "res = override_local ms (bt_collect F)"
  define M where "M = override_local ms (bt_range r store)"
  note R1 = scan_results(1) [OF inv st con lim, of rv, folded ms_def, folded F_def, folded res_def M_def]
  note R2 = scan_results(2) [OF inv st con lim, folded ms_def, folded M_def]
  note R3 = scan_results(3) [OF inv st con lim, folded ms_def, folded M_def]
  note R4 = scan_results(4) [OF inv st con lim, of rv, folded ms_def, folded F_def, folded res_def]
  have mF: "map (\<lambda>p. (kp_key p, kp_value p)) (map (\<lambda>(k, v). new_kv_pair k v) F) = F"
    by (simp add: comp_def case_prod_beta)
  have f: "tikv_scan rv store r (redundant_limit limit ms) = Inr (map (\<lambda>(k, v). new_kv_pair k v) F)"
    by (simp add: tikv_scan_def F_def)
  let ?out = "map (\<lambda>(k, v). new_kv_pair k v) (take (unat limit) (ord rv M))"
  have out: "take (unat limit) (map (\<lambda>(k, v). new_kv_pair k v) (if rv then rev res else res)) = ?out"
    unfolding ord_def [symmetric] by (simp only: take_map R1)
  obtain b1 u where u: "update_cache_all res b = (b1, u)" by (cases "update_cache_all res b")
  have vu: "u = Inr ()" "\<And>k. view (bt_get store) b1 k = view (bt_get store) b k"
    using view_update_cache_all [OF inv R4] u by auto
  have "scan_and_fetch r limit upd rv (tikv_scan rv store) b = Some (if upd then b1 else b, Inr ?out)"
    unfolding scan_and_fetch_def Let_def ms_def [symmetric] f sum.case mF res_def [symmetric] out using np
    by (cases upd) (simp_all add: u vu(1))
  moreover have "view (bt_get store) (if upd then b1 else b) k = view (bt_get store) b k" for k
    using vu(2) by simp
  ultimately show ?thesis using R2 R3 by blast
qed

subsection \<open>What the buffer guarantees\<close>

text \<open>Every sequence of buffer operations keeps the buffer well-formed: the entry map stays
  ordered, no default flag is stored, and without a primary key the buffer holds only cached
  reads. As long as nothing is unlocked, the primary key is a key with a mutation, so that the
  check in \<open>commit\<close> that an empty transaction has no primary key cannot fail.\<close>

theorem buffer_reachable_invariant:
  assumes "buffer_reach unlocking pess b"
  shows "buffer_inv b \<and> (\<not> unlocking \<longrightarrow> to_proto_mutations b level = [] \<longrightarrow> get_primary_key b = None)"
proof -
  have inv: "buffer_inv b" and pm: "\<not> unlocking \<Longrightarrow> primary_mutated b" using reach_inv [OF assms] by auto
  have "get_primary_key b = None" if nu: "\<not> unlocking" and em: "to_proto_mutations b level = []"
  proof (rule ccontr)
    assume "get_primary_key b \<noteq> None"
    then obtain p where p: "primary_key b = Some p" by (auto simp: get_primary_key_def)
    then obtain e where e: "bt_get (entry_map b) p = Some e" "\<not> is_cached e"
      using pm [OF nu] by (auto simp: primary_mutated_def)
    then have "(p, e) \<in> set (entry_map b)" using inv bt.in_entries [of "entry_map b" p e] by (simp add: buffer_inv_def)
    moreover obtain m where "lower_entry b level p e = Some m"
      using e(2) by (cases e) (auto simp: lower_entry_def is_cached_def Let_def)
    ultimately have "m \<in> set (to_proto_mutations b level)"
      unfolding to_proto_mutations_def set_map_filter by force
    with em show False by simp
  qed
  with inv show ?thesis by blast
qed

theorem buffer_reachable_invariant_witness:
  "buffer_inv (delete [2] (put [1] [9] (new_buffer False)))"
proof -
  have "buffer_reach False False (delete [2] (put [1] [9] (new_buffer False)))"
    by (rule reach_step [OF reach_step [OF reach_new step_put] step_delete])
  from buffer_reachable_invariant [OF this] show ?thesis by blast
qed

text \<open>Unlocking a key (the rollback of a failed pessimistic lock request) can leave a primary key
  behind with no mutation in the buffer, the state that the check in \<open>commit\<close> panics on.\<close>

theorem unlock_strands_primary_key:
  "to_proto_mutations (unlock k (lock k (new_buffer True))) level = []
   \<and> get_primary_key (unlock k (lock k (new_buffer True))) = Some k
   \<and> buffer_reach True True (unlock k (lock k (new_buffer True)))"
proof -
  have "buffer_reach True True (unlock k (lock k (new_buffer True)))"
    by (rule reach_step [OF reach_step [OF reach_new step_lock] step_unlock]) simp
  then show ?thesis
    by (simp add: unlock_def lock_def new_buffer_def primary_key_or_def to_proto_mutations_def
        get_primary_key_def bt_get_def List.map_filter_def)
qed

text \<open>C19: a transaction reads its own writes: after a put or an insert the buffer gives the written
  value, after a delete it gives no value, and no operation changes what is read at another
  key.\<close>

theorem read_your_writes:
  assumes "buffer_inv b"
  shows "buffer_get (put k v b) k = Some v \<and> buffer_get (insert k v b) k = Some v
    \<and> get_from_mutations (delete k b) k = Determined None
    \<and> (k' \<noteq> k \<longrightarrow> get_from_mutations (put k v b) k' = get_from_mutations b k'
        \<and> get_from_mutations (insert k v b) k' = get_from_mutations b k'
        \<and> get_from_mutations (delete k b) k' = get_from_mutations b k')
    \<and> get_from_mutations (lock k b) k' = get_from_mutations b k'
    \<and> view store (unlock k b) k' = view store b k'"
proof -
  have inv: "bt_inv (entry_map b)" using assms by (simp add: buffer_inv_def)
  have "get_from_mutations (lock k b) k' = get_from_mutations b k'"
    by (auto simp: get_from_mutations_def entry_map_lock [OF inv] bt.get_insert [OF inv] lock_entry_def
        split: option.splits buffer_entry.splits)
  moreover have "view store (unlock k b) k' = view store b k'"
    by (auto simp: view_def get_from_mutations_def unlock_def bt.get_insert [OF inv] bt.get_remove [OF inv]
        split: option.splits buffer_entry.splits)
  ultimately show ?thesis
    by (auto simp: buffer_get_def get_from_mutations_def entry_map_put entry_map_insert entry_map_delete
        bt.get_insert [OF inv] put_entry_def ins_entry_def split: option.splits buffer_entry.splits)
qed

theorem read_your_writes_witness:
  "buffer_get (put [1] [7] (new_buffer False)) [1] = Some [7]"
  using read_your_writes [of "new_buffer False" "[1]" "[7]"]
  by (simp add: buffer_inv_def new_buffer_def)

text \<open>A read through the buffer returns what the transaction sees (its own writes over the
  snapshot), never fails on a consistent snapshot, changes nothing that the transaction sees, and
  is repeatable: afterwards the buffer itself determines the value.\<close>

theorem get_or_else_correct:
  assumes "buffer_inv b" "get_or_else k (\<lambda>k. Inr (store k)) b = (b', r)"
  shows "r = Inr (view store b k) \<and> view store b' k' = view store b k'
     \<and> get_from_mutations b' k = Determined (view store b k)"
  using get_or_else_view [of b k store] keeps_read_determined [of b k store] assms by (simp add: buffer_inv_def)

theorem get_or_else_correct_witness:
  "snd (get_or_else [3] (\<lambda>k. Inr (if k = [3] then Some [8] else None)) (put [1] [7] (new_buffer False))) = Inr (Some [8])"
proof -
  let ?st = "\<lambda>k. if k = [3] then Some [8] else None" and ?b = "put [1] [7] (new_buffer False)"
  obtain b' r where g: "get_or_else [3] (\<lambda>k. Inr (?st k)) ?b = (b', r)"
    by (cases "get_or_else [3] (\<lambda>k. Inr (?st k)) ?b")
  have i: "buffer_inv ?b" using keeps_put [of "new_buffer False" "[1]" "[7]"]
    by (simp add: keeps_def buffer_inv_def new_buffer_def)
  have "view ?st ?b [3] = Some [8]"
    by (simp add: view_def get_from_mutations_def entry_map_put new_buffer_def bt_get_def)
  then show ?thesis using get_or_else_correct [OF i g] g by simp
qed

text \<open>C20: a batch read returns exactly the keys asked for that have a value in the transaction's
  view, with that value, provided the store answers the undetermined keys from its snapshot; the
  view does not change.\<close>

theorem batch_get_or_else_correct:
  assumes "buffer_inv b"
    and "f (filter (\<lambda>k. get_from_mutations b k = Undetermined) ks) = Inr fetched"
    and "(\<lambda>p. (kp_key p, kp_value p)) ` set fetched
       = {(k, v). k \<in> set ks \<and> get_from_mutations b k = Undetermined \<and> store k = Some v}"
  shows "\<exists>out. snd (batch_get_or_else ks f b) = Inr out
     \<and> (\<lambda>p. (kp_key p, kp_value p)) ` set out = {(k, v). k \<in> set ks \<and> view store b k = Some v}
     \<and> (\<forall>k'. view store (fst (batch_get_or_else ks f b)) k' = view store b k')"
proof -
  have "bt_inv (entry_map b)" using assms(1) by (simp add: buffer_inv_def)
  from batch_get_view [of b f ks fetched store, OF this assms(2,3)] show ?thesis .
qed

theorem batch_get_or_else_correct_witness:
  "\<exists>out. snd (batch_get_or_else [[1], [3]] (\<lambda>ks. Inr [new_kv_pair [3] [8]]) (put [1] [7] (new_buffer False))) = Inr out
     \<and> (\<lambda>p. (kp_key p, kp_value p)) ` set out
        = {(k, v). k \<in> set [[1], [3]] \<and> view (\<lambda>k. if k = [3] then Some [8] else None) (put [1] [7] (new_buffer False)) k = Some v}"
proof -
  let ?st = "\<lambda>k. if k = [3] then Some [8 :: byte] else None" and ?b = "put [1] [7] (new_buffer False)"
  have i: "buffer_inv ?b" using keeps_put [of "new_buffer False" "[1]" "[7]"]
    by (simp add: keeps_def buffer_inv_def new_buffer_def)
  have g: "get_from_mutations ?b [1] = Determined (Some [7])" "get_from_mutations ?b [3] = Undetermined"
    by (simp_all add: get_from_mutations_def entry_map_put new_buffer_def bt_get_def put_entry_def)
  have "(\<lambda>p. (kp_key p, kp_value p)) ` set [new_kv_pair [3] [8]]
      = {(k, v). k \<in> set [[1], [3]] \<and> get_from_mutations ?b k = Undetermined \<and> ?st k = Some v}"
    by (auto simp: g split: if_splits)
  from batch_get_or_else_correct [of ?b "\<lambda>ks. Inr [new_kv_pair [3] [8]]", OF i refl this] show ?thesis by blast
qed

text \<open>C3: a scan returns the first \<open>limit\<close> pairs of the range in the transaction's view, in the
  requested direction. The buffer must be consistent with the snapshot in the range and hold no
  insertion there, the store answers with the first pairs of its snapshot, and the limit plus the
  number of buffered deletions fits in 32 bits.\<close>

theorem scan_and_fetch_correct:
  assumes "buffer_inv b" "bt_inv store" "\<not> range_panics r" "scan_consistent r (bt_get store) b"
    and "unat limit + length (filter (\<lambda>(k, m). m = EDel) (bt_range r (entry_map b))) < 2 ^ 32"
  shows "\<exists>b' M. scan_and_fetch r limit upd rv (tikv_scan rv store) b
       = Some (b', Inr (map (\<lambda>(k, v). new_kv_pair k v) (take (unat limit) (ord rv M))))
     \<and> bt_inv M \<and> (\<forall>k. bt_get M k = (if in_bounds r k then view (bt_get store) b k else None))
     \<and> (\<forall>k. view (bt_get store) b' k = view (bt_get store) b k)"
  using scan_and_fetch_tikv [OF _ assms(2,3,4,5)] assms(1) by (simp add: buffer_inv_def)

theorem scan_and_fetch_correct_witness:
  "\<exists>b' M. scan_and_fetch (from_range [1] [5]) 1 True False (tikv_scan False [([2], [20]), ([3], [30])])
       (delete [2] (new_buffer False))
     = Some (b', Inr (map (\<lambda>(k, v). new_kv_pair k v) (take 1 M)))
   \<and> bt_get M [2] = None \<and> bt_get M [3] = Some [30]"
proof -
  let ?b = "delete [2] (new_buffer False)" and ?st = "[([2], [20]), ([3], [30])] :: (key \<times> val_bytes) list"
  have e: "entry_map ?b = [([2], EDel)]"
    by (simp add: entry_map_delete checks_not_exist_def new_buffer_def bt_get_def)
  have i: "buffer_inv ?b" using keeps_delete [of "new_buffer False" "[2]"]
    by (simp add: keeps_def buffer_inv_def new_buffer_def)
  have b: "in_bounds (from_range [1] [5]) k \<longleftrightarrow> [1] \<le> k \<and> k < [5]" for k
    by (simp add: in_bounds_def from_range_def new_bound_range_def start_bound_def end_bound_def is_empty_def)
  have np: "\<not> range_panics (from_range [1] [5])"
    by (simp add: range_panics_def from_range_def new_bound_range_def start_bound_def end_bound_def is_empty_def)
  have c: "scan_consistent (from_range [1] [5]) (bt_get ?st) ?b"
    by (simp add: scan_consistent_def e)
  have st: "bt_inv ?st" by (simp add: bt_inv_def)
  have l: "unat (1 :: u32) + length (filter (\<lambda>(k, m). m = EDel) (bt_range (from_range [1] [5]) (entry_map ?b))) < 2 ^ 32"
    by (simp add: e bt_range_def)
  have v: "view (bt_get ?st) ?b [2] = None" "view (bt_get ?st) ?b [3] = Some [30]"
    by (simp_all add: view_def get_from_mutations_def e bt_get_def)
  from scan_and_fetch_correct [OF i st np c l, of True False] obtain b' M where
    M: "scan_and_fetch (from_range [1] [5]) 1 True False (tikv_scan False ?st) ?b
       = Some (b', Inr (map (\<lambda>(k, v). new_kv_pair k v) (take (unat (1 :: u32)) (ord False M))))"
    "\<forall>k. bt_get M k = (if in_bounds (from_range [1] [5]) k then view (bt_get ?st) ?b k else None)"
    by blast
  show ?thesis using M v by (intro exI [of _ b'] exI [of _ M]) (simp add: b ord_def)
qed

text \<open>A scan does not see the transaction's own insertions: with an insertion buffered in the
  range and an empty store, \<open>get\<close> returns the inserted value and the scan returns nothing.\<close>

theorem scan_misses_insert:
  "buffer_get (insert [2] [7] (new_buffer False)) [2] = Some [7]
   \<and> scan_and_fetch (from_range [1] [5]) 10 True False (tikv_scan False []) (insert [2] [7] (new_buffer False))
     = Some (insert [2] [7] (new_buffer False), Inr [])"
proof -
  have e: "entry_map (insert [2] [7] (new_buffer False)) = [([2], EInsert [7])]"
    by (simp add: entry_map_insert ins_entry_def new_buffer_def bt_get_def)
  then show ?thesis
    by (simp add: buffer_get_def get_from_mutations_def bt_get_def scan_and_fetch_def range_panics_def from_range_def
        new_bound_range_def start_bound_def end_bound_def is_empty_def bt_range_def in_bounds_def tikv_scan_def
        override_local_def bt_collect_def ord_def Let_def)
qed



end
