(* ===== verification/Timestamp.thy ===== *)
theory Timestamp
  imports Errors
begin

text \<open>
  Timestamps of the oracle (\<open>timestamp.rs\<close>): a physical part in milliseconds and an 18-bit logical
  part, packed into 64 bits. The 64-bit and 128-bit signed integers of the source are integers with
  their range checks written out; a system time is its signed distance in milliseconds from the
  Unix epoch.
\<close>

unbundle bit_operations_syntax

definition PHYSICAL_SHIFT_BITS :: nat where "PHYSICAL_SHIFT_BITS = 18"
definition LOGICAL_MASK :: int where "LOGICAL_MASK = push_bit PHYSICAL_SHIFT_BITS 1 - 1"

record timestamp =
  physical :: int
  logical :: int
  suffix_bits :: nat

definition in_u64 :: "int \<Rightarrow> bool" where
  "in_u64 x \<longleftrightarrow> 0 \<le> x \<and> x < 2 ^ 64"

definition in_i64 :: "int \<Rightarrow> bool" where
  "in_i64 x \<longleftrightarrow> - (2 ^ 63) \<le> x \<and> x < 2 ^ 63"

text \<open>\<open>x as i64\<close> for a 64-bit unsigned \<open>x\<close>.\<close>

definition as_i64 :: "u64 \<Rightarrow> int" where
  "as_i64 w = (if uint w < 2 ^ 63 then uint w else uint w - 2 ^ 64)"

definition compose_ts :: "int \<Rightarrow> int \<Rightarrow> u64 res" where
  "compose_ts physical_ms lg =
    (let ts = push_bit PHYSICAL_SHIFT_BITS physical_ms + lg in
     if in_u64 ts then Inr (word_of_int ts) else Inl (InternalError ''invalid ts parts''))"

definition extract_physical :: "u64 \<Rightarrow> int" where
  "extract_physical ts = as_i64 (drop_bit PHYSICAL_SHIFT_BITS ts)"

definition extract_logical :: "u64 \<Rightarrow> int" where
  "extract_logical ts = as_i64 ts AND LOGICAL_MASK"

definition get_physical :: "int \<Rightarrow> int res" where
  "get_physical t =
    (if \<bar>t\<bar> < 2 ^ 63 then Inr t else Inl (InternalError ''overflow converting SystemTime to milliseconds''))"

definition get_time_from_ts :: "u64 \<Rightarrow> int" where
  "get_time_from_ts ts = (let ms = extract_physical ts in if ms \<ge> 0 then 0 + ms else 0 - (- ms))"

definition time_to_ts :: "int \<Rightarrow> u64 res" where
  "time_to_ts t = ok_bind (get_physical t) (\<lambda>p. compose_ts p 0)"

definition lower_limit_start_ts :: "int \<Rightarrow> int \<Rightarrow> u64 res" where
  "lower_limit_start_ts now max_txn_time_use = time_to_ts (now - max_txn_time_use)"

definition version_of :: "timestamp \<Rightarrow> u64" where
  "version_of t =
    (let ts = push_bit PHYSICAL_SHIFT_BITS (physical t) + logical t in
     if in_u64 ts then word_of_int ts else 0)"

definition from_version :: "u64 \<Rightarrow> timestamp" where
  "from_version v = \<lparr>physical = drop_bit PHYSICAL_SHIFT_BITS (as_i64 v),
     logical = as_i64 v AND LOGICAL_MASK, suffix_bits = 0\<rparr>"

definition try_from_version :: "u64 \<Rightarrow> timestamp option" where
  "try_from_version v = (if v = 0 then None else Some (from_version v))"

lemma LOGICAL_MASK_mask: "LOGICAL_MASK = mask 18"
  by (simp add: LOGICAL_MASK_def PHYSICAL_SHIFT_BITS_def mask_eq_exp_minus_1 push_bit_eq_mult)

lemma and_LOGICAL_MASK: "x AND LOGICAL_MASK = x mod 2 ^ 18"
  unfolding LOGICAL_MASK_mask take_bit_eq_mask [symmetric] by (simp add: take_bit_eq_mod)

lemma uint_bounds: "0 \<le> uint (w :: u64)" "uint w < 2 ^ 64"
  using unsigned_less [of w] by simp_all

lemma uint_word_of_int_u64: "in_u64 x \<Longrightarrow> uint (word_of_int x :: u64) = x"
  by (simp add: in_u64_def uint_word_of_int)

lemma uint_drop_bit_u64: "uint (drop_bit n (w :: u64)) = uint w div 2 ^ n"
proof -
  have "uint (drop_bit n w) = drop_bit n (take_bit LENGTH(64) (uint w))" by (rule unsigned_drop_bit_eq)
  also have "take_bit LENGTH(64) (uint w) = uint w"
    using uint_bounds [of w] by (simp add: take_bit_eq_mod)
  finally show ?thesis by (simp only: drop_bit_eq_div)
qed

lemma as_i64_mod: "as_i64 v mod 2 ^ 18 = uint v mod 2 ^ 18"
proof -
  have "(uint v - 2 ^ 64) mod 2 ^ 18 = (uint v + (- (2 ^ 46)) * 2 ^ 18) mod 2 ^ 18" by simp
  also have "\<dots> = uint v mod 2 ^ 18" by (rule mod_mult_self1)
  finally have "(uint v - 2 ^ 64) mod 2 ^ 18 = uint v mod 2 ^ 18" .
  then show ?thesis by (simp add: as_i64_def)
qed

lemma version_from_version:
  "version_of (from_version v) = (if uint v < 2 ^ 63 then v else 0)"
proof -
  let ?x = "as_i64 v"
  have "push_bit PHYSICAL_SHIFT_BITS (physical (from_version v)) + logical (from_version v) = ?x"
    by (simp add: from_version_def PHYSICAL_SHIFT_BITS_def and_LOGICAL_MASK push_bit_eq_mult drop_bit_eq_div)
  moreover have "in_u64 ?x \<longleftrightarrow> uint v < 2 ^ 63"
    using uint_bounds [of v] by (auto simp: in_u64_def as_i64_def)
  ultimately show ?thesis by (simp add: version_of_def as_i64_def)
qed

text \<open>Packing a timestamp and unpacking it gives both parts back, for every non-negative
  physical part below 46 bits and every 18-bit logical part.\<close>

theorem compose_extract_round_trip:
  assumes "0 \<le> p" "p < 2 ^ 46" "0 \<le> l" "l < 2 ^ 18"
  shows "\<exists>ts. compose_ts p l = Inr ts \<and> extract_physical ts = p \<and> extract_logical ts = l
    \<and> version_of \<lparr>physical = p, logical = l, suffix_bits = 0\<rparr> = ts"
proof -
  let ?x = "p * 2 ^ 18 + l"
  have x: "in_u64 ?x" using assms by (simp add: in_u64_def)
  have d: "?x div 2 ^ 18 = p" "?x mod 2 ^ 18 = l" using assms by simp_all
  have u: "uint (drop_bit 18 (word_of_int ?x :: u64)) = p"
    unfolding uint_drop_bit_u64 uint_word_of_int_u64 [OF x] by (rule d)
  have e: "extract_physical (word_of_int ?x) = p"
    using assms by (simp only: extract_physical_def as_i64_def PHYSICAL_SHIFT_BITS_def u) simp
  have "extract_logical (word_of_int ?x) = l"
    unfolding extract_logical_def and_LOGICAL_MASK as_i64_mod uint_word_of_int_u64 [OF x] by (rule d)
  with x e show ?thesis
    by (simp add: compose_ts_def version_of_def PHYSICAL_SHIFT_BITS_def push_bit_eq_mult)
qed

theorem compose_extract_round_trip_witness:
  "\<exists>ts. compose_ts 1000 7 = Inr ts \<and> extract_physical ts = 1000 \<and> extract_logical ts = 7"
  using compose_extract_round_trip [of 1000 7] by auto

text \<open>Converting a 64-bit version to a timestamp and back is the identity below \<open>2\<^sup>6\<^sup>3\<close>; from
  there on the physical part is negative and the conversion back silently gives 0, the version
  that stands for no timestamp.\<close>

theorem version_round_trip:
  "version_of (from_version v) = (if uint v < 2 ^ 63 then v else 0)
   \<and> (try_from_version v = None \<longleftrightarrow> v = 0)"
  by (simp add: version_from_version try_from_version_def)

end
