(* ===== verification/Region.thy ===== *)
theory Region
  imports Keyspace Timestamp
begin

text \<open>
  Regions with their leader (\<open>region.rs\<close>): range, version and store of a region.
\<close>

record region_with_leader =
  rl_region :: metapb_region
  rl_leader :: "peer option"

definition contains :: "region_with_leader \<Rightarrow> key \<Rightarrow> bool" where
  "contains r k \<longleftrightarrow> mr_start_key (rl_region r) \<le> k \<and> (k < mr_end_key (rl_region r) \<or> mr_end_key (rl_region r) = [])"

definition start_key :: "region_with_leader \<Rightarrow> key" where
  "start_key r = mr_start_key (rl_region r)"

definition end_key :: "region_with_leader \<Rightarrow> key" where
  "end_key r = mr_end_key (rl_region r)"

definition range_of :: "region_with_leader \<Rightarrow> key \<times> key" where
  "range_of r = (start_key r, end_key r)"

definition ver_id :: "region_with_leader \<Rightarrow> region_ver_id" where
  "ver_id r = (case mr_region_epoch (rl_region r) of
      Some epoch \<Rightarrow> \<lparr>rv_id = mr_id (rl_region r), rv_conf_ver = conf_ver epoch, rv_ver = version epoch\<rparr>
    | None \<Rightarrow> \<lparr>rv_id = mr_id (rl_region r), rv_conf_ver = 0, rv_ver = 0\<rparr>)"

definition region_id :: "region_with_leader \<Rightarrow> u64" where
  "region_id r = mr_id (rl_region r)"

definition get_store_id :: "region_with_leader \<Rightarrow> u64 res" where
  "get_store_id r = (case rl_leader r of None \<Rightarrow> Inl (LeaderNotFound (ver_id r)) | Some p \<Rightarrow> Inr (peer_store_id p))"

lemma contains_half_open: "contains r k \<longleftrightarrow> in_half_open (start_key r) (end_key r) k"
  by (auto simp: contains_def in_half_open_def start_key_def end_key_def)

lemma rv_id_ver_id [simp]: "rv_id (ver_id r) = region_id r"
  by (simp add: ver_id_def region_id_def split: option.splits)

end
