(* ===== verification/Region_Cache.thy ===== *)
theory Region_Cache
  imports Region BTree_Map
begin

text \<open>
  The region cache (\<open>region_cache.rs\<close>). The two hash maps are partial functions, the key index is an
  ordered map. The clock, the jitter drawn from the random number generator and the order in which
  a hash set is iterated are arguments. A TTL is an integer with the saturating additions of
  \<open>i64\<close>; each operation below runs under the cache lock, so the compare-and-swap of
  \<open>check_and_refresh\<close> succeeds at the first attempt.
\<close>

record cached_region =
  cr_region :: region_with_leader
  cr_ttl_epoch_sec :: int

record region_cache_ttl =
  base_sec :: int
  jitter_sec :: int

record region_cache_map =
  ver_id_to_region :: "region_ver_id \<rightharpoonup> cached_region"
  key_to_ver_id :: "(key \<times> region_ver_id) list"
  id_to_ver_id :: "u64 \<rightharpoonup> region_ver_id"

definition new_region_cache_ttl :: "nat \<Rightarrow> nat \<Rightarrow> region_cache_ttl" where
  "new_region_cache_ttl base jitter =
     \<lparr>base_sec = min I64_MAX (int base), jitter_sec = min I64_MAX (int jitter)\<rparr>"

definition is_enabled :: "region_cache_ttl \<Rightarrow> bool" where
  "is_enabled t = (base_sec t > 0)"

definition next_ttl :: "region_cache_ttl \<Rightarrow> int \<Rightarrow> int \<Rightarrow> int" where
  "next_ttl t rnd now =
    (if \<not> is_enabled t then I64_MAX
     else let jitter = (if jitter_sec t > 0 then rnd else 0)
          in i64_saturating_add (i64_saturating_add now (base_sec t)) jitter)"

definition check_and_refresh :: "region_cache_ttl \<Rightarrow> int \<Rightarrow> int \<Rightarrow> int \<Rightarrow> bool \<times> int" where
  "check_and_refresh t rnd ttl now =
    (if \<not> is_enabled t then (True, ttl)
     else if now > ttl then (False, ttl)
     else if ttl > i64_saturating_add now (base_sec t) then (True, ttl)
     else (True, next_ttl t rnd now))"

definition new_region_cache_map :: region_cache_map where
  "new_region_cache_map = \<lparr>ver_id_to_region = Map.empty, key_to_ver_id = [], id_to_ver_id = Map.empty\<rparr>"

text \<open>\<open>BTreeMap::range(..=key).next_back()\<close>.\<close>

fun last_le :: "('k::linorder \<times> 'v) list \<Rightarrow> 'k \<Rightarrow> ('k \<times> 'v) option" where
  "last_le [] k = None"
| "last_le ((k', v) # m) k =
     (if k' \<le> k then (case last_le m k of Some x \<Rightarrow> Some x | None \<Rightarrow> Some (k', v)) else None)"

text \<open>The cache hit path of \<open>get_region_by_key\<close>; a hit refreshes the TTL.\<close>

definition lookup_by_key ::
  "region_cache_ttl \<Rightarrow> int \<Rightarrow> int \<Rightarrow> key \<Rightarrow> region_cache_map \<Rightarrow> region_cache_map \<times> region_with_leader option" where
  "lookup_by_key t rnd now k c =
    (case last_le (key_to_ver_id c) k of None \<Rightarrow> (c, None)
     | Some (_, v) \<Rightarrow>
       (case ver_id_to_region c v of None \<Rightarrow> (c, None)
        | Some cached \<Rightarrow>
          (case check_and_refresh t rnd (cr_ttl_epoch_sec cached) now of (valid, ttl') \<Rightarrow>
            (c\<lparr>ver_id_to_region := (ver_id_to_region c)(v \<mapsto> cached\<lparr>cr_ttl_epoch_sec := ttl'\<rparr>)\<rparr>,
             if valid \<and> contains (cr_region cached) k then Some (cr_region cached) else None))))"

definition lookup_by_id ::
  "region_cache_ttl \<Rightarrow> int \<Rightarrow> int \<Rightarrow> u64 \<Rightarrow> region_cache_map \<Rightarrow> region_cache_map \<times> region_with_leader option" where
  "lookup_by_id t rnd now i c =
    (case id_to_ver_id c i of None \<Rightarrow> (c, None)
     | Some v \<Rightarrow>
       (case ver_id_to_region c v of None \<Rightarrow> (c, None)
        | Some cached \<Rightarrow>
          (case check_and_refresh t rnd (cr_ttl_epoch_sec cached) now of (valid, ttl') \<Rightarrow>
            (c\<lparr>ver_id_to_region := (ver_id_to_region c)(v \<mapsto> cached\<lparr>cr_ttl_epoch_sec := ttl'\<rparr>)\<rparr>,
             if valid then Some (cr_region cached) else None))))"

text \<open>The backward search for overlapping regions: the stale start keys and the regions to remove.\<close>

fun scan_back ::
  "(region_ver_id \<rightharpoonup> cached_region) \<Rightarrow> key \<Rightarrow> (key \<times> region_ver_id) list \<Rightarrow> key list \<times> region_ver_id list" where
  "scan_back regions region_start [] = ([], [])"
| "scan_back regions region_start ((s, v) # rest) =
    (case regions v of
       None \<Rightarrow> (case scan_back regions region_start rest of (stale, rm) \<Rightarrow> (s # stale, rm))
     | Some cached \<Rightarrow>
        (let e = mr_end_key (rl_region (cr_region cached)) in
         if e = [] \<or> e > region_start
         then (case scan_back regions region_start rest of (stale, rm) \<Rightarrow> (stale, v # rm))
         else ([], [])))"

definition remove_ver_id :: "region_ver_id \<Rightarrow> region_cache_map \<Rightarrow> region_cache_map" where
  "remove_ver_id v c =
    (case ver_id_to_region c v of None \<Rightarrow> c
     | Some r \<Rightarrow> c\<lparr>ver_id_to_region := (ver_id_to_region c)(v := None),
         key_to_ver_id := bt_remove (start_key (cr_region r)) (key_to_ver_id c),
         id_to_ver_id := (id_to_ver_id c)(region_id (cr_region r) := None)\<rparr>)"

definition add_region ::
  "(region_ver_id list \<Rightarrow> region_ver_id list) \<Rightarrow> region_cache_ttl \<Rightarrow> int \<Rightarrow> int \<Rightarrow> region_with_leader
     \<Rightarrow> region_cache_map \<Rightarrow> region_cache_map" where
  "add_region hash_order t rnd now region c =
    (let ttl = next_ttl t rnd now;
         by_id = (case id_to_ver_id c (region_id region) of
             None \<Rightarrow> [] | Some v \<Rightarrow> if v \<noteq> ver_id region then [v] else []);
         search_range = (if end_key region = [] then key_to_ver_id c
             else filter (\<lambda>p. fst p < end_key region) (key_to_ver_id c))
     in case scan_back (ver_id_to_region c) (start_key region) (rev search_range) of (stale, rm) \<Rightarrow>
       (let c1 = c\<lparr>key_to_ver_id := fold bt_remove stale (key_to_ver_id c)\<rparr>;
            c2 = fold remove_ver_id (hash_order (by_id @ rm)) c1;
            v = ver_id region
        in c2\<lparr>key_to_ver_id := bt_insert (start_key region) v (key_to_ver_id c2),
              id_to_ver_id := (id_to_ver_id c2)(region_id region \<mapsto> v),
              ver_id_to_region := (ver_id_to_region c2)(v \<mapsto> \<lparr>cr_region = region, cr_ttl_epoch_sec = ttl\<rparr>)\<rparr>))"

definition update_leader ::
  "region_cache_ttl \<Rightarrow> int \<Rightarrow> int \<Rightarrow> region_ver_id \<Rightarrow> peer \<Rightarrow> region_cache_map \<Rightarrow> region_cache_map" where
  "update_leader t rnd now v leader c =
    (case ver_id_to_region c v of None \<Rightarrow> c
     | Some cached \<Rightarrow> c\<lparr>ver_id_to_region := (ver_id_to_region c)(v \<mapsto>
         cached\<lparr>cr_region := (cr_region cached)\<lparr>rl_leader := Some leader\<rparr>, cr_ttl_epoch_sec := next_ttl t rnd now\<rparr>)\<rparr>)"

definition invalidate_region_cache :: "region_ver_id \<Rightarrow> region_cache_map \<Rightarrow> region_cache_map" where
  "invalidate_region_cache v c =
    (case ver_id_to_region c v of None \<Rightarrow> c
     | Some r \<Rightarrow> c\<lparr>ver_id_to_region := (ver_id_to_region c)(v := None),
         id_to_ver_id := (id_to_ver_id c)(region_id (cr_region r) := None),
         key_to_ver_id := bt_remove (start_key (cr_region r)) (key_to_ver_id c)\<rparr>)"

text \<open>The environment of a lookup: the settings of the cache, the order of hash sets, and PD.\<close>

record region_env =
  env_ttl :: region_cache_ttl
  env_hash_order :: "region_ver_id list \<Rightarrow> region_ver_id list"
  env_pd_key :: "key \<Rightarrow> region_with_leader res"
  env_pd_id :: "u64 \<Rightarrow> region_with_leader res"
  env_now :: int
  env_rnd :: int

definition read_through_region_by_key ::
  "region_env \<Rightarrow> key \<Rightarrow> region_cache_map \<Rightarrow> region_cache_map \<times> region_with_leader res" where
  "read_through_region_by_key env k c =
    (case env_pd_key env k of Inl e \<Rightarrow> (c, Inl e)
     | Inr r \<Rightarrow> (add_region (env_hash_order env) (env_ttl env) (env_rnd env) (env_now env) r c, Inr r))"

definition get_region_by_key ::
  "region_env \<Rightarrow> key \<Rightarrow> region_cache_map \<Rightarrow> region_cache_map \<times> region_with_leader res" where
  "get_region_by_key env k c =
    (case lookup_by_key (env_ttl env) (env_rnd env) (env_now env) k c of
       (c1, Some r) \<Rightarrow> (c1, Inr r)
     | (c1, None) \<Rightarrow>
        (case lookup_by_key (env_ttl env) (env_rnd env) (env_now env) k c1 of
           (c2, Some r) \<Rightarrow> (c2, Inr r)
         | (c2, None) \<Rightarrow> read_through_region_by_key env k c2))"

definition get_region_by_id ::
  "region_env \<Rightarrow> u64 \<Rightarrow> region_cache_map \<Rightarrow> region_cache_map \<times> region_with_leader res" where
  "get_region_by_id env i c =
    (case lookup_by_id (env_ttl env) (env_rnd env) (env_now env) i c of
       (c1, Some r) \<Rightarrow> (c1, Inr r)
     | (c1, None) \<Rightarrow>
        (case lookup_by_id (env_ttl env) (env_rnd env) (env_now env) i c1 of
           (c2, Some r) \<Rightarrow> (c2, Inr r)
         | (c2, None) \<Rightarrow>
            (case env_pd_id env i of Inl e \<Rightarrow> (c2, Inl e)
             | Inr r \<Rightarrow> (add_region (env_hash_order env) (env_ttl env) (env_rnd env) (env_now env) r c2, Inr r))))"

subsection \<open>The invariant\<close>

definition well_ranged :: "region_with_leader \<Rightarrow> bool" where
  "well_ranged r \<longleftrightarrow> end_key r = [] \<or> start_key r < end_key r"

definition overlap :: "region_with_leader \<Rightarrow> region_with_leader \<Rightarrow> bool" where
  "overlap r r' \<longleftrightarrow> (end_key r' = [] \<or> start_key r < end_key r') \<and> (end_key r = [] \<or> start_key r' < end_key r)"

definition cached :: "region_cache_map \<Rightarrow> region_ver_id \<Rightarrow> region_with_leader option" where
  "cached c v = map_option cr_region (ver_id_to_region c v)"

definition cache_inv :: "region_cache_map \<Rightarrow> bool" where
  "cache_inv c \<longleftrightarrow> bt_inv (key_to_ver_id c)
    \<and> (\<forall>v r. cached c v = Some r \<longrightarrow> ver_id r = v \<and> well_ranged r
         \<and> bt_get (key_to_ver_id c) (start_key r) = Some v \<and> id_to_ver_id c (region_id r) = Some v)
    \<and> (\<forall>s v. bt_get (key_to_ver_id c) s = Some v \<longrightarrow> (\<exists>r. cached c v = Some r \<and> start_key r = s))
    \<and> (\<forall>i v. id_to_ver_id c i = Some v \<longrightarrow> (\<exists>r. cached c v = Some r \<and> region_id r = i))
    \<and> (\<forall>v v' r r'. cached c v = Some r \<longrightarrow> cached c v' = Some r' \<longrightarrow> overlap r r' \<longrightarrow> v = v')"

lemma overlap_sym: "overlap r r' = overlap r' r"
  by (auto simp: overlap_def)

lemma overlap_self: "well_ranged r \<Longrightarrow> overlap r r"
  by (auto simp: overlap_def well_ranged_def)

lemma overlap_contains: "contains r k \<Longrightarrow> contains r' k \<Longrightarrow> overlap r r'"
  by (auto simp: contains_half_open in_half_open_def overlap_def intro: order.strict_trans1)

lemma cache_invD:
  assumes "cache_inv c"
  shows "bt_inv (key_to_ver_id c)"
    and "\<And>v r. cached c v = Some r \<Longrightarrow> ver_id r = v \<and> well_ranged r
         \<and> bt_get (key_to_ver_id c) (start_key r) = Some v \<and> id_to_ver_id c (region_id r) = Some v"
    and "\<And>s v. bt_get (key_to_ver_id c) s = Some v \<Longrightarrow> \<exists>r. cached c v = Some r \<and> start_key r = s"
    and "\<And>i v. id_to_ver_id c i = Some v \<Longrightarrow> \<exists>r. cached c v = Some r \<and> region_id r = i"
    and "\<And>v v' r r'. cached c v = Some r \<Longrightarrow> cached c v' = Some r' \<Longrightarrow> overlap r r' \<Longrightarrow> v = v'"
  using assms unfolding cache_inv_def by blast+

lemma cache_invI:
  assumes "bt_inv (key_to_ver_id c)"
    and "\<And>v r. cached c v = Some r \<Longrightarrow> ver_id r = v \<and> well_ranged r
         \<and> bt_get (key_to_ver_id c) (start_key r) = Some v \<and> id_to_ver_id c (region_id r) = Some v"
    and "\<And>s v. bt_get (key_to_ver_id c) s = Some v \<Longrightarrow> \<exists>r. cached c v = Some r \<and> start_key r = s"
    and "\<And>i v. id_to_ver_id c i = Some v \<Longrightarrow> \<exists>r. cached c v = Some r \<and> region_id r = i"
    and "\<And>v v' r r'. cached c v = Some r \<Longrightarrow> cached c v' = Some r' \<Longrightarrow> overlap r r' \<Longrightarrow> v = v'"
  shows "cache_inv c"
  using assms unfolding cache_inv_def by blast

lemma cache_inv_new: "cache_inv new_region_cache_map"
  by (simp add: cache_inv_def new_region_cache_map_def cached_def)

lemma cached_remove: "cached (remove_ver_id v c) w = (if w = v then None else cached c w)"
  by (auto simp: cached_def remove_ver_id_def split: option.splits)

lemma remove_ver_id_sel:
  assumes "cached c v = Some r"
  shows "key_to_ver_id (remove_ver_id v c) = bt_remove (start_key r) (key_to_ver_id c)"
    and "id_to_ver_id (remove_ver_id v c) = (id_to_ver_id c)(region_id r := None)"
  using assms by (auto simp: cached_def remove_ver_id_def)

lemma cache_inv_remove:
  assumes inv: "cache_inv c"
  shows "cache_inv (remove_ver_id v c)"
proof (cases "cached c v")
  case None
  then show ?thesis using inv by (simp add: cached_def remove_ver_id_def)
next
  case (Some r)
  note D = cache_invD [OF inv] and sel = remove_ver_id_sel [OF Some]
  have start: "start_key r' = start_key r \<Longrightarrow> w = v" and ids: "region_id r' = region_id r \<Longrightarrow> w = v"
    if "cached c w = Some r'" for w r'
    using D(2) [OF that] D(2) [OF Some] by auto
  show ?thesis
  proof (rule cache_invI)
    show "bt_inv (key_to_ver_id (remove_ver_id v c))" unfolding sel using D(1) by (rule bt.inv_remove)
  next
    fix w r' assume "cached (remove_ver_id v c) w = Some r'"
    then have w: "w \<noteq> v" "cached c w = Some r'" by (auto simp: cached_remove split: if_splits)
    then show "ver_id r' = w \<and> well_ranged r' \<and> bt_get (key_to_ver_id (remove_ver_id v c)) (start_key r') = Some w
        \<and> id_to_ver_id (remove_ver_id v c) (region_id r') = Some w"
      using D(2) [OF w(2)] start [OF w(2)] ids [OF w(2)] unfolding sel by (auto simp: bt.get_remove D(1))
  next
    fix s w assume "bt_get (key_to_ver_id (remove_ver_id v c)) s = Some w"
    then have "s \<noteq> start_key r" "bt_get (key_to_ver_id c) s = Some w"
      unfolding sel by (auto simp: bt.get_remove D(1) split: if_splits)
    then show "\<exists>r. cached (remove_ver_id v c) w = Some r \<and> start_key r = s"
      using D(3) Some by (fastforce simp: cached_remove)
  next
    fix i w assume "id_to_ver_id (remove_ver_id v c) i = Some w"
    then have "i \<noteq> region_id r" "id_to_ver_id c i = Some w" unfolding sel by (auto split: if_splits)
    then show "\<exists>r. cached (remove_ver_id v c) w = Some r \<and> region_id r = i"
      using D(4) Some by (fastforce simp: cached_remove)
  next
    fix w w' r1 r2
    assume "cached (remove_ver_id v c) w = Some r1" "cached (remove_ver_id v c) w' = Some r2" "overlap r1 r2"
    then show "w = w'" using D(5) by (auto simp: cached_remove split: if_splits)
  qed
qed

lemma fold_remove:
  "cache_inv c \<Longrightarrow> cache_inv (fold remove_ver_id vs c)
     \<and> cached (fold remove_ver_id vs c) w = (if w \<in> set vs then None else cached c w)"
  by (induction vs arbitrary: c) (auto simp: cache_inv_remove cached_remove)

lemma invalidate_is_remove: "invalidate_region_cache v c = remove_ver_id v c"
  by (simp add: invalidate_region_cache_def remove_ver_id_def split: option.splits)

subsection \<open>Adding a region\<close>

definition overlaps_start :: "key \<Rightarrow> region_with_leader \<Rightarrow> bool" where
  "overlaps_start s r \<longleftrightarrow> end_key r = [] \<or> s < end_key r"

text \<open>On a descending list of cached regions the backward search finds all overlapping ones.\<close>

lemma scan_back_complete:
  assumes inv: "cache_inv c" and sorted: "sorted_wrt (\<lambda>p q. fst q < fst p) xs"
    and sub: "\<forall>(s, v) \<in> set xs. bt_get (key_to_ver_id c) s = Some v"
  shows "fst (scan_back (ver_id_to_region c) rs xs) = []
    \<and> set (snd (scan_back (ver_id_to_region c) rs xs))
      = {v. \<exists>s r. (s, v) \<in> set xs \<and> cached c v = Some r \<and> overlaps_start rs r}"
  using sorted sub
proof (induction xs)
  case (Cons p xs)
  obtain s v where p: "p = (s, v)" by (cases p)
  have sv: "bt_get (key_to_ver_id c) s = Some v" using Cons.prems(2) p by simp
  then obtain r where r: "cached c v = Some r" "start_key r = s" using cache_invD(3) [OF inv] by blast
  then obtain cr where cr: "ver_id_to_region c v = Some cr" "cr_region cr = r" by (auto simp: cached_def)
  have IH: "fst (scan_back (ver_id_to_region c) rs xs) = []"
    "set (snd (scan_back (ver_id_to_region c) rs xs))
      = {v. \<exists>s r. (s, v) \<in> set xs \<and> cached c v = Some r \<and> overlaps_start rs r}"
    using Cons by auto
  show ?case
  proof (cases "overlaps_start rs r")
    case True
    then have "scan_back (ver_id_to_region c) rs (p # xs)
        = (case scan_back (ver_id_to_region c) rs xs of (stale, rm) \<Rightarrow> (stale, v # rm))"
      using cr by (simp add: p overlaps_start_def end_key_def)
    with IH True r p show ?thesis by (auto split: prod.splits)
  next
    case False
    have "scan_back (ver_id_to_region c) rs (p # xs) = ([], [])"
      using False cr by (auto simp: p overlaps_start_def end_key_def Let_def)
    moreover have "\<not> overlaps_start rs r'" if "(s', v') \<in> set xs" "cached c v' = Some r'" for s' v' r'
    proof -
      have lt: "s' < s" using Cons.prems(1) that(1) p by fastforce
      have "bt_get (key_to_ver_id c) s' = Some v'" using Cons.prems(2) that(1) by auto
      then have s': "start_key r' = s'" using cache_invD(3) [OF inv] that(2) by force
      have ne: "v' \<noteq> v" using s' r that(2) lt by auto
      have "well_ranged r" using cache_invD(2) [OF inv r(1)] by simp
      then have "s < end_key r" using False r(2) by (auto simp: overlaps_start_def well_ranged_def)
      moreover have "end_key r \<le> rs" using False by (auto simp: overlaps_start_def not_less)
      moreover have "\<not> overlap r r'" using cache_invD(5) [OF inv r(1) that(2)] ne by blast
      ultimately show ?thesis using lt s' r(2) by (auto simp: overlap_def overlaps_start_def)
    qed
    ultimately show ?thesis using False r p by auto
  qed
qed simp

lemma search_range_sorted: "bt_inv m \<Longrightarrow> sorted_wrt (\<lambda>p q. fst q < fst p) (rev (filter P m))"
  using bt_inv_filter [of m P] by (simp add: sorted_wrt_rev bt_inv_def sorted_wrt_map)

definition removed_by :: "region_with_leader \<Rightarrow> region_cache_map \<Rightarrow> region_ver_id \<Rightarrow> bool" where
  "removed_by region c v \<longleftrightarrow> (\<exists>r. cached c v = Some r \<and>
     (overlap r region \<or> region_id r = region_id region \<and> v \<noteq> ver_id region))"

lemma add_region_eq:
  assumes inv: "cache_inv c" and wr: "well_ranged region" and ho: "\<And>xs. set (ho xs) = set xs"
  shows "\<exists>c2. cache_inv c2 \<and> (\<forall>v. cached c2 v = (if removed_by region c v then None else cached c v))
    \<and> add_region ho t rnd now region c =
      c2\<lparr>key_to_ver_id := bt_insert (start_key region) (ver_id region) (key_to_ver_id c2),
         id_to_ver_id := (id_to_ver_id c2)(region_id region \<mapsto> ver_id region),
         ver_id_to_region := (ver_id_to_region c2)(ver_id region \<mapsto> \<lparr>cr_region = region, cr_ttl_epoch_sec = next_ttl t rnd now\<rparr>)\<rparr>"
proof -
  note D = cache_invD [OF inv]
  define by_id where "by_id = (case id_to_ver_id c (region_id region) of
             None \<Rightarrow> [] | Some v \<Rightarrow> if v \<noteq> ver_id region then [v] else [])"
  define P where "P = (\<lambda>p :: key \<times> region_ver_id. end_key region = [] \<or> fst p < end_key region)"
  define sr where "sr = filter P (key_to_ver_id c)"
  have sr: "(if end_key region = [] then key_to_ver_id c
             else filter (\<lambda>p. fst p < end_key region) (key_to_ver_id c)) = sr"
    by (simp add: sr_def P_def)
  obtain rm where rm: "scan_back (ver_id_to_region c) (start_key region) (rev sr) = ([], rm)"
    "set rm = {v. \<exists>s r. (s, v) \<in> set sr \<and> cached c v = Some r \<and> overlaps_start (start_key region) r}"
  proof -
    have "\<forall>(s, v) \<in> set (rev sr). bt_get (key_to_ver_id c) s = Some v"
      using bt.in_entries [OF D(1)] by (auto simp: sr_def)
    from scan_back_complete [OF inv _ this, of "start_key region"] search_range_sorted [OF D(1), of P] show ?thesis
      by (intro that [of "snd (scan_back (ver_id_to_region c) (start_key region) (rev sr))"])
         (auto simp: sr_def prod_eq_iff)
  qed
  define c2 where "c2 = fold remove_ver_id (ho (by_id @ rm)) c"
  have c2: "cache_inv c2" "\<And>v. cached c2 v = (if v \<in> set by_id \<or> v \<in> set rm then None else cached c v)"
    using fold_remove [OF inv, of "ho (by_id @ rm)"] ho unfolding c2_def by auto
  have bi: "v \<in> set by_id \<longleftrightarrow> (\<exists>r. cached c v = Some r \<and> region_id r = region_id region \<and> v \<noteq> ver_id region)" for v
    using D(2) D(4) by (fastforce simp: by_id_def split: option.splits)
  have rmi: "v \<in> set rm \<longleftrightarrow> (\<exists>r. cached c v = Some r \<and> overlap r region)" for v
  proof
    assume "v \<in> set rm"
    then obtain s r where "(s, v) \<in> set sr" and r: "cached c v = Some r" "overlaps_start (start_key region) r"
      unfolding rm(2) by blast
    then have "P (s, v)" "bt_get (key_to_ver_id c) s = Some v" using bt.in_entries [OF D(1)] by (auto simp: sr_def)
    moreover from this have "start_key r = s" using D(3) r(1) by force
    ultimately show "\<exists>r. cached c v = Some r \<and> overlap r region"
      using r by (auto simp: overlap_def overlaps_start_def P_def)
  next
    assume "\<exists>r. cached c v = Some r \<and> overlap r region"
    then obtain r where r: "cached c v = Some r" "overlap r region" by blast
    then have "(start_key r, v) \<in> set sr" using D(2) bt.in_entries [OF D(1)] by (auto simp: sr_def P_def overlap_def)
    with r show "v \<in> set rm" unfolding rm(2) by (auto simp: overlap_def overlaps_start_def)
  qed
  have "cached c2 v = (if removed_by region c v then None else cached c v)" for v
    unfolding c2(2) bi rmi removed_by_def by auto
  moreover have "c\<lparr>key_to_ver_id := key_to_ver_id c\<rparr> = c" by simp
  ultimately show ?thesis
    using c2(1) unfolding add_region_def by_id_def [symmetric] sr Let_def rm(1)
    by (intro exI [of _ c2]) (simp add: c2_def)
qed

text \<open>PD never gives two ranges to one version of a region.\<close>

definition same_version_same_range :: "region_with_leader \<Rightarrow> region_cache_map \<Rightarrow> bool" where
  "same_version_same_range region c \<longleftrightarrow>
     (case cached c (ver_id region) of None \<Rightarrow> True | Some r \<Rightarrow> range_of r = range_of region)"

lemma add_region_spec:
  assumes inv: "cache_inv c" and wr: "well_ranged region" and ho: "\<And>xs. set (ho xs) = set xs"
    and sv: "same_version_same_range region c"
  shows "cache_inv (add_region ho t rnd now region c)
    \<and> (\<forall>v. cached (add_region ho t rnd now region c) v
        = (if v = ver_id region then Some region else if removed_by region c v then None else cached c v))"
proof -
  obtain c2 where c2: "cache_inv c2" "\<And>v. cached c2 v = (if removed_by region c v then None else cached c v)"
    and eq: "add_region ho t rnd now region c =
      c2\<lparr>key_to_ver_id := bt_insert (start_key region) (ver_id region) (key_to_ver_id c2),
         id_to_ver_id := (id_to_ver_id c2)(region_id region \<mapsto> ver_id region),
         ver_id_to_region := (ver_id_to_region c2)(ver_id region \<mapsto> \<lparr>cr_region = region, cr_ttl_epoch_sec = next_ttl t rnd now\<rparr>)\<rparr>"
    using add_region_eq [OF inv wr ho] by blast
  let ?c = "add_region ho t rnd now region c"
  note D = cache_invD [OF c2(1)]
  have no_v: "cached c2 (ver_id region) = None"
  proof (rule ccontr)
    assume "cached c2 (ver_id region) \<noteq> None"
    then obtain r where r: "cached c (ver_id region) = Some r" "\<not> removed_by region c (ver_id region)"
      by (auto simp: c2(2) split: if_splits)
    then have "range_of r = range_of region" using sv by (simp add: same_version_same_range_def)
    then have "overlap r region" using overlap_self [OF wr] by (simp add: overlap_def range_of_def)
    with r show False by (auto simp: removed_by_def)
  qed
  have no_overlap: "\<not> overlap r region" if "cached c2 v = Some r" for v r
    using that by (auto simp: c2(2) removed_by_def split: if_splits)
  have no_id: "id_to_ver_id c2 (region_id region) = None"
  proof (rule ccontr)
    assume "id_to_ver_id c2 (region_id region) \<noteq> None"
    then obtain v r where v: "cached c2 v = Some r" "region_id r = region_id region" using D(4) by blast
    then have "v \<noteq> ver_id region" using no_v by auto
    with v show False by (auto simp: c2(2) removed_by_def split: if_splits)
  qed
  have no_key: "bt_get (key_to_ver_id c2) (start_key region) = None"
  proof (rule ccontr)
    assume "bt_get (key_to_ver_id c2) (start_key region) \<noteq> None"
    then obtain v r where v: "cached c2 v = Some r" "start_key r = start_key region" using D(3) by blast
    then have "overlap r region" using D(2) [OF v(1)] wr by (auto simp: overlap_def well_ranged_def)
    with no_overlap v show False by blast
  qed
  have ca: "cached ?c v = (if v = ver_id region then Some region else cached c2 v)" for v
    by (simp add: eq cached_def)
  have "cache_inv ?c"
  proof (rule cache_invI)
    show "bt_inv (key_to_ver_id ?c)" by (simp add: eq bt.inv_insert D(1))
  next
    fix v r assume "cached ?c v = Some r"
    then show "ver_id r = v \<and> well_ranged r \<and> bt_get (key_to_ver_id ?c) (start_key r) = Some v
        \<and> id_to_ver_id ?c (region_id r) = Some v"
    proof (cases "v = ver_id region")
      case True
      with \<open>cached ?c v = Some r\<close> have "r = region" by (simp add: ca)
      then show ?thesis using True wr by (simp add: eq bt.get_insert D(1))
    next
      case False
      with \<open>cached ?c v = Some r\<close> have r: "cached c2 v = Some r" by (simp add: ca)
      have "start_key r \<noteq> start_key region" "region_id r \<noteq> region_id region"
        using D(2) [OF r] no_key no_id by auto
      then show ?thesis using D(2) [OF r] by (simp add: eq bt.get_insert D(1))
    qed
  next
    fix s v assume "bt_get (key_to_ver_id ?c) s = Some v"
    then have "(s = start_key region \<and> v = ver_id region) \<or> (s \<noteq> start_key region \<and> bt_get (key_to_ver_id c2) s = Some v)"
      by (auto simp: eq bt.get_insert D(1) split: if_splits)
    then show "\<exists>r. cached ?c v = Some r \<and> start_key r = s"
      using D(3) no_v by (fastforce simp: ca)
  next
    fix i v assume "id_to_ver_id ?c i = Some v"
    then have "(i = region_id region \<and> v = ver_id region) \<or> (i \<noteq> region_id region \<and> id_to_ver_id c2 i = Some v)"
      by (auto simp: eq split: if_splits)
    then show "\<exists>r. cached ?c v = Some r \<and> region_id r = i"
      using D(4) no_v by (fastforce simp: ca)
  next
    fix v v' r r' assume a: "cached ?c v = Some r" "cached ?c v' = Some r'" "overlap r r'"
    then show "v = v'"
      using D(5) [of v r v' r'] no_overlap [of v r] no_overlap [of v' r'] overlap_sym [of r r']
      by (auto simp: ca split: if_splits)
  qed
  then show ?thesis by (simp add: ca c2(2))
qed

subsection \<open>Lookups\<close>

lemma last_le_None: "bt_inv m \<Longrightarrow> last_le m k = None \<Longrightarrow> bt_get m s = Some v \<Longrightarrow> k < s"
proof (induction m)
  case (Cons p m)
  obtain k' v' where p: "p = (k', v')" by (cases p)
  have "k < k'" using Cons.prems(2) p by (simp add: not_le split: if_splits option.splits)
  moreover have "k' \<le> s"
    using Cons.prems(1,3) p by (auto simp: bt_get_def bt_inv_Cons split: if_splits dest!: map_of_SomeD intro: less_imp_le)
  ultimately show ?case by simp
qed (simp add: bt_get_def)

lemma last_le_Some:
  "bt_inv m \<Longrightarrow> last_le m k = Some (s, v) \<Longrightarrow> bt_get m s = Some v \<and> s \<le> k
     \<and> (\<forall>s' v'. bt_get m s' = Some v' \<longrightarrow> s' \<le> k \<longrightarrow> s' \<le> s)"
proof (induction m k arbitrary: s v rule: last_le.induct)
  case (2 k' v1 m k)
  have lt: "\<forall>y \<in> fst ` set m. k' < y" and m: "bt_inv m" using 2(2) by (simp_all add: bt_inv_Cons)
  have k': "k' \<le> k" using 2(3) by (simp split: if_splits)
  have get: "bt_get ((k', v1) # m) x = (if x = k' then Some v1 else bt_get m x)" for x by (simp add: bt_get_def)
  show ?case
  proof (cases "last_le m k")
    case None
    have eq: "s = k'" "v = v1" using 2(3) None k' by simp_all
    show ?thesis unfolding get using k' last_le_None [OF m None] by (auto simp: eq not_le [symmetric])
  next
    case (Some sv)
    obtain s1 w1 where sv: "sv = (s1, w1)" by (cases sv)
    then have eq: "s1 = s" "w1 = v" using 2(3) Some k' by auto
    note IH = 2(1) [OF k' m, of s v]
    have IH': "bt_get m s = Some v" "s \<le> k" "\<forall>s' v'. bt_get m s' = Some v' \<longrightarrow> s' \<le> k \<longrightarrow> s' \<le> s"
      using IH Some sv eq by auto
    have "k' < s" using IH'(1) lt bt.get_None [OF m, of s] by auto
    with IH' show ?thesis by (auto simp: get)
  qed
qed simp

lemma cache_inv_cong:
  assumes "cache_inv c" "key_to_ver_id c' = key_to_ver_id c" "id_to_ver_id c' = id_to_ver_id c"
    and "\<And>v. cached c' v = cached c v"
  shows "cache_inv c'"
  using assms unfolding cache_inv_def by simp

lemma lookup_by_key_keeps:
  "cached (fst (lookup_by_key t rnd now k c)) v = cached c v"
  "key_to_ver_id (fst (lookup_by_key t rnd now k c)) = key_to_ver_id c"
  "id_to_ver_id (fst (lookup_by_key t rnd now k c)) = id_to_ver_id c"
  by (auto simp: lookup_by_key_def cached_def split: option.splits prod.splits)

lemma lookup_by_id_keeps:
  "cached (fst (lookup_by_id t rnd now i c)) v = cached c v"
  "key_to_ver_id (fst (lookup_by_id t rnd now i c)) = key_to_ver_id c"
  "id_to_ver_id (fst (lookup_by_id t rnd now i c)) = id_to_ver_id c"
  by (auto simp: lookup_by_id_def cached_def split: option.splits prod.splits)

lemma lookup_by_key_inv: "cache_inv c \<Longrightarrow> cache_inv (fst (lookup_by_key t rnd now k c))"
  by (rule cache_inv_cong) (auto simp: lookup_by_key_keeps)

lemma lookup_by_id_inv: "cache_inv c \<Longrightarrow> cache_inv (fst (lookup_by_id t rnd now i c))"
  by (rule cache_inv_cong) (auto simp: lookup_by_id_keeps)

lemma lookup_by_key_sound:
  "snd (lookup_by_key t rnd now k c) = Some r \<Longrightarrow> contains r k \<and> (\<exists>v. cached c v = Some r)"
  by (auto simp: lookup_by_key_def cached_def split: option.splits prod.splits if_splits)

lemma lookup_by_id_sound:
  "cache_inv c \<Longrightarrow> snd (lookup_by_id t rnd now i c) = Some r \<Longrightarrow> region_id r = i \<and> (\<exists>v. cached c v = Some r)"
  using cache_invD(4) [of c i]
  by (fastforce simp: lookup_by_id_def cached_def split: option.splits prod.splits if_splits)

lemma lookup_by_key_complete:
  assumes inv: "cache_inv c" and v: "ver_id_to_region c v = Some cr" and k: "contains (cr_region cr) k"
    and ttl: "\<not> is_enabled t \<or> now \<le> cr_ttl_epoch_sec cr"
  shows "snd (lookup_by_key t rnd now k c) = Some (cr_region cr)"
proof -
  let ?r = "cr_region cr"
  note D = cache_invD [OF inv]
  have r: "cached c v = Some ?r" using v by (simp add: cached_def)
  have g: "bt_get (key_to_ver_id c) (start_key ?r) = Some v" using D(2) [OF r] by simp
  have sk: "start_key ?r \<le> k" using k by (simp add: contains_half_open in_half_open_def)
  obtain s w where l: "last_le (key_to_ver_id c) k = Some (s, w)"
    using last_le_None [OF D(1) _ g] sk by (cases "last_le (key_to_ver_id c) k") (auto simp: not_le [symmetric])
  from last_le_Some [OF D(1) l] g sk have s: "bt_get (key_to_ver_id c) s = Some w" "s \<le> k" "start_key ?r \<le> s"
    by auto
  then obtain r' where r': "cached c w = Some r'" "start_key r' = s" using D(3) by blast
  have "overlap ?r r'"
    using k s r' D(2) [OF r'(1)] by (auto simp: overlap_def contains_half_open in_half_open_def well_ranged_def
        intro: le_less_trans)
  then have "w = v" using D(5) [OF r r'(1)] by simp
  with l v k ttl show ?thesis
    by (auto simp: lookup_by_key_def check_and_refresh_def split: prod.splits)
qed

lemma update_leader_inv:
  assumes "cache_inv c"
  shows "cache_inv (update_leader t rnd now v leader c)"
proof (cases "ver_id_to_region c v")
  case None
  then show ?thesis using assms by (simp add: update_leader_def)
next
  case (Some cr)
  let ?c = "update_leader t rnd now v leader c"
  let ?f = "\<lambda>r. r\<lparr>rl_leader := Some leader\<rparr>"
  have ca: "cached ?c w = (if w = v then Some (?f (cr_region cr)) else cached c w)" for w
    using Some by (simp add: update_leader_def cached_def)
  have cv: "cached c v = Some (cr_region cr)" using Some by (simp add: cached_def)
  have sel: "key_to_ver_id ?c = key_to_ver_id c" "id_to_ver_id ?c = id_to_ver_id c"
    using Some by (simp_all add: update_leader_def)
  have f: "start_key (?f r) = start_key r" "end_key (?f r) = end_key r" "ver_id (?f r) = ver_id r"
    "region_id (?f r) = region_id r" for r
    by (simp_all add: start_key_def end_key_def ver_id_def region_id_def split: option.splits)
  have fo: "overlap (?f r) r' = overlap r r'" "overlap r (?f r') = overlap r r'" "well_ranged (?f r) = well_ranged r" for r r'
    by (simp_all add: overlap_def well_ranged_def f)
  have old: "\<exists>r0. cached c w = Some r0 \<and> (r = r0 \<or> r = ?f r0)" if "cached ?c w = Some r" for w r
    using that cv by (auto simp: ca split: if_splits)
  have new: "\<exists>r. cached ?c w = Some r \<and> (r = r0 \<or> r = ?f r0)" if "cached c w = Some r0" for w r0
    using that cv by (auto simp: ca)
  note D = cache_invD [OF assms]
  show ?thesis
  proof (rule cache_invI, unfold sel)
    show "bt_inv (key_to_ver_id c)" by (rule D)
    show "ver_id r = w \<and> well_ranged r \<and> bt_get (key_to_ver_id c) (start_key r) = Some w
        \<and> id_to_ver_id c (region_id r) = Some w" if "cached ?c w = Some r" for w r
      using old [OF that] D(2) f fo(3) by metis
    show "\<exists>r. cached ?c w = Some r \<and> start_key r = s" if "bt_get (key_to_ver_id c) s = Some w" for s w
      using D(3) [OF that] new f(1) by metis
    show "\<exists>r. cached ?c w = Some r \<and> region_id r = i" if "id_to_ver_id c i = Some w" for i w
      using D(4) [OF that] new f(4) by metis
    show "w = w'" if "cached ?c w = Some r" "cached ?c w' = Some r'" "overlap r r'" for w w' r r'
      using old [OF that(1)] old [OF that(2)] that(3) D(5) fo(1,2) by metis
  qed
qed

subsection \<open>A source of regions\<close>

text \<open>The contract that the sharding code relies on: looking up a key gives a region that contains
  it, and the state of the source stays valid whatever the outcome.\<close>

locale region_source =
  fixes lookup :: "'s \<Rightarrow> key \<Rightarrow> 's \<times> region_with_leader res"
    and inv :: "'s \<Rightarrow> bool"
  assumes lookup_inv: "inv s \<Longrightarrow> inv (fst (lookup s k))"
    and lookup_contains: "inv s \<Longrightarrow> snd (lookup s k) = Inr r \<Longrightarrow> contains r k"
begin

lemma lookup_pair: "inv s \<Longrightarrow> lookup s k = (s', Inr r) \<Longrightarrow> inv s' \<and> contains r k"
  using lookup_inv [of s k] lookup_contains [of s k r] by simp

lemma lookup_error: "inv s \<Longrightarrow> lookup s k = (s', Inl e) \<Longrightarrow> inv s'"
  using lookup_inv [of s k] by simp

end

text \<open>PD's part of the contract: a region that it returns for a key contains the key, is not empty,
  and versions determine ranges; the recorded history of regions makes the last point a property
  of one state.\<close>

record region_source_state =
  rs_cache :: region_cache_map
  rs_env :: region_env
  rs_range_of_version :: "region_ver_id \<Rightarrow> key \<times> key"

definition pd_valid :: "(region_ver_id \<Rightarrow> key \<times> key) \<Rightarrow> region_with_leader \<Rightarrow> bool" where
  "pd_valid rng r \<longleftrightarrow> well_ranged r \<and> range_of r = rng (ver_id r)"

definition region_source_inv :: "region_source_state \<Rightarrow> bool" where
  "region_source_inv s \<longleftrightarrow> cache_inv (rs_cache s)
    \<and> (\<forall>v r. cached (rs_cache s) v = Some r \<longrightarrow> range_of r = rs_range_of_version s v)
    \<and> (\<forall>xs. set (env_hash_order (rs_env s) xs) = set xs)
    \<and> (\<forall>k r. env_pd_key (rs_env s) k = Inr r \<longrightarrow> contains r k \<and> pd_valid (rs_range_of_version s) r)
    \<and> (\<forall>i r. env_pd_id (rs_env s) i = Inr r \<longrightarrow> region_id r = i \<and> pd_valid (rs_range_of_version s) r)"

definition cached_lookup :: "region_source_state \<Rightarrow> key \<Rightarrow> region_source_state \<times> region_with_leader res" where
  "cached_lookup s k = (case get_region_by_key (rs_env s) k (rs_cache s) of (c, r) \<Rightarrow> (s\<lparr>rs_cache := c\<rparr>, r))"

lemma pd_valid_same_range:
  "pd_valid rng r \<Longrightarrow> (\<forall>v r. cached c v = Some r \<longrightarrow> range_of r = rng v) \<Longrightarrow> same_version_same_range r c"
  by (auto simp: pd_valid_def same_version_same_range_def split: option.splits)

lemma add_region_source:
  assumes "cache_inv c" "\<forall>v r. cached c v = Some r \<longrightarrow> range_of r = rng v" "\<And>xs. set (ho xs) = set xs" "pd_valid rng r"
  shows "cache_inv (add_region ho t rnd now r c)
    \<and> (\<forall>v r'. cached (add_region ho t rnd now r c) v = Some r' \<longrightarrow> range_of r' = rng v)"
  using add_region_spec [OF assms(1) _ assms(3) pd_valid_same_range [OF assms(4,2)], of t rnd now] assms(2,4)
  by (auto simp: pd_valid_def split: if_splits)

lemma cached_lookup_spec:
  assumes inv: "region_source_inv s"
  shows "region_source_inv (fst (cached_lookup s k)) \<and> (\<forall>r. snd (cached_lookup s k) = Inr r \<longrightarrow> contains r k)"
proof -
  let ?env = "rs_env s" and ?rng = "rs_range_of_version s"
  define c where "c = rs_cache s"
  have ci: "cache_inv c" "\<forall>v r. cached c v = Some r \<longrightarrow> range_of r = ?rng v"
    using inv by (auto simp: region_source_inv_def c_def)
  have upd: "region_source_inv (s\<lparr>rs_cache := c'\<rparr>)"
    if "cache_inv c'" "\<forall>v r. cached c' v = Some r \<longrightarrow> range_of r = ?rng v" for c'
    using inv that by (simp add: region_source_inv_def)
  obtain c1 o1 where l1: "lookup_by_key (env_ttl ?env) (env_rnd ?env) (env_now ?env) k c = (c1, o1)" by (cases "lookup_by_key (env_ttl ?env) (env_rnd ?env) (env_now ?env) k c")
  have c1: "cache_inv c1" "\<forall>v r. cached c1 v = Some r \<longrightarrow> range_of r = ?rng v"
    using lookup_by_key_inv [OF ci(1)] lookup_by_key_keeps(1) ci(2) l1 by (metis fst_conv)+
  show ?thesis
  proof (cases o1)
    case (Some r)
    then have "contains r k" using lookup_by_key_sound [of _ _ _ k c r] l1 by (metis snd_conv)
    then show ?thesis using Some l1 upd [OF c1] by (simp add: cached_lookup_def get_region_by_key_def c_def [symmetric])
  next
    case n1: None
    obtain c2 o2 where l2: "lookup_by_key (env_ttl ?env) (env_rnd ?env) (env_now ?env) k c1 = (c2, o2)" by (cases "lookup_by_key (env_ttl ?env) (env_rnd ?env) (env_now ?env) k c1")
    have c2: "cache_inv c2" "\<forall>v r. cached c2 v = Some r \<longrightarrow> range_of r = ?rng v"
      using lookup_by_key_inv [OF c1(1)] lookup_by_key_keeps(1) c1(2) l2 by (metis fst_conv)+
    show ?thesis
    proof (cases o2)
      case (Some r)
      then have "contains r k" using lookup_by_key_sound [of _ _ _ k c1 r] l2 by (metis snd_conv)
      then show ?thesis using Some n1 l1 l2 upd [OF c2] by (simp add: cached_lookup_def get_region_by_key_def c_def [symmetric])
    next
      case None
      then have g: "get_region_by_key ?env k c = read_through_region_by_key ?env k c2"
        using n1 l1 l2 by (simp add: get_region_by_key_def)
      show ?thesis
      proof (cases "env_pd_key ?env k")
        case (Inl e)
        then show ?thesis using g upd [OF c2] by (simp add: cached_lookup_def c_def [symmetric] read_through_region_by_key_def)
      next
        case (Inr r)
        then have r: "contains r k" "pd_valid ?rng r" using inv by (auto simp: region_source_inv_def)
        have ho: "\<And>xs. set (env_hash_order ?env xs) = set xs" using inv by (simp add: region_source_inv_def)
        from add_region_source [OF c2 ho r(2)] show ?thesis
          using g Inr r(1) upd by (simp add: cached_lookup_def c_def [symmetric] read_through_region_by_key_def)
      qed
    qed
  qed
qed

interpretation cached_source: region_source cached_lookup region_source_inv
proof (unfold_locales, goal_cases)
  case (1 s k) then show ?case using cached_lookup_spec by blast
next
  case (2 s k r) then show ?case using cached_lookup_spec by blast
qed

subsection \<open>What the region cache guarantees\<close>

text \<open>The atomic operations of the cache on regions that PD may return.\<close>

inductive cache_step :: "(region_ver_id \<Rightarrow> key \<times> key) \<Rightarrow> region_cache_map \<Rightarrow> region_cache_map \<Rightarrow> bool"
  for rng :: "region_ver_id \<Rightarrow> key \<times> key" where
  step_add: "pd_valid rng r \<Longrightarrow> (\<And>xs. set (ho xs) = set xs) \<Longrightarrow> cache_step rng c (add_region ho t rnd now r c)"
| step_leader: "cache_step rng c (update_leader t rnd now v leader c)"
| step_invalidate: "cache_step rng c (invalidate_region_cache v c)"
| step_lookup_key: "cache_step rng c (fst (lookup_by_key t rnd now k c))"
| step_lookup_id: "cache_step rng c (fst (lookup_by_id t rnd now i c))"

inductive cache_reach :: "(region_ver_id \<Rightarrow> key \<times> key) \<Rightarrow> region_cache_map \<Rightarrow> bool"
  for rng :: "region_ver_id \<Rightarrow> key \<times> key" where
  reach_empty: "cache_reach rng new_region_cache_map"
| reach_more: "cache_reach rng c \<Longrightarrow> cache_step rng c c' \<Longrightarrow> cache_reach rng c'"

lemma update_leader_range:
  "cached (update_leader t rnd now v leader c) w = Some r \<Longrightarrow> \<exists>r0. cached c w = Some r0 \<and> range_of r = range_of r0"
  by (auto simp: update_leader_def cached_def range_of_def start_key_def end_key_def split: option.splits if_splits)

lemma cache_reach_inv:
  "cache_reach rng c \<Longrightarrow> cache_inv c \<and> (\<forall>v r. cached c v = Some r \<longrightarrow> range_of r = rng v)"
proof (induction rule: cache_reach.induct)
  case reach_empty
  show ?case using cache_inv_new by (simp add: new_region_cache_map_def cached_def)
next
  case (reach_more c c')
  then have inv: "cache_inv c" and rng: "\<forall>v r. cached c v = Some r \<longrightarrow> range_of r = rng v" by auto
  from reach_more(2) show ?case
  proof cases
    case (step_add r ho t rnd now)
    then show ?thesis using add_region_source [OF inv rng, of ho r t rnd now] by simp
  next
    case (step_leader t rnd now v leader)
    then show ?thesis using update_leader_inv [OF inv] update_leader_range rng by metis
  next
    case (step_invalidate v)
    then show ?thesis using cache_inv_remove [OF inv] rng
      by (auto simp: invalidate_is_remove cached_remove split: if_splits)
  next
    case (step_lookup_key t rnd now k)
    then show ?thesis using lookup_by_key_inv [OF inv] rng by (simp add: lookup_by_key_keeps)
  next
    case (step_lookup_id t rnd now i)
    then show ?thesis using lookup_by_id_inv [OF inv] rng by (simp add: lookup_by_id_keeps)
  qed
qed

text \<open>C29: whatever sequence of additions, leader updates, invalidations and lookups the cache goes
  through, its three indices agree and no two cached regions share a key, as long as PD gives
  non-empty regions and one range to each version of a region.\<close>

theorem region_cache_invariant:
  assumes "cache_reach rng c"
  shows "cache_inv c
    \<and> (cached c v = Some r \<and> cached c v' = Some r' \<and> contains r k \<and> contains r' k \<longrightarrow> r = r')"
proof -
  have inv: "cache_inv c" using cache_reach_inv [OF assms] by blast
  then show ?thesis using cache_invD(5) [OF inv] overlap_contains by (metis option.inject)
qed

definition sample_region :: "u64 \<Rightarrow> bytes \<Rightarrow> bytes \<Rightarrow> region_with_leader" where
  "sample_region i s e = \<lparr>rl_region = \<lparr>mr_id = i, mr_start_key = s, mr_end_key = e,
     mr_region_epoch = None, mr_peers = []\<rparr>, rl_leader = None\<rparr>"

lemma sample_region_sel:
  "start_key (sample_region i s e) = s" "end_key (sample_region i s e) = e"
  "ver_id (sample_region i s e) = \<lparr>rv_id = i, rv_conf_ver = 0, rv_ver = 0\<rparr>" "region_id (sample_region i s e) = i"
  by (simp_all add: sample_region_def start_key_def end_key_def ver_id_def region_id_def)

theorem region_cache_invariant_witness:
  "cache_inv (add_region (\<lambda>xs. xs) \<lparr>base_sec = 600, jitter_sec = 60\<rparr> 5 100 (sample_region 1 [] [5]) new_region_cache_map)"
proof -
  let ?rng = "\<lambda>v. if v = \<lparr>rv_id = 1, rv_conf_ver = 0, rv_ver = 0\<rparr> then ([], [5]) else ([], [])"
  have "pd_valid ?rng (sample_region 1 [] [5])"
    by (simp add: pd_valid_def well_ranged_def range_of_def sample_region_sel)
  then have "cache_reach ?rng (add_region (\<lambda>xs. xs) \<lparr>base_sec = 600, jitter_sec = 60\<rparr> 5 100 (sample_region 1 [] [5]) new_region_cache_map)"
    by (intro reach_more [OF reach_empty] step_add) simp_all
  from region_cache_invariant [OF this] show ?thesis by blast
qed

text \<open>A lookup in a reachable cache is exact: it returns a region exactly when some cached region
  contains the key and has not outlived its TTL, and then it returns that region.\<close>

theorem region_lookup_exact:
  assumes "cache_reach rng c"
  shows "snd (lookup_by_key t rnd now k c) = Some r \<longleftrightarrow>
    (\<exists>v cr. ver_id_to_region c v = Some cr \<and> cr_region cr = r \<and> contains r k
       \<and> (\<not> is_enabled t \<or> now \<le> cr_ttl_epoch_sec cr))"
proof
  assume "snd (lookup_by_key t rnd now k c) = Some r"
  then show "\<exists>v cr. ver_id_to_region c v = Some cr \<and> cr_region cr = r \<and> contains r k
       \<and> (\<not> is_enabled t \<or> now \<le> cr_ttl_epoch_sec cr)"
    by (fastforce simp: lookup_by_key_def check_and_refresh_def split: option.splits prod.splits if_splits)
next
  assume "\<exists>v cr. ver_id_to_region c v = Some cr \<and> cr_region cr = r \<and> contains r k
       \<and> (\<not> is_enabled t \<or> now \<le> cr_ttl_epoch_sec cr)"
  then show "snd (lookup_by_key t rnd now k c) = Some r"
    using lookup_by_key_complete cache_reach_inv [OF assms] by blast
qed

theorem region_lookup_exact_witness:
  "snd (lookup_by_key \<lparr>base_sec = 600, jitter_sec = 60\<rparr> 3 120 [4]
     (add_region (\<lambda>xs. xs) \<lparr>base_sec = 600, jitter_sec = 60\<rparr> 5 100 (sample_region 1 [] [5]) new_region_cache_map))
   = Some (sample_region 1 [] [5])"
proof -
  let ?rng = "\<lambda>v. if v = \<lparr>rv_id = 1, rv_conf_ver = 0, rv_ver = 0\<rparr> then ([], [5]) else ([], [])"
  let ?t = "\<lparr>base_sec = 600, jitter_sec = 60\<rparr>"
  have "pd_valid ?rng (sample_region 1 [] [5])"
    by (simp add: pd_valid_def well_ranged_def range_of_def sample_region_sel)
  then have r: "cache_reach ?rng (add_region (\<lambda>xs. xs) ?t 5 100 (sample_region 1 [] [5]) new_region_cache_map)"
    by (intro reach_more [OF reach_empty] step_add) simp_all
  show ?thesis
    unfolding region_lookup_exact [OF r]
    by (intro exI [of _ "\<lparr>rv_id = 1, rv_conf_ver = 0, rv_ver = 0\<rparr>"]
        exI [of _ "\<lparr>cr_region = sample_region 1 [] [5], cr_ttl_epoch_sec = 705\<rparr>"])
       (simp add: Let_def add_region_def new_region_cache_map_def sample_region_sel contains_half_open in_half_open_def
        next_ttl_def is_enabled_def i64_saturating_add_def I64_MAX_def)
qed

text \<open>C8: looking up a key through the cache gives a region that contains the key, whether it comes
  from the cache or from PD, and keeps the cache valid.\<close>

theorem cached_lookup_correct:
  assumes "region_source_inv s" "cached_lookup s k = (s', Inr r)"
  shows "contains r k \<and> region_source_inv s'"
  using cached_source.lookup_pair [OF assms] by simp

theorem cached_lookup_correct_witness:
  "\<exists>s s' r. cached_lookup s [7] = (s', Inr r) \<and> contains r [7] \<and> region_source_inv s'"
proof -
  let ?env = "\<lparr>env_ttl = \<lparr>base_sec = 0, jitter_sec = 0\<rparr>, env_hash_order = (\<lambda>xs. xs),
    env_pd_key = (\<lambda>k. Inr (sample_region 1 [] [])), env_pd_id = (\<lambda>i. Inl NoCurrentRegions), env_now = 0, env_rnd = 0\<rparr>"
  let ?s = "\<lparr>rs_cache = new_region_cache_map, rs_env = ?env, rs_range_of_version = (\<lambda>v. ([], []))\<rparr>"
  have inv: "region_source_inv ?s"
    using cache_inv_new by (auto simp: region_source_inv_def pd_valid_def well_ranged_def range_of_def
        sample_region_sel contains_half_open in_half_open_def cached_def new_region_cache_map_def)
  obtain s' r where "cached_lookup ?s [7] = (s', Inr r)"
    by (simp add: cached_lookup_def get_region_by_key_def lookup_by_key_def new_region_cache_map_def
        read_through_region_by_key_def)
  with cached_lookup_correct [OF inv this] show ?thesis by blast
qed

end
