(* ===== verification/Region_Inflight.thy ===== *)
theory Region_Inflight
  imports Region_Cache
begin

text \<open>
  The single-flight protocol of \<open>get_region_by_key\<close> and \<open>get_region_by_id\<close> (\<open>region_cache.rs\<close>) as an
  interleaving of the tasks that look up one key. A task runs the loop of the source; each step is
  one critical section or one await point. \<open>Notify::notify_waiters\<close> wakes the tasks that have already
  called \<open>notified()\<close> and stores no permit for later ones. The second part is the store cache of
  the same file.
\<close>

subsection \<open>The tasks\<close>

datatype pc =
    FastPath              \<comment> \<open>about to read the cache\<close>
  | SlowPath              \<comment> \<open>missed, about to lock the in-flight map\<close>
  | Joined nat            \<comment> \<open>holds the \<open>Notify\<close> of another loader, \<open>notified()\<close> not yet called\<close>
  | Waiting nat           \<comment> \<open>registered with that \<open>Notify\<close>\<close>
  | Loader nat            \<comment> \<open>inserted its own \<open>Notify\<close>, about to check the cache again\<close>
  | Fetching nat          \<comment> \<open>the request to PD is under way\<close>
  | Fetched nat           \<comment> \<open>about to remove the in-flight entry\<close>
  | Cleared nat           \<comment> \<open>entry removed, about to call \<open>notify_waiters\<close>\<close>
  | Returned

record flight =
  filled :: bool           \<comment> \<open>the cache has a valid region for the key\<close>
  in_flight :: "nat option"
  next_notify :: nat
  task :: "nat \<Rightarrow> pc"

definition start_flight :: flight where
  "start_flight = \<lparr>filled = False, in_flight = None, next_notify = 0, task = (\<lambda>_. FastPath)\<rparr>"

definition goto :: "nat \<Rightarrow> pc \<Rightarrow> flight \<Rightarrow> flight" where
  "goto t p s = s\<lparr>task := (task s)(t := p)\<rparr>"

definition join_or_load :: "nat \<Rightarrow> flight \<Rightarrow> flight" where
  "join_or_load t s = (case in_flight s of
      Some n \<Rightarrow> goto t (Joined n) s
    | None \<Rightarrow> goto t (Loader (next_notify s)) (s\<lparr>in_flight := Some (next_notify s), next_notify := next_notify s + 1\<rparr>))"

definition notify_waiters :: "nat \<Rightarrow> flight \<Rightarrow> flight" where
  "notify_waiters n s = s\<lparr>task := (\<lambda>t. if task s t = Waiting n then FastPath else task s t)\<rparr>"

inductive flight_step :: "flight \<Rightarrow> flight \<Rightarrow> bool" where
  hit: "task s t = FastPath \<Longrightarrow> filled s \<Longrightarrow> flight_step s (goto t Returned s)"
| miss: "task s t = FastPath \<Longrightarrow> \<not> filled s \<Longrightarrow> flight_step s (goto t SlowPath s)"
| enter: "task s t = SlowPath \<Longrightarrow> flight_step s (join_or_load t s)"
| register: "task s t = Joined n \<Longrightarrow> flight_step s (goto t (Waiting n) s)"
| recheck_hit: "task s t = Loader n \<Longrightarrow> filled s \<Longrightarrow> flight_step s (goto t (Fetched n) s)"
| recheck_miss: "task s t = Loader n \<Longrightarrow> \<not> filled s \<Longrightarrow> flight_step s (goto t (Fetching n) s)"
| fetch_ok: "task s t = Fetching n \<Longrightarrow> flight_step s (goto t (Fetched n) (s\<lparr>filled := True\<rparr>))"
| fetch_err: "task s t = Fetching n \<Longrightarrow> flight_step s (goto t (Fetched n) s)"
| clear: "task s t = Fetched n \<Longrightarrow> flight_step s (goto t (Cleared n) (s\<lparr>in_flight := None\<rparr>))"
| wake: "task s t = Cleared n \<Longrightarrow> flight_step s (goto t Returned (notify_waiters n s))"
| call_again: "task s t = Returned \<Longrightarrow> flight_step s (goto t FastPath s)"
| expire: "flight_step s (s\<lparr>filled := False\<rparr>)"
| fill: "flight_step s (s\<lparr>filled := True\<rparr>)"

inductive flight_run :: "flight \<Rightarrow> flight \<Rightarrow> bool" where
  run_refl: "flight_run s s"
| run_step: "flight_run s s' \<Longrightarrow> flight_step s' s'' \<Longrightarrow> flight_run s s''"

subsection \<open>At most one load per key\<close>

fun loading :: "pc \<Rightarrow> nat option" where
  "loading (Loader n) = Some n"
| "loading (Fetching n) = Some n"
| "loading (Fetched n) = Some n"
| "loading p = None"

definition flight_inv :: "flight \<Rightarrow> bool" where
  "flight_inv s \<longleftrightarrow> (\<forall>t n. loading (task s t) = Some n \<longrightarrow> in_flight s = Some n)
    \<and> (\<forall>t t'. loading (task s t) \<noteq> None \<longrightarrow> loading (task s t') \<noteq> None \<longrightarrow> t = t')
    \<and> (\<forall>n. in_flight s = Some n \<longrightarrow> n < next_notify s)
    \<and> (\<forall>t n. task s t = Cleared n \<longrightarrow> n < next_notify s)"

lemma flight_invD:
  assumes "flight_inv s"
  shows "\<And>t n. loading (task s t) = Some n \<Longrightarrow> in_flight s = Some n"
    and "\<And>t t'. loading (task s t) \<noteq> None \<Longrightarrow> loading (task s t') \<noteq> None \<Longrightarrow> t = t'"
    and "\<And>n. in_flight s = Some n \<Longrightarrow> n < next_notify s"
    and "\<And>t n. task s t = Cleared n \<Longrightarrow> n < next_notify s"
  using assms unfolding flight_inv_def by blast+

lemma flight_invI:
  assumes "\<And>t n. loading (task s t) = Some n \<Longrightarrow> in_flight s = Some n"
    and "\<And>t t'. loading (task s t) \<noteq> None \<Longrightarrow> loading (task s t') \<noteq> None \<Longrightarrow> t = t'"
    and "\<And>n. in_flight s = Some n \<Longrightarrow> n < next_notify s"
    and "\<And>t n. task s t = Cleared n \<Longrightarrow> n < next_notify s"
  shows "flight_inv s"
  using assms unfolding flight_inv_def by blast

text \<open>A task moves on without starting or ending a load.\<close>

lemma flight_inv_goto:
  assumes "flight_inv s" "loading p = loading (task s t)" "\<And>n. p \<noteq> Cleared n"
  shows "flight_inv (goto t p s)"
proof (rule flight_invI)
  note D = flight_invD [OF assms(1)]
  have l: "loading (task (goto t p s) u) = loading (task s u)" for u using assms(2) by (simp add: goto_def)
  show "loading (task (goto t p s) u) = Some n \<Longrightarrow> in_flight (goto t p s) = Some n" for u n
    unfolding l using D(1) by (simp add: goto_def)
  show "loading (task (goto t p s) u) \<noteq> None \<Longrightarrow> loading (task (goto t p s) u') \<noteq> None \<Longrightarrow> u = u'" for u u'
    unfolding l by (rule D(2))
  show "in_flight (goto t p s) = Some n \<Longrightarrow> n < next_notify (goto t p s)" for n
    using D(3) by (simp add: goto_def)
  show "task (goto t p s) u = Cleared n \<Longrightarrow> n < next_notify (goto t p s)" for u n
    using D(4) [of u n] assms(3) [of n] by (simp add: goto_def split: if_splits)
qed

lemma flight_inv_filled: "flight_inv (s\<lparr>filled := b\<rparr>) = flight_inv s"
  by (simp add: flight_inv_def)

lemma flight_inv_enter:
  assumes inv: "flight_inv s" and t: "task s t = SlowPath"
  shows "flight_inv (join_or_load t s)"
proof (cases "in_flight s")
  case (Some n)
  then show ?thesis using flight_inv_goto [OF inv, of "Joined n" t] t by (simp add: join_or_load_def)
next
  case None
  note D = flight_invD [OF inv]
  have n: "loading (task s u) = None" for u using D(1) [of u] None by (cases "loading (task s u)") auto
  show ?thesis
  proof (rule flight_invI)
    show "task (join_or_load t s) u = Cleared m \<Longrightarrow> m < next_notify (join_or_load t s)" for u m
      using D(4) [of u m] None by (auto simp: join_or_load_def goto_def split: if_splits)
  qed (auto simp: n None join_or_load_def goto_def split: if_splits)
qed

lemma flight_inv_clear:
  assumes inv: "flight_inv s" and t: "task s t = Fetched n"
  shows "flight_inv (goto t (Cleared n) (s\<lparr>in_flight := None\<rparr>))"
proof -
  note D = flight_invD [OF inv]
  have less: "n < next_notify s" using D(1) [of t n] D(3) t by simp
  have none: "u \<noteq> t \<Longrightarrow> loading (task s u) = None" for u
    using D(2) [of t u] t by (cases "loading (task s u)") auto
  show ?thesis
  proof (rule flight_invI)
    show "task (goto t (Cleared n) (s\<lparr>in_flight := None\<rparr>)) u = Cleared m
        \<Longrightarrow> m < next_notify (goto t (Cleared n) (s\<lparr>in_flight := None\<rparr>))" for u m
      using D(4) [of u m] less by (auto simp: goto_def split: if_splits)
  qed (use none in \<open>auto simp: goto_def split: if_splits\<close>)
qed

lemma flight_inv_wake:
  assumes inv: "flight_inv s"
  shows "flight_inv (notify_waiters n s)"
proof -
  have l: "loading (task (notify_waiters n s) u) = loading (task s u)" for u by (simp add: notify_waiters_def)
  have c: "task (notify_waiters n s) u = Cleared m \<longleftrightarrow> task s u = Cleared m" for u m by (simp add: notify_waiters_def)
  show ?thesis using inv unfolding flight_inv_def l c by (simp add: notify_waiters_def)
qed

lemma flight_step_inv:
  assumes "flight_step s s'" "flight_inv s"
  shows "flight_inv s'"
  using assms
proof cases
  case (enter t)
  then show ?thesis using flight_inv_enter assms(2) by simp
next
  case (clear t n)
  then show ?thesis using flight_inv_clear assms(2) by simp
next
  case (wake t n)
  then have "flight_inv (goto t Returned (notify_waiters n s))"
    by (intro flight_inv_goto flight_inv_wake assms(2)) (simp_all add: notify_waiters_def)
  then show ?thesis using wake by simp
qed (use assms(2) in \<open>simp_all add: flight_inv_goto flight_inv_filled\<close>)

lemma flight_run_inv: "flight_run s s' \<Longrightarrow> flight_inv s \<Longrightarrow> flight_inv s'"
  by (induction rule: flight_run.induct) (auto intro: flight_step_inv)

lemma start_flight_inv: "flight_inv start_flight"
  by (simp add: flight_inv_def start_flight_def)

subsection \<open>A wake-up that comes too early\<close>

text \<open>Nobody is left who will call \<open>notify_waiters\<close> on \<open>n\<close>.\<close>

definition abandoned :: "nat \<Rightarrow> flight \<Rightarrow> bool" where
  "abandoned n s \<longleftrightarrow> n < next_notify s \<and> in_flight s \<noteq> Some n
     \<and> (\<forall>t. loading (task s t) \<noteq> Some n \<and> task s t \<noteq> Cleared n)"

lemma abandoned_goto:
  "abandoned n s \<Longrightarrow> loading p = loading (task s u) \<Longrightarrow> p \<noteq> Cleared n \<Longrightarrow> abandoned n (goto u p s)"
  by (simp add: abandoned_def goto_def)

lemma abandoned_step:
  assumes "flight_step s s'" and ab: "abandoned n s" and t: "task s t = Waiting n"
  shows "abandoned n s'"
  using assms(1)
proof cases
  case (enter u)
  then show ?thesis using ab t
    by (cases "in_flight s") (auto simp: abandoned_def goto_def join_or_load_def)
next
  case (clear u m)
  then have "loading (task s u) = Some m" by simp
  then have "m \<noteq> n" using ab by (auto simp: abandoned_def)
  then show ?thesis using clear ab t by (simp add: abandoned_def goto_def) 
next
  case (wake u m)
  then have "m \<noteq> n" using ab by (auto simp: abandoned_def)
  moreover have "abandoned n (notify_waiters m s)"
    using ab by (auto simp: abandoned_def notify_waiters_def)
  ultimately show ?thesis using wake t by (simp add: abandoned_goto notify_waiters_def goto_def abandoned_def)
next
  case (fetch_ok u m)
  then have "abandoned n (goto u (Fetched m) s)" using abandoned_goto [OF ab] by simp
  then show ?thesis using fetch_ok by (simp add: abandoned_def goto_def)
qed (use ab in \<open>simp_all add: abandoned_goto, simp_all add: goto_def abandoned_def\<close>)

lemma abandoned_waits:
  assumes "flight_step s s'" and ab: "abandoned n s" and t: "task s t = Waiting n"
  shows "task s' t = Waiting n"
  using assms(1)
proof cases
  case (wake u m)
  then have "m \<noteq> n" using ab by (auto simp: abandoned_def)
  then show ?thesis using wake t by (auto simp: goto_def notify_waiters_def)
qed (use t in \<open>auto simp: goto_def join_or_load_def split: option.splits\<close>)

lemma abandoned_run:
  "flight_run s s' \<Longrightarrow> abandoned n s \<Longrightarrow> task s t = Waiting n \<Longrightarrow> abandoned n s' \<and> task s' t = Waiting n"
  by (induction rule: flight_run.induct) (auto intro: abandoned_step abandoned_waits)

text \<open>A state in which only the tasks 0 and 1 have started.\<close>

definition two_tasks :: "bool \<Rightarrow> nat option \<Rightarrow> nat \<Rightarrow> pc \<Rightarrow> pc \<Rightarrow> flight" where
  "two_tasks f i m p q = \<lparr>filled = f, in_flight = i, next_notify = m,
     task = (\<lambda>t. if t = 0 then p else if t = 1 then q else FastPath)\<rparr>"

lemma two_tasks_sel [simp]:
  "filled (two_tasks f i m p q) = f" "in_flight (two_tasks f i m p q) = i" "next_notify (two_tasks f i m p q) = m"
  "task (two_tasks f i m p q) 0 = p" "task (two_tasks f i m p q) (Suc 0) = q"
  by (simp_all add: two_tasks_def)

lemma goto_two_tasks [simp]:
  "goto 0 r (two_tasks f i m p q) = two_tasks f i m r q"
  "goto (Suc 0) r (two_tasks f i m p q) = two_tasks f i m p r"
  by (auto simp: goto_def two_tasks_def)

lemma two_tasks_upd [simp]:
  "(two_tasks f i m p q)\<lparr>filled := f'\<rparr> = two_tasks f' i m p q"
  "(two_tasks f i m p q)\<lparr>in_flight := i'\<rparr> = two_tasks f i' m p q"
  "(two_tasks f i m p q)\<lparr>next_notify := m'\<rparr> = two_tasks f i m' p q"
  by (simp_all add: two_tasks_def)

lemma notify_none:
  "p \<noteq> Waiting n \<Longrightarrow> q \<noteq> Waiting n \<Longrightarrow> notify_waiters n (two_tasks f i m p q) = two_tasks f i m p q"
  by (auto simp: notify_waiters_def two_tasks_def)

definition lost_wakeup_state :: flight where
  "lost_wakeup_state = two_tasks True None 1 Returned (Waiting 0)"

lemma lost_wakeup_path:
  "flight_run start_flight (two_tasks False (Some 0) 1 (Fetching 0) (Joined 0))"
  "flight_run start_flight lost_wakeup_state"
proof -
  have "two_tasks False None 0 FastPath FastPath = start_flight"
    by (auto simp: start_flight_def two_tasks_def)
  then have r0: "flight_run start_flight (two_tasks False None 0 FastPath FastPath)"
    using run_refl [of start_flight] by simp
  have "flight_step (two_tasks False None 0 FastPath FastPath) (two_tasks False None 0 SlowPath FastPath)"
    using miss [of "two_tasks False None 0 FastPath FastPath" 0] by (simp)
  note r1 = run_step [OF r0 this]
  have "flight_step (two_tasks False None 0 SlowPath FastPath) (two_tasks False None 0 SlowPath SlowPath)"
    using miss [of "two_tasks False None 0 SlowPath FastPath" 1] by (simp)
  note r2 = run_step [OF r1 this]
  have "flight_step (two_tasks False None 0 SlowPath SlowPath) (two_tasks False (Some 0) 1 (Loader 0) SlowPath)"
    using enter [of "two_tasks False None 0 SlowPath SlowPath" 0] by (simp add: join_or_load_def)
  note r3 = run_step [OF r2 this]
  have "flight_step (two_tasks False (Some 0) 1 (Loader 0) SlowPath) (two_tasks False (Some 0) 1 (Loader 0) (Joined 0))"
    using enter [of "two_tasks False (Some 0) 1 (Loader 0) SlowPath" 1] by (simp add: join_or_load_def)
  note r4 = run_step [OF r3 this]
  have "flight_step (two_tasks False (Some 0) 1 (Loader 0) (Joined 0)) (two_tasks False (Some 0) 1 (Fetching 0) (Joined 0))"
    using recheck_miss [of "two_tasks False (Some 0) 1 (Loader 0) (Joined 0)" 0] by (simp)
  note r5 = run_step [OF r4 this]
  have "flight_step (two_tasks False (Some 0) 1 (Fetching 0) (Joined 0)) (two_tasks True (Some 0) 1 (Fetched 0) (Joined 0))"
    using fetch_ok [of "two_tasks False (Some 0) 1 (Fetching 0) (Joined 0)" 0] by (simp)
  note r6 = run_step [OF r5 this]
  have "flight_step (two_tasks True (Some 0) 1 (Fetched 0) (Joined 0)) (two_tasks True None 1 (Cleared 0) (Joined 0))"
    using clear [of "two_tasks True (Some 0) 1 (Fetched 0) (Joined 0)" 0] by (simp)
  note r7 = run_step [OF r6 this]
  have "flight_step (two_tasks True None 1 (Cleared 0) (Joined 0)) (two_tasks True None 1 Returned (Joined 0))"
    using wake [of "two_tasks True None 1 (Cleared 0) (Joined 0)" 0] by (simp add: notify_none)
  note r8 = run_step [OF r7 this]
  have "flight_step (two_tasks True None 1 Returned (Joined 0)) (two_tasks True None 1 Returned (Waiting 0))"
    using register [of "two_tasks True None 1 Returned (Joined 0)" 1] by (simp)
  note r9 = run_step [OF r8 this]
  show "flight_run start_flight (two_tasks False (Some 0) 1 (Fetching 0) (Joined 0))" by (rule r5)
  show "flight_run start_flight lost_wakeup_state" using r9 by (simp add: lost_wakeup_state_def)
qed

text \<open>Concurrent lookups of one key never load it from PD twice at the same time.\<close>

theorem single_flight:
  assumes "flight_run start_flight s" "task s t = Fetching n" "task s t' = Fetching n'"
  shows "t = t'"
proof -
  have "flight_inv s" using assms(1) start_flight_inv by (rule flight_run_inv)
  moreover have "loading (task s t) \<noteq> None" "loading (task s t') \<noteq> None" using assms(2,3) by simp_all
  ultimately show ?thesis unfolding flight_inv_def by blast
qed

theorem single_flight_witness:
  "\<exists>s :: flight. task s 0 = Fetching 0 \<and> (\<forall>t. task s t = Fetching 0 \<longleftrightarrow> t = 0)"
proof -
  let ?s = "two_tasks False (Some 0) 1 (Fetching 0) (Joined 0)"
  have "t = 0" if "task ?s t = Fetching 0" for t
    using single_flight [OF lost_wakeup_path(1) that, of 0 0] by simp
  then have "task ?s 0 = Fetching 0 \<and> (\<forall>t. task ?s t = Fetching 0 \<longleftrightarrow> t = 0)" by auto
  then show ?thesis by blast
qed

text \<open>C39: \<open>notified()\<close> is called after the in-flight lock is released, so the loader's
  \<open>notify_waiters\<close> can run first. The task that joined then waits for ever: in a reachable state the
  region is cached and nothing is in flight, and in every continuation the task is still waiting.\<close>

theorem region_lookup_lost_wakeup:
  "\<exists>s. flight_run start_flight s \<and> filled s \<and> in_flight s = None \<and> task s 1 = Waiting 0
     \<and> {s'. flight_run s s' \<and> task s' 1 \<noteq> Waiting 0} = {}"
proof -
  have "abandoned 0 lost_wakeup_state"
    by (auto simp: abandoned_def lost_wakeup_state_def two_tasks_def)
  then have "{s'. flight_run lost_wakeup_state s' \<and> task s' 1 \<noteq> Waiting 0} = {}"
    using abandoned_run [of lost_wakeup_state _ 0 1] by (auto simp: lost_wakeup_state_def)
  then show ?thesis
    using lost_wakeup_path(2) by (auto simp: lost_wakeup_state_def intro!: exI [of _ lost_wakeup_state])
qed

subsection \<open>The store cache\<close>

text \<open>\<open>store_cache\<close> is a hash map; the answers of PD are arguments.\<close>

record store_label =
  sl_key :: string
  sl_value :: string

record store_meta =
  sm_id :: u64
  sm_address :: string
  sm_labels :: "store_label list"
  sm_state :: int

datatype store_state = StoreUp | StoreOffline | StoreTombstone

definition store_state_try_from :: "int \<Rightarrow> store_state option" where
  "store_state_try_from i = (if i = 0 then Some StoreUp else if i = 1 then Some StoreOffline
     else if i = 2 then Some StoreTombstone else None)"

definition is_valid_tikv_store :: "store_meta \<Rightarrow> bool" where
  "is_valid_tikv_store s =
    (case store_state_try_from (sm_state s) of
       Some StoreTombstone \<Rightarrow> False
     | None \<Rightarrow> False
     | Some _ \<Rightarrow> \<not> list_ex (\<lambda>l. sl_key l = ''engine'' \<and> (sl_value l = ''tiflash'' \<or> sl_value l = ''tiflash_compute'')) (sm_labels s))"

type_synonym store_cache = "u64 \<rightharpoonup> store_meta"

definition read_through_store_by_id :: "(u64 \<Rightarrow> store_meta res) \<Rightarrow> u64 \<Rightarrow> store_cache \<Rightarrow> store_cache \<times> store_meta res" where
  "read_through_store_by_id pd i c = (case pd i of Inl e \<Rightarrow> (c, Inl e) | Inr s \<Rightarrow> (c(i \<mapsto> s), Inr s))"

definition get_store_by_id :: "(u64 \<Rightarrow> store_meta res) \<Rightarrow> u64 \<Rightarrow> store_cache \<Rightarrow> store_cache \<times> store_meta res" where
  "get_store_by_id pd i c = (case c i of Some s \<Rightarrow> (c, Inr s) | None \<Rightarrow> read_through_store_by_id pd i c)"

definition invalidate_store_cache :: "u64 \<Rightarrow> store_cache \<Rightarrow> store_cache" where
  "invalidate_store_cache i c = c(i := None)"

definition read_through_all_stores :: "store_meta list res \<Rightarrow> store_cache \<Rightarrow> store_cache \<times> store_meta list res" where
  "read_through_all_stores pd c =
    (case pd of Inl e \<Rightarrow> (c, Inl e)
     | Inr all \<Rightarrow> (let stores = filter is_valid_tikv_store all
                   in (fold (\<lambda>s c. c(sm_id s \<mapsto> s)) stores c, Inr stores)))"

lemma fold_store_insert:
  "fold (\<lambda>s c. c(sm_id s \<mapsto> s)) stores c i =
     (case filter (\<lambda>s. sm_id s = i) (rev stores) of [] \<Rightarrow> c i | s # _ \<Rightarrow> Some s)"
proof (induction stores arbitrary: c rule: rev_induct)
  case (snoc s stores)
  then show ?case by simp
qed simp

lemma filter_unique:
  "distinct (List.map f xs) \<Longrightarrow> x \<in> set xs \<Longrightarrow> filter (\<lambda>y. f y = f x) xs = [x]"
  by (induction xs) (auto simp: filter_empty_conv intro: rev_image_eqI)

text \<open>After all stores are read, each serving TiKV store is found in the cache without asking
  PD, and a store whose entry is invalidated is asked for again; TiFlash and tombstone stores never
  enter the cache this way.\<close>

theorem store_cache_round_trip:
  assumes "distinct (List.map sm_id all)" "s \<in> set all"
  shows "get_store_by_id pd (sm_id s) (fst (read_through_all_stores (Inr all) Map.empty)) =
     (if is_valid_tikv_store s then (fst (read_through_all_stores (Inr all) Map.empty), Inr s)
      else read_through_store_by_id pd (sm_id s) (fst (read_through_all_stores (Inr all) Map.empty)))
   \<and> snd (get_store_by_id pd (sm_id s) (invalidate_store_cache (sm_id s) c)) = pd (sm_id s)"
proof -
  let ?stores = "filter is_valid_tikv_store all"
  have d: "distinct (List.map sm_id (rev all))" using assms(1) by (simp add: rev_map [symmetric])
  have "filter (\<lambda>y. sm_id y = sm_id s) (rev all) = [s]"
    by (rule filter_unique [OF d]) (simp add: assms(2))
  then have "filter is_valid_tikv_store (filter (\<lambda>y. sm_id y = sm_id s) (rev all)) = (if is_valid_tikv_store s then [s] else [])"
    by simp
  then have "filter (\<lambda>y. sm_id y = sm_id s) (rev ?stores) = (if is_valid_tikv_store s then [s] else [])"
    unfolding filter_filter rev_filter by (simp only: conj_commute)
  then have "fst (read_through_all_stores (Inr all) Map.empty) (sm_id s)
      = (if is_valid_tikv_store s then Some s else None)"
    by (simp add: read_through_all_stores_def Let_def fold_store_insert)
  then show ?thesis
    by (simp add: get_store_by_id_def invalidate_store_cache_def read_through_store_by_id_def split: sum.split)
qed

theorem store_cache_round_trip_witness:
  "snd (get_store_by_id (\<lambda>_. Inl NoCurrentRegions) 4 (fst (read_through_all_stores
      (Inr [\<lparr>sm_id = 4, sm_address = ''a'', sm_labels = [], sm_state = 0\<rparr>]) Map.empty)))
   = Inr \<lparr>sm_id = 4, sm_address = ''a'', sm_labels = [], sm_state = 0\<rparr>"
  using store_cache_round_trip [of "[\<lparr>sm_id = 4, sm_address = ''a'', sm_labels = [], sm_state = 0\<rparr>]"
      "\<lparr>sm_id = 4, sm_address = ''a'', sm_labels = [], sm_state = 0\<rparr>" "\<lambda>_. Inl NoCurrentRegions"]
  by (simp add: is_valid_tikv_store_def store_state_try_from_def)

end
