(* ===== verification/Tso.thy ===== *)
theory Tso
  imports Timestamp
begin

text \<open>
  The timestamp oracle (\<open>pd/timestamp.rs\<close>): callers put requests into a bounded channel, a stream collects them into batches and sends
  one message per batch to PD, and every answer is shared out among the requests of the oldest batch. A request, which is the sender of
  a oneshot channel, is a number. The two futures of the background task and the callers interleave as the steps of \<open>tso_step\<close>.
\<close>

subsection \<open>The oracle\<close>

definition MAX_BATCH_SIZE :: nat where "MAX_BATCH_SIZE = 64"
definition MAX_PENDING_COUNT :: nat where "MAX_PENDING_COUNT = 65536"

record tso_request =
  tq_cluster_id :: u64
  tq_count :: u32

record tso_response =
  tr_count :: u32
  tr_timestamp :: "timestamp option"

record request_group =
  rg_tso_request :: tso_request
  rg_requests :: "nat list"

text \<open>The channel, whether all its senders are gone, and the groups that wait for an answer.\<close>

record tso_stream =
  st_cluster_id :: u64
  st_channel :: "nat list"
  st_closed :: bool
  st_pending :: "request_group list"

datatype 'a poll = Pending | Ready 'a

text \<open>The loop that takes requests out of the channel. The runtime may make a receiver yield although there is something to
  receive: \<open>budget\<close> is how often it lets the channel be polled.\<close>

fun recv_requests :: "nat \<Rightarrow> nat \<Rightarrow> nat list \<Rightarrow> nat list \<Rightarrow> nat list \<times> nat list" where
  "recv_requests pending budget requests [] = (requests, [])"
| "recv_requests pending budget requests (r # channel) =
    (if length requests < MAX_BATCH_SIZE \<and> pending < MAX_PENDING_COUNT \<and> 0 < budget
     then recv_requests pending (budget - 1) (requests @ [r]) channel
     else (requests, r # channel))"

definition poll_next :: "nat \<Rightarrow> tso_stream \<Rightarrow> tso_stream \<times> tso_request option poll" where
  "poll_next budget s =
    (case recv_requests (length (st_pending s)) budget [] (st_channel s) of
       ([], channel) \<Rightarrow>
         (s, if channel = [] \<and> st_closed s \<and> 0 < budget \<and> length (st_pending s) < MAX_PENDING_COUNT then Ready None else Pending)
     | (requests, channel) \<Rightarrow>
         (let req = \<lparr>tq_cluster_id = st_cluster_id s, tq_count = of_nat (length requests)\<rparr>
          in (s\<lparr>st_channel := channel, st_pending := st_pending s @ [\<lparr>rg_tso_request = req, rg_requests = requests\<rparr>]\<rparr>, Ready (Some req))))"

text \<open>The timestamps that the requests of a group receive, in the order of the requests.\<close>

fun share_out :: "timestamp \<Rightarrow> u32 \<Rightarrow> nat list \<Rightarrow> (nat \<times> timestamp) list" where
  "share_out tail_ts offset [] = []"
| "share_out tail_ts offset (r # requests) =
    (let offset = offset - 1
     in (r, \<lparr>physical = physical tail_ts, logical = logical tail_ts - uint offset, suffix_bits = suffix_bits tail_ts\<rparr>)
        # share_out tail_ts offset requests)"

definition allocate_timestamps :: "tso_response \<Rightarrow> request_group list \<Rightarrow> request_group list \<times> (nat \<times> timestamp) list res" where
  "allocate_timestamps resp pending =
    (case tr_timestamp resp of
       None \<Rightarrow> (pending, Inl (InternalError ''No timestamp in TsoResponse''))
     | Some tail_ts \<Rightarrow>
        (case pending of
           [] \<Rightarrow> ([], Inl (InternalError ''PD gives more TsoResponse than expected''))
         | g # pending \<Rightarrow>
            (pending, if tq_count (rg_tso_request g) \<noteq> tr_count resp
               then Inl (InternalError ''PD gives different number of timestamps than expected'')
               else Inr (share_out tail_ts (tr_count resp) (rg_requests g)))))"

subsection \<open>The oracle and PD\<close>

text \<open>The task, the messages that are on their way to PD, the largest timestamp that PD has given out, the requests that entered the
  channel and the timestamps that were handed to them. An error ends the task.\<close>

record tso_system =
  sy_stream :: tso_stream
  sy_wire :: "tso_request list"
  sy_last :: timestamp
  sy_arrived :: "nat list"
  sy_given :: "(nat \<times> timestamp) list"
  sy_failed :: "error option"

definition later :: "timestamp \<Rightarrow> timestamp \<Rightarrow> bool" where
  "later t u \<longleftrightarrow> physical t < physical u \<or> physical t = physical u \<and> logical t < logical u"

text \<open>What PD promises: it answers the messages of a stream in order, each with as many timestamps as were asked for, all later than
  every timestamp before. The answer carries the last of them.\<close>

definition pd_answers :: "timestamp \<Rightarrow> tso_request \<Rightarrow> tso_response \<Rightarrow> bool" where
  "pd_answers last_ts req resp \<longleftrightarrow> tr_count resp = tq_count req \<and> (case tr_timestamp resp of None \<Rightarrow> False
     | Some t \<Rightarrow> later last_ts (t\<lparr>logical := logical t - uint (tq_count req) + 1\<rparr>))"

text \<open>One turn of the loop of \<open>run_tso\<close>.\<close>

definition on_tso_response :: "tso_response \<Rightarrow> tso_system \<Rightarrow> tso_system" where
  "on_tso_response resp s =
    (case allocate_timestamps resp (st_pending (sy_stream s)) of
       (pending, Inl e) \<Rightarrow> s\<lparr>sy_stream := (sy_stream s)\<lparr>st_pending := pending\<rparr>, sy_failed := Some e\<rparr>
     | (pending, Inr given) \<Rightarrow> s\<lparr>sy_stream := (sy_stream s)\<lparr>st_pending := pending\<rparr>, sy_given := sy_given s @ given\<rparr>)"

inductive tso_step :: "tso_system \<Rightarrow> tso_system \<Rightarrow> bool" where
  arrive: "length (st_channel (sy_stream s)) < MAX_BATCH_SIZE \<Longrightarrow> r \<notin> set (sy_arrived s) \<Longrightarrow>
    tso_step s (s\<lparr>sy_stream := (sy_stream s)\<lparr>st_channel := st_channel (sy_stream s) @ [r]\<rparr>, sy_arrived := sy_arrived s @ [r]\<rparr>)"
| send: "sy_failed s = None \<Longrightarrow> poll_next budget (sy_stream s) = (st, Ready (Some req)) \<Longrightarrow>
    tso_step s (s\<lparr>sy_stream := st, sy_wire := sy_wire s @ [req]\<rparr>)"
| answer: "sy_failed s = None \<Longrightarrow> sy_wire s = req # wire \<Longrightarrow> pd_answers (sy_last s) req resp \<Longrightarrow> tr_timestamp resp = Some t \<Longrightarrow>
    tso_step s (on_tso_response resp (s\<lparr>sy_wire := wire, sy_last := t\<rparr>))"

definition tso_start :: "u64 \<Rightarrow> timestamp \<Rightarrow> tso_system" where
  "tso_start cluster t = \<lparr>sy_stream = \<lparr>st_cluster_id = cluster, st_channel = [], st_closed = False, st_pending = []\<rparr>, sy_wire = [],
     sy_last = t, sy_arrived = [], sy_given = [], sy_failed = None\<rparr>"

subsection \<open>Batches and shares\<close>

lemma recv_requests_split:
  "recv_requests n budget acc channel = (requests, rest) \<Longrightarrow>
     acc @ channel = requests @ rest \<and> length requests \<le> max (length acc) MAX_BATCH_SIZE"
  by (induction n budget acc channel arbitrary: requests rest rule: recv_requests.induct) (auto split: if_splits)

lemma uint_of_nat_u32: "n < 2 ^ 32 \<Longrightarrow> uint (of_nat n :: u32) = int n"
  by (simp add: uint_nat unat_of_nat take_bit_nat_eq_self)

lemma share_out_requests: "map fst (share_out t off rs) = rs"
  by (induction t off rs rule: share_out.induct) (simp_all add: Let_def)

lemma share_out_Cons:
  assumes "length (r # rs) < 2 ^ 32"
  shows "share_out t (of_nat (length (r # rs))) (r # rs)
    = (r, \<lparr>physical = physical t, logical = logical t - int (length rs), suffix_bits = suffix_bits t\<rparr>) # share_out t (of_nat (length rs)) rs"
proof -
  have o: "(of_nat (length (r # rs)) :: u32) - 1 = of_nat (length rs)" by simp
  have u: "uint (of_nat (length rs) :: u32) = int (length rs)" by (rule uint_of_nat_u32) (use assms in simp)
  show ?thesis by (simp only: share_out.simps o u Let_def)
qed

lemma share_out_within:
  assumes "length rs < 2 ^ 32" "x \<in> set (map snd (share_out t (of_nat (length rs)) rs))"
  shows "physical x = physical t \<and> logical t - int (length rs) < logical x \<and> logical x \<le> logical t \<and> suffix_bits x = suffix_bits t"
  using assms
proof (induction rs)
  case (Cons r rs)
  then consider "x = \<lparr>physical = physical t, logical = logical t - int (length rs), suffix_bits = suffix_bits t\<rparr>"
    | "x \<in> set (map snd (share_out t (of_nat (length rs)) rs))" unfolding share_out_Cons [OF Cons.prems(1)] by auto
  then show ?case
  proof cases
    case 2
    with Cons.IH Cons.prems(1) show ?thesis by simp
  qed simp
qed simp

lemma share_out_later:
  assumes "length rs < 2 ^ 32"
  shows "sorted_wrt later (map snd (share_out t (of_nat (length rs)) rs))"
  using assms
proof (induction rs)
  case (Cons r rs)
  then have rs: "length rs < 2 ^ 32" by simp
  have "later \<lparr>physical = physical t, logical = logical t - int (length rs), suffix_bits = suffix_bits t\<rparr> x"
    if "x \<in> set (map snd (share_out t (of_nat (length rs)) rs))" for x
    using share_out_within [OF rs that] by (simp add: later_def)
  then show ?case using Cons.IH [OF rs] unfolding share_out_Cons [OF Cons.prems] by simp
qed simp

lemma later_trans: "later a b \<Longrightarrow> later b c \<Longrightarrow> later a c"
  by (auto simp: later_def)

subsection \<open>The invariant\<close>

definition group_ok :: "request_group \<Rightarrow> bool" where
  "group_ok g \<longleftrightarrow> rg_requests g \<noteq> [] \<and> length (rg_requests g) \<le> MAX_BATCH_SIZE \<and> tq_count (rg_tso_request g) = of_nat (length (rg_requests g))"

definition tso_inv :: "tso_system \<Rightarrow> bool" where
  "tso_inv s \<longleftrightarrow> sy_failed s = None \<and> sy_wire s = map rg_tso_request (st_pending (sy_stream s)) \<and> list_all group_ok (st_pending (sy_stream s))
     \<and> map fst (sy_given s) @ concat (map rg_requests (st_pending (sy_stream s))) @ st_channel (sy_stream s) = sy_arrived s \<and> distinct (sy_arrived s)
     \<and> sorted_wrt later (map snd (sy_given s)) \<and> (\<forall>t \<in> set (map snd (sy_given s)). t = sy_last s \<or> later t (sy_last s))"

lemma tso_inv_start: "tso_inv (tso_start cluster t)"
  by (simp add: tso_inv_def tso_start_def)

lemma tso_inv_send:
  assumes i: "tso_inv s" and p: "poll_next budget (sy_stream s) = (st, Ready (Some req))"
  shows "tso_inv (s\<lparr>sy_stream := st, sy_wire := sy_wire s @ [req]\<rparr>)"
proof -
  obtain q rest where rv: "recv_requests (length (st_pending (sy_stream s))) budget [] (st_channel (sy_stream s)) = (q, rest)" by fastforce
  have ne: "q \<noteq> []" using p by (rule contrapos_pn) (simp add: poll_next_def rv split: if_splits)
  then obtain r rs where q: "q = r # rs" by (cases q) auto
  have st: "req = \<lparr>tq_cluster_id = st_cluster_id (sy_stream s), tq_count = of_nat (length q)\<rparr>"
    "st = (sy_stream s)\<lparr>st_channel := rest, st_pending := st_pending (sy_stream s) @ [\<lparr>rg_tso_request = req, rg_requests = q\<rparr>]\<rparr>"
    using p by (auto simp: poll_next_def rv q Let_def)
  from recv_requests_split [OF rv] have c: "st_channel (sy_stream s) = q @ rest" "length q \<le> MAX_BATCH_SIZE" by simp_all
  then show ?thesis using i ne by (simp add: tso_inv_def st(2) group_ok_def) (simp add: st(1))
qed

lemma tso_inv_answer:
  assumes i: "tso_inv s" and w: "sy_wire s = req # wire" and a: "pd_answers (sy_last s) req resp" "tr_timestamp resp = Some t"
  shows "tso_inv (on_tso_response resp (s\<lparr>sy_wire := wire, sy_last := t\<rparr>))"
proof -
  obtain g gs where g: "st_pending (sy_stream s) = g # gs" "rg_tso_request g = req" "wire = map rg_tso_request gs"
    using i w by (auto simp: tso_inv_def Cons_eq_map_conv)
  have ok: "group_ok g" using i g by (simp add: tso_inv_def)
  then have n: "tq_count req = of_nat (length (rg_requests g))" "length (rg_requests g) < 2 ^ 32" and ne: "rg_requests g \<noteq> []"
    using g(2) by (auto simp: group_ok_def MAX_BATCH_SIZE_def)
  let ?new = "share_out t (of_nat (length (rg_requests g))) (rg_requests g)"
  have res: "on_tso_response resp (s\<lparr>sy_wire := wire, sy_last := t\<rparr>) = s\<lparr>sy_wire := wire, sy_last := t,
      sy_stream := (sy_stream s)\<lparr>st_pending := gs\<rparr>, sy_given := sy_given s @ ?new\<rparr>"
    using a g n(1) by (simp add: on_tso_response_def allocate_timestamps_def pd_answers_def)
  have first: "later (sy_last s) (t\<lparr>logical := logical t - int (length (rg_requests g)) + 1\<rparr>)"
    using a n by (simp add: pd_answers_def uint_of_nat_u32)
  have new: "later (sy_last s) x \<and> (x = t \<or> later x t)" if "x \<in> set (map snd ?new)" for x
    using share_out_within [OF n(2) that] first by (auto simp: later_def)
  have "1 \<le> int (length (rg_requests g))" using ne by (cases "rg_requests g") simp_all
  then have past: "later (sy_last s) t" using first by (auto simp: later_def)
  have before: "later x u" if "x \<in> set (map snd (sy_given s))" "later (sy_last s) u" for x u
  proof -
    have "x = sy_last s \<or> later x (sy_last s)" using i that(1) unfolding tso_inv_def by blast
    then show ?thesis using that(2) later_trans [of x "sy_last s" u] by blast
  qed
  have sorted: "sorted_wrt later (map snd (sy_given s @ ?new))"
    unfolding map_append sorted_wrt_append
    using i share_out_later [OF n(2), of t] before new unfolding tso_inv_def by blast
  have all: "\<forall>x \<in> set (map snd (sy_given s @ ?new)). x = t \<or> later x t" using before [OF _ past] new by (simp only: map_append set_append) blast
  have "map fst (sy_given s @ ?new) @ concat (map rg_requests gs) @ st_channel (sy_stream s) = sy_arrived s"
    using i g(1) by (simp add: tso_inv_def share_out_requests)
  then show ?thesis using i g(1,3) sorted all unfolding res tso_inv_def by (simp only: tso_system.simps tso_stream.simps list.pred_inject list.map simp_thms) simp
qed

lemma tso_step_inv: "tso_step s s' \<Longrightarrow> tso_inv s \<Longrightarrow> tso_inv s'"
proof (induction rule: tso_step.induct)
  case (arrive s r)
  have "map fst (sy_given s) @ concat (map rg_requests (st_pending (sy_stream s))) @ st_channel (sy_stream s) @ [r] = sy_arrived s @ [r]"
    using arrive.prems by (simp add: tso_inv_def flip: append_assoc)
  then show ?case using arrive by (simp add: tso_inv_def)
qed (simp_all add: tso_inv_send tso_inv_answer)

lemma tso_reach_inv: "tso_step\<^sup>*\<^sup>* (tso_start cluster t) s \<Longrightarrow> tso_inv s"
  by (induction rule: rtranclp_induct) (auto simp: tso_inv_start intro: tso_step_inv)

subsection \<open>What callers get\<close>

text \<open>C15: While PD keeps its promise, the oracle never fails, and every request is answered at most once, in the order in
  which the requests arrived, with timestamps each of which is later than the one before, however callers, batches and answers
  interleave.\<close>

theorem timestamps_in_order:
  assumes "tso_step\<^sup>*\<^sup>* (tso_start cluster t) s"
  shows "sy_failed s = None \<and> distinct (map fst (sy_given s)) \<and> sorted_wrt later (map snd (sy_given s))
    \<and> map fst (sy_given s) = take (length (sy_given s)) (sy_arrived s)"
proof -
  note i = tso_reach_inv [OF assms]
  then have a: "sy_arrived s = map fst (sy_given s) @ concat (map rg_requests (st_pending (sy_stream s))) @ st_channel (sy_stream s)"
    by (simp add: tso_inv_def)
  then have "take (length (sy_given s)) (sy_arrived s) = map fst (sy_given s)" by simp
  moreover have "distinct (map fst (sy_given s))" using i a by (simp add: tso_inv_def)
  ultimately show ?thesis using i by (simp add: tso_inv_def)
qed

lemma answer_possible: "\<exists>resp u. pd_answers t req resp \<and> tr_timestamp resp = Some u"
proof -
  have "pd_answers t req \<lparr>tr_count = tq_count req, tr_timestamp = Some \<lparr>physical = physical t + 1, logical = 0, suffix_bits = 0\<rparr>\<rparr>"
    by (simp add: pd_answers_def later_def)
  then show ?thesis by (metis tso_response.select_convs(2))
qed

text \<open>How much is still to be done for the requests that wait.\<close>

definition tso_work :: "tso_system \<Rightarrow> nat" where
  "tso_work s = 2 * length (st_channel (sy_stream s)) + length (st_pending (sy_stream s))"

lemma answer_progress:
  assumes "tso_inv s" "st_pending (sy_stream s) \<noteq> []"
  shows "\<exists>s'. tso_step s s' \<and> sy_arrived s' = sy_arrived s \<and> tso_work s' < tso_work s"
proof -
  obtain g gs where g: "st_pending (sy_stream s) = g # gs" using assms(2) by (cases "st_pending (sy_stream s)") auto
  have w: "sy_wire s = rg_tso_request g # map rg_tso_request gs" and f: "sy_failed s = None" using assms(1) g by (auto simp: tso_inv_def)
  obtain resp u where r: "pd_answers (sy_last s) (rg_tso_request g) resp" "tr_timestamp resp = Some u" using answer_possible by blast
  have "tso_step s (on_tso_response resp (s\<lparr>sy_wire := map rg_tso_request gs, sy_last := u\<rparr>))" by (rule tso_step.answer [OF f w r])
  moreover have "sy_arrived (on_tso_response resp (s\<lparr>sy_wire := map rg_tso_request gs, sy_last := u\<rparr>)) = sy_arrived s"
    and "tso_work (on_tso_response resp (s\<lparr>sy_wire := map rg_tso_request gs, sy_last := u\<rparr>)) < tso_work s"
    using r g by (simp_all add: on_tso_response_def allocate_timestamps_def pd_answers_def tso_work_def)
  ultimately show ?thesis by blast
qed

lemma send_progress:
  assumes "tso_inv s" "st_pending (sy_stream s) = []" "st_channel (sy_stream s) \<noteq> []"
  shows "\<exists>s'. tso_step s s' \<and> sy_arrived s' = sy_arrived s \<and> tso_work s' < tso_work s"
proof -
  obtain r c where c: "st_channel (sy_stream s) = r # c" using assms(3) by (cases "st_channel (sy_stream s)") auto
  have rv: "recv_requests 0 1 [] (r # c) = ([r], c)" by (cases c) (simp_all add: MAX_BATCH_SIZE_def MAX_PENDING_COUNT_def)
  let ?req = "\<lparr>tq_cluster_id = st_cluster_id (sy_stream s), tq_count = of_nat (length [r])\<rparr>"
  let ?st = "(sy_stream s)\<lparr>st_channel := c, st_pending := [\<lparr>rg_tso_request = ?req, rg_requests = [r]\<rparr>]\<rparr>"
  have "poll_next 1 (sy_stream s) = (?st, Ready (Some ?req))" using assms(2) c rv by (simp add: poll_next_def Let_def)
  moreover have "sy_failed s = None" using assms(1) by (simp add: tso_inv_def)
  ultimately have "tso_step s (s\<lparr>sy_stream := ?st, sy_wire := sy_wire s @ [?req]\<rparr>)" by (intro tso_step.send)
  then show ?thesis using assms(2) c by (intro exI [of _ "s\<lparr>sy_stream := ?st, sy_wire := sy_wire s @ [?req]\<rparr>"]) (simp add: tso_work_def)
qed

text \<open>C27: No request is forgotten: from every state that can be reached, the background task and PD alone can go on to a state in
  which every request that has arrived has its timestamp.\<close>

theorem every_request_can_be_answered:
  assumes "tso_step\<^sup>*\<^sup>* (tso_start cluster t) s"
  shows "\<exists>s'. tso_step\<^sup>*\<^sup>* s s' \<and> sy_arrived s' = sy_arrived s \<and> map fst (sy_given s') = sy_arrived s"
  using tso_reach_inv [OF assms]
proof (induction s rule: measure_induct_rule [of tso_work])
  case (less s)
  show ?case
  proof (cases "st_pending (sy_stream s) = [] \<and> st_channel (sy_stream s) = []")
    case True
    with less.prems show ?thesis by (intro exI [of _ s]) (simp add: tso_inv_def)
  next
    case False
    then obtain u where u: "tso_step s u" "sy_arrived u = sy_arrived s" "tso_work u < tso_work s"
      using answer_progress [OF less.prems] send_progress [OF less.prems] by blast
    from less.IH [OF u(3) tso_step_inv [OF u(1) less.prems]] u(1,2) show ?thesis by (metis converse_rtranclp_into_rtranclp)
  qed
qed

definition tso_example :: tso_system where
  "tso_example = (tso_start 1 \<lparr>physical = 5, logical = 0, suffix_bits = 0\<rparr>)\<lparr>sy_stream := \<lparr>st_cluster_id = 1, st_channel = [7], st_closed = False, st_pending = []\<rparr>,
     sy_arrived := [7]\<rparr>"

lemma tso_example_reached: "tso_step\<^sup>*\<^sup>* (tso_start 1 \<lparr>physical = 5, logical = 0, suffix_bits = 0\<rparr>) tso_example"
  using tso_step.arrive [of "tso_start 1 \<lparr>physical = 5, logical = 0, suffix_bits = 0\<rparr>" 7]
  by (intro r_into_rtranclp) (simp add: tso_start_def tso_example_def MAX_BATCH_SIZE_def)

lemma tso_example_answered:
  "\<exists>s. tso_step\<^sup>*\<^sup>* (tso_start 1 \<lparr>physical = 5, logical = 0, suffix_bits = 0\<rparr>) s \<and> sy_given s = [(7, \<lparr>physical = 6, logical = 3, suffix_bits = 0\<rparr>)]"
proof -
  let ?req = "\<lparr>tq_cluster_id = 1, tq_count = 1\<rparr>"
  let ?st = "\<lparr>st_cluster_id = 1, st_channel = [], st_closed = False, st_pending = [\<lparr>rg_tso_request = ?req, rg_requests = [7]\<rparr>]\<rparr>"
  let ?s = "tso_example\<lparr>sy_stream := ?st, sy_wire := [?req]\<rparr>"
  let ?resp = "\<lparr>tr_count = 1, tr_timestamp = Some \<lparr>physical = 6, logical = 3, suffix_bits = 0\<rparr>\<rparr>"
  let ?answered = "on_tso_response ?resp (?s\<lparr>sy_wire := [], sy_last := \<lparr>physical = 6, logical = 3, suffix_bits = 0\<rparr>\<rparr>)"
  have "poll_next 1 (sy_stream tso_example) = (?st, Ready (Some ?req))"
    by (simp add: tso_example_def poll_next_def MAX_BATCH_SIZE_def MAX_PENDING_COUNT_def Let_def)
  from tso_step.send [OF _ this] have "tso_step tso_example ?s" by (simp add: tso_example_def tso_start_def)
  moreover have "tso_step ?s ?answered"
    by (rule tso_step.answer [of _ ?req]) (simp_all add: tso_example_def tso_start_def pd_answers_def later_def)
  ultimately have "tso_step\<^sup>*\<^sup>* (tso_start 1 \<lparr>physical = 5, logical = 0, suffix_bits = 0\<rparr>) ?answered"
    by (rule rtranclp.rtrancl_into_rtrancl [OF rtranclp.rtrancl_into_rtrancl [OF tso_example_reached]])
  moreover have "sy_given ?answered = [(7, \<lparr>physical = 6, logical = 3, suffix_bits = 0\<rparr>)]"
    by (simp add: on_tso_response_def allocate_timestamps_def tso_example_def tso_start_def)
  ultimately show ?thesis by blast
qed

theorem timestamps_in_order_witness:
  "\<exists>s :: tso_system. sy_given s = [(7, \<lparr>physical = 6, logical = 3, suffix_bits = 0\<rparr>)] \<and> sy_failed s = None \<and> take 1 (sy_arrived s) = [7]"
proof -
  obtain s where r: "tso_step\<^sup>*\<^sup>* (tso_start 1 \<lparr>physical = 5, logical = 0, suffix_bits = 0\<rparr>) s" and g: "sy_given s = [(7, \<lparr>physical = 6, logical = 3, suffix_bits = 0\<rparr>)]"
    using tso_example_answered by blast
  show ?thesis by (intro exI [of _ s]) (use timestamps_in_order [OF r] g in simp)
qed

theorem every_request_can_be_answered_witness: "\<exists>s'. tso_step\<^sup>*\<^sup>* tso_example s' \<and> map fst (sy_given s') = [7]"
  using every_request_can_be_answered [OF tso_example_reached] by (auto simp: tso_example_def)

end
