(* ===== verification/Latch.thy ===== *)
theory Latch
  imports BTree_Map
begin

text \<open>
  The local latches of \<open>transaction/latch.rs\<close>. A latch lock is a number; \<open>locks\<close> gives the object it
  refers to, so that the tasks share and mutate it as they share an \<open>Arc<LatchLock>\<close>, and
  \<open>Arc::ptr_eq\<close> is equality of numbers. The hash map of a slot is only looked up, counted and
  filtered, so it is an ordered map here. The tasks interleave at the critical sections of
  \<open>acquire_slot\<close> and \<open>release_slot\<close>, which hold the mutex of one slot.
\<close>

unbundle bit_operations_syntax

subsection \<open>Slot hashing\<close>

definition murmur_C1 :: u32 where "murmur_C1 = 0xcc9e2d51"
definition murmur_C2 :: u32 where "murmur_C2 = 0x1b873593"

definition fmix32 :: "u32 \<Rightarrow> u32" where
  "fmix32 h =
    (let h = h XOR drop_bit 16 h; h = h * 0x85ebca6b; h = h XOR drop_bit 13 h; h = h * 0xc2b2ae35
     in h XOR drop_bit 16 h)"

definition murmur_scramble :: "u32 \<Rightarrow> u32" where
  "murmur_scramble k = word_rotl 15 (k * murmur_C1) * murmur_C2"

definition u32_from_le_bytes :: "byte \<Rightarrow> byte \<Rightarrow> byte \<Rightarrow> byte \<Rightarrow> u32" where
  "u32_from_le_bytes a b c d =
     ucast a OR push_bit 8 (ucast b) OR push_bit 16 (ucast c) OR push_bit 24 (ucast d)"

text \<open>The loop over the blocks of four bytes returns the hash so far and the tail.\<close>

fun murmur_body :: "bytes \<Rightarrow> u32 \<Rightarrow> u32 \<times> bytes" where
  "murmur_body (a # b # c # d # rest) h1 =
     murmur_body rest (word_rotl 13 (h1 XOR murmur_scramble (u32_from_le_bytes a b c d)) * 5 + 0xe6546b64)"
| "murmur_body tail h1 = (h1, tail)"

definition murmur_tail :: "bytes \<Rightarrow> u32 \<Rightarrow> u32" where
  "murmur_tail tail h1 = (case tail of
      [t0, t1, t2] \<Rightarrow> h1 XOR murmur_scramble (push_bit 16 (ucast t2) XOR push_bit 8 (ucast t1) XOR ucast t0)
    | [t0, t1] \<Rightarrow> h1 XOR murmur_scramble (push_bit 8 (ucast t1) XOR ucast t0)
    | [t0] \<Rightarrow> h1 XOR murmur_scramble (ucast t0)
    | _ \<Rightarrow> h1)"

definition murmur3_x86_32 :: "bytes \<Rightarrow> u32 \<Rightarrow> u32" where
  "murmur3_x86_32 data seed =
    (case murmur_body data seed of (h1, tail) \<Rightarrow>
       fmix32 (murmur_tail tail h1 XOR of_nat (length data)))"

function next_power_of_two_from :: "nat \<Rightarrow> nat \<Rightarrow> nat" where
  "next_power_of_two_from p n = (if 0 < p \<and> p < n then next_power_of_two_from (2 * p) n else p)"
  by auto
termination by (relation "measure (\<lambda>(p, n). n - p)") auto

definition next_power_of_two :: "nat \<Rightarrow> nat" where
  "next_power_of_two n = next_power_of_two_from 1 n"

definition slot_id :: "nat \<Rightarrow> bytes \<Rightarrow> nat" where
  "slot_id n_slots k = unat (murmur3_x86_32 k 0) AND (n_slots - 1)"

subsection \<open>Timestamps and recycling\<close>

definition EXPIRE_DURATION :: u64 where "EXPIRE_DURATION = 2 * 60 * 1000"
definition CHECK_INTERVAL :: u64 where "CHECK_INTERVAL = 60 * 1000"
definition CHECK_COUNTER :: nat where "CHECK_COUNTER = 50000"
definition LATCH_LIST_COUNT :: nat where "LATCH_LIST_COUNT = 5"

definition extract_physical_ms :: "u64 \<Rightarrow> u64" where
  "extract_physical_ms ts = drop_bit 18 ts"

definition tso_sub :: "u64 \<Rightarrow> u64 \<Rightarrow> u64" where
  "tso_sub ts1 ts2 = saturating_sub (extract_physical_ms ts1) (extract_physical_ms ts2)"

subsection \<open>State\<close>

datatype acquire_result = AcquireSuccess | AcquireLocked | AcquireStale

record node =
  max_commit_ts :: u64
  owner_lock :: "nat option"

record slot_inner =
  nodes :: "(bytes \<times> node) list"
  waiting :: "nat list"

record latch_lock =
  start_ts :: u64
  lock_keys :: "bytes list"
  required_slots :: "nat list"
  acquired_count :: nat
  lock_commit_ts :: u64
  stale :: bool

record latches =
  slots :: "slot_inner list"
  locks :: "nat \<Rightarrow> latch_lock"

definition new_latch_lock :: "u64 \<Rightarrow> bytes list \<Rightarrow> nat list \<Rightarrow> latch_lock" where
  "new_latch_lock ts keys sl = \<lparr>start_ts = ts, lock_keys = keys, required_slots = sl, acquired_count = 0,
     lock_commit_ts = 0, stale = False\<rparr>"

definition new_latches :: "nat \<Rightarrow> latches" where
  "new_latches sz = \<lparr>slots = replicate (next_power_of_two (if sz = 0 then 1 else sz)) \<lparr>nodes = [], waiting = []\<rparr>,
     locks = (\<lambda>_. new_latch_lock 0 [] [])\<rparr>"

definition slot_recycle :: "u64 \<Rightarrow> slot_inner \<Rightarrow> slot_inner" where
  "slot_recycle current_ts s = s\<lparr>nodes := filter (\<lambda>p. owner_lock (snd p) \<noteq> None
      \<or> tso_sub current_ts (max_commit_ts (snd p)) < EXPIRE_DURATION) (nodes s)\<rparr>"

definition recycle :: "u64 \<Rightarrow> latches \<Rightarrow> latches" where
  "recycle current_ts st = st\<lparr>slots := map (slot_recycle current_ts) (slots st)\<rparr>"

definition set_slot :: "nat \<Rightarrow> slot_inner \<Rightarrow> latches \<Rightarrow> latches" where
  "set_slot j s st = st\<lparr>slots := (slots st)[j := s]\<rparr>"

definition set_lock :: "nat \<Rightarrow> latch_lock \<Rightarrow> latches \<Rightarrow> latches" where
  "set_lock i l st = st\<lparr>locks := (locks st)(i := l)\<rparr>"

definition required_len :: "latch_lock \<Rightarrow> nat" where "required_len l = length (required_slots l)"

definition is_locked :: "latch_lock \<Rightarrow> bool" where
  "is_locked l \<longleftrightarrow> \<not> stale l \<and> acquired_count l \<noteq> required_len l"

definition next_lock_key :: "latch_lock \<Rightarrow> bytes" where
  "next_lock_key l = lock_keys l ! acquired_count l"

text \<open>\<open>keys.sort(); keys.dedup()\<close>.\<close>

definition gen_lock :: "nat \<Rightarrow> u64 \<Rightarrow> bytes list \<Rightarrow> latches \<Rightarrow> latches" where
  "gen_lock i ts keys st =
    (let ks = remdups_adj (sort keys)
     in set_lock i (new_latch_lock ts ks (map (slot_id (length (slots st))) ks)) st)"

definition entry_or_default :: "bytes \<Rightarrow> slot_inner \<Rightarrow> node" where
  "entry_or_default k s = (case bt_get (nodes s) k of Some n \<Rightarrow> n | None \<Rightarrow> \<lparr>max_commit_ts = 0, owner_lock = None\<rparr>)"

definition put_node :: "bytes \<Rightarrow> node \<Rightarrow> slot_inner \<Rightarrow> slot_inner" where
  "put_node k n s = s\<lparr>nodes := bt_insert k n (nodes s)\<rparr>"

subsection \<open>Acquiring and releasing\<close>

definition acquire_slot :: "nat \<Rightarrow> latches \<Rightarrow> acquire_result \<times> latches" where
  "acquire_slot i st =
    (let l = locks st i; key = lock_keys l ! acquired_count l; j = required_slots l ! acquired_count l;
         inner0 = slots st ! j;
         inner = (if length (nodes inner0) \<ge> LATCH_LIST_COUNT then slot_recycle (start_ts l) inner0 else inner0);
         node = entry_or_default key inner
     in if max_commit_ts node > start_ts l
        then (AcquireStale, set_lock i (l\<lparr>stale := True\<rparr>) (set_slot j (put_node key node inner) st))
        else if owner_lock node = None
        then (AcquireSuccess, set_lock i (l\<lparr>acquired_count := acquired_count l + 1\<rparr>)
               (set_slot j (put_node key (node\<lparr>owner_lock := Some i\<rparr>) inner) st))
        else (AcquireLocked, set_slot j ((put_node key node inner)\<lparr>waiting := waiting inner @ [i]\<rparr>) st))"

lemma acquire_slot_counts:
  "acquire_slot i st = (AcquireSuccess, st') \<Longrightarrow>
     acquired_count (locks st' i) = Suc (acquired_count (locks st i)) \<and> required_len (locks st' i) = required_len (locks st i)"
  by (auto simp: acquire_slot_def Let_def set_lock_def required_len_def split: if_splits)

function acquire_loop :: "nat \<Rightarrow> latches \<Rightarrow> acquire_result \<times> latches" where
  "acquire_loop i st =
    (if acquired_count (locks st i) < required_len (locks st i)
     then (case acquire_slot i st of (AcquireSuccess, st') \<Rightarrow> acquire_loop i st' | (r, st') \<Rightarrow> (r, st'))
     else (AcquireSuccess, st))"
  by auto
termination
  by (relation "measure (\<lambda>(i, st). required_len (locks st i) - acquired_count (locks st i))")
     (auto dest: acquire_slot_counts [OF sym])

declare acquire_loop.simps [simp del]

definition acquire :: "nat \<Rightarrow> latches \<Rightarrow> acquire_result \<times> latches" where
  "acquire i st = (if stale (locks st i) then (AcquireStale, st) else acquire_loop i st)"

text \<open>Releasing one slot. \<open>node_max\<close> is the value that the match of the source returns; the branch of
  a wrong owner is None.\<close>

definition wakes :: "bytes \<Rightarrow> latch_lock \<Rightarrow> bool" where
  "wakes key w \<longleftrightarrow> acquired_count w < required_len w \<and> next_lock_key w = key"

definition pop_waiting :: "nat \<Rightarrow> bytes \<Rightarrow> u64 \<Rightarrow> latches \<Rightarrow> nat option \<times> latches" where
  "pop_waiting j key node_max st =
    (let inner = slots st ! j
     in case find (\<lambda>w. wakes key (locks st w)) (waiting inner) of
          None \<Rightarrow> (None, st)
        | Some w \<Rightarrow>
           (let inner1 = inner\<lparr>waiting := remove1 w (waiting inner)\<rparr>; l = locks st w
            in if node_max > start_ts l
               then (Some w, set_lock w (l\<lparr>acquired_count := acquired_count l + 1, stale := True\<rparr>)
                      (set_slot j (put_node key ((entry_or_default key inner1)\<lparr>owner_lock := Some w\<rparr>) inner1) st))
               else (Some w, set_slot j inner1 st)))"

definition release_slot :: "nat \<Rightarrow> latches \<Rightarrow> nat option \<times> latches" where
  "release_slot i st =
    (let l = locks st i
     in if acquired_count l = 0 then (None, st)
        else
         (let idx = acquired_count l - 1; key = lock_keys l ! idx; j = required_slots l ! idx;
              st1 = set_lock i (l\<lparr>acquired_count := idx\<rparr>) st; inner = slots st ! j;
              node = entry_or_default key inner; m = max (max_commit_ts node) (lock_commit_ts l)
          in case owner_lock node of
               Some o' \<Rightarrow>
                if o' = i
                then pop_waiting j key m (set_slot j (put_node key (node\<lparr>max_commit_ts := m, owner_lock := None\<rparr>) inner) st1)
                else (None, set_slot j (put_node key node inner) st1)
             | None \<Rightarrow> pop_waiting j key m (set_slot j (put_node key (node\<lparr>max_commit_ts := m\<rparr>) inner) st1)))"

text \<open>The loop of \<open>release\<close> ends once the lock holds nothing; its result is the locks to wake.\<close>

partial_function (option) release_loop :: "nat \<Rightarrow> nat list \<Rightarrow> latches \<Rightarrow> (nat list \<times> latches) option" where
  "release_loop i wakeups st =
    (if acquired_count (locks st i) > 0
     then (case release_slot i st of (next, st') \<Rightarrow>
            release_loop i (case next of None \<Rightarrow> wakeups | Some w \<Rightarrow> wakeups @ [w]) st')
     else Some (wakeups, st))"

definition release :: "nat \<Rightarrow> latches \<Rightarrow> (nat list \<times> latches) option" where
  "release i st = release_loop i [] st"

text \<open>\<open>LatchesScheduler::wakeup\<close>: the locks whose task is notified.\<close>

fun wakeup :: "nat list \<Rightarrow> latches \<Rightarrow> nat list \<times> latches" where
  "wakeup [] st = ([], st)"
| "wakeup (w # ws) st =
    (case acquire w st of (r, st1) \<Rightarrow>
     case wakeup ws st1 of (notified, st2) \<Rightarrow> (if r \<noteq> AcquireLocked then w # notified else notified, st2))"

record scheduler =
  sched_latches :: latches
  recycle_counter :: nat
  last_recycle_ts :: u64

text \<open>One round of the background task: the locks that are notified, and the timestamp of the
  recycling it spawns.\<close>

definition handle_unlock :: "nat \<Rightarrow> scheduler \<Rightarrow> (nat list \<times> u64 option \<times> scheduler) option" where
  "handle_unlock i sch =
    (case release i (sched_latches sch) of None \<Rightarrow> None
     | Some (wakeups, st1) \<Rightarrow>
       (case wakeup wakeups st1 of (notified, st2) \<Rightarrow>
         (let commit_ts = lock_commit_ts (locks st2 i)
          in if commit_ts > start_ts (locks st2 i)
               \<and> (tso_sub commit_ts (last_recycle_ts sch) > CHECK_INTERVAL \<or> recycle_counter sch > CHECK_COUNTER)
             then Some (notified, Some commit_ts,
               \<lparr>sched_latches = st2, recycle_counter = 1, last_recycle_ts = commit_ts\<rparr>)
             else Some (notified, None,
               \<lparr>sched_latches = st2, recycle_counter = recycle_counter sch + 1, last_recycle_ts = last_recycle_ts sch\<rparr>))))"

text \<open>The synchronous part of \<open>LatchesScheduler::lock\<close>: whether the task has to wait.\<close>

definition lock_latches :: "nat \<Rightarrow> u64 \<Rightarrow> bytes list \<Rightarrow> latches \<Rightarrow> bool \<times> latches" where
  "lock_latches i ts keys st =
    (case acquire i (gen_lock i ts keys st) of (r, st') \<Rightarrow> (r = AcquireLocked, st'))"

definition set_commit_ts :: "nat \<Rightarrow> u64 \<Rightarrow> latches \<Rightarrow> latches" where
  "set_commit_ts i ts st = set_lock i ((locks st i)\<lparr>lock_commit_ts := ts\<rparr>) st"

subsection \<open>Interleavings\<close>

text \<open>Where the life of a lock stands: its task runs \<open>acquire\<close>, or waits in a slot, or holds the
  guard, or has dropped it and the background task releases it.\<close>

datatype phase = Idle | Acquiring | Blocked | Held | Releasing | Released

record latch_system =
  sys :: latches
  phase_of :: "nat \<Rightarrow> phase"
  cancelled :: "nat \<Rightarrow> bool"

definition start_system :: "nat \<Rightarrow> latch_system" where
  "start_system sz = \<lparr>sys = new_latches sz, phase_of = (\<lambda>_. Idle), cancelled = (\<lambda>_. False)\<rparr>"

definition set_phase :: "nat \<Rightarrow> phase \<Rightarrow> latch_system \<Rightarrow> latch_system" where
  "set_phase i p s = s\<lparr>phase_of := (phase_of s)(i := p)\<rparr>"

fun after_acquire :: "acquire_result \<Rightarrow> phase" where
  "after_acquire AcquireSuccess = Acquiring"
| "after_acquire AcquireLocked = Blocked"
| "after_acquire AcquireStale = Held"

definition with_sys :: "latches \<Rightarrow> latch_system \<Rightarrow> latch_system" where
  "with_sys st s = s\<lparr>sys := st\<rparr>"

inductive latch_step :: "latch_system \<Rightarrow> latch_system \<Rightarrow> bool" where
  begin_lock: "phase_of s i = Idle \<Longrightarrow>
     latch_step s (set_phase i Acquiring (with_sys (gen_lock i ts keys (sys s)) s))"
| finish_acquire: "phase_of s i = Acquiring \<Longrightarrow> \<not> is_locked (locks (sys s) i) \<Longrightarrow>
     latch_step s (set_phase i Held s)"
| try_slot: "phase_of s i = Acquiring \<Longrightarrow> is_locked (locks (sys s) i) \<Longrightarrow> acquire_slot i (sys s) = (r, st) \<Longrightarrow>
     latch_step s (set_phase i (after_acquire r) (with_sys st s))"
| committed: "phase_of s i = Held \<Longrightarrow> latch_step s (with_sys (set_commit_ts i ts (sys s)) s)"
| drop_guard: "phase_of s i = Held \<Longrightarrow> \<not> cancelled s i \<Longrightarrow> latch_step s (set_phase i Releasing s)"
| release_one: "phase_of s i = Releasing \<Longrightarrow> acquired_count (locks (sys s) i) > 0 \<Longrightarrow>
     release_slot i (sys s) = (Some w, st) \<Longrightarrow> latch_step s (set_phase w Acquiring (with_sys st s))"
| release_none: "phase_of s i = Releasing \<Longrightarrow> acquired_count (locks (sys s) i) > 0 \<Longrightarrow>
     release_slot i (sys s) = (None, st) \<Longrightarrow> latch_step s (with_sys st s)"
| released: "phase_of s i = Releasing \<Longrightarrow> acquired_count (locks (sys s) i) = 0 \<Longrightarrow>
     latch_step s (set_phase i Released s)"
| recycle_slot: "j < length (slots (sys s)) \<Longrightarrow>
     latch_step s (with_sys (set_slot j (slot_recycle ts (slots (sys s) ! j)) (sys s)) s)"

text \<open>The future of \<open>LatchesScheduler::lock\<close> may also be dropped while it waits; no guard exists yet.\<close>

inductive cancel_step :: "latch_system \<Rightarrow> latch_system \<Rightarrow> bool" where
  normal: "latch_step s s' \<Longrightarrow> cancel_step s s'"
| cancel: "phase_of s i = Blocked \<Longrightarrow> cancel_step s (s\<lparr>cancelled := (cancelled s)(i := True)\<rparr>)"

inductive latch_reach :: "nat \<Rightarrow> latch_system \<Rightarrow> bool" for sz where
  reach_start: "latch_reach sz (start_system sz)"
| reach_step: "latch_reach sz s \<Longrightarrow> latch_step s s' \<Longrightarrow> latch_reach sz s'"

end
