(* ===== verification/Latch_Spec.thy ===== *)
theory Latch_Spec
  imports Latch
begin

text \<open>
  What the latches promise, without slots, hashing and waiting lists: one latch per key with at most
  one owner, and the largest commit timestamp remembered for the key, which recycling may forget.
  The invariant of this specification gives mutual exclusion, the meaning of a lock that is not
  stale, and that a blocked lock always has a running lock ahead of it. \<open>Latch_Refine\<close> shows that the
  slots of the source implement it.
\<close>

record latch_spec =
  own :: "bytes \<rightharpoonup> nat"
  seen :: "bytes \<Rightarrow> u64"
  lk :: "nat \<Rightarrow> latch_lock"
  ph :: "nat \<Rightarrow> phase"

definition held_keys :: "latch_lock \<Rightarrow> bytes set" where
  "held_keys l = set (take (acquired_count l) (lock_keys l))"

definition last_held :: "latch_lock \<Rightarrow> bytes" where
  "last_held l = lock_keys l ! (acquired_count l - 1)"

definition blocked_on :: "latch_spec \<Rightarrow> nat \<Rightarrow> bytes \<Rightarrow> bool" where
  "blocked_on s w k \<longleftrightarrow> ph s w = Blocked \<and> next_lock_key (lk s w) = k"

definition lock_wf :: "latch_lock \<Rightarrow> bool" where
  "lock_wf l \<longleftrightarrow> sorted_wrt (<) (lock_keys l) \<and> acquired_count l \<le> length (lock_keys l)
     \<and> required_len l = length (lock_keys l)"

abbreviation took :: "latch_lock \<Rightarrow> latch_lock" where
  "took l \<equiv> l\<lparr>acquired_count := Suc (acquired_count l)\<rparr>"

abbreviation gave :: "latch_lock \<Rightarrow> latch_lock" where
  "gave l \<equiv> l\<lparr>acquired_count := acquired_count l - 1\<rparr>"

inductive spec_step :: "latch_spec \<Rightarrow> latch_spec \<Rightarrow> bool" where
  s_begin: "ph s i = Idle \<Longrightarrow> lock_wf l \<Longrightarrow> acquired_count l = 0 \<Longrightarrow> \<not> stale l \<Longrightarrow>
     spec_step s (s\<lparr>lk := (lk s)(i := l), ph := (ph s)(i := Acquiring)\<rparr>)"
| s_finish: "ph s i = Acquiring \<Longrightarrow> \<not> is_locked (lk s i) \<Longrightarrow> spec_step s (s\<lparr>ph := (ph s)(i := Held)\<rparr>)"
| s_stale: "ph s i = Acquiring \<Longrightarrow> is_locked (lk s i) \<Longrightarrow> seen s (next_lock_key (lk s i)) > start_ts (lk s i) \<Longrightarrow>
     spec_step s (s\<lparr>lk := (lk s)(i := (lk s i)\<lparr>stale := True\<rparr>), ph := (ph s)(i := Held)\<rparr>)"
| s_take: "ph s i = Acquiring \<Longrightarrow> is_locked (lk s i) \<Longrightarrow> k = next_lock_key (lk s i) \<Longrightarrow> own s k = None \<Longrightarrow>
     seen s k \<le> start_ts (lk s i) \<Longrightarrow>
     spec_step s (s\<lparr>own := (own s)(k \<mapsto> i), lk := (lk s)(i := took (lk s i))\<rparr>)"
| s_block: "ph s i = Acquiring \<Longrightarrow> is_locked (lk s i) \<Longrightarrow> own s (next_lock_key (lk s i)) \<noteq> None \<Longrightarrow>
     spec_step s (s\<lparr>ph := (ph s)(i := Blocked)\<rparr>)"
| s_commit: "ph s i = Held \<Longrightarrow> spec_step s (s\<lparr>lk := (lk s)(i := (lk s i)\<lparr>lock_commit_ts := ts\<rparr>)\<rparr>)"
| s_drop: "ph s i = Held \<Longrightarrow> spec_step s (s\<lparr>ph := (ph s)(i := Releasing)\<rparr>)"
| s_release: "ph s i = Releasing \<Longrightarrow> acquired_count (lk s i) > 0 \<Longrightarrow> k = last_held (lk s i) \<Longrightarrow>
     (\<And>w. \<not> blocked_on s w k) \<Longrightarrow>
     spec_step s (s\<lparr>own := (own s)(k := None), seen := (seen s)(k := max (seen s k) (lock_commit_ts (lk s i))),
        lk := (lk s)(i := gave (lk s i))\<rparr>)"
| s_release_wake: "ph s i = Releasing \<Longrightarrow> acquired_count (lk s i) > 0 \<Longrightarrow> k = last_held (lk s i) \<Longrightarrow>
     blocked_on s w k \<Longrightarrow> m = max (seen s k) (lock_commit_ts (lk s i)) \<Longrightarrow> m \<le> start_ts (lk s w) \<Longrightarrow>
     spec_step s (s\<lparr>own := (own s)(k := None), seen := (seen s)(k := m),
        lk := (lk s)(i := gave (lk s i)), ph := (ph s)(w := Acquiring)\<rparr>)"
| s_release_grant: "ph s i = Releasing \<Longrightarrow> acquired_count (lk s i) > 0 \<Longrightarrow> k = last_held (lk s i) \<Longrightarrow>
     blocked_on s w k \<Longrightarrow> m = max (seen s k) (lock_commit_ts (lk s i)) \<Longrightarrow> m > start_ts (lk s w) \<Longrightarrow>
     spec_step s (s\<lparr>own := (own s)(k \<mapsto> w), seen := (seen s)(k := m),
        lk := (lk s)(i := gave (lk s i), w := (took (lk s w))\<lparr>stale := True\<rparr>), ph := (ph s)(w := Acquiring)\<rparr>)"
| s_released: "ph s i = Releasing \<Longrightarrow> acquired_count (lk s i) = 0 \<Longrightarrow> spec_step s (s\<lparr>ph := (ph s)(i := Released)\<rparr>)"
| s_forget: "(\<And>k. seen' k \<le> seen s k) \<Longrightarrow> spec_step s (s\<lparr>seen := seen'\<rparr>)"

definition spec_start :: latch_spec where
  "spec_start = \<lparr>own = Map.empty, seen = (\<lambda>_. 0), lk = (\<lambda>_. new_latch_lock 0 [] []), ph = (\<lambda>_. Idle)\<rparr>"

subsection \<open>The invariant\<close>

text \<open>A lock that waits for a free latch is never forgotten: another lock is on its way to take it.\<close>

definition wake_pending :: "latch_spec \<Rightarrow> bytes \<Rightarrow> bool" where
  "wake_pending s k \<longleftrightarrow> (\<exists>t. ph s t = Acquiring \<and> is_locked (lk s t) \<and> next_lock_key (lk s t) = k
     \<and> seen s k \<le> start_ts (lk s t))"

definition spec_inv :: "latch_spec \<Rightarrow> bool" where
  "spec_inv s \<longleftrightarrow> (\<forall>i. lock_wf (lk s i))
    \<and> (\<forall>k i. own s k = Some i \<longleftrightarrow> k \<in> held_keys (lk s i))
    \<and> (\<forall>i. ph s i = Idle \<or> ph s i = Released \<longrightarrow> acquired_count (lk s i) = 0)
    \<and> (\<forall>i. ph s i = Blocked \<longrightarrow> is_locked (lk s i))
    \<and> (\<forall>i. ph s i = Held \<longrightarrow> \<not> is_locked (lk s i))
    \<and> (\<forall>k i. own s k = Some i \<longrightarrow> \<not> stale (lk s i) \<longrightarrow> seen s k \<le> start_ts (lk s i))
    \<and> (\<forall>k w. blocked_on s w k \<longrightarrow> own s k = None \<longrightarrow> wake_pending s k)"

lemma spec_invD:
  assumes "spec_inv s"
  shows "\<And>i. lock_wf (lk s i)" "\<And>k i. own s k = Some i \<longleftrightarrow> k \<in> held_keys (lk s i)"
    "\<And>i. ph s i = Idle \<or> ph s i = Released \<Longrightarrow> acquired_count (lk s i) = 0" "\<And>i. ph s i = Blocked \<Longrightarrow> is_locked (lk s i)"
    "\<And>i. ph s i = Held \<Longrightarrow> \<not> is_locked (lk s i)"
    "\<And>k i. own s k = Some i \<Longrightarrow> \<not> stale (lk s i) \<Longrightarrow> seen s k \<le> start_ts (lk s i)"
    "\<And>k w. blocked_on s w k \<Longrightarrow> own s k = None \<Longrightarrow> wake_pending s k"
  using assms unfolding spec_inv_def by blast+

lemma spec_invI:
  assumes "\<And>i. lock_wf (lk s i)" "\<And>k i. own s k = Some i \<longleftrightarrow> k \<in> held_keys (lk s i)"
    "\<And>i. ph s i = Idle \<or> ph s i = Released \<Longrightarrow> acquired_count (lk s i) = 0" "\<And>i. ph s i = Blocked \<Longrightarrow> is_locked (lk s i)"
    "\<And>i. ph s i = Held \<Longrightarrow> \<not> is_locked (lk s i)"
    "\<And>k i. own s k = Some i \<Longrightarrow> \<not> stale (lk s i) \<Longrightarrow> seen s k \<le> start_ts (lk s i)"
    "\<And>k w. blocked_on s w k \<Longrightarrow> own s k = None \<Longrightarrow> wake_pending s k"
  shows "spec_inv s"
  using assms unfolding spec_inv_def by blast

text \<open>How taking and giving change the keys that a lock holds.\<close>

lemma is_locked_less: "lock_wf l \<Longrightarrow> is_locked l \<Longrightarrow> acquired_count l < length (lock_keys l)"
  by (simp add: lock_wf_def is_locked_def)

lemma held_less_next:
  assumes "lock_wf l" "acquired_count l < length (lock_keys l)" "k \<in> held_keys l"
  shows "k < next_lock_key l"
  using assms by (auto simp: lock_wf_def next_lock_key_def held_keys_def in_set_conv_nth sorted_wrt_iff_nth_less)

lemma next_not_held:
  "lock_wf l \<Longrightarrow> acquired_count l < length (lock_keys l) \<Longrightarrow> next_lock_key l \<notin> held_keys l"
  using held_less_next by blast

lemma held_keys_took:
  assumes "acquired_count l < length (lock_keys l)"
  shows "held_keys (took l) = Set.insert (next_lock_key l) (held_keys l)"
  using assms by (simp add: held_keys_def next_lock_key_def take_Suc_conv_app_nth)

lemma held_keys_gave:
  assumes "lock_wf l" "acquired_count l > 0"
  shows "held_keys (gave l) = held_keys l - {last_held l}" and "last_held l \<in> held_keys l"
proof -
  obtain n where n: "acquired_count l = Suc n" using assms(2) gr0_implies_Suc by blast
  have "n < length (lock_keys l)" using assms(1) n by (simp add: lock_wf_def)
  then have t: "take (Suc n) (lock_keys l) = take n (lock_keys l) @ [lock_keys l ! n]"
    by (rule take_Suc_conv_app_nth)
  have "distinct (take (Suc n) (lock_keys l))"
    using assms(1) strict_sorted_iff by (auto simp: lock_wf_def intro: distinct_take)
  then have "lock_keys l ! n \<notin> set (take n (lock_keys l))" unfolding t by simp
  then show "held_keys (gave l) = held_keys l - {last_held l}" "last_held l \<in> held_keys l"
    using t by (auto simp: held_keys_def last_held_def n)
qed

lemma held_keys_upd [simp]:
  "held_keys (l\<lparr>stale := b\<rparr>) = held_keys l" "held_keys (l\<lparr>lock_commit_ts := c\<rparr>) = held_keys l"
  "lock_wf (l\<lparr>stale := b\<rparr>) = lock_wf l" "lock_wf (l\<lparr>lock_commit_ts := c\<rparr>) = lock_wf l"
  "is_locked (l\<lparr>lock_commit_ts := c\<rparr>) = is_locked l" "\<not> is_locked (l\<lparr>stale := True\<rparr>)"
  "next_lock_key (l\<lparr>stale := b\<rparr>) = next_lock_key l" "next_lock_key (l\<lparr>lock_commit_ts := c\<rparr>) = next_lock_key l"
  by (simp_all add: held_keys_def lock_wf_def is_locked_def required_len_def next_lock_key_def)

lemma lock_wf_took: "lock_wf l \<Longrightarrow> acquired_count l < length (lock_keys l) \<Longrightarrow> lock_wf (took l)"
  by (simp add: lock_wf_def required_len_def)

lemma lock_wf_gave: "lock_wf l \<Longrightarrow> lock_wf (gave l)"
  by (auto simp: lock_wf_def required_len_def)

text \<open>Only the lock that moves and the latch it moves on can change what is pending.\<close>

lemma wake_pending_keep:
  assumes "wake_pending s k"
    and "\<And>t. ph s t = Acquiring \<Longrightarrow> is_locked (lk s t) \<Longrightarrow> next_lock_key (lk s t) = k \<Longrightarrow> seen s k \<le> start_ts (lk s t)
      \<Longrightarrow> ph s' t = Acquiring \<and> lk s' t = lk s t"
    and "seen s' k \<le> seen s k"
  shows "wake_pending s' k"
proof -
  obtain t where t: "ph s t = Acquiring" "is_locked (lk s t)" "next_lock_key (lk s t) = k" "seen s k \<le> start_ts (lk s t)"
    using assms(1) unfolding wake_pending_def by blast
  have "ph s' t = Acquiring \<and> lk s' t = lk s t" using assms(2) [OF t] .
  moreover have "seen s' k \<le> start_ts (lk s t)" using assms(3) t(4) by (rule order_trans)
  ultimately show ?thesis using t unfolding wake_pending_def by (intro exI [of _ t]) simp
qed

lemma inv_begin:
  assumes inv: "spec_inv s" and i: "ph s i = Idle" and l: "lock_wf l" "acquired_count l = 0" "\<not> stale l"
  shows "spec_inv (s\<lparr>lk := (lk s)(i := l), ph := (ph s)(i := Acquiring)\<rparr>)"
proof (rule spec_invI)
  note D = spec_invD [OF inv]
  let ?s = "s\<lparr>lk := (lk s)(i := l), ph := (ph s)(i := Acquiring)\<rparr>"
  have none: "held_keys (lk s i) = {}" "held_keys l = {}" using D(3) i l by (simp_all add: held_keys_def)
  show "own ?s k = Some j \<longleftrightarrow> k \<in> held_keys (lk ?s j)" for k j using D(2) [of k j] none by auto
  show "own ?s k = Some j \<Longrightarrow> \<not> stale (lk ?s j) \<Longrightarrow> seen ?s k \<le> start_ts (lk ?s j)" for k j
    using D(2) [of k i] D(6) [of k j] none by auto
  fix k w assume "blocked_on ?s w k" "own ?s k = None"
  then have "wake_pending s k" using D(7) by (auto simp: blocked_on_def split: if_splits)
  then show "wake_pending ?s k" by (rule wake_pending_keep) (use i in auto)
qed (use spec_invD(1,3-5) [OF inv] l in \<open>auto split: if_splits\<close>)

text \<open>Steps that only move a lock that is neither blocked nor about to take a latch.\<close>

lemma inv_phase:
  assumes inv: "spec_inv s" and "ph s i = Acquiring \<and> p = Held \<and> \<not> is_locked (lk s i)
      \<or> ph s i = Held \<and> p = Releasing \<or> ph s i = Releasing \<and> p = Released \<and> acquired_count (lk s i) = 0"
  shows "spec_inv (s\<lparr>ph := (ph s)(i := p)\<rparr>)"
proof (rule spec_invI)
  note D = spec_invD [OF inv]
  let ?s = "s\<lparr>ph := (ph s)(i := p)\<rparr>"
  show "ph ?s j = Idle \<or> ph ?s j = Released \<Longrightarrow> acquired_count (lk ?s j) = 0" for j
    using D(3) [of j] assms(2) by (cases "j = i") auto
  show "ph ?s j = Blocked \<Longrightarrow> is_locked (lk ?s j)" for j using D(4) [of j] assms(2) by (cases "j = i") auto
  show "ph ?s j = Held \<Longrightarrow> \<not> is_locked (lk ?s j)" for j using D(5) [of j] assms(2) by (cases "j = i") auto
  fix k w assume "blocked_on ?s w k" "own ?s k = None"
  then have "wake_pending s k" using D(7) assms(2) by (auto simp: blocked_on_def split: if_splits)
  then show "wake_pending ?s k" by (rule wake_pending_keep) (use assms(2) in auto)
qed (use spec_invD(1,2,6) [OF inv] in simp_all)

lemma inv_stale:
  assumes inv: "spec_inv s" and i: "ph s i = Acquiring" "seen s (next_lock_key (lk s i)) > start_ts (lk s i)"
  shows "spec_inv (s\<lparr>lk := (lk s)(i := (lk s i)\<lparr>stale := True\<rparr>), ph := (ph s)(i := Held)\<rparr>)"
proof (rule spec_invI)
  note D = spec_invD [OF inv]
  let ?s = "s\<lparr>lk := (lk s)(i := (lk s i)\<lparr>stale := True\<rparr>), ph := (ph s)(i := Held)\<rparr>"
  fix k w assume "blocked_on ?s w k" "own ?s k = None"
  then have "wake_pending s k" using D(7) by (auto simp: blocked_on_def split: if_splits)
  then show "wake_pending ?s k" by (rule wake_pending_keep) (use i in auto)
qed (use spec_invD(1-6) [OF inv] in \<open>simp_all split: if_splits\<close>)

lemma inv_commit:
  assumes inv: "spec_inv s" and i: "ph s i = Held"
  shows "spec_inv (s\<lparr>lk := (lk s)(i := (lk s i)\<lparr>lock_commit_ts := ts\<rparr>)\<rparr>)"
proof (rule spec_invI)
  note D = spec_invD [OF inv]
  let ?s = "s\<lparr>lk := (lk s)(i := (lk s i)\<lparr>lock_commit_ts := ts\<rparr>)\<rparr>"
  show "ph ?s j = Idle \<or> ph ?s j = Released \<Longrightarrow> acquired_count (lk ?s j) = 0" for j using D(3) [of j] i by (cases "j = i") simp_all
  show "ph ?s j = Blocked \<Longrightarrow> is_locked (lk ?s j)" for j using D(4) [of j] i by (cases "j = i") simp_all
  fix k w assume "blocked_on ?s w k" "own ?s k = None"
  then have "wake_pending s k" using D(7) [of w k] i by (auto simp: blocked_on_def split: if_splits)
  then show "wake_pending ?s k" by (rule wake_pending_keep) (use i in auto)
qed (use spec_invD(1,2,5,6) [OF inv] i in \<open>simp_all split: if_splits\<close>)

lemma inv_take:
  assumes inv: "spec_inv s" and i: "ph s i = Acquiring" "is_locked (lk s i)" and k: "k = next_lock_key (lk s i)"
    and free: "own s k = None" and seen: "seen s k \<le> start_ts (lk s i)"
  shows "spec_inv (s\<lparr>own := (own s)(k \<mapsto> i), lk := (lk s)(i := took (lk s i))\<rparr>)"
proof (rule spec_invI)
  note D = spec_invD [OF inv]
  let ?s = "s\<lparr>own := (own s)(k \<mapsto> i), lk := (lk s)(i := took (lk s i))\<rparr>"
  have less: "acquired_count (lk s i) < length (lock_keys (lk s i))" using is_locked_less D(1) i(2) by blast
  show "lock_wf (lk ?s j)" for j using lock_wf_took [OF D(1) less] D(1) by simp
  show "own ?s k' = Some j \<longleftrightarrow> k' \<in> held_keys (lk ?s j)" for k' j
    using D(2) [of k' j] D(2) [of k' i] held_keys_took [OF less] k free by auto
  show "own ?s k' = Some j \<Longrightarrow> \<not> stale (lk ?s j) \<Longrightarrow> seen ?s k' \<le> start_ts (lk ?s j)" for k' j
    using D(6) [of k' j] seen by (auto split: if_splits)
  show "ph ?s j = Idle \<or> ph ?s j = Released \<Longrightarrow> acquired_count (lk ?s j) = 0" for j using D(3) [of j] i by (cases "j = i") simp_all
  show "ph ?s j = Blocked \<Longrightarrow> is_locked (lk ?s j)" for j using D(4) [of j] i by (cases "j = i") simp_all
  show "ph ?s j = Held \<Longrightarrow> \<not> is_locked (lk ?s j)" for j using D(5) [of j] i by (cases "j = i") simp_all
  fix k' w assume b: "blocked_on ?s w k'" "own ?s k' = None"
  then have p: "wake_pending s k'" using D(7) [of w k'] i by (auto simp: blocked_on_def split: if_splits)
  have ne: "k' \<noteq> k" using b by auto
  show "wake_pending ?s k'" by (rule wake_pending_keep [OF p]) (use k ne in auto)
qed

lemma inv_block:
  assumes inv: "spec_inv s" and i: "ph s i = Acquiring" "is_locked (lk s i)" "own s (next_lock_key (lk s i)) \<noteq> None"
  shows "spec_inv (s\<lparr>ph := (ph s)(i := Blocked)\<rparr>)"
proof (rule spec_invI)
  note D = spec_invD [OF inv]
  let ?s = "s\<lparr>ph := (ph s)(i := Blocked)\<rparr>"
  fix k w assume b: "blocked_on ?s w k" "own ?s k = None"
  then have "w \<noteq> i" using i(3) by (auto simp: blocked_on_def)
  with b have p: "wake_pending s k" using D(7) [of w k] by (auto simp: blocked_on_def)
  have ne: "t \<noteq> i" if "next_lock_key (lk s t) = k" for t using that i(3) b(2) by auto
  show "wake_pending ?s k" by (rule wake_pending_keep [OF p]) (use ne in auto)
qed (use spec_invD(1-6) [OF inv] i in \<open>simp_all split: if_splits\<close>)

lemma inv_forget:
  assumes inv: "spec_inv s" and less: "\<And>k. seen' k \<le> seen s k"
  shows "spec_inv (s\<lparr>seen := seen'\<rparr>)"
proof (rule spec_invI)
  note D = spec_invD [OF inv]
  let ?s = "s\<lparr>seen := seen'\<rparr>"
  show "own ?s k = Some i \<Longrightarrow> \<not> stale (lk ?s i) \<Longrightarrow> seen ?s k \<le> start_ts (lk ?s i)" for k i
    using D(6) [of k i] less [of k] by simp
  fix k w assume "blocked_on ?s w k" "own ?s k = None"
  then have "wake_pending s k" using D(7) [of w k] by (auto simp: blocked_on_def)
  then show "wake_pending ?s k" by (rule wake_pending_keep) (use less in auto)
qed (use spec_invD(1-6) [OF inv] in simp_all)

text \<open>The three ways to release a latch.\<close>

lemma releasing_owner:
  assumes "spec_inv s" "acquired_count (lk s i) > 0"
  shows "own s (last_held (lk s i)) = Some i"
  using spec_invD(1,2) [OF assms(1)] held_keys_gave(2) [OF _ assms(2)] by blast

lemma owns_after_gave:
  assumes inv: "spec_inv s" and "acquired_count (lk s i) > 0"
  shows "k \<in> held_keys (((lk s)(i := gave (lk s i))) j) \<longleftrightarrow> k \<noteq> last_held (lk s i) \<and> own s k = Some j"
proof (cases "j = i")
  case True
  then show ?thesis using held_keys_gave(1) [OF spec_invD(1) [OF inv] assms(2)] spec_invD(2) [OF inv, of k i]
    by (simp only: fun_upd_same Diff_iff singleton_iff) blast
next
  case False
  then have "k \<in> held_keys (((lk s)(i := gave (lk s i))) j) \<longleftrightarrow> own s k = Some j"
    using spec_invD(2) [OF inv, of k j] by simp
  moreover have "own s k = Some j \<Longrightarrow> k \<noteq> last_held (lk s i)" using releasing_owner [OF assms] False by auto
  ultimately show ?thesis by blast
qed

lemma inv_release:
  assumes inv: "spec_inv s" and i: "ph s i = Releasing" "acquired_count (lk s i) > 0"
    and k: "k = last_held (lk s i)" and none: "\<And>w. \<not> blocked_on s w k"
  shows "spec_inv (s\<lparr>own := (own s)(k := None), seen := (seen s)(k := m), lk := (lk s)(i := gave (lk s i))\<rparr>)"
proof (rule spec_invI)
  note D = spec_invD [OF inv]
  let ?s = "s\<lparr>own := (own s)(k := None), seen := (seen s)(k := m), lk := (lk s)(i := gave (lk s i))\<rparr>"
  have own: "own s k = Some i" using releasing_owner [OF inv i(2)] k by simp
  show "lock_wf (lk ?s j)" for j using D(1) lock_wf_gave by simp
  show "own ?s k' = Some j \<longleftrightarrow> k' \<in> held_keys (lk ?s j)" for k' j
    using owns_after_gave [OF inv i(2), of k' j] k by simp
  show "ph ?s j = Idle \<or> ph ?s j = Released \<Longrightarrow> acquired_count (lk ?s j) = 0" for j using D(3) [of j] i by (cases "j = i") simp_all
  show "ph ?s j = Blocked \<Longrightarrow> is_locked (lk ?s j)" for j using D(4) [of j] i by (cases "j = i") simp_all
  show "ph ?s j = Held \<Longrightarrow> \<not> is_locked (lk ?s j)" for j using D(5) [of j] i by (cases "j = i") simp_all
  show "own ?s k' = Some j \<Longrightarrow> \<not> stale (lk ?s j) \<Longrightarrow> seen ?s k' \<le> start_ts (lk ?s j)" for k' j
    using D(6) [of k' j] by (cases "j = i") (simp_all split: if_splits)
  fix k' w assume b: "blocked_on ?s w k'" "own ?s k' = None"
  have "w \<noteq> i" using b i by (auto simp: blocked_on_def)
  then have bs: "blocked_on s w k'" using b by (simp add: blocked_on_def)
  then have ne: "k' \<noteq> k" using none by blast
  have p: "wake_pending s k'" using D(7) [OF bs] b ne by simp
  show "wake_pending ?s k'" by (rule wake_pending_keep [OF p]) (use i ne in auto)
qed

lemma inv_release_wake:
  assumes inv: "spec_inv s" and i: "ph s i = Releasing" "acquired_count (lk s i) > 0"
    and k: "k = last_held (lk s i)" and w: "blocked_on s w k" "m \<le> start_ts (lk s w)"
  shows "spec_inv (s\<lparr>own := (own s)(k := None), seen := (seen s)(k := m), lk := (lk s)(i := gave (lk s i)),
    ph := (ph s)(w := Acquiring)\<rparr>)"
proof (rule spec_invI)
  note D = spec_invD [OF inv]
  let ?s = "s\<lparr>own := (own s)(k := None), seen := (seen s)(k := m), lk := (lk s)(i := gave (lk s i)),
    ph := (ph s)(w := Acquiring)\<rparr>"
  have own: "own s k = Some i" using releasing_owner [OF inv i(2)] k by simp
  have wi: "w \<noteq> i" and lockd: "is_locked (lk s w)" "next_lock_key (lk s w) = k"
    using w(1) i(1) D(4) by (auto simp: blocked_on_def)
  show "lock_wf (lk ?s j)" for j using D(1) lock_wf_gave by simp
  show "own ?s k' = Some j \<longleftrightarrow> k' \<in> held_keys (lk ?s j)" for k' j
    using owns_after_gave [OF inv i(2), of k' j] k by simp
  show "ph ?s j = Idle \<or> ph ?s j = Released \<Longrightarrow> acquired_count (lk ?s j) = 0" for j
    using D(3) [of j] i by (cases "j = i") (simp_all split: if_splits)
  show "ph ?s j = Blocked \<Longrightarrow> is_locked (lk ?s j)" for j
    using D(4) [of j] i by (cases "j = i") (simp_all split: if_splits)
  show "ph ?s j = Held \<Longrightarrow> \<not> is_locked (lk ?s j)" for j
    using D(5) [of j] i by (cases "j = i") (simp_all split: if_splits)
  show "own ?s k' = Some j \<Longrightarrow> \<not> stale (lk ?s j) \<Longrightarrow> seen ?s k' \<le> start_ts (lk ?s j)" for k' j
    using D(6) [of k' j] by (cases "j = i") (simp_all split: if_splits)
  fix k' w' assume b: "blocked_on ?s w' k'" "own ?s k' = None"
  have "w' \<noteq> i" "w' \<noteq> w" using b i wi by (auto simp: blocked_on_def)
  then have bs: "blocked_on s w' k'" using b by (simp add: blocked_on_def)
  show "wake_pending ?s k'"
  proof (cases "k' = k")
    case True
    then show ?thesis unfolding wake_pending_def using lockd w(2) wi by (intro exI [of _ w]) simp
  next
    case False
    then have p: "wake_pending s k'" using D(7) [OF bs] b by simp
    show ?thesis by (rule wake_pending_keep [OF p]) (use i False in auto)
  qed
qed

lemma inv_release_grant:
  assumes inv: "spec_inv s" and i: "ph s i = Releasing" "acquired_count (lk s i) > 0"
    and k: "k = last_held (lk s i)" and w: "blocked_on s w k"
  shows "spec_inv (s\<lparr>own := (own s)(k \<mapsto> w), seen := (seen s)(k := m),
    lk := (lk s)(i := gave (lk s i), w := (took (lk s w))\<lparr>stale := True\<rparr>), ph := (ph s)(w := Acquiring)\<rparr>)"
proof (rule spec_invI)
  note D = spec_invD [OF inv]
  let ?s = "s\<lparr>own := (own s)(k \<mapsto> w), seen := (seen s)(k := m),
    lk := (lk s)(i := gave (lk s i), w := (took (lk s w))\<lparr>stale := True\<rparr>), ph := (ph s)(w := Acquiring)\<rparr>"
  have own: "own s k = Some i" using releasing_owner [OF inv i(2)] k by simp
  have wi: "w \<noteq> i" and lockd: "is_locked (lk s w)" "next_lock_key (lk s w) = k"
    using w i(1) D(4) by (auto simp: blocked_on_def)
  have less: "acquired_count (lk s w) < length (lock_keys (lk s w))" using is_locked_less [OF D(1) lockd(1)] .
  have held: "held_keys ((took (lk s w))\<lparr>stale := True\<rparr>) = Set.insert k (held_keys (lk s w))"
    using held_keys_took [OF less] lockd(2) by (simp only: held_keys_upd)
  have "lock_wf ((took (lk s w))\<lparr>stale := True\<rparr>)" unfolding held_keys_upd by (rule lock_wf_took [OF D(1) less])
  then show "lock_wf (lk ?s j)" for j using D(1) lock_wf_gave by simp
  show "own ?s k' = Some j \<longleftrightarrow> k' \<in> held_keys (lk ?s j)" for k' j
  proof (cases "j = w")
    case True
    then show ?thesis using held D(2) [of k' w] by auto
  next
    case False
    then show ?thesis using owns_after_gave [OF inv i(2), of k' j] k by auto
  qed
  show "ph ?s j = Idle \<or> ph ?s j = Released \<Longrightarrow> acquired_count (lk ?s j) = 0" for j
    using D(3) [of j] i by (cases "j = i") (simp_all split: if_splits)
  show "ph ?s j = Blocked \<Longrightarrow> is_locked (lk ?s j)" for j
    using D(4) [of j] i by (cases "j = i") (simp_all split: if_splits)
  show "ph ?s j = Held \<Longrightarrow> \<not> is_locked (lk ?s j)" for j
    using D(5) [of j] i by (cases "j = i") (simp_all split: if_splits)
  show "own ?s k' = Some j \<Longrightarrow> \<not> stale (lk ?s j) \<Longrightarrow> seen ?s k' \<le> start_ts (lk ?s j)" for k' j
    using D(6) [of k' j] by (cases "j = i") (simp_all split: if_splits)
  fix k' w' assume b: "blocked_on ?s w' k'" "own ?s k' = None"
  have "w' \<noteq> i" "w' \<noteq> w" using b i wi by (auto simp: blocked_on_def)
  then have bs: "blocked_on s w' k'" using b by (simp add: blocked_on_def)
  have ne: "k' \<noteq> k" "own s k' = None" using b(2) by (auto split: if_splits)
  show "wake_pending ?s k'"
    by (rule wake_pending_keep [OF D(7) [OF bs ne(2)]]) (use i w ne in \<open>auto simp: blocked_on_def\<close>)
qed

theorem spec_step_inv: "spec_step s s' \<Longrightarrow> spec_inv s \<Longrightarrow> spec_inv s'"
proof (induction rule: spec_step.induct)
  case (s_release s i k)
  then show ?case using inv_release by blast
next
  case (s_release_wake s i k w m)
  then show ?case using inv_release_wake by blast
next
  case (s_release_grant s i k w m)
  then show ?case using inv_release_grant by blast
next
  case (s_forget seen' s)
  then show ?case using inv_forget by blast
next
  case (s_take s i k)
  then show ?case using inv_take by blast
qed (simp_all add: inv_begin inv_phase inv_stale inv_block inv_commit)

lemma spec_start_inv: "spec_inv spec_start"
  by (simp add: spec_inv_def spec_start_def held_keys_def new_latch_lock_def lock_wf_def required_len_def blocked_on_def)

subsection \<open>Consequences\<close>

lemma spec_mutual_exclusion:
  assumes "spec_inv s" "k \<in> held_keys (lk s i)" "k \<in> held_keys (lk s j)"
  shows "i = j"
  using assms spec_invD(2) [OF assms(1)] by (metis option.inject)

lemma spec_held:
  assumes inv: "spec_inv s" and "ph s i = Held" "\<not> stale (lk s i)"
  shows "held_keys (lk s i) = set (lock_keys (lk s i))"
    and "k \<in> set (lock_keys (lk s i)) \<Longrightarrow> own s k = Some i \<and> seen s k \<le> start_ts (lk s i)"
proof -
  have "acquired_count (lk s i) = length (lock_keys (lk s i))"
    using spec_invD(5) [OF inv assms(2)] spec_invD(1) [OF inv] assms(3) by (simp add: is_locked_def lock_wf_def)
  then show *: "held_keys (lk s i) = set (lock_keys (lk s i))" by (simp add: held_keys_def)
  show "k \<in> set (lock_keys (lk s i)) \<Longrightarrow> own s k = Some i \<and> seen s k \<le> start_ts (lk s i)"
    using spec_invD(2,6) [OF inv] assms(3) * by blast
qed

text \<open>The latches are taken in key order, so the lock that waits for the largest key waits for one that
  can run.\<close>

lemma spec_no_deadlock:
  assumes inv: "spec_inv s" and fin: "finite {i. ph s i = Blocked}" and "ph s i = Blocked"
  shows "\<exists>j. ph s j \<in> {Acquiring, Held, Releasing}"
proof -
  note D = spec_invD [OF inv]
  let ?K = "(\<lambda>i. next_lock_key (lk s i)) ` {i. ph s i = Blocked}"
  have "finite ?K" "?K \<noteq> {}" using fin assms(3) by auto
  then have "Max ?K \<in> ?K" by (rule Max_in)
  then obtain w where w: "ph s w = Blocked" "next_lock_key (lk s w) = Max ?K" by auto
  show ?thesis
  proof (cases "own s (Max ?K)")
    case None
    then have "wake_pending s (Max ?K)" using D(7) [of w "Max ?K"] w by (simp add: blocked_on_def)
    then show ?thesis by (auto simp: wake_pending_def)
  next
    case (Some j)
    then have held: "Max ?K \<in> held_keys (lk s j)" using D(2) by blast
    have "ph s j \<noteq> Idle" "ph s j \<noteq> Released" using held D(3) [of j] by (auto simp: held_keys_def)
    moreover have "ph s j \<noteq> Blocked"
    proof
      assume b: "ph s j = Blocked"
      then have "acquired_count (lk s j) < length (lock_keys (lk s j))" using is_locked_less D(1,4) by blast
      then have "Max ?K < next_lock_key (lk s j)" using held_less_next D(1) held by blast
      moreover have "next_lock_key (lk s j) \<le> Max ?K" using b \<open>finite ?K\<close> by (intro Max_ge) auto
      ultimately show False by simp
    qed
    ultimately show ?thesis by (cases "ph s j") auto
  qed
qed

end
