(* ===== verification/Latch_Refine.thy ===== *)
theory Latch_Refine
  imports Latch_Spec
begin

text \<open>
  The slots of \<open>transaction/latch.rs\<close> implement the latches of \<open>Latch_Spec\<close>: every critical section is one
  step of the specification, preceded by the forgetting that recycling does. The properties of the
  specification are read back for the source's state at the end.
\<close>

subsection \<open>The abstraction\<close>

definition node_at :: "latches \<Rightarrow> bytes \<Rightarrow> node" where
  "node_at st k = entry_or_default k (slots st ! slot_id (length (slots st)) k)"

definition abs_latch :: "latch_system \<Rightarrow> latch_spec" where
  "abs_latch s = \<lparr>own = (\<lambda>k. owner_lock (node_at (sys s) k)), seen = (\<lambda>k. max_commit_ts (node_at (sys s) k)),
     lk = locks (sys s), ph = phase_of s\<rparr>"

definition slots_ok :: "latches \<Rightarrow> bool" where
  "slots_ok st \<longleftrightarrow> slots st \<noteq> [] \<and> (\<forall>s \<in> set (slots st). bt_inv (nodes s))
     \<and> (\<forall>i. required_slots (locks st i) = map (slot_id (length (slots st))) (lock_keys (locks st i)))"

definition waiting_ok :: "latch_system \<Rightarrow> bool" where
  "waiting_ok s \<longleftrightarrow> (\<forall>j < length (slots (sys s)). distinct (waiting (slots (sys s) ! j))
     \<and> (\<forall>i. i \<in> set (waiting (slots (sys s) ! j)) \<longleftrightarrow>
            phase_of s i = Blocked \<and> slot_id (length (slots (sys s))) (next_lock_key (locks (sys s) i)) = j))"

definition latch_inv :: "latch_system \<Rightarrow> bool" where
  "latch_inv s \<longleftrightarrow> slots_ok (sys s) \<and> waiting_ok s \<and> spec_inv (abs_latch s)"

lemma and_nat_le: "(a AND b :: nat) \<le> b"
  using AND_upper2 [of "int b" "int a"] by (simp add: of_nat_and_eq [symmetric])

lemma slot_id_less: "0 < n \<Longrightarrow> slot_id n k < n"
  using and_nat_le [of "unat (murmur3_x86_32 k 0)" "n - 1"] by (simp add: slot_id_def)

subsection \<open>Nodes and slots\<close>

lemma entry_put_node:
  "bt_inv (nodes s) \<Longrightarrow> entry_or_default k' (put_node k n s) = (if k' = k then n else entry_or_default k' s)"
  by (simp add: entry_or_default_def put_node_def bt.get_insert)

lemma entry_recycle:
  assumes "bt_inv (nodes s)"
  shows "owner_lock (entry_or_default k (slot_recycle ts s)) = owner_lock (entry_or_default k s)"
    and "max_commit_ts (entry_or_default k (slot_recycle ts s)) \<le> max_commit_ts (entry_or_default k s)"
  using bt_get_filter_entry [OF assms, of _ k]
  by (auto simp: entry_or_default_def slot_recycle_def split: option.splits)

lemma nodes_inv [simp]:
  "bt_inv (nodes s) \<Longrightarrow> bt_inv (nodes (put_node k n s))" "bt_inv (nodes s) \<Longrightarrow> bt_inv (nodes (slot_recycle ts s))"
  by (simp_all add: put_node_def slot_recycle_def bt.inv_insert bt_inv_filter)

lemma waiting_upd [simp]:
  "waiting (put_node k n s) = waiting s" "waiting (slot_recycle ts s) = waiting s"
  "nodes (s\<lparr>waiting := ws\<rparr>) = nodes s" "entry_or_default k (s\<lparr>waiting := ws\<rparr>) = entry_or_default k s"
  by (simp_all add: put_node_def slot_recycle_def entry_or_default_def)

lemma set_simps [simp]:
  "locks (set_slot j sl st) = locks st" "slots (set_lock i l st) = slots st"
  "length (slots (set_slot j sl st)) = length (slots st)" "locks (set_lock i l st) = (locks st)(i := l)"
  "node_at (set_lock i l st) k = node_at st k"
  by (simp_all add: set_slot_def set_lock_def node_at_def)

lemma node_at_set_slot:
  "slots st \<noteq> [] \<Longrightarrow> node_at (set_slot j sl st) k =
     (if slot_id (length (slots st)) k = j then entry_or_default k sl else node_at st k)"
  using slot_id_less [of "length (slots st)" k] by (auto simp: node_at_def set_slot_def)

lemma slots_ok_set_slot: "slots_ok st \<Longrightarrow> bt_inv (nodes sl) \<Longrightarrow> slots_ok (set_slot j sl st)"
  by (auto simp: slots_ok_def set_slot_def dest: set_update_subset_insert [THEN subsetD])

lemma slots_okD:
  assumes "slots_ok st"
  shows "slots st \<noteq> []" "j < length (slots st) \<Longrightarrow> bt_inv (nodes (slots st ! j))"
    "n < length (lock_keys (locks st i)) \<Longrightarrow> required_slots (locks st i) ! n = slot_id (length (slots st)) (lock_keys (locks st i) ! n)"
    "slot_id (length (slots st)) k < length (slots st)"
  using assms slot_id_less [of "length (slots st)"] by (auto simp: slots_ok_def)

lemma slots_ok_set_lock:
  "slots_ok st \<Longrightarrow> required_slots l = map (slot_id (length (slots st))) (lock_keys l) \<Longrightarrow> slots_ok (set_lock i l st)"
  by (simp add: slots_ok_def)

text \<open>Writing the node of a key changes that key's latch only.\<close>

lemma node_at_put:
  assumes "slots_ok st" "j = slot_id (length (slots st)) k" "sl = (put_node k n (slots st ! j))\<lparr>waiting := ws\<rparr>"
  shows "node_at (set_slot j sl st) k' = (if k' = k then n else node_at st k')"
  using assms slots_okD(1,2,4) [OF assms(1)] by (auto simp: node_at_set_slot entry_put_node) (simp add: node_at_def)

lemma node_at_put':
  assumes "slots_ok st" "j = slot_id (length (slots st)) k"
  shows "node_at (set_slot j (put_node k n (slots st ! j)) st) k' = (if k' = k then n else node_at st k')"
  using node_at_put [OF assms refl, where n = n and ws = "waiting (slots st ! j)" and k' = k'] by (simp add: put_node_def)

subsection \<open>The invariant along the abstraction\<close>

lemma abs_simps [simp]:
  "own (abs_latch s) = (\<lambda>k. owner_lock (node_at (sys s) k))" "seen (abs_latch s) = (\<lambda>k. max_commit_ts (node_at (sys s) k))"
  "lk (abs_latch s) = locks (sys s)" "ph (abs_latch s) = phase_of s"
  by (simp_all add: abs_latch_def)

lemma sys_simps [simp]:
  "sys (with_sys st s) = st" "phase_of (with_sys st s) = phase_of s"
  "sys (set_phase i p s) = sys s" "phase_of (set_phase i p s) = (phase_of s)(i := p)"
  by (simp_all add: with_sys_def set_phase_def)

lemma abs_eqI:
  assumes "own a = (\<lambda>k. owner_lock (node_at (sys s) k))" "seen a = (\<lambda>k. max_commit_ts (node_at (sys s) k))"
    "lk a = locks (sys s)" "ph a = phase_of s"
  shows "abs_latch s = a"
  using assms by (cases a) (simp add: abs_latch_def)

lemma latch_invD:
  assumes "latch_inv s"
  shows "slots_ok (sys s)" "waiting_ok s" "spec_inv (abs_latch s)"
  using assms by (simp_all add: latch_inv_def)

text \<open>What a critical section has to show.\<close>

definition simulates :: "latch_system \<Rightarrow> latch_system \<Rightarrow> bool" where
  "simulates s s' \<longleftrightarrow> spec_step\<^sup>*\<^sup>* (abs_latch s) (abs_latch s') \<and> slots_ok (sys s') \<and> waiting_ok s'"

lemma spec_steps_inv: "spec_step\<^sup>*\<^sup>* a b \<Longrightarrow> spec_inv a \<Longrightarrow> spec_inv b"
  by (induction rule: rtranclp_induct) (auto intro: spec_step_inv)

lemma simulates_inv: "simulates s s' \<Longrightarrow> latch_inv s \<Longrightarrow> latch_inv s'"
  using spec_steps_inv by (auto simp: simulates_def latch_inv_def)

lemma simulatesI:
  "spec_step (abs_latch s) a \<Longrightarrow> abs_latch s' = a \<Longrightarrow> slots_ok (sys s') \<Longrightarrow> waiting_ok s' \<Longrightarrow> simulates s s'"
  by (auto simp: simulates_def)

lemma simulates_trans: "simulates s s' \<Longrightarrow> simulates s' s'' \<Longrightarrow> simulates s s''"
  by (auto simp: simulates_def)

text \<open>The waiting lists do not change, and no lock enters or leaves them.\<close>

lemma waiting_ok_same:
  assumes "waiting_ok s" "length (slots (sys s')) = length (slots (sys s))"
    and "\<And>j. j < length (slots (sys s)) \<Longrightarrow> waiting (slots (sys s') ! j) = waiting (slots (sys s) ! j)"
    and "\<And>i. (phase_of s' i = Blocked) = (phase_of s i = Blocked)"
    and "\<And>i. phase_of s i = Blocked \<Longrightarrow> next_lock_key (locks (sys s') i) = next_lock_key (locks (sys s) i)"
  shows "waiting_ok s'"
  using assms by (auto simp: waiting_ok_def)

lemma waiting_set_slot:
  "waiting sl = waiting (slots st ! j) \<Longrightarrow> j' < length (slots st) \<Longrightarrow> waiting (slots (set_slot j sl st) ! j') = waiting (slots st ! j')"
  by (cases "j' = j") (simp_all add: set_slot_def)

lemma sim_recycle:
  assumes inv: "latch_inv s" and j: "j < length (slots (sys s))"
  shows "simulates s (with_sys (set_slot j (slot_recycle ts (slots (sys s) ! j)) (sys s)) s)"
proof -
  let ?st = "set_slot j (slot_recycle ts (slots (sys s) ! j)) (sys s)"
  note D = latch_invD [OF inv] and S = slots_okD [OF latch_invD(1) [OF inv]]
  have n: "owner_lock (node_at ?st k) = owner_lock (node_at (sys s) k)"
    "max_commit_ts (node_at ?st k) \<le> max_commit_ts (node_at (sys s) k)" for k
    using entry_recycle [OF S(2) [OF j], of k ts] S(1) by (auto simp: node_at_set_slot) (auto simp: node_at_def)
  show ?thesis
  proof (rule simulatesI)
    show "spec_step (abs_latch s) ((abs_latch s)\<lparr>seen := (\<lambda>k. max_commit_ts (node_at ?st k))\<rparr>)"
      by (rule s_forget) (simp add: n)
    show "slots_ok (sys (with_sys ?st s))" using D(1) S(2) [OF j] by (simp add: slots_ok_set_slot)
    show "waiting_ok (with_sys ?st s)" by (rule waiting_ok_same [OF D(2)]) (simp_all add: waiting_set_slot)
  qed (rule abs_eqI; simp add: n)
qed

lemma simulates_refl: "latch_inv s \<Longrightarrow> simulates s s"
  by (simp add: simulates_def latch_inv_def)

subsection \<open>Acquiring\<close>

text \<open>\<open>acquire_slot\<close> after its recycling, in terms of nodes.\<close>

definition acquire_core :: "nat \<Rightarrow> latches \<Rightarrow> acquire_result \<times> latches" where
  "acquire_core i st =
    (let l = locks st i; k = next_lock_key l; j = slot_id (length (slots st)) k; node = node_at st k; inner = slots st ! j
     in if max_commit_ts node > start_ts l
        then (AcquireStale, set_lock i (l\<lparr>stale := True\<rparr>) (set_slot j (put_node k node inner) st))
        else if owner_lock node = None
        then (AcquireSuccess, set_lock i (took l) (set_slot j (put_node k (node\<lparr>owner_lock := Some i\<rparr>) inner) st))
        else (AcquireLocked, set_slot j ((put_node k node inner)\<lparr>waiting := waiting inner @ [i]\<rparr>) st))"

definition recycled :: "nat \<Rightarrow> latches \<Rightarrow> latches" where
  "recycled i st =
    (let l = locks st i; j = slot_id (length (slots st)) (next_lock_key l); inner = slots st ! j
     in if length (nodes inner) \<ge> LATCH_LIST_COUNT then set_slot j (slot_recycle (start_ts l) inner) st else st)"

lemma acquire_slot_core:
  assumes ok: "slots_ok st" and less: "acquired_count (locks st i) < length (lock_keys (locks st i))"
  shows "acquire_slot i st = acquire_core i (recycled i st)"
proof -
  have j: "required_slots (locks st i) ! acquired_count (locks st i) = slot_id (length (slots st)) (next_lock_key (locks st i))"
    using slots_okD(3) [OF ok less] by (simp add: next_lock_key_def)
  have upd: "set_slot j a (set_slot j b st) = set_slot j a st" for j a b by (simp add: set_slot_def)
  have lt: "slot_id (length (slots st)) (next_lock_key (locks st i)) < length (slots st)" using slots_okD(4) [OF ok] .
  show ?thesis
    unfolding acquire_slot_def acquire_core_def recycled_def Let_def j next_lock_key_def [symmetric]
    using lt by (auto simp: upd node_at_def) (auto simp: set_slot_def)
qed

lemma sim_recycled:
  assumes "latch_inv s"
  shows "simulates s (with_sys (recycled i (sys s)) s)"
  using simulates_refl [OF assms] sim_recycle [OF assms slots_okD(4) [OF latch_invD(1) [OF assms]]]
  by (simp add: recycled_def Let_def) (simp add: with_sys_def)

lemma recycled_locks [simp]: "locks (recycled i st) = locks st"
  by (simp add: recycled_def Let_def)

lemma slots_ok_node:
  assumes "slots_ok st" "j = slot_id (length (slots st)) k"
  shows "slots_ok (set_slot j (put_node k n (slots st ! j)) st)"
    and "slots_ok (set_slot j ((put_node k n (slots st ! j))\<lparr>waiting := ws\<rparr>) st)"
  using slots_okD(2,4) [OF assms(1)] assms(2) by (auto intro!: slots_ok_set_slot [OF assms(1)])

lemma required_upd:
  assumes "slots_ok st"
  shows "required_slots (locks st i) = map (slot_id (length (slots st))) (lock_keys (locks st i))"
  using assms by (simp add: slots_ok_def)

lemma sim_core:
  assumes inv: "latch_inv s" and i: "phase_of s i = Acquiring" "is_locked (locks (sys s) i)"
    and res: "acquire_core i (sys s) = (r, st)"
  shows "simulates s (set_phase i (after_acquire r) (with_sys st s))"
proof -
  note D = latch_invD [OF inv]
  let ?l = "locks (sys s) i" and ?k = "next_lock_key (locks (sys s) i)"
  let ?j = "slot_id (length (slots (sys s))) ?k"
  let ?n = "node_at (sys s) ?k"
  have put: "node_at (set_slot ?j (put_node ?k n (slots (sys s) ! ?j)) (sys s)) k'
      = (if k' = ?k then n else node_at (sys s) k')" for n k' by (rule node_at_put' [OF D(1) refl])
  have put_w: "node_at (set_slot ?j ((put_node ?k n (slots (sys s) ! ?j))\<lparr>waiting := ws\<rparr>) (sys s)) k'
      = (if k' = ?k then n else node_at (sys s) k')" for n k' ws by (rule node_at_put [OF D(1) refl refl])
  consider (stale) "max_commit_ts ?n > start_ts ?l"
    | (take) "\<not> max_commit_ts ?n > start_ts ?l" "owner_lock ?n = None"
    | (block) "\<not> max_commit_ts ?n > start_ts ?l" "owner_lock ?n \<noteq> None" by blast
  then show ?thesis
  proof cases
    case stale
    then have r: "r = AcquireStale" "st = set_lock i (?l\<lparr>stale := True\<rparr>) (set_slot ?j (put_node ?k ?n (slots (sys s) ! ?j)) (sys s))"
      using res by (simp_all add: acquire_core_def Let_def)
    show ?thesis
    proof (rule simulatesI [OF s_stale [of "abs_latch s" i]])
      show "slots_ok (sys (set_phase i (after_acquire r) (with_sys st s)))"
        using slots_ok_node(1) [OF D(1) refl] required_upd [OF D(1)] by (simp add: r slots_ok_set_lock)
      show "waiting_ok (set_phase i (after_acquire r) (with_sys st s))"
        by (rule waiting_ok_same [OF D(2)]) (use i in \<open>auto simp: r waiting_set_slot\<close>)
    qed (use i stale in \<open>simp_all, auto intro!: abs_eqI simp: r put\<close>)
  next
    case take
    then have r: "r = AcquireSuccess" "st = set_lock i (took ?l) (set_slot ?j (put_node ?k (?n\<lparr>owner_lock := Some i\<rparr>) (slots (sys s) ! ?j)) (sys s))"
      using res by (simp_all add: acquire_core_def Let_def)
    show ?thesis
    proof (rule simulatesI [OF s_take [of "abs_latch s" i]])
      show "slots_ok (sys (set_phase i (after_acquire r) (with_sys st s)))"
        using slots_ok_node(1) [OF D(1) refl] required_upd [OF D(1)] by (simp add: r slots_ok_set_lock)
      show "waiting_ok (set_phase i (after_acquire r) (with_sys st s))"
        by (rule waiting_ok_same [OF D(2)]) (use i in \<open>auto simp: r waiting_set_slot\<close>)
    qed (use i take in \<open>simp_all, auto intro!: abs_eqI simp: r put fun_upd_def\<close>)
  next
    case block
    then have r: "r = AcquireLocked"
      "st = set_slot ?j ((put_node ?k ?n (slots (sys s) ! ?j))\<lparr>waiting := waiting (slots (sys s) ! ?j) @ [i]\<rparr>) (sys s)"
      using res by (auto simp: acquire_core_def Let_def)
    show ?thesis
    proof (rule simulatesI [OF s_block [of "abs_latch s" i]])
      show "slots_ok (sys (set_phase i (after_acquire r) (with_sys st s)))"
        using slots_ok_node(2) [OF D(1) refl] by (simp add: r)
      show "waiting_ok (set_phase i (after_acquire r) (with_sys st s))"
        using D(2) i(1) slots_okD(4) [OF D(1), of ?k]
        by (auto simp: waiting_ok_def r set_slot_def nth_list_update)
    qed (use i block in \<open>simp_all, auto intro!: abs_eqI simp: r put_w\<close>)
  qed
qed

lemma sim_try_slot:
  assumes inv: "latch_inv s" and i: "phase_of s i = Acquiring" "is_locked (locks (sys s) i)"
    and res: "acquire_slot i (sys s) = (r, st)"
  shows "simulates s (set_phase i (after_acquire r) (with_sys st s))"
proof -
  let ?s = "with_sys (recycled i (sys s)) s"
  have "acquired_count (locks (sys s) i) < length (lock_keys (locks (sys s) i))"
    using is_locked_less spec_invD(1) [OF latch_invD(3) [OF inv], of i] i(2) by simp
  then have core: "acquire_core i (sys ?s) = (r, st)" using acquire_slot_core [OF latch_invD(1) [OF inv]] res by simp
  have sim: "simulates s ?s" using sim_recycled [OF inv] .
  have "simulates ?s (set_phase i (after_acquire r) (with_sys st ?s))"
    by (rule sim_core [OF simulates_inv [OF sim inv] _ _ core]) (simp_all add: i)
  then show ?thesis using simulates_trans [OF sim] by (simp add: with_sys_def)
qed

subsection \<open>Releasing\<close>

text \<open>The node of the released key before a waiting lock is looked for.\<close>

definition release_core :: "nat \<Rightarrow> latches \<Rightarrow> latches" where
  "release_core i st =
    (let l = locks st i; k = last_held l; j = slot_id (length (slots st)) k; node = node_at st k
     in set_slot j (put_node k (node\<lparr>max_commit_ts := max (max_commit_ts node) (lock_commit_ts l), owner_lock := None\<rparr>)
          (slots st ! j)) (set_lock i (gave l) st))"

definition released_max :: "nat \<Rightarrow> latches \<Rightarrow> u64" where
  "released_max i st = max (max_commit_ts (node_at st (last_held (locks st i)))) (lock_commit_ts (locks st i))"

lemma release_slot_core:
  assumes inv: "latch_inv s" and pos: "acquired_count (locks (sys s) i) > 0"
  shows "release_slot i (sys s) = pop_waiting (slot_id (length (slots (sys s))) (last_held (locks (sys s) i)))
     (last_held (locks (sys s) i)) (released_max i (sys s)) (release_core i (sys s))"
proof -
  let ?l = "locks (sys s) i"
  have own: "owner_lock (node_at (sys s) (last_held ?l)) = Some i"
    using releasing_owner [OF latch_invD(3) [OF inv], of i] pos by simp
  have "acquired_count ?l \<le> length (lock_keys ?l)"
    using spec_invD(1) [OF latch_invD(3) [OF inv], of i] by (simp add: lock_wf_def)
  then have j: "required_slots ?l ! (acquired_count ?l - 1) = slot_id (length (slots (sys s))) (last_held ?l)"
    using slots_okD(3) [OF latch_invD(1) [OF inv], of "acquired_count ?l - 1" i] pos by (simp add: last_held_def)
  have e: "entry_or_default (last_held ?l) (slots (sys s) ! slot_id (length (slots (sys s))) (last_held ?l)) = node_at (sys s) (last_held ?l)"
    by (simp add: node_at_def)
  show ?thesis
    unfolding release_slot_def release_core_def released_max_def Let_def last_held_def [symmetric] j e
    using own pos by simp
qed

lemma release_core_sel:
  assumes inv: "latch_inv s"
  shows "locks (release_core i (sys s)) = (locks (sys s))(i := gave (locks (sys s) i))"
    and "length (slots (release_core i (sys s))) = length (slots (sys s))"
    and "j < length (slots (sys s)) \<Longrightarrow> waiting (slots (release_core i (sys s)) ! j) = waiting (slots (sys s) ! j)"
    and "slots_ok (release_core i (sys s))"
    and "node_at (release_core i (sys s)) k = (if k = last_held (locks (sys s) i)
      then (node_at (sys s) k)\<lparr>max_commit_ts := released_max i (sys s), owner_lock := None\<rparr> else node_at (sys s) k)"
proof -
  let ?k = "last_held (locks (sys s) i)" and ?st = "set_lock i (gave (locks (sys s) i)) (sys s)"
  have ok: "slots_ok ?st" using latch_invD(1) [OF inv] required_upd [of "sys s"] by (simp add: slots_ok_set_lock)
  show "locks (release_core i (sys s)) = (locks (sys s))(i := gave (locks (sys s) i))"
    "length (slots (release_core i (sys s))) = length (slots (sys s))"
    by (simp_all add: release_core_def Let_def)
  show "j < length (slots (sys s)) \<Longrightarrow> waiting (slots (release_core i (sys s)) ! j) = waiting (slots (sys s) ! j)"
    using waiting_set_slot [of _ ?st] by (simp add: release_core_def Let_def)
  show "slots_ok (release_core i (sys s))"
    using slots_ok_node(1) [OF ok, of "slot_id (length (slots ?st)) ?k"] by (simp add: release_core_def Let_def)
  show "node_at (release_core i (sys s)) k = (if k = ?k
      then (node_at (sys s) k)\<lparr>max_commit_ts := released_max i (sys s), owner_lock := None\<rparr> else node_at (sys s) k)"
    using node_at_put' [OF ok, of "slot_id (length (slots ?st)) ?k" ?k _ k]
    by (simp add: release_core_def released_max_def Let_def)
qed

text \<open>The search finds a lock exactly when one is blocked on the key.\<close>

lemma find_waiting:
  assumes inv: "latch_inv s" and i: "phase_of s i = Releasing"
    and j: "j = slot_id (length (slots (sys s))) k"
    and f: "f = find (\<lambda>w. wakes k (locks (release_core i (sys s)) w)) (waiting (slots (release_core i (sys s)) ! j))"
  shows "f = None \<Longrightarrow> \<not> blocked_on (abs_latch s) w k"
    and "f = Some w \<Longrightarrow> blocked_on (abs_latch s) w k \<and> w \<noteq> i \<and> w \<in> set (waiting (slots (sys s) ! j))"
proof -
  note D = latch_invD [OF inv] and R = release_core_sel [OF inv]
  have jl: "j < length (slots (sys s))" using slots_okD(4) [OF D(1)] j by simp
  have w: "w \<in> set (waiting (slots (sys s) ! j)) \<longleftrightarrow> phase_of s w = Blocked
      \<and> slot_id (length (slots (sys s))) (next_lock_key (locks (sys s) w)) = j" for w
    using D(2) jl by (simp add: waiting_ok_def)
  have less: "acquired_count (locks (sys s) w) < required_len (locks (sys s) w)" if "phase_of s w = Blocked" for w
    using spec_invD(1,4) [OF D(3), of w] that is_locked_less by (simp add: lock_wf_def)
  have same: "phase_of s w = Blocked \<Longrightarrow> w \<noteq> i \<and> locks (release_core i (sys s)) w = locks (sys s) w" for w
    using i R(1) by auto
  have wt: "waiting (slots (release_core i (sys s)) ! j) = waiting (slots (sys s) ! j)" using R(3) [OF jl] .
  show "\<not> blocked_on (abs_latch s) w k" if "f = None"
  proof
    assume "blocked_on (abs_latch s) w k"
    then have b: "phase_of s w = Blocked" "next_lock_key (locks (sys s) w) = k" by (simp_all add: blocked_on_def)
    then have "w \<in> set (waiting (slots (sys s) ! j))" using w j by simp
    moreover have "wakes k (locks (release_core i (sys s)) w)"
      using same [OF b(1)] less [OF b(1)] b(2) by (simp add: wakes_def)
    ultimately show False using that unfolding f wt find_None_iff by blast
  qed
  show "blocked_on (abs_latch s) w k \<and> w \<noteq> i \<and> w \<in> set (waiting (slots (sys s) ! j))" if "f = Some w"
  proof -
    have m: "w \<in> set (waiting (slots (sys s) ! j))" "wakes k (locks (release_core i (sys s)) w)"
      using that unfolding f wt find_Some_iff by auto
    then have "phase_of s w = Blocked" using w by blast
    then show ?thesis using m same by (simp add: blocked_on_def wakes_def)
  qed
qed

lemma sim_release:
  assumes inv: "latch_inv s" and i: "phase_of s i = Releasing" "acquired_count (locks (sys s) i) > 0"
    and res: "release_slot i (sys s) = (None, st)"
  shows "simulates s (with_sys st s)"
proof -
  let ?k = "last_held (locks (sys s) i)"
  let ?j = "slot_id (length (slots (sys s))) ?k"
  note R = release_core_sel [OF inv]
  have f: "find (\<lambda>w. wakes ?k (locks (release_core i (sys s)) w)) (waiting (slots (release_core i (sys s)) ! ?j)) = None"
    "st = release_core i (sys s)"
    using res unfolding release_slot_core [OF inv i(2)] pop_waiting_def Let_def by (auto split: option.splits if_splits)
  have none: "\<not> blocked_on (abs_latch s) w ?k" for w
    by (rule find_waiting(1) [OF inv i(1) refl refl f(1)])
  show ?thesis
  proof (rule simulatesI [OF s_release [of "abs_latch s" i ?k]])
    show "slots_ok (sys (with_sys st s))" using R(4) f by simp
    show "waiting_ok (with_sys st s)"
      by (rule waiting_ok_same [OF latch_invD(2) [OF inv]]) (use R(1-3) i in \<open>auto simp: f(2)\<close>)
  qed (use i none R(1,5) in \<open>simp_all, auto intro!: abs_eqI simp: f(2) released_max_def\<close>)
qed

lemma waiting_ok_pop:
  assumes "waiting_ok s" "j < length (slots (sys s))" "w \<in> set (waiting (slots (sys s) ! j))"
    and "length (slots (sys s')) = length (slots (sys s))"
    and "\<And>j'. j' < length (slots (sys s)) \<Longrightarrow> waiting (slots (sys s') ! j')
        = (if j' = j then remove1 w (waiting (slots (sys s) ! j)) else waiting (slots (sys s) ! j'))"
    and "\<And>v. (phase_of s' v = Blocked) = (phase_of s v = Blocked \<and> v \<noteq> w)"
    and "\<And>v. phase_of s v = Blocked \<Longrightarrow> v \<noteq> w \<Longrightarrow> next_lock_key (locks (sys s') v) = next_lock_key (locks (sys s) v)"
  shows "waiting_ok s'"
  unfolding waiting_ok_def
proof (intro allI impI)
  fix j' assume "j' < length (slots (sys s'))"
  then have j': "j' < length (slots (sys s))" using assms(4) by simp
  have old: "distinct (waiting (slots (sys s) ! j))" "v \<in> set (waiting (slots (sys s) ! j)) \<longleftrightarrow>
      phase_of s v = Blocked \<and> slot_id (length (slots (sys s))) (next_lock_key (locks (sys s) v)) = j"
    if "j < length (slots (sys s))" for j v
    using assms(1) that by (simp_all add: waiting_ok_def)
  have new: "v \<in> set (waiting (slots (sys s') ! j')) \<longleftrightarrow> v \<in> set (waiting (slots (sys s) ! j')) \<and> v \<noteq> w" for v
  proof (cases "j' = j")
    case True
    then show ?thesis using assms(5) [OF j'] old(1) [OF j'] by auto
  next
    case False
    then have "w \<notin> set (waiting (slots (sys s) ! j'))"
      using old(2) [OF j', of w] old(2) [OF assms(2), of w] assms(3) by simp
    then show ?thesis using False assms(5) [OF j'] by auto
  qed
  have "distinct (waiting (slots (sys s') ! j'))" using assms(5) [OF j'] old(1) [OF j'] by (cases "j' = j") simp_all
  moreover have "v \<in> set (waiting (slots (sys s') ! j')) \<longleftrightarrow> phase_of s' v = Blocked
      \<and> slot_id (length (slots (sys s'))) (next_lock_key (locks (sys s') v)) = j'" for v
    using new [of v] old(2) [OF j', of v] assms(6,7) [of v] assms(4) by auto
  ultimately show "distinct (waiting (slots (sys s') ! j')) \<and> (\<forall>v. v \<in> set (waiting (slots (sys s') ! j')) \<longleftrightarrow>
      phase_of s' v = Blocked \<and> slot_id (length (slots (sys s'))) (next_lock_key (locks (sys s') v)) = j')" by blast
qed

lemma sim_release_one:
  assumes inv: "latch_inv s" and i: "phase_of s i = Releasing" "acquired_count (locks (sys s) i) > 0"
    and res: "release_slot i (sys s) = (Some w, st)"
  shows "simulates s (set_phase w Acquiring (with_sys st s))"
proof -
  let ?k = "last_held (locks (sys s) i)"
  let ?j = "slot_id (length (slots (sys s))) ?k" and ?c = "release_core i (sys s)"
  let ?inner = "(slots ?c ! ?j)\<lparr>waiting := remove1 w (waiting (slots ?c ! ?j))\<rparr>"
  note D = latch_invD [OF inv] and R = release_core_sel [OF inv]
  have jl: "?j < length (slots (sys s))" using slots_okD(4) [OF D(1)] .
  have nd: "node_at ?c ?k = (node_at (sys s) ?k)\<lparr>max_commit_ts := released_max i (sys s), owner_lock := None\<rparr>"
    using R(5) by simp
  have e: "entry_or_default ?k (slots ?c ! ?j) = node_at ?c ?k" by (simp add: node_at_def R(2))
  have f: "find (\<lambda>w. wakes ?k (locks ?c w)) (waiting (slots ?c ! ?j)) = Some w"
    and st: "st = (if released_max i (sys s) > start_ts (locks ?c w)
      then set_lock w ((took (locks ?c w))\<lparr>stale := True\<rparr>)
        (set_slot ?j (put_node ?k ((node_at ?c ?k)\<lparr>owner_lock := Some w\<rparr>) ?inner) ?c)
      else set_slot ?j ?inner ?c)"
    using res unfolding release_slot_core [OF inv i(2)] pop_waiting_def Let_def
    by (auto simp: e split: option.splits if_splits)
  have w: "blocked_on (abs_latch s) w ?k" "w \<noteq> i" "w \<in> set (waiting (slots (sys s) ! ?j))"
    using find_waiting(2) [OF inv i(1) refl refl f] by auto
  have lw: "locks ?c w = locks (sys s) w" using R(1) w(2) by simp
  have put: "put_node k n (sl\<lparr>waiting := ws\<rparr>) = (put_node k n sl)\<lparr>waiting := ws\<rparr>" for k n sl ws by (simp add: put_node_def)
  have wait: "waiting (slots st ! j') = (if j' = ?j then remove1 w (waiting (slots (sys s) ! ?j)) else waiting (slots (sys s) ! j'))"
    if "j' < length (slots (sys s))" for j'
    using R(2,3) that by (simp add: st put set_slot_def nth_list_update)
  have len: "length (slots st) = length (slots (sys s))" by (simp add: st R(2))
  have wok: "waiting_ok (set_phase w Acquiring (with_sys st s))"
    by (rule waiting_ok_pop [OF D(2) jl w(3)]) (use wait len i R(1) in \<open>auto simp: st\<close>)
  have jc: "?j = slot_id (length (slots ?c)) ?k" by (simp add: R(2))
  show ?thesis
  proof (cases "released_max i (sys s) > start_ts (locks (sys s) w)")
    case True
    then have g: "st = set_lock w ((took (locks (sys s) w))\<lparr>stale := True\<rparr>)
        (set_slot ?j ((put_node ?k ((node_at ?c ?k)\<lparr>owner_lock := Some w\<rparr>) (slots ?c ! ?j))\<lparr>waiting := remove1 w (waiting (slots ?c ! ?j))\<rparr>) ?c)"
      by (simp add: st lw put)
    have n: "node_at st k' = (if k' = ?k then (node_at ?c ?k)\<lparr>owner_lock := Some w\<rparr> else node_at ?c k')" for k'
      unfolding g using node_at_put [OF R(4) jc refl] by simp
    have ok: "slots_ok st"
      unfolding g using slots_ok_node(2) [OF R(4) jc] required_upd [OF D(1), of w] R(2) by (intro slots_ok_set_lock) simp_all
    show ?thesis
    proof (rule simulatesI [OF s_release_grant [of "abs_latch s" i ?k w "released_max i (sys s)"]])
      show "slots_ok (sys (set_phase w Acquiring (with_sys st s)))" using ok by simp
      show "waiting_ok (set_phase w Acquiring (with_sys st s))" by (rule wok)
    qed (use i w True in \<open>simp_all add: released_max_def\<close>, auto intro!: abs_eqI simp: n nd R(5) released_max_def, auto simp: g R(1))
  next
    case False
    then have g: "st = set_slot ?j ?inner ?c" by (simp add: st lw)
    have n: "node_at st k' = node_at ?c k'" for k'
      unfolding g using node_at_set_slot [OF slots_okD(1) [OF R(4)]] by (auto simp: node_at_def R(2))
    have ok: "slots_ok st" unfolding g using slots_okD(2) [OF R(4), of ?j] jl R(2) by (intro slots_ok_set_slot R(4)) simp
    show ?thesis
    proof (rule simulatesI [OF s_release_wake [of "abs_latch s" i ?k w "released_max i (sys s)"]])
      show "slots_ok (sys (set_phase w Acquiring (with_sys st s)))" using ok by simp
      show "waiting_ok (set_phase w Acquiring (with_sys st s))" by (rule wok)
    qed (use i w False in \<open>simp_all add: released_max_def not_less\<close>, auto intro!: abs_eqI simp: n nd R(5) released_max_def, auto simp: g R(1))
  qed
qed

subsection \<open>The source refines the specification\<close>

lemma strict_sorted_remdups_adj: "sorted xs \<Longrightarrow> sorted_wrt (<) (remdups_adj xs)"
  by (induction xs rule: remdups_adj.induct) (auto simp: less_le)

lemma gen_lock_wf:
  "lock_wf (new_latch_lock ts (remdups_adj (sort keys)) (map f (remdups_adj (sort keys))))"
  by (simp add: lock_wf_def new_latch_lock_def required_len_def strict_sorted_remdups_adj)

lemma sim_begin:
  assumes inv: "latch_inv s" and i: "phase_of s i = Idle"
  shows "simulates s (set_phase i Acquiring (with_sys (gen_lock i ts keys (sys s)) s))"
proof -
  note D = latch_invD [OF inv]
  let ?ks = "remdups_adj (sort keys)"
  let ?l = "new_latch_lock ts ?ks (map (slot_id (length (slots (sys s)))) ?ks)"
  have g: "gen_lock i ts keys (sys s) = set_lock i ?l (sys s)" by (simp add: gen_lock_def Let_def)
  show ?thesis unfolding g
  proof (rule simulatesI [OF s_begin [of "abs_latch s" i ?l]])
    show "slots_ok (sys (set_phase i Acquiring (with_sys (set_lock i ?l (sys s)) s)))"
      using D(1) by (simp add: slots_ok_set_lock new_latch_lock_def)
    show "waiting_ok (set_phase i Acquiring (with_sys (set_lock i ?l (sys s)) s))"
      by (rule waiting_ok_same [OF D(2)]) (use i in auto)
    show "lock_wf ?l" by (rule gen_lock_wf)
    show "acquired_count ?l = 0" "\<not> stale ?l" by (simp_all add: new_latch_lock_def)
  qed (use i in \<open>auto intro!: abs_eqI\<close>)
qed

lemma sim_phase:
  assumes inv: "latch_inv s" and step: "spec_step (abs_latch s) ((abs_latch s)\<lparr>ph := (phase_of s)(i := p)\<rparr>)"
    and "phase_of s i \<noteq> Blocked" "p \<noteq> Blocked"
  shows "simulates s (set_phase i p s)"
proof (rule simulatesI [OF step])
  show "waiting_ok (set_phase i p s)" by (rule waiting_ok_same [OF latch_invD(2) [OF inv]]) (use assms(3,4) in auto)
qed (use latch_invD(1) [OF inv] in \<open>auto intro!: abs_eqI\<close>)

lemma sim_commit:
  assumes inv: "latch_inv s" and i: "phase_of s i = Held"
  shows "simulates s (with_sys (set_commit_ts i ts (sys s)) s)"
proof (rule simulatesI [OF s_commit [of "abs_latch s" i ts]])
  show "waiting_ok (with_sys (set_commit_ts i ts (sys s)) s)"
    by (rule waiting_ok_same [OF latch_invD(2) [OF inv]]) (use i in \<open>auto simp: set_commit_ts_def\<close>)
  show "slots_ok (sys (with_sys (set_commit_ts i ts (sys s)) s))"
    using latch_invD(1) [OF inv] by (simp add: set_commit_ts_def slots_ok_set_lock required_upd)
qed (use i in \<open>auto intro!: abs_eqI simp: set_commit_ts_def\<close>)

theorem latch_step_simulates:
  assumes "latch_step s s'" "latch_inv s"
  shows "simulates s s'"
  using assms(1)
proof cases
  case (begin_lock i ts keys)
  then show ?thesis using sim_begin [OF assms(2)] by simp
next
  case (finish_acquire i)
  then show ?thesis using sim_phase [OF assms(2), of i Held] s_finish [of "abs_latch s" i] by simp
next
  case (try_slot i r st)
  then show ?thesis using sim_try_slot [OF assms(2)] by simp
next
  case (committed i ts)
  then show ?thesis using sim_commit [OF assms(2)] by simp
next
  case (drop_guard i)
  then show ?thesis using sim_phase [OF assms(2), of i Releasing] s_drop [of "abs_latch s" i] by simp
next
  case (release_one i w st)
  then show ?thesis using sim_release_one [OF assms(2)] by simp
next
  case (release_none i st)
  then show ?thesis using sim_release [OF assms(2)] by simp
next
  case (released i)
  then show ?thesis using sim_phase [OF assms(2), of i Released] s_released [of "abs_latch s" i] by simp
next
  case (recycle_slot j ts)
  then show ?thesis using sim_recycle [OF assms(2)] by simp
qed

lemma next_power_of_two_pos: "0 < p \<Longrightarrow> 0 < next_power_of_two_from p n"
  by (induction p n rule: next_power_of_two_from.induct) (subst next_power_of_two_from.simps, simp)

lemma abs_start: "abs_latch (start_system sz) = spec_start" "slots_ok (new_latches sz)" "waiting_ok (start_system sz)"
proof -
  have n: "slots (new_latches sz) \<noteq> []" using next_power_of_two_pos [of 1] by (simp add: new_latches_def next_power_of_two_def)
  have sl: "s = \<lparr>nodes = [], waiting = []\<rparr>" if "s \<in> set (slots (new_latches sz))" for s
    using that by (simp add: new_latches_def split: if_splits)
  have "node_at (new_latches sz) k = \<lparr>max_commit_ts = 0, owner_lock = None\<rparr>" for k
  proof -
    have "slots (new_latches sz) ! slot_id (length (slots (new_latches sz))) k \<in> set (slots (new_latches sz))"
      using slot_id_less n by (intro nth_mem) simp
    from sl [OF this] show ?thesis by (simp add: node_at_def entry_or_default_def)
  qed
  then show "abs_latch (start_system sz) = spec_start"
    by (intro abs_eqI) (simp_all add: spec_start_def start_system_def, simp add: new_latches_def)
  have "bt_inv (nodes s)" if "s \<in> set (slots (new_latches sz))" for s using sl [OF that] by simp
  moreover have "required_slots (locks (new_latches sz) i) = []" "lock_keys (locks (new_latches sz) i) = []" for i
    by (simp_all add: new_latches_def new_latch_lock_def)
  ultimately show "slots_ok (new_latches sz)" using n unfolding slots_ok_def by simp
  have "waiting (slots (new_latches sz) ! j) = []" if "j < length (slots (new_latches sz))" for j
    using sl [OF nth_mem [OF that]] by simp
  then show "waiting_ok (start_system sz)" by (simp add: waiting_ok_def start_system_def)
qed

lemma latch_reach_refines: "latch_reach sz s \<Longrightarrow> latch_inv s \<and> spec_step\<^sup>*\<^sup>* spec_start (abs_latch s)"
proof (induction rule: latch_reach.induct)
  case reach_start
  show ?case using abs_start [of sz] spec_start_inv by (simp add: latch_inv_def) (simp add: start_system_def)
next
  case (reach_step s s')
  then have "simulates s s'" using latch_step_simulates by blast
  then show ?case using reach_step.IH simulates_inv by (auto simp: simulates_def)
qed

end
