(* ===== verification/Latch_Props.thy ===== *)
theory Latch_Props
  imports Latch_Refine
begin

text \<open>
  What the local latches of \<open>transaction/latch.rs\<close> guarantee, and the calls of \<open>acquire\<close> and \<open>release\<close> as
  sequences of critical sections.
\<close>

subsection \<open>Calls as runs\<close>

definition after_call :: "acquire_result \<Rightarrow> phase" where
  "after_call r = (if r = AcquireLocked then Blocked else Held)"

lemma latch_steps_inv: "latch_step\<^sup>*\<^sup>* s s' \<Longrightarrow> latch_inv s \<Longrightarrow> latch_inv s'"
  by (induction rule: rtranclp_induct) (auto intro: simulates_inv latch_step_simulates)

lemma latch_reach_steps: "latch_step\<^sup>*\<^sup>* s s' \<Longrightarrow> latch_reach sz s \<Longrightarrow> latch_reach sz s'"
  by (induction rule: rtranclp_induct) (auto intro: reach_step)

lemma acquire_loop_run:
  "latch_inv s \<Longrightarrow> phase_of s i = Acquiring \<Longrightarrow> \<not> stale (locks (sys s) i) \<Longrightarrow> acquire_loop i (sys s) = (r, st) \<Longrightarrow>
     latch_step\<^sup>*\<^sup>* s (set_phase i (after_call r) (with_sys st s))"
proof (induction i "sys s" arbitrary: s rule: acquire_loop.induct)
  case (1 i)
  note inv = 1(2) and acq = 1(3) and fresh = 1(4) and res = 1(5) [unfolded acquire_loop.simps [of i "sys s"]]
  have wf: "lock_wf (locks (sys s) i)" using spec_invD(1) [OF latch_invD(3) [OF inv], of i] by simp
  show ?case
  proof (cases "acquired_count (locks (sys s) i) < required_len (locks (sys s) i)")
    case False
    then have "\<not> is_locked (locks (sys s) i)" using wf by (simp add: is_locked_def lock_wf_def)
    moreover have "r = AcquireSuccess" "st = sys s" using res False by simp_all
    ultimately show ?thesis using finish_acquire [OF acq]
      by (auto simp: after_call_def with_sys_def)
  next
    case True
    then have lockd: "is_locked (locks (sys s) i)" using fresh by (simp add: is_locked_def)
    obtain r1 st1 where a: "acquire_slot i (sys s) = (r1, st1)" by fastforce
    let ?s1 = "set_phase i (after_acquire r1) (with_sys st1 s)"
    have step: "latch_step s ?s1" using try_slot [OF acq lockd a] .
    show ?thesis
    proof (cases r1)
      case AcquireSuccess
      have nst: "\<not> stale (locks (sys ?s1) i)"
        using a fresh AcquireSuccess by (auto simp: acquire_slot_def Let_def split: if_splits)
      have eq: "sys ?s1 = st1" "phase_of ?s1 i = Acquiring" using AcquireSuccess by simp_all
      have "latch_step\<^sup>*\<^sup>* ?s1 (set_phase i (after_call r) (with_sys st ?s1))"
      proof (rule 1(1) [OF True _ AcquireSuccess])
        show "(r1, sys ?s1) = acquire_slot i (sys s)" using eq a by simp
        show "latch_inv ?s1" using simulates_inv [OF latch_step_simulates [OF step inv] inv] .
        show "acquire_loop i (sys ?s1) = (r, st)" using res True a AcquireSuccess eq by simp
      qed (use eq nst in simp_all)
      moreover have "set_phase i (after_call r) (with_sys st ?s1) = set_phase i (after_call r) (with_sys st s)"
        by (simp add: set_phase_def with_sys_def)
      ultimately show ?thesis using step by (metis converse_rtranclp_into_rtranclp)
    next
      case AcquireLocked
      then show ?thesis using res True a step by (auto simp: after_call_def)
    next
      case AcquireStale
      then show ?thesis using res True a step by (auto simp: after_call_def)
    qed
  qed
qed

lemma acquire_run:
  assumes "latch_inv s" "phase_of s i = Acquiring" "acquire i (sys s) = (r, st)"
  shows "latch_step\<^sup>*\<^sup>* s (set_phase i (after_call r) (with_sys st s))"
proof (cases "stale (locks (sys s) i)")
  case True
  then have "r = AcquireStale" "st = sys s" using assms(3) by (simp_all add: acquire_def)
  moreover have "with_sys (sys s) s = s" by (simp add: with_sys_def)
  ultimately show ?thesis using finish_acquire [OF assms(2)] True by (auto simp: after_call_def is_locked_def)
next
  case False
  then show ?thesis using acquire_loop_run [OF assms(1,2) False] assms(3) by (simp add: acquire_def)
qed

text \<open>The synchronous part of \<open>LatchesScheduler::lock\<close>.\<close>

lemma lock_latches_run:
  assumes inv: "latch_inv s" and i: "phase_of s i = Idle" and res: "lock_latches i ts keys (sys s) = (b, st)"
  shows "latch_step\<^sup>*\<^sup>* s (set_phase i (if b then Blocked else Held) (with_sys st s))"
proof -
  let ?s1 = "set_phase i Acquiring (with_sys (gen_lock i ts keys (sys s)) s)"
  have step: "latch_step s ?s1" using begin_lock [OF i] .
  obtain r where r: "acquire i (sys ?s1) = (r, st)" "b = (r = AcquireLocked)"
    using res by (cases "acquire i (gen_lock i ts keys (sys s))") (auto simp: lock_latches_def)
  have "latch_step\<^sup>*\<^sup>* ?s1 (set_phase i (after_call r) (with_sys st ?s1))"
    by (rule acquire_run [OF simulates_inv [OF latch_step_simulates [OF step inv] inv] _ r(1)]) simp
  moreover have "set_phase i (after_call r) (with_sys st ?s1) = set_phase i (if b then Blocked else Held) (with_sys st s)"
    by (simp add: set_phase_def with_sys_def after_call_def r(2))
  ultimately show ?thesis using step by (metis converse_rtranclp_into_rtranclp)
qed

text \<open>The loop of \<open>release\<close> ends, and it is a run of the background task.\<close>

lemma release_slot_counts:
  assumes inv: "latch_inv s" and i: "phase_of s i = Releasing" "acquired_count (locks (sys s) i) > 0"
    and res: "release_slot i (sys s) = (nx, st)"
  shows "acquired_count (locks st i) = acquired_count (locks (sys s) i) - 1 \<and> nx \<noteq> Some i"
proof (cases nx)
  case None
  then show ?thesis using res release_core_sel(1) [OF inv, of i]
    unfolding release_slot_core [OF inv i(2)] pop_waiting_def Let_def by (auto split: option.splits if_splits)
next
  case (Some w)
  let ?k = "last_held (locks (sys s) i)"
  let ?j = "slot_id (length (slots (sys s))) ?k"
  have f: "find (\<lambda>w. wakes ?k (locks (release_core i (sys s)) w)) (waiting (slots (release_core i (sys s)) ! ?j)) = Some w"
    using res Some unfolding release_slot_core [OF inv i(2)] pop_waiting_def Let_def by (auto split: option.splits if_splits)
  have "w \<noteq> i" using find_waiting(2) [OF inv i(1) refl refl f] by simp
  then show ?thesis using res Some release_core_sel(1) [OF inv, of i] f
    unfolding release_slot_core [OF inv i(2)] pop_waiting_def Let_def by (auto split: if_splits)
qed

lemma release_loop_run:
  "latch_inv s \<Longrightarrow> phase_of s i = Releasing \<Longrightarrow>
     \<exists>ws' s'. release_loop i ws (sys s) = Some (ws', sys s') \<and> latch_step\<^sup>*\<^sup>* s s'
       \<and> phase_of s' i = Releasing \<and> acquired_count (locks (sys s') i) = 0"
proof (induction "acquired_count (locks (sys s) i)" arbitrary: s ws)
  case 0
  then show ?case by (subst release_loop.simps) auto
next
  case (Suc n)
  obtain nx st where res: "release_slot i (sys s) = (nx, st)" by fastforce
  have pos: "acquired_count (locks (sys s) i) > 0" using Suc(2) by simp
  note cnt = release_slot_counts [OF Suc(3,4) pos res]
  define s1 where "s1 = (case nx of None \<Rightarrow> with_sys st s | Some w \<Rightarrow> set_phase w Acquiring (with_sys st s))"
  have step: "latch_step s s1"
    using release_one [OF Suc(4) pos] release_none [OF Suc(4) pos] res by (cases nx) (simp_all add: s1_def)
  have s1: "sys s1 = st" "phase_of s1 i = Releasing" using Suc(4) cnt by (auto simp: s1_def split: option.splits)
  have inv1: "latch_inv s1" using simulates_inv [OF latch_step_simulates [OF step Suc(3)] Suc(3)] .
  have "n = acquired_count (locks (sys s1) i)" using cnt Suc(2) s1 by simp
  from Suc(1) [OF this inv1 s1(2), of "case nx of None \<Rightarrow> ws | Some w \<Rightarrow> ws @ [w]"]
  obtain ws' s' where r: "release_loop i (case nx of None \<Rightarrow> ws | Some w \<Rightarrow> ws @ [w]) st = Some (ws', sys s')"
    "latch_step\<^sup>*\<^sup>* s1 s'" "phase_of s' i = Releasing" "acquired_count (locks (sys s') i) = 0"
    unfolding s1(1) by blast
  have "release_loop i ws (sys s) = Some (ws', sys s')" using r(1) pos res by (subst release_loop.simps) simp
  then show ?case using r step by (metis converse_rtranclp_into_rtranclp)
qed

lemma blocked_finite:
  assumes "latch_inv s"
  shows "finite {i. phase_of s i = Blocked}"
proof (rule finite_subset)
  show "{i. phase_of s i = Blocked} \<subseteq> (\<Union>j < length (slots (sys s)). set (waiting (slots (sys s) ! j)))"
    using latch_invD(2) [OF assms] slots_okD(4) [OF latch_invD(1) [OF assms]] by (force simp: waiting_ok_def)
qed simp

subsection \<open>Guarantees\<close>

text \<open>C9: the slots, waiting lists and wake-ups of the latches implement one latch per key: every run of
  the source's critical sections is a run of the abstract latches.\<close>

theorem latch_refines_spec:
  assumes "latch_reach sz s"
  shows "spec_step\<^sup>*\<^sup>* spec_start (abs_latch s) \<and> spec_inv (abs_latch s)"
  using latch_reach_refines [OF assms] latch_invD(3) by blast

text \<open>C4: two transactions that both hold a guard that is not stale have no key in common, and no
  commit recorded for a key of such a transaction is newer than its start timestamp.\<close>

theorem latch_mutual_exclusion:
  assumes "latch_reach sz s" "phase_of s i = Held" "\<not> stale (locks (sys s) i)"
    and "phase_of s j = Held" "\<not> stale (locks (sys s) j)" "i \<noteq> j"
  shows "set (lock_keys (locks (sys s) i)) \<inter> set (lock_keys (locks (sys s) j)) = {}
    \<and> {k \<in> set (lock_keys (locks (sys s) i)). max_commit_ts (node_at (sys s) k) > start_ts (locks (sys s) i)} = {}"
proof -
  have inv: "spec_inv (abs_latch s)" using latch_reach_refines [OF assms(1)] latch_invD(3) by blast
  have keys: "held_keys (locks (sys s) x) = set (lock_keys (locks (sys s) x))"
    "k \<in> set (lock_keys (locks (sys s) x)) \<Longrightarrow> max_commit_ts (node_at (sys s) k) \<le> start_ts (locks (sys s) x)"
    if "phase_of s x = Held" "\<not> stale (locks (sys s) x)" for x k
    using spec_held [OF inv, of x] that by auto
  show ?thesis
    using spec_mutual_exclusion [OF inv, of _ i j] keys(1) [OF assms(2,3)] keys(1) [OF assms(4,5)]
      keys(2) [OF assms(2,3)] assms(6) by (auto simp: not_less)
qed

text \<open>C28: the latches never deadlock: while some lock waits, another one is acquiring, holds a guard or
  is being released, so that a step is possible.\<close>

theorem latch_no_deadlock:
  assumes "latch_reach sz s" "phase_of s i = Blocked"
  shows "\<exists>j. phase_of s j \<in> {Acquiring, Held, Releasing}"
  using spec_no_deadlock [of "abs_latch s" i] latch_reach_refines [OF assms(1)] latch_invD(3) blocked_finite assms(2)
  by simp

text \<open>The release loop ends with nothing held, from every reachable state.\<close>

theorem latch_release_terminates:
  assumes "latch_reach sz s" "phase_of s i = Releasing"
  shows "\<exists>wakeups st. release i (sys s) = Some (wakeups, st) \<and> acquired_count (locks st i) = 0"
proof -
  have "latch_inv s" using latch_reach_refines [OF assms(1)] by blast
  from release_loop_run [OF this assms(2), of "[]"] show ?thesis by (auto simp: release_def)
qed

subsection \<open>Concrete runs\<close>

text \<open>Lock 0 takes the key 2, lock 1 takes the key 1 and blocks on 2, lock 2 blocks on 1, and lock 3
  takes the key 3; there is one slot.\<close>

definition demo_lock :: "bytes list \<Rightarrow> nat \<Rightarrow> latch_lock" where
  "demo_lock ks n = \<lparr>start_ts = 5, lock_keys = ks, required_slots = map (\<lambda>_. 0) ks, acquired_count = n,
     lock_commit_ts = 0, stale = False\<rparr>"

definition demo_slot :: "(byte \<times> nat) list \<Rightarrow> nat list \<Rightarrow> slot_inner list" where
  "demo_slot owned ws = [\<lparr>nodes = map (\<lambda>(k, i). ([k], \<lparr>max_commit_ts = 0, owner_lock = Some i\<rparr>)) owned, waiting = ws\<rparr>]"

definition demo0 :: latches where
  "demo0 = \<lparr>slots = demo_slot [(2, 0)] [], locks = (\<lambda>_. new_latch_lock 0 [] [])(0 := demo_lock [[2]] 1)\<rparr>"

definition demo1 :: latches where
  "demo1 = \<lparr>slots = demo_slot [(1, 1), (2, 0)] [1], locks = (locks demo0)(1 := demo_lock [[1], [2]] 1)\<rparr>"

definition demo2 :: latches where
  "demo2 = \<lparr>slots = demo_slot [(1, 1), (2, 0)] [1, 2], locks = (locks demo1)(2 := demo_lock [[1]] 0)\<rparr>"

definition demo3 :: latches where
  "demo3 = \<lparr>slots = demo_slot [(1, 1), (2, 0), (3, 3)] [1, 2], locks = (locks demo2)(3 := demo_lock [[3]] 1)\<rparr>"

definition demo_system :: latch_system where
  "demo_system = set_phase 3 Held (with_sys demo3 (set_phase 2 Blocked (with_sys demo2
     (set_phase 1 Blocked (with_sys demo1 (set_phase 0 Held (with_sys demo0 (start_system 1))))))))"

lemma slot_id_1 [simp]: "slot_id (Suc 0) k = 0" by (simp add: slot_id_def)

lemmas demo_eval = lock_latches_def gen_lock_def acquire_def acquire_loop.simps acquire_slot_def Let_def set_lock_def
  set_slot_def entry_or_default_def put_node_def new_latch_lock_def required_len_def LATCH_LIST_COUNT_def bt_get_def
  demo_lock_def demo_slot_def

lemma demo_results:
  "lock_latches 0 5 [[2]] (new_latches 1) = (False, demo0)"
  "lock_latches 1 5 [[2], [1]] demo0 = (True, demo1)"
  "lock_latches 2 5 [[1]] demo1 = (True, demo2)"
  "lock_latches 3 5 [[3]] demo2 = (False, demo3)"
  by (simp_all add: demo_eval new_latches_def next_power_of_two_def demo0_def demo1_def demo2_def demo3_def)

lemma demo_locks:
  "\<not> stale (locks demo3 0)" "\<not> stale (locks demo3 3)" "lock_keys (locks demo3 0) = [[2]]" "lock_keys (locks demo3 3) = [[3]]"
  "held_keys (locks demo3 1) = {[1]}" "next_lock_key (locks demo3 2) = [1]"
  by (simp_all add: demo_lock_def held_keys_def next_lock_key_def demo0_def demo1_def demo2_def demo3_def)

lemma demo_reached: "latch_reach 1 demo_system"
proof -
  let ?s0 = "start_system 1"
  let ?s1 = "set_phase 0 Held (with_sys demo0 ?s0)"
  let ?s2 = "set_phase 1 Blocked (with_sys demo1 ?s1)"
  let ?s3 = "set_phase 2 Blocked (with_sys demo2 ?s2)"
  have run: "latch_reach 1 (set_phase i (if b then Blocked else Held) (with_sys st s))"
    if "latch_reach 1 s" "phase_of s i = Idle" "lock_latches i ts keys (sys s) = (b, st)" for s i ts keys b st
    using latch_reach_steps [OF lock_latches_run [OF _ that(2,3)] that(1)] latch_reach_refines [OF that(1)] by simp
  have p0: "phase_of (start_system z) i = Idle" "sys (start_system z) = new_latches z" for i z
    by (simp_all add: start_system_def)
  have "latch_reach 1 ?s1" using run [OF reach_start p0(1), of 0 5 "[[2]]" False demo0] demo_results(1) by (simp only: p0) simp
  then have "latch_reach 1 ?s2" using run [of ?s1 1 5 "[[2], [1]]" True demo1] demo_results(2) by (simp add: p0)
  then have "latch_reach 1 ?s3" using run [of ?s2 2 5 "[[1]]" True demo2] demo_results(3) by (simp add: p0)
  then show ?thesis using run [of ?s3 3 5 "[[3]]" False demo3] demo_results(4) by (simp add: p0 demo_system_def)
qed

lemma demo_phases:
  "sys demo_system = demo3" "phase_of demo_system 0 = Held" "phase_of demo_system 1 = Blocked"
  "phase_of demo_system 2 = Blocked" "phase_of demo_system 3 = Held"
  by (simp_all add: demo_system_def)

theorem latch_refines_spec_witness: "spec_step\<^sup>*\<^sup>* spec_start (abs_latch demo_system)"
  using latch_refines_spec [OF demo_reached] by simp

theorem latch_mutual_exclusion_witness:
  "phase_of demo_system 0 = Held \<and> phase_of demo_system 3 = Held
   \<and> set (lock_keys (locks demo3 0)) \<inter> set (lock_keys (locks demo3 3)) = {}"
  using latch_mutual_exclusion [OF demo_reached, of 0 3] demo_phases demo_locks by simp

theorem latch_no_deadlock_witness:
  "phase_of demo_system 1 = Blocked \<and> (\<exists>j. phase_of demo_system j \<in> {Acquiring, Held, Releasing})"
  using latch_no_deadlock [OF demo_reached, of 1] demo_phases by simp

theorem latch_release_terminates_witness:
  "\<exists>wakeups st. release 0 demo3 = Some (wakeups, st) \<and> acquired_count (locks st 0) = 0"
proof -
  have "\<not> cancelled demo_system 0"
    by (simp add: demo_system_def set_phase_def with_sys_def start_system_def)
  then have "latch_reach 1 (set_phase 0 Releasing demo_system)"
    using reach_step [OF demo_reached drop_guard] demo_phases by simp
  from latch_release_terminates [OF this, of 0] show ?thesis by (simp add: demo_phases)
qed

subsection \<open>A waiting call that is dropped\<close>

text \<open>Lock \<open>c\<close> was cancelled while it held \<open>k\<close>, and lock \<open>w\<close> waits for \<open>k\<close>.\<close>

definition leaked :: "nat \<Rightarrow> bytes \<Rightarrow> nat \<Rightarrow> latch_system \<Rightarrow> bool" where
  "leaked c k w s \<longleftrightarrow> latch_inv s \<and> cancelled s c \<and> phase_of s c \<in> {Acquiring, Blocked, Held}
     \<and> k \<in> held_keys (locks (sys s) c) \<and> phase_of s w = Blocked \<and> next_lock_key (locks (sys s) w) = k"

lemma acquire_slot_locks:
  assumes "acquire_slot i st = (r, st')"
  shows "j \<noteq> i \<Longrightarrow> locks st' j = locks st j"
    and "lock_keys (locks st' i) = lock_keys (locks st i)" "acquired_count (locks st i) \<le> acquired_count (locks st' i)"
  using assms by (auto simp: acquire_slot_def Let_def split: if_splits)

lemma held_keys_mono:
  "lock_keys l' = lock_keys l \<Longrightarrow> acquired_count l \<le> acquired_count l' \<Longrightarrow> held_keys l \<subseteq> held_keys l'"
  by (simp add: held_keys_def set_take_subset_set_take)

lemma release_slot_locks:
  assumes inv: "latch_inv s" and i: "phase_of s i = Releasing" "acquired_count (locks (sys s) i) > 0"
    and res: "release_slot i (sys s) = (nx, st)"
  shows "j \<noteq> i \<Longrightarrow> lock_keys (locks st j) = lock_keys (locks (sys s) j)
      \<and> acquired_count (locks (sys s) j) \<le> acquired_count (locks st j)"
    and "j \<noteq> i \<Longrightarrow> nx \<noteq> Some j \<Longrightarrow> locks st j = locks (sys s) j"
    and "nx = Some v \<Longrightarrow> blocked_on (abs_latch s) v (last_held (locks (sys s) i))"
proof -
  let ?k = "last_held (locks (sys s) i)"
  let ?j = "slot_id (length (slots (sys s))) ?k" and ?c = "release_core i (sys s)"
  note R = release_core_sel(1) [OF inv, of i]
  have core: "pop_waiting ?j ?k (released_max i (sys s)) ?c = (nx, st)" using res release_slot_core [OF inv i(2)] by simp
  show "j \<noteq> i \<Longrightarrow> lock_keys (locks st j) = lock_keys (locks (sys s) j)
      \<and> acquired_count (locks (sys s) j) \<le> acquired_count (locks st j)"
    "j \<noteq> i \<Longrightarrow> nx \<noteq> Some j \<Longrightarrow> locks st j = locks (sys s) j"
    using core R by (auto simp: pop_waiting_def Let_def split: option.splits if_splits)
  assume "nx = Some v"
  then have "find (\<lambda>w. wakes ?k (locks ?c w)) (waiting (slots ?c ! ?j)) = Some v"
    using core by (auto simp: pop_waiting_def Let_def split: option.splits if_splits)
  then show "blocked_on (abs_latch s) v ?k" using find_waiting(2) [OF inv i(1) refl refl] by blast
qed

lemma leaked_step:
  assumes "latch_step s s'" and leak: "leaked c k w s"
  shows "leaked c k w s'"
proof -
  have L: "latch_inv s" "cancelled s c" "phase_of s c \<in> {Acquiring, Blocked, Held}" "k \<in> held_keys (locks (sys s) c)"
    "phase_of s w = Blocked" "next_lock_key (locks (sys s) w) = k" using leak by (simp_all add: leaked_def)
  have inv': "latch_inv s'" using simulates_inv [OF latch_step_simulates [OF assms(1) L(1)] L(1)] .
  have own: "own (abs_latch s) k = Some c" using spec_invD(2) [OF latch_invD(3) [OF L(1)], of k c] L(4) by simp
  have "cancelled s' c \<and> phase_of s' c \<in> {Acquiring, Blocked, Held} \<and> held_keys (locks (sys s) c) \<subseteq> held_keys (locks (sys s') c)
      \<and> phase_of s' w = Blocked \<and> next_lock_key (locks (sys s') w) = k"
    using assms(1)
  proof cases
    case (try_slot i r st)
    have "w \<noteq> i" using try_slot L(5) by auto
    moreover have "held_keys (locks (sys s) c) \<subseteq> held_keys (locks st c)"
      using acquire_slot_locks [OF try_slot(4)] held_keys_mono by (cases "c = i") auto
    ultimately show ?thesis using try_slot L acquire_slot_locks(1) [OF try_slot(4), of w]
      by (cases r) (auto simp: set_phase_def with_sys_def)
  next
    case (release_one i v st)
    have ci: "c \<noteq> i" "w \<noteq> i" using release_one L(3,5) by auto
    have v: "blocked_on (abs_latch s) v (last_held (locks (sys s) i))"
      using release_slot_locks(3) [OF L(1) release_one(2-4)] by simp
    have "v \<noteq> w"
    proof
      assume "v = w"
      then have "last_held (locks (sys s) i) = k" using v L(6) by (simp add: blocked_on_def)
      then show False using releasing_owner [OF latch_invD(3) [OF L(1)], of i] release_one(3) own ci by simp
    qed
    then show ?thesis using release_one(1) L ci release_slot_locks(1,2) [OF L(1) release_one(2-4)] held_keys_mono
      by (auto simp: set_phase_def with_sys_def)
  next
    case (release_none i st)
    have "c \<noteq> i" "w \<noteq> i" using release_none L(3,5) by auto
    then show ?thesis using release_none(1) L release_slot_locks(2) [OF L(1) release_none(2-4)]
      by (auto simp: with_sys_def)
  next
    case (begin_lock i ts keys)
    then have "c \<noteq> i" "w \<noteq> i" using L(3,5) by auto
    then show ?thesis using begin_lock L by (simp add: set_phase_def with_sys_def gen_lock_def Let_def)
  next
    case (drop_guard i)
    then have "c \<noteq> i" "w \<noteq> i" using L(2,5) by auto
    then show ?thesis using drop_guard L by (simp add: set_phase_def)
  next
    case (committed i ts)
    then have "w \<noteq> i" using L(5) by auto
    then show ?thesis using committed L by (cases "c = i") (simp_all add: with_sys_def set_commit_ts_def)
  next
    case (finish_acquire i)
    then have "w \<noteq> i" using L(5) by auto
    then show ?thesis using finish_acquire L by (simp add: set_phase_def)
  next
    case (released i)
    then have "c \<noteq> i" "w \<noteq> i" using L(3,5) by auto
    then show ?thesis using released L by (simp add: set_phase_def)
  next
    case (recycle_slot j ts)
    then show ?thesis using L by (simp add: with_sys_def)
  qed
  then show ?thesis using inv' L(4) unfolding leaked_def by blast
qed

lemma leaked_run: "cancel_step\<^sup>*\<^sup>* s s' \<Longrightarrow> leaked c k w s \<Longrightarrow> leaked c k w s'"
proof (induction rule: rtranclp_induct)
  case (step y z)
  from step.hyps(2) show ?case
  proof cases
    case normal
    then show ?thesis using leaked_step step by blast
  next
    case (cancel i)
    have "leaked c k w y" using step by blast
    then show ?thesis using cancel by (auto simp: leaked_def latch_inv_def waiting_ok_def abs_latch_def)
  qed
qed simp

lemma latch_reach_cancel: "latch_reach sz s \<Longrightarrow> cancel_step\<^sup>*\<^sup>* (start_system sz) s"
  by (induction rule: latch_reach.induct) (auto intro: normal rtranclp.rtrancl_into_rtrancl)

text \<open>C40: dropping the future of \<open>LatchesScheduler::lock\<close> while it waits leaks the latches it already
  holds, since the guard that would release them does not exist yet: there is a reachable state in
  which a live transaction is blocked behind the dropped one, and it stays blocked for ever.\<close>

theorem latch_cancelled_wait_leaks:
  "\<exists>s. cancel_step\<^sup>*\<^sup>* (start_system 1) s \<and> phase_of s 2 = Blocked \<and> \<not> cancelled s 2
     \<and> {s'. cancel_step\<^sup>*\<^sup>* s s' \<and> phase_of s' 2 \<noteq> Blocked} = {}"
proof -
  let ?s = "demo_system\<lparr>cancelled := (cancelled demo_system)(1 := True)\<rparr>"
  have run: "cancel_step\<^sup>*\<^sup>* (start_system 1) ?s"
    using latch_reach_cancel [OF demo_reached] cancel [OF demo_phases(3)] by (rule rtranclp.rtrancl_into_rtrancl)
  have inv: "latch_inv ?s"
    using latch_reach_refines [OF demo_reached] by (simp add: latch_inv_def waiting_ok_def abs_latch_def)
  have leak: "leaked 1 [1] 2 ?s" using inv demo_phases demo_locks by (simp add: leaked_def)
  have "phase_of s' 2 = Blocked" if "cancel_step\<^sup>*\<^sup>* ?s s'" for s'
    using leaked_run [OF that leak] unfolding leaked_def by blast
  then have "{s'. cancel_step\<^sup>*\<^sup>* ?s s' \<and> phase_of s' 2 \<noteq> Blocked} = {}" by blast
  moreover have "phase_of ?s 2 = Blocked" "\<not> cancelled ?s 2"
    using demo_phases by (simp_all, simp add: demo_system_def set_phase_def with_sys_def start_system_def)
  ultimately show ?thesis using run by blast
qed

end
