(* ===== verification/Pd_Client.thy ===== *)
theory Pd_Client
  imports Region_Inflight
begin

text \<open>
  The region lookups of \<open>pd/client.rs\<close>: keys are encoded before the cache is asked and the bounds of the
  region are decoded after; keys and ranges are grouped by region. A stream is the list of the items
  that it yields; \<open>stream_fn\<close> yields an error once and then ends. The lookup is an argument of the
  grouping functions, so that their properties hold for every source of regions with the laws of
  the locale \<open>region_source\<close>; the last part instantiates them with the cached and decoded lookup.
\<close>

subsection \<open>Decoded lookups\<close>

definition decode_region :: "region_with_leader \<Rightarrow> bool \<Rightarrow> region_with_leader res" where
  "decode_region r enable_codec =
    (if enable_codec
     then (case decode_bytes_in_place (mr_start_key (rl_region r)) False of
        (_, Inl e) \<Rightarrow> Inl e
      | (s, Inr _) \<Rightarrow>
         (case decode_bytes_in_place (mr_end_key (rl_region r)) False of
            (_, Inl e) \<Rightarrow> Inl e
          | (e, Inr _) \<Rightarrow> Inr (r\<lparr>rl_region := (rl_region r)\<lparr>mr_start_key := s, mr_end_key := e\<rparr>\<rparr>)))
     else Inr r)"

definition region_for_key :: "bool \<Rightarrow> region_source_state \<Rightarrow> key \<Rightarrow> region_source_state \<times> region_with_leader res" where
  "region_for_key enable_codec s k =
    (case cached_lookup s (if enable_codec then to_encoded k else k) of
       (s', Inl e) \<Rightarrow> (s', Inl e)
     | (s', Inr r) \<Rightarrow> (s', decode_region r enable_codec))"

definition region_for_id :: "bool \<Rightarrow> region_source_state \<Rightarrow> u64 \<Rightarrow> region_source_state \<times> region_with_leader res" where
  "region_for_id enable_codec s i =
    (case get_region_by_id (rs_env s) i (rs_cache s) of
       (c, Inl e) \<Rightarrow> (s\<lparr>rs_cache := c\<rparr>, Inl e)
     | (c, Inr r) \<Rightarrow> (s\<lparr>rs_cache := c\<rparr>, decode_region r enable_codec))"

text \<open>The store that serves a region; connecting to its address is an argument.\<close>

definition map_region_to_store ::
  "(u64 \<Rightarrow> store_meta res) \<Rightarrow> (string \<Rightarrow> 'c res) \<Rightarrow> region_with_leader \<Rightarrow> store_cache
     \<Rightarrow> store_cache \<times> (region_with_leader \<times> 'c) res" where
  "map_region_to_store pd connect r c =
    (case get_store_id r of Inl e \<Rightarrow> (c, Inl e)
     | Inr i \<Rightarrow>
       (case get_store_by_id pd i c of
          (c', Inl e) \<Rightarrow> (c', Inl e)
        | (c', Inr store) \<Rightarrow> (c', ok_bind (connect (sm_address store)) (\<lambda>client. Inr (r, client)))))"

subsection \<open>Grouping\<close>

text \<open>\<open>group_keys_by_region\<close>: \<open>key_of\<close> is \<open>AsRef<Key>\<close> of the items.\<close>

function group_keys_by_region ::
  "('s \<Rightarrow> key \<Rightarrow> 's \<times> region_with_leader res) \<Rightarrow> ('k \<Rightarrow> key) \<Rightarrow> 's \<Rightarrow> 'k list
     \<Rightarrow> 's \<times> ('k list \<times> region_with_leader) res list" where
  "group_keys_by_region lookup key_of s [] = (s, [])"
| "group_keys_by_region lookup key_of s (k # ks) =
    (case lookup s (key_of k) of
       (s', Inl e) \<Rightarrow> (s', [Inl e])
     | (s', Inr r) \<Rightarrow>
        (case group_keys_by_region lookup key_of s' (dropWhile (\<lambda>x. contains r (key_of x)) ks) of
           (s'', gs) \<Rightarrow> (s'', Inr (k # takeWhile (\<lambda>x. contains r (key_of x)) ks, r) # gs)))"
  by pat_completeness auto
termination
  by (relation "measure (\<lambda>(_, _, _, ks). length ks)") (auto simp: le_imp_less_Suc length_dropWhile_le)

text \<open>\<open>regions_for_range\<close>; the search may go on for as long as PD returns new bounds.\<close>

partial_function (option) regions_for_range_from ::
  "('s \<Rightarrow> key \<Rightarrow> 's \<times> region_with_leader res) \<Rightarrow> key option \<Rightarrow> 's \<Rightarrow> key
     \<Rightarrow> ('s \<times> region_with_leader res list) option" where
  "regions_for_range_from lookup end_opt s start =
    (case lookup s start of
       (s', Inl e) \<Rightarrow> Some (s', [Inl e])
     | (s', Inr r) \<Rightarrow>
        (if (case end_opt of None \<Rightarrow> False | Some x \<Rightarrow> x \<le> end_key r \<and> x \<noteq> []) \<or> end_key r = []
         then Some (s', [Inr r])
         else Option.bind (regions_for_range_from lookup end_opt s' (end_key r)) (\<lambda>(s'', rs). Some (s'', Inr r # rs))))"

definition regions_for_range ::
  "('s \<Rightarrow> key \<Rightarrow> 's \<times> region_with_leader res) \<Rightarrow> bound_range \<Rightarrow> 's \<Rightarrow> ('s \<times> region_with_leader res list) option" where
  "regions_for_range lookup rg s =
    (case into_keys rg of (start, end_opt) \<Rightarrow> regions_for_range_from lookup end_opt s start)"

definition make_key_range :: "bytes \<Rightarrow> bytes \<Rightarrow> key_range" where
  "make_key_range s e = \<lparr>kr_start_key = s, kr_end_key = e\<rparr>"

definition needs_split :: "region_with_leader \<Rightarrow> key_range \<Rightarrow> bool" where
  "needs_split r rg \<longleftrightarrow> end_key r \<noteq> [] \<and> (kr_end_key rg > end_key r \<or> kr_end_key rg = [])"

text \<open>The inner loop of \<open>group_ranges_by_region\<close>: the ranges that go to the region, and the rest.\<close>

fun group_ranges_in :: "region_with_leader \<Rightarrow> key_range list \<Rightarrow> key_range list \<times> key_range list" where
  "group_ranges_in r [] = ([], [])"
| "group_ranges_in r (rg # rest) =
    (if kr_start_key rg < start_key r \<or> kr_start_key rg > end_key r then ([], rg # rest)
     else if needs_split r rg
     then ([make_key_range (kr_start_key rg) (end_key r)], make_key_range (end_key r) (kr_end_key rg) # rest)
     else (case group_ranges_in r rest of (g, left) \<Rightarrow> (rg # g, left)))"

partial_function (option) group_ranges_by_region ::
  "('s \<Rightarrow> key \<Rightarrow> 's \<times> region_with_leader res) \<Rightarrow> 's \<Rightarrow> key_range list
     \<Rightarrow> ('s \<times> (key_range list \<times> region_with_leader) res list) option" where
  "group_ranges_by_region lookup s ranges =
    (case ranges of [] \<Rightarrow> Some (s, [])
     | rg # rest \<Rightarrow>
       (case lookup s (kr_start_key rg) of
          (s', Inl e) \<Rightarrow> Some (s', [Inl e])
        | (s', Inr r) \<Rightarrow>
           (case (if needs_split r rg
                  then ([make_key_range (kr_start_key rg) (end_key r)], make_key_range (end_key r) (kr_end_key rg) # rest)
                  else (case group_ranges_in r rest of (g, left) \<Rightarrow> (rg # g, left))) of
              (grouped, left) \<Rightarrow>
                Option.bind (group_ranges_by_region lookup s' left) (\<lambda>(s'', gs). Some (s'', Inr (grouped, r) # gs)))))"

subsection \<open>Ranges and regions\<close>

text \<open>\<open>store/mod.rs\<close>.\<close>

definition range_intersection :: "key \<times> key \<Rightarrow> key \<times> key \<Rightarrow> key \<times> key" where
  "range_intersection region_range rg =
    (case region_range of (lower, upper) \<Rightarrow>
       (max lower (fst rg), if upper = [] then snd rg else if snd rg = [] then upper else min upper (snd rg)))"

definition region_stream_for_range ::
  "('s \<Rightarrow> key \<Rightarrow> 's \<times> region_with_leader res) \<Rightarrow> key \<times> key \<Rightarrow> 's
     \<Rightarrow> ('s \<times> ((key \<times> key) \<times> region_with_leader) res list) option" where
  "region_stream_for_range lookup rg s =
    (case regions_for_range lookup (if snd rg = [] then range_from (fst rg) else from_pair (fst rg) (snd rg)) s of
       None \<Rightarrow> None
     | Some (s', rs) \<Rightarrow> Some (s', map (map_sum id (\<lambda>r. (range_intersection (range_of r) rg, r))) rs))"

subsection \<open>What grouping guarantees\<close>

definition in_ranges :: "key_range list \<Rightarrow> key \<Rightarrow> bool" where
  "in_ranges rs k \<longleftrightarrow> (\<exists>r \<in> set rs. in_key_range r k)"

lemma in_ranges_simps [simp]:
  "\<not> in_ranges [] k" "in_ranges (r # rs) k \<longleftrightarrow> in_key_range r k \<or> in_ranges rs k"
  "in_ranges (rs @ rs') k \<longleftrightarrow> in_ranges rs k \<or> in_ranges rs' k"
  by (auto simp: in_ranges_def)

lemma in_ranges_concat: "in_ranges (concat rss) k \<longleftrightarrow> (\<exists>rs \<in> set rss. in_ranges rs k)"
  by (auto simp: in_ranges_def)

text \<open>Splitting a range at the end of a region loses and adds no key.\<close>

lemma split_range:
  assumes "kr_start_key rg \<le> end_key r" "needs_split r rg"
  shows "in_key_range rg k \<longleftrightarrow> in_key_range (make_key_range (kr_start_key rg) (end_key r)) k
    \<or> in_key_range (make_key_range (end_key r) (kr_end_key rg)) k"
  using assms by (auto simp: in_key_range_def in_half_open_def make_key_range_def needs_split_def)

lemma group_ranges_in_keys:
  "group_ranges_in r rs = (g, left) \<Longrightarrow> in_ranges rs k \<longleftrightarrow> in_ranges g k \<or> in_ranges left k"
proof (induction r rs arbitrary: g left rule: group_ranges_in.induct)
  case (2 r rg rest)
  show ?case
  proof (cases "kr_start_key rg < start_key r \<or> kr_start_key rg > end_key r")
    case True
    then show ?thesis using 2(2) by auto
  next
    case False
    show ?thesis
    proof (cases "needs_split r rg")
      case True
      then show ?thesis using 2(2) False split_range [of rg r k] by auto
    next
      case nosplit: False
      obtain g' where "group_ranges_in r rest = (g', left)" "g = rg # g'"
        using 2(2) False nosplit by (auto split: prod.splits)
      then show ?thesis using 2(1) [OF False nosplit] by simp
    qed
  qed
qed auto

lemma piece_in_region:
  assumes "start_key r \<le> kr_start_key rg" "\<not> needs_split r rg" "in_key_range rg k"
  shows "contains r k"
  using assms by (auto simp: contains_half_open in_half_open_def in_key_range_def needs_split_def not_less)

lemma split_in_region:
  assumes "start_key r \<le> kr_start_key rg" "in_key_range (make_key_range (kr_start_key rg) (end_key r)) k"
  shows "contains r k"
  using assms by (auto simp: contains_half_open in_half_open_def in_key_range_def make_key_range_def)

lemma group_ranges_in_region:
  "group_ranges_in r rs = (g, left) \<Longrightarrow> in_ranges g k \<Longrightarrow> contains r k"
proof (induction r rs arbitrary: g left rule: group_ranges_in.induct)
  case (2 r rg rest)
  show ?case
  proof (cases "kr_start_key rg < start_key r \<or> kr_start_key rg > end_key r")
    case True
    then show ?thesis using 2(2,3) by auto
  next
    case False
    then have le: "start_key r \<le> kr_start_key rg" by auto
    show ?thesis
    proof (cases "needs_split r rg")
      case True
      then show ?thesis using 2(2,3) False split_in_region [OF le] by auto
    next
      case nosplit: False
      obtain g' where g: "group_ranges_in r rest = (g', left)" "g = rg # g'"
        using 2(2) False nosplit by (auto split: prod.splits)
      then show ?thesis using 2(1) [OF False nosplit g(1)] 2(3) piece_in_region [OF le nosplit] by auto
    qed
  qed
qed auto

text \<open>A source of regions with finitely many bounds.\<close>

context region_source
begin

lemma group_keys_correct:
  "inv s \<Longrightarrow> group_keys_by_region lookup key_of s ks = (s', gs) \<Longrightarrow>
     inv s' \<and> (\<forall>(g, r) \<in> set (oks gs). g \<noteq> [] \<and> (\<forall>k \<in> set g. contains r (key_of k)))
     \<and> (\<exists>rest. ks = concat (map fst (oks gs)) @ rest \<and> (rest = [] \<longleftrightarrow> \<not> failed gs))"
proof (induction ks arbitrary: s s' gs rule: length_induct)
  case (1 ks)
  note IH0 = 1(1) and inv = 1(2) and eq = 1(3)
  show ?case
  proof (cases ks)
    case Nil
    then show ?thesis using inv eq by auto
  next
    case (Cons k ks1)
    obtain s1 res where l: "lookup s (key_of k) = (s1, res)" by fastforce
  show ?thesis
  proof (cases res)
    case (Inl e)
    then show ?thesis using eq Cons l lookup_error [OF inv, of "key_of k" s1 e] by auto
  next
    case (Inr r)
    let ?P = "\<lambda>x. contains r (key_of x)"
    obtain s2 gs2 where r: "group_keys_by_region lookup key_of s1 (dropWhile ?P ks1) = (s2, gs2)" by fastforce
    have c: "inv s1" "?P k" using lookup_pair [OF inv] l Inr by auto
    have len: "length (dropWhile ?P ks1) < length ks" using Cons by (simp add: le_imp_less_Suc length_dropWhile_le)
    from IH0 [rule_format, OF len c(1) r] obtain rest where
      IH: "inv s2" "\<forall>(g, r) \<in> set (oks gs2). g \<noteq> [] \<and> (\<forall>k \<in> set g. contains r (key_of k))"
        "dropWhile ?P ks1 = concat (map fst (oks gs2)) @ rest" "rest = [] \<longleftrightarrow> \<not> failed gs2"
      by blast
    have "ks1 = takeWhile ?P ks1 @ concat (map fst (oks gs2)) @ rest"
      using takeWhile_dropWhile_id [of ?P ks1] IH(3) by simp
    moreover have e: "s' = s2" "gs = Inr (k # takeWhile ?P ks1, r) # gs2" using eq Cons l Inr r by simp_all
    ultimately have "\<exists>rest. ks = concat (map fst (oks gs)) @ rest \<and> (rest = [] \<longleftrightarrow> \<not> failed gs)"
      using IH(4) Cons by (intro exI [of _ rest]) simp
    then show ?thesis using IH(1,2) c(2) e by (auto dest: set_takeWhileD)
  qed
  qed
qed

end

locale bounded_region_source = region_source +
  fixes bounds :: "'a \<Rightarrow> key set"
  assumes bounds_finite: "inv s \<Longrightarrow> finite (bounds s)"
    and bounds_lookup: "inv s \<Longrightarrow> snd (lookup s k) = Inr r \<Longrightarrow> end_key r \<in> bounds s"
    and bounds_keep: "inv s \<Longrightarrow> bounds (fst (lookup s k)) = bounds s"
begin

lemma bounds_decrease:
  assumes "inv s" "lookup s k = (s', Inr r)" "end_key r \<noteq> []"
  shows "card {b \<in> bounds s'. end_key r < b} < card {b \<in> bounds s. k < b}"
proof (rule psubset_card_mono)
  have c: "contains r k" and b: "end_key r \<in> bounds s" "bounds s' = bounds s"
    using assms(2) lookup_contains [OF assms(1), of k r] bounds_lookup [OF assms(1), of k r] bounds_keep [OF assms(1), of k] by auto
  have less: "k < end_key r" using c assms(3) by (auto simp: contains_half_open in_half_open_def)
  show "finite {b \<in> bounds s. k < b}" using bounds_finite [OF assms(1)] by simp
  show "{b \<in> bounds s'. end_key r < b} \<subset> {b \<in> bounds s. k < b}" using b less by (auto intro: less_trans)
qed

lemma regions_for_range_correct:
  "inv s \<Longrightarrow> \<exists>s' rs. regions_for_range_from lookup end_opt s start = Some (s', rs) \<and> inv s' \<and> rs \<noteq> []
     \<and> (\<not> failed rs \<longrightarrow> (\<forall>k. in_half_open start (case end_opt of None \<Rightarrow> [] | Some e \<Rightarrow> e) k \<longrightarrow> (\<exists>r \<in> set (oks rs). contains r k)))"
proof (induction "card {b \<in> bounds s. start < b}" arbitrary: s start rule: less_induct)
  case less
  let ?e = "case end_opt of None \<Rightarrow> [] | Some e \<Rightarrow> e"
  let ?stop = "\<lambda>r. (case end_opt of None \<Rightarrow> False | Some x \<Rightarrow> x \<le> end_key r \<and> x \<noteq> []) \<or> end_key r = []"
  obtain s1 res where l: "lookup s start = (s1, res)" by fastforce
  show ?case
  proof (cases res)
    case (Inl e)
    then show ?thesis using l lookup_error [OF less(2), of start s1 e] by (subst regions_for_range_from.simps) simp
  next
    case (Inr r)
    then have c: "inv s1" "contains r start" using lookup_pair [OF less(2), of start s1 r] l by auto
    then have le: "start_key r \<le> start" by (simp add: contains_half_open in_half_open_def)
    show ?thesis
    proof (cases "?stop r")
      case True
      then have "contains r k" if "in_half_open start ?e k" for k
      proof -
        have "start_key r \<le> k" using le that by (auto simp: in_half_open_def)
        moreover have "end_key r = [] \<or> k < end_key r"
          using True that by (cases end_opt) (auto simp: in_half_open_def)
        ultimately show ?thesis by (simp add: contains_half_open in_half_open_def)
      qed
      then show ?thesis using l Inr True c(1) by (subst regions_for_range_from.simps) simp
    next
      case False
      then have ne: "end_key r \<noteq> []" by simp
      have "card {b \<in> bounds s1. end_key r < b} < card {b \<in> bounds s. start < b}"
        using bounds_decrease [OF less(2) _ ne] l Inr by simp
      from less(1) [OF this c(1)] obtain s' rs where
        IH: "regions_for_range_from lookup end_opt s1 (end_key r) = Some (s', rs)" "inv s'" "rs \<noteq> []"
          "\<not> failed rs \<longrightarrow> (\<forall>k. in_half_open (end_key r) ?e k \<longrightarrow> (\<exists>r \<in> set (oks rs). contains r k))" by blast
      have "regions_for_range_from lookup end_opt s start = Some (s', Inr r # rs)"
        using l Inr False IH(1) by (subst regions_for_range_from.simps) simp
      moreover have "\<exists>r' \<in> set (oks (Inr r # rs)). contains r' k" if "\<not> failed rs" "in_half_open start ?e k" for k
      proof (cases "k < end_key r")
        case True
        moreover have "start_key r \<le> k" using le that(2) by (auto simp: in_half_open_def)
        ultimately have "contains r k" by (simp add: contains_half_open in_half_open_def)
        then show ?thesis by simp
      next
        case False
        then have "in_half_open (end_key r) ?e k" using that(2) by (simp add: in_half_open_def)
        then show ?thesis using IH(4) that(1) by auto
      qed
      ultimately show ?thesis using IH(2) by auto
    qed
  qed
qed

definition pending :: "'a \<Rightarrow> key_range list \<Rightarrow> nat" where
  "pending s ranges = (\<Sum>rg \<leftarrow> ranges. Suc (card {b \<in> bounds s. kr_start_key rg < b}))"

lemma group_ranges_in_pending:
  "group_ranges_in r rs = (g, left) \<Longrightarrow> inv s \<Longrightarrow> end_key r \<in> bounds s \<Longrightarrow> pending s left \<le> pending s rs"
proof (induction r rs arbitrary: g left rule: group_ranges_in.induct)
  case (2 r rg rest)
  show ?case
  proof (cases "kr_start_key rg < start_key r \<or> kr_start_key rg > end_key r")
    case True
    then show ?thesis using 2(2) by auto
  next
    case False
    show ?thesis
    proof (cases "needs_split r rg")
      case True
      have "card {b \<in> bounds s. end_key r < b} \<le> card {b \<in> bounds s. kr_start_key rg < b}"
        using False bounds_finite [OF 2(3)] by (intro card_mono) auto
      then show ?thesis using 2(2) False True by (auto simp: pending_def make_key_range_def)
    next
      case nosplit: False
      obtain g' where g: "group_ranges_in r rest = (g', left)"
        using 2(2) False nosplit by (auto split: prod.splits)
      then show ?thesis using 2(1) [OF False nosplit g 2(3,4)] by (simp add: pending_def)
    qed
  qed
qed auto

lemma group_ranges_correct:
  "inv s \<Longrightarrow> \<exists>s' gs. group_ranges_by_region lookup s ranges = Some (s', gs) \<and> inv s'
     \<and> (\<forall>(g, r) \<in> set (oks gs). \<forall>k. in_ranges g k \<longrightarrow> contains r k)
     \<and> (\<not> failed gs \<longrightarrow> (\<forall>k. in_ranges ranges k \<longleftrightarrow> in_ranges (concat (map fst (oks gs))) k))"
proof (induction "pending s ranges" arbitrary: s ranges rule: less_induct)
  case less
  note inv = less(2)
  show ?case
  proof (cases ranges)
    case Nil
    then show ?thesis using inv by (subst group_ranges_by_region.simps) simp
  next
    case (Cons rg rest)
    obtain s1 res where l: "lookup s (kr_start_key rg) = (s1, res)" by fastforce
    show ?thesis
    proof (cases res)
      case (Inl e)
      then show ?thesis using Cons l lookup_error [OF inv, of "kr_start_key rg" s1 e]
        by (subst group_ranges_by_region.simps) simp
    next
      case (Inr r)
      then have c: "inv s1" "contains r (kr_start_key rg)" using lookup_pair [OF inv, of "kr_start_key rg" s1 r] l by auto
      have b: "bounds s1 = bounds s" "end_key r \<in> bounds s"
        using bounds_keep [OF inv, of "kr_start_key rg"] bounds_lookup [OF inv, of "kr_start_key rg" r] l Inr by auto
      have p: "pending s1 = pending s" by (simp add: pending_def b fun_eq_iff)
      have le: "start_key r \<le> kr_start_key rg" using c(2) by (simp add: contains_half_open in_half_open_def)
      define body where "body = (if needs_split r rg
        then ([make_key_range (kr_start_key rg) (end_key r)], make_key_range (end_key r) (kr_end_key rg) # rest)
        else (case group_ranges_in r rest of (g, left) \<Rightarrow> (rg # g, left)))"
      obtain grouped left where gl: "body = (grouped, left)" by fastforce
      have props: "pending s left < pending s ranges \<and> (in_ranges grouped k \<longrightarrow> contains r k)
          \<and> (in_ranges ranges k \<longleftrightarrow> in_ranges grouped k \<or> in_ranges left k)" for k
      proof (cases "needs_split r rg")
        case True
        then have "end_key r \<noteq> []" "kr_start_key rg < end_key r" using c(2) by (auto simp: needs_split_def contains_half_open in_half_open_def)
        then have "card {b \<in> bounds s. end_key r < b} < card {b \<in> bounds s. kr_start_key rg < b}"
          using bounds_decrease [OF inv, of "kr_start_key rg" s1 r] l Inr b by simp
        then show ?thesis using gl True Cons split_in_region [OF le] split_range [of rg r k] \<open>kr_start_key rg < end_key r\<close>
          by (auto simp: body_def pending_def make_key_range_def [of "end_key r"])
      next
        case False
        obtain g where g: "group_ranges_in r rest = (g, left)" "grouped = rg # g"
          using gl False by (auto simp: body_def split: prod.splits)
        have "pending s left \<le> pending s rest" by (rule group_ranges_in_pending [OF g(1) inv b(2)])
        then have "pending s left < pending s ranges" using Cons by (simp add: pending_def)
        then show ?thesis using g Cons piece_in_region [OF le False] group_ranges_in_region [OF g(1)] group_ranges_in_keys [OF g(1)]
          by auto
      qed
      have "pending s1 left < pending s ranges" using props p by simp
      from less(1) [OF this c(1)] obtain s' gs where
        IH: "group_ranges_by_region lookup s1 left = Some (s', gs)" "inv s'"
          "\<forall>(g, r) \<in> set (oks gs). \<forall>k. in_ranges g k \<longrightarrow> contains r k"
          "\<not> failed gs \<longrightarrow> (\<forall>k. in_ranges left k \<longleftrightarrow> in_ranges (concat (map fst (oks gs))) k)" by blast
      have "group_ranges_by_region lookup s ranges = Some (s', Inr (grouped, r) # gs)"
        using Cons l Inr gl IH(1) unfolding body_def by (subst group_ranges_by_region.simps) simp
      then show ?thesis using IH(2-4) props by auto
    qed
  qed
qed

end

subsection \<open>The cached lookup with encoded keys\<close>

text \<open>PD's regions have bounds that are encoded keys when the codec is enabled, and there are finitely
  many of them.\<close>

definition encoded_bound :: "bool \<Rightarrow> key \<Rightarrow> bool" where
  "encoded_bound enable_codec b \<longleftrightarrow> (enable_codec \<longrightarrow> b = [] \<or> (\<exists>k. b = to_encoded k))"

definition pd_source_inv :: "bool \<Rightarrow> region_source_state \<Rightarrow> bool" where
  "pd_source_inv enable_codec s \<longleftrightarrow> region_source_inv s \<and> finite (range (rs_range_of_version s))
    \<and> (\<forall>v. encoded_bound enable_codec (fst (rs_range_of_version s v)) \<and> encoded_bound enable_codec (snd (rs_range_of_version s v)))"

definition decode_bound :: "bool \<Rightarrow> key \<Rightarrow> key" where
  "decode_bound enable_codec b = (if enable_codec then fst (decode_bytes_in_place b False) else b)"

definition pd_bounds :: "bool \<Rightarrow> region_source_state \<Rightarrow> key set" where
  "pd_bounds enable_codec s = (decode_bound enable_codec \<circ> snd) ` range (rs_range_of_version s)"

lemma get_region_origin:
  assumes "get_region_by_key env k c = (c', Inr r)"
  shows "(\<exists>v. cached c v = Some r) \<or> env_pd_key env k = Inr r"
proof -
  let ?l = "lookup_by_key (env_ttl env) (env_rnd env) (env_now env) k"
  show ?thesis
  proof (cases "snd (?l c)")
    case (Some r')
    then show ?thesis using assms lookup_by_key_sound [OF Some] by (auto simp: get_region_by_key_def split: prod.splits)
  next
    case n: None
    show ?thesis
    proof (cases "snd (?l (fst (?l c)))")
      case (Some r')
      then show ?thesis using assms n lookup_by_key_sound [OF Some] lookup_by_key_keeps(1)
        by (auto simp: get_region_by_key_def split: prod.splits option.splits)
    next
      case None
      then show ?thesis using assms n
        by (auto simp: get_region_by_key_def read_through_region_by_key_def split: prod.splits option.splits sum.splits)
    qed
  qed
qed

lemma cached_lookup_sel: "rs_range_of_version (fst (cached_lookup s k)) = rs_range_of_version s"
  by (simp add: cached_lookup_def split: prod.splits)

lemma cached_lookup_range:
  assumes inv: "region_source_inv s" and l: "cached_lookup s k = (s', Inr r)"
  shows "range_of r = rs_range_of_version s (ver_id r)"
proof -
  obtain c where g: "get_region_by_key (rs_env s) k (rs_cache s) = (c, Inr r)"
    using l by (auto simp: cached_lookup_def split: prod.splits)
  from get_region_origin [OF g] show ?thesis
  proof
    assume "\<exists>v. cached (rs_cache s) v = Some r"
    then obtain v where v: "cached (rs_cache s) v = Some r" ..
    have "ver_id r = v" using cache_invD(2) [of "rs_cache s" v r] inv v by (simp add: region_source_inv_def)
    then show ?thesis using inv v by (simp add: region_source_inv_def)
  next
    assume "env_pd_key (rs_env s) k = Inr r"
    then show ?thesis using inv unfolding region_source_inv_def pd_valid_def by blast
  qed
qed

lemma decode_bound_encoded:
  "decode_bytes_in_place b False = (decode_bound True b, Inr ())" if "encoded_bound True b"
  using that by (auto simp: encoded_bound_def decode_bound_def decode_bytes_in_place_def [of "[]"])

lemma decode_region_encoded:
  assumes "encoded_bound enable_codec (start_key r)" "encoded_bound enable_codec (end_key r)"
  obtains r' where "decode_region r enable_codec = Inr r'" "start_key r' = decode_bound enable_codec (start_key r)"
    "end_key r' = decode_bound enable_codec (end_key r)"
proof (cases enable_codec)
  case True
  then have "decode_bytes_in_place (mr_start_key (rl_region r)) False = (decode_bound True (start_key r), Inr ())"
    "decode_bytes_in_place (mr_end_key (rl_region r)) False = (decode_bound True (end_key r), Inr ())"
    using assms decode_bound_encoded [of "start_key r"] decode_bound_encoded [of "end_key r"]
    by (simp_all add: start_key_def end_key_def)
  then show thesis using that True by (simp add: decode_region_def start_key_def end_key_def)
next
  case False
  then show thesis using that by (simp add: decode_region_def decode_bound_def)
qed

text \<open>Decoding both bounds keeps the keys of the region, because the encoding preserves the order.\<close>

lemma decoded_contains:
  assumes "encoded_bound enable_codec s" "encoded_bound enable_codec e"
    "in_half_open s e (if enable_codec then to_encoded k else k)"
  shows "in_half_open (decode_bound enable_codec s) (decode_bound enable_codec e) k"
  using assms by (auto simp: encoded_bound_def decode_bound_def in_half_open_def key_order decode_bytes_in_place_def [of "[]"])

lemma region_for_key_spec:
  assumes inv: "pd_source_inv enable_codec s"
  shows "pd_source_inv enable_codec (fst (region_for_key enable_codec s k))"
    and "snd (region_for_key enable_codec s k) = Inr r \<Longrightarrow> contains r k \<and> end_key r \<in> pd_bounds enable_codec s"
    and "pd_bounds enable_codec (fst (region_for_key enable_codec s k)) = pd_bounds enable_codec s"
proof -
  let ?k = "if enable_codec then to_encoded k else k"
  obtain s' res where l: "cached_lookup s ?k = (s', res)" by fastforce
  have i: "region_source_inv s" using inv by (simp add: pd_source_inv_def)
  have s': "region_source_inv s'" "rs_range_of_version s' = rs_range_of_version s"
    using cached_lookup_spec [OF i, of ?k] cached_lookup_sel [of s ?k] l by auto
  have f: "fst (region_for_key enable_codec s k) = s'" by (simp add: region_for_key_def l split: sum.splits)
  show "pd_source_inv enable_codec (fst (region_for_key enable_codec s k))"
    "pd_bounds enable_codec (fst (region_for_key enable_codec s k)) = pd_bounds enable_codec s"
    using inv s' unfolding f by (simp_all add: pd_source_inv_def pd_bounds_def)
  assume r: "snd (region_for_key enable_codec s k) = Inr r"
  then obtain r0 where r0: "res = Inr r0" "decode_region r0 enable_codec = Inr r"
    by (auto simp: region_for_key_def l split: sum.splits)
  have rng: "(start_key r0, end_key r0) = rs_range_of_version s (ver_id r0)"
    using cached_lookup_range [OF i] l r0(1) by (simp add: range_of_def)
  have eb: "encoded_bound enable_codec (start_key r0)" "encoded_bound enable_codec (end_key r0)"
    using inv rng unfolding pd_source_inv_def by (metis fst_conv snd_conv)+
  obtain r1 where r1: "decode_region r0 enable_codec = Inr r1" "start_key r1 = decode_bound enable_codec (start_key r0)"
      "end_key r1 = decode_bound enable_codec (end_key r0)" using decode_region_encoded [OF eb] by blast
  have "contains r0 ?k" using cached_lookup_spec [OF i, of ?k] l r0(1) by simp
  then have "contains r k" using decoded_contains [OF eb, of k] r1 r0(2) by (simp add: contains_half_open)
  moreover have "end_key r \<in> pd_bounds enable_codec s"
    using r1 r0(2) rng unfolding pd_bounds_def by (metis Inr_inject comp_apply image_eqI rangeI snd_conv)
  ultimately show "contains r k \<and> end_key r \<in> pd_bounds enable_codec s" by simp
qed

interpretation pd_source: bounded_region_source "region_for_key enable_codec" "pd_source_inv enable_codec" "pd_bounds enable_codec"
  for enable_codec
proof (unfold_locales, goal_cases)
  case (1 s k) then show ?case by (rule region_for_key_spec(1))
next
  case (2 s k r) then show ?case using region_for_key_spec(2) by blast
next
  case (3 s) then show ?case by (simp add: pd_source_inv_def pd_bounds_def)
next
  case (4 s k r) then show ?case using region_for_key_spec(2) by blast
next
  case (5 s k) then show ?case by (rule region_for_key_spec(3))
qed

subsection \<open>What the client sends where\<close>

lemma range_intersection_keys:
  "in_half_open (fst (range_intersection rr rg)) (snd (range_intersection rr rg)) k
     \<longleftrightarrow> in_half_open (fst rr) (snd rr) k \<and> in_half_open (fst rg) (snd rg) k"
  by (cases rr; cases rg) (auto simp: range_intersection_def in_half_open_def min_def)

lemma into_keys_from_pair:
  "into_keys (if e = [] then range_from s else from_pair s e) = (s, if e = [] then None else Some e)"
  by (auto simp: into_keys_def range_from_def from_pair_def new_bound_range_def into_lower_bound_def
      into_upper_bound_def next_key_def zero_terminated_def split: if_splits)
     (metis append_butlast_last_id last_ConsL)+


text \<open>C30: Splitting a range by region ends, and unless a lookup fails the pieces cover exactly the range,
  each inside the region it is sent to.\<close>

theorem region_stream_for_range_correct:
  assumes "pd_source_inv enable_codec s"
  shows "\<exists>s' ps. region_stream_for_range (region_for_key enable_codec) rg s = Some (s', ps)
    \<and> (\<forall>(p, r) \<in> set (oks ps). \<forall>k. in_half_open (fst p) (snd p) k \<longrightarrow> contains r k \<and> in_half_open (fst rg) (snd rg) k)
    \<and> (\<not> failed ps \<longrightarrow> (\<forall>k. in_half_open (fst rg) (snd rg) k \<longleftrightarrow> (\<exists>(p, r) \<in> set (oks ps). in_half_open (fst p) (snd p) k)))"
proof -
  let ?e = "if snd rg = [] then None else Some (snd rg)"
  let ?f = "\<lambda>r. (range_intersection (range_of r) rg, r)"
  from pd_source.regions_for_range_correct [OF assms, of ?e "fst rg"] obtain s' rs where
    R: "regions_for_range_from (region_for_key enable_codec) ?e s (fst rg) = Some (s', rs)"
      "\<not> failed rs \<longrightarrow> (\<forall>k. in_half_open (fst rg) (snd rg) k \<longrightarrow> (\<exists>r \<in> set (oks rs). contains r k))"
    by (auto split: if_splits)
  have ps: "region_stream_for_range (region_for_key enable_codec) rg s = Some (s', map (map_sum id ?f) rs)"
    using R(1) into_keys_from_pair [of "snd rg" "fst rg"] by (simp add: region_stream_for_range_def regions_for_range_def)
  have ok: "oks (map (map_sum id ?f) rs) = map ?f (oks rs)" and fl: "failed (map (map_sum id ?f) rs) = failed rs"
    by (simp_all add: oks_map failed_map)
  have piece: "in_half_open (fst (fst (?f r))) (snd (fst (?f r))) k \<longleftrightarrow> contains r k \<and> in_half_open (fst rg) (snd rg) k" for r k
    using range_intersection_keys [of "range_of r" rg k] by (simp add: range_of_def contains_half_open)
  show ?thesis
    unfolding ps using R(2) piece by (intro exI [of _ s'] exI [of _ "map (map_sum id ?f) rs"]) (auto simp: ok fl)
qed

text \<open>The ranges of a batch scan are grouped by region, splitting a range that leaves its region:
  the search ends, and unless a lookup fails the groups hold exactly the keys of the ranges, each inside its region.\<close>

theorem group_ranges_by_region_correct:
  assumes "pd_source_inv enable_codec s"
  shows "\<exists>s' gs. group_ranges_by_region (region_for_key enable_codec) s ranges = Some (s', gs)
    \<and> (\<forall>(g, r) \<in> set (oks gs). \<forall>k. in_ranges g k \<longrightarrow> contains r k)
    \<and> (\<not> failed gs \<longrightarrow> (\<forall>k. in_ranges ranges k \<longleftrightarrow> in_ranges (concat (map fst (oks gs))) k))"
  using pd_source.group_ranges_correct [OF assms] by blast

text \<open>A cluster with two regions that meet at the key 5; its bounds are encoded.\<close>

definition demo_pd :: "key \<Rightarrow> region_with_leader" where
  "demo_pd k = (if k < to_encoded [5] then sample_region 1 [] (to_encoded [5]) else sample_region 2 (to_encoded [5]) [])"

definition demo_source :: region_source_state where
  "demo_source = \<lparr>rs_cache = new_region_cache_map,
     rs_env = \<lparr>env_ttl = \<lparr>base_sec = 0, jitter_sec = 0\<rparr>, env_hash_order = (\<lambda>xs. xs),
       env_pd_key = (\<lambda>k. Inr (demo_pd k)), env_pd_id = (\<lambda>i. Inl NoCurrentRegions), env_now = 0, env_rnd = 0\<rparr>,
     rs_range_of_version = (\<lambda>v. if rv_id v = 1 then ([], to_encoded [5]) else (to_encoded [5], []))\<rparr>"

lemma demo_source_inv: "pd_source_inv True demo_source"
proof -
  have "range (rs_range_of_version demo_source) \<subseteq> {([], to_encoded [5]), (to_encoded [5], [])}"
    by (auto simp: demo_source_def)
  then have "finite (range (rs_range_of_version demo_source))" by (rule finite_subset) simp
  moreover have "[] < to_encoded [5]" using to_encoded_not_Nil [of "[5]"] by (cases "to_encoded [5]") auto
  then have "region_source_inv demo_source"
    using cache_inv_new by (auto simp: region_source_inv_def demo_source_def demo_pd_def pd_valid_def well_ranged_def range_of_def
        sample_region_sel contains_half_open in_half_open_def cached_def new_region_cache_map_def)
  ultimately show ?thesis by (auto simp: pd_source_inv_def demo_source_def encoded_bound_def)
qed


theorem region_stream_for_range_correct_witness:
  "\<exists>s' ps. region_stream_for_range (region_for_key True) ([1], [9]) demo_source = Some (s', ps)"
  using region_stream_for_range_correct [OF demo_source_inv, of "([1], [9])"] by blast

theorem group_ranges_by_region_correct_witness:
  "\<exists>s' gs. group_ranges_by_region (region_for_key True) demo_source [make_key_range [1] [9]] = Some (s', gs)"
  using group_ranges_by_region_correct [OF demo_source_inv, of "[make_key_range [1] [9]]"] by blast

end
