(* ===== verification/Proto_Requests.thy ===== *)
theory Proto_Requests
  imports Errors
begin

text \<open>
  The requests and responses of the transactional protocol (\<open>generated/kvrpcpb.rs\<close>), each with the
  default value that the constructors of \<open>transaction/requests.rs\<close> start from. The fields \<open>context\<close> and
  \<open>exec_details_v2\<close> are left out: the first is filled by the store layer, the second only holds statistics.
\<close>

record get_request =
  gq_key :: bytes
  gq_version :: u64
  gq_need_commit_ts :: bool

definition default_get_request :: get_request where
  "default_get_request = \<lparr>gq_key = [], gq_version = 0, gq_need_commit_ts = False\<rparr>"

record get_response =
  gs_region_error :: "region_error_msg option"
  gs_error :: "key_error option"
  gs_value :: bytes
  gs_not_found :: bool
  gs_commit_ts :: u64

record scan_request =
  sq_start_key :: bytes
  sq_limit :: u32
  sq_version :: u64
  sq_key_only :: bool
  sq_reverse :: bool
  sq_end_key :: bytes
  sq_sample_step :: u32

definition default_scan_request :: scan_request where
  "default_scan_request = \<lparr>sq_start_key = [], sq_limit = 0, sq_version = 0, sq_key_only = False, sq_reverse = False, sq_end_key = [], sq_sample_step = 0\<rparr>"

record scan_response =
  ss_region_error :: "region_error_msg option"
  ss_pairs :: "proto_kv_pair list"
  ss_error :: "key_error option"

record prewrite_request =
  pw_mutations :: "proto_mutation list"
  pw_primary_lock :: bytes
  pw_start_version :: u64
  pw_lock_ttl :: u64
  pw_skip_constraint_check :: bool
  pw_pessimistic_actions :: "int list"
  pw_txn_size :: u64
  pw_for_update_ts :: u64
  pw_min_commit_ts :: u64
  pw_use_async_commit :: bool
  pw_secondaries :: "bytes list"
  pw_try_one_pc :: bool
  pw_max_commit_ts :: u64
  pw_assertion_level :: int
  pw_txn_file_chunks :: "u64 list"

definition default_prewrite_request :: prewrite_request where
  "default_prewrite_request = \<lparr>pw_mutations = [], pw_primary_lock = [], pw_start_version = 0, pw_lock_ttl = 0, pw_skip_constraint_check = False, pw_pessimistic_actions = [], pw_txn_size = 0, pw_for_update_ts = 0, pw_min_commit_ts = 0, pw_use_async_commit = False, pw_secondaries = [], pw_try_one_pc = False, pw_max_commit_ts = 0, pw_assertion_level = 0, pw_txn_file_chunks = []\<rparr>"

record prewrite_response =
  pws_region_error :: "region_error_msg option"
  pws_errors :: "key_error list"
  pws_min_commit_ts :: u64
  pws_one_pc_commit_ts :: u64

record pessimistic_lock_request =
  plq_mutations :: "proto_mutation list"
  plq_primary_lock :: bytes
  plq_start_version :: u64
  plq_lock_ttl :: u64
  plq_for_update_ts :: u64
  plq_is_first_lock :: bool
  plq_wait_timeout :: int
  plq_force :: bool
  plq_return_values :: bool
  plq_min_commit_ts :: u64
  plq_check_existence :: bool
  plq_lock_only_if_exists :: bool
  plq_wake_up_mode :: int

definition default_pessimistic_lock_request :: pessimistic_lock_request where
  "default_pessimistic_lock_request = \<lparr>plq_mutations = [], plq_primary_lock = [], plq_start_version = 0, plq_lock_ttl = 0, plq_for_update_ts = 0, plq_is_first_lock = False, plq_wait_timeout = 0, plq_force = False, plq_return_values = False, plq_min_commit_ts = 0, plq_check_existence = False, plq_lock_only_if_exists = False, plq_wake_up_mode = 0\<rparr>"

record pessimistic_lock_key_result =
  plk_type :: int
  plk_value :: bytes
  plk_existence :: bool
  plk_locked_with_conflict_ts :: u64
  plk_skip_resolving_lock :: bool

record pessimistic_lock_response =
  pls_region_error :: "region_error_msg option"
  pls_errors :: "key_error list"
  pls_commit_ts :: u64
  pls_value :: bytes
  pls_values :: "bytes list"
  pls_not_founds :: "bool list"
  pls_results :: "pessimistic_lock_key_result list"

record pessimistic_rollback_request =
  prq_start_version :: u64
  prq_for_update_ts :: u64
  prq_keys :: "bytes list"

definition default_pessimistic_rollback_request :: pessimistic_rollback_request where
  "default_pessimistic_rollback_request = \<lparr>prq_start_version = 0, prq_for_update_ts = 0, prq_keys = []\<rparr>"

record pessimistic_rollback_response =
  prs_region_error :: "region_error_msg option"
  prs_errors :: "key_error list"

record txn_heart_beat_request =
  hbq_primary_lock :: bytes
  hbq_start_version :: u64
  hbq_advise_lock_ttl :: u64
  hbq_min_commit_ts :: u64
  hbq_is_txn_file :: bool

definition default_txn_heart_beat_request :: txn_heart_beat_request where
  "default_txn_heart_beat_request = \<lparr>hbq_primary_lock = [], hbq_start_version = 0, hbq_advise_lock_ttl = 0, hbq_min_commit_ts = 0, hbq_is_txn_file = False\<rparr>"

record txn_heart_beat_response =
  hbs_region_error :: "region_error_msg option"
  hbs_error :: "key_error option"
  hbs_lock_ttl :: u64

record check_txn_status_request =
  ctq_primary_key :: bytes
  ctq_lock_ts :: u64
  ctq_caller_start_ts :: u64
  ctq_current_ts :: u64
  ctq_rollback_if_not_exist :: bool
  ctq_force_sync_commit :: bool
  ctq_resolving_pessimistic_lock :: bool
  ctq_verify_is_primary :: bool
  ctq_is_txn_file :: bool

definition default_check_txn_status_request :: check_txn_status_request where
  "default_check_txn_status_request = \<lparr>ctq_primary_key = [], ctq_lock_ts = 0, ctq_caller_start_ts = 0, ctq_current_ts = 0, ctq_rollback_if_not_exist = False, ctq_force_sync_commit = False, ctq_resolving_pessimistic_lock = False, ctq_verify_is_primary = False, ctq_is_txn_file = False\<rparr>"

record check_txn_status_response =
  cts_region_error :: "region_error_msg option"
  cts_error :: "key_error option"
  cts_lock_ttl :: u64
  cts_commit_version :: u64
  cts_action :: int
  cts_lock_info :: "lock_info option"

record check_secondary_locks_request =
  csq_keys :: "bytes list"
  csq_start_version :: u64

definition default_check_secondary_locks_request :: check_secondary_locks_request where
  "default_check_secondary_locks_request = \<lparr>csq_keys = [], csq_start_version = 0\<rparr>"

record check_secondary_locks_response =
  css_region_error :: "region_error_msg option"
  css_error :: "key_error option"
  css_locks :: "lock_info list"
  css_commit_ts :: u64

record commit_request =
  cmq_start_version :: u64
  cmq_keys :: "bytes list"
  cmq_commit_version :: u64
  cmq_commit_role :: int
  cmq_primary_key :: bytes
  cmq_use_async_commit :: bool
  cmq_is_txn_file :: bool

definition default_commit_request :: commit_request where
  "default_commit_request = \<lparr>cmq_start_version = 0, cmq_keys = [], cmq_commit_version = 0, cmq_commit_role = 0, cmq_primary_key = [], cmq_use_async_commit = False, cmq_is_txn_file = False\<rparr>"

record commit_response =
  cms_region_error :: "region_error_msg option"
  cms_error :: "key_error option"
  cms_commit_version :: u64

record cleanup_request =
  clq_key :: bytes
  clq_start_version :: u64
  clq_current_ts :: u64

definition default_cleanup_request :: cleanup_request where
  "default_cleanup_request = \<lparr>clq_key = [], clq_start_version = 0, clq_current_ts = 0\<rparr>"

record cleanup_response =
  cls_region_error :: "region_error_msg option"
  cls_error :: "key_error option"
  cls_commit_version :: u64

record batch_get_request =
  bgq_keys :: "bytes list"
  bgq_version :: u64
  bgq_need_commit_ts :: bool

definition default_batch_get_request :: batch_get_request where
  "default_batch_get_request = \<lparr>bgq_keys = [], bgq_version = 0, bgq_need_commit_ts = False\<rparr>"

record batch_get_response =
  bgs_region_error :: "region_error_msg option"
  bgs_pairs :: "proto_kv_pair list"
  bgs_error :: "key_error option"

record batch_rollback_request =
  rbq_start_version :: u64
  rbq_keys :: "bytes list"
  rbq_is_txn_file :: bool

definition default_batch_rollback_request :: batch_rollback_request where
  "default_batch_rollback_request = \<lparr>rbq_start_version = 0, rbq_keys = [], rbq_is_txn_file = False\<rparr>"

record batch_rollback_response =
  rbs_region_error :: "region_error_msg option"
  rbs_error :: "key_error option"

record scan_lock_request =
  slq_max_version :: u64
  slq_start_key :: bytes
  slq_limit :: u32
  slq_end_key :: bytes

definition default_scan_lock_request :: scan_lock_request where
  "default_scan_lock_request = \<lparr>slq_max_version = 0, slq_start_key = [], slq_limit = 0, slq_end_key = []\<rparr>"

record scan_lock_response =
  sls_region_error :: "region_error_msg option"
  sls_error :: "key_error option"
  sls_locks :: "lock_info list"

record txn_info =
  ti_txn :: u64
  ti_status :: u64
  ti_is_txn_file :: bool

record resolve_lock_request =
  rlq_start_version :: u64
  rlq_commit_version :: u64
  rlq_txn_infos :: "txn_info list"
  rlq_keys :: "bytes list"
  rlq_is_txn_file :: bool

definition default_resolve_lock_request :: resolve_lock_request where
  "default_resolve_lock_request = \<lparr>rlq_start_version = 0, rlq_commit_version = 0, rlq_txn_infos = [], rlq_keys = [], rlq_is_txn_file = False\<rparr>"

record resolve_lock_response =
  rls_region_error :: "region_error_msg option"
  rls_error :: "key_error option"

record flush_request =
  flq_mutations :: "proto_mutation list"
  flq_primary_key :: bytes
  flq_start_ts :: u64
  flq_min_commit_ts :: u64
  flq_generation :: u64
  flq_lock_ttl :: u64
  flq_assertion_level :: int

definition default_flush_request :: flush_request where
  "default_flush_request = \<lparr>flq_mutations = [], flq_primary_key = [], flq_start_ts = 0, flq_min_commit_ts = 0, flq_generation = 0, flq_lock_ttl = 0, flq_assertion_level = 0\<rparr>"

record flush_response =
  fls_region_error :: "region_error_msg option"
  fls_errors :: "key_error list"

end
