(* ===== verification/Txn_Requests.thy ===== *)
theory Txn_Requests
  imports Proto_Requests Txn_Buffer Timestamp
begin

text \<open>
  The constructors of the transactional requests (\<open>transaction/requests.rs\<close>) and their counterparts on
  keys, ranges and timestamps (\<open>transaction/lowering.rs\<close>), the options of a pessimistic lock, the status
  that is read from a \<open>CheckTxnStatusResponse\<close>, and the locks that a response carries.
\<close>

subsection \<open>Constructors\<close>

definition new_get_request_with_need_commit_ts :: "bytes \<Rightarrow> u64 \<Rightarrow> bool \<Rightarrow> get_request" where
  "new_get_request_with_need_commit_ts k ts need = default_get_request\<lparr>gq_key := k, gq_version := ts, gq_need_commit_ts := need\<rparr>"

definition new_batch_get_request_with_need_commit_ts :: "bytes list \<Rightarrow> u64 \<Rightarrow> bool \<Rightarrow> batch_get_request" where
  "new_batch_get_request_with_need_commit_ts ks ts need =
     default_batch_get_request\<lparr>bgq_keys := ks, bgq_version := ts, bgq_need_commit_ts := need\<rparr>"

definition new_scan_request :: "bytes \<Rightarrow> bytes \<Rightarrow> u64 \<Rightarrow> u32 \<Rightarrow> bool \<Rightarrow> bool \<Rightarrow> scan_request" where
  "new_scan_request s e ts limit key_only reverse =
    (let req = (if \<not> reverse then default_scan_request\<lparr>sq_start_key := s, sq_end_key := e\<rparr>
                else default_scan_request\<lparr>sq_start_key := e, sq_end_key := s\<rparr>)
     in req\<lparr>sq_limit := limit, sq_key_only := key_only, sq_version := ts, sq_reverse := reverse\<rparr>)"

definition new_resolve_lock_request :: "u64 \<Rightarrow> u64 \<Rightarrow> resolve_lock_request" where
  "new_resolve_lock_request start commit = default_resolve_lock_request\<lparr>rlq_start_version := start, rlq_commit_version := commit\<rparr>"

definition new_batch_resolve_lock_request :: "txn_info list \<Rightarrow> resolve_lock_request" where
  "new_batch_resolve_lock_request infos = default_resolve_lock_request\<lparr>rlq_txn_infos := infos\<rparr>"

definition new_cleanup_request :: "bytes \<Rightarrow> u64 \<Rightarrow> cleanup_request" where
  "new_cleanup_request k start = default_cleanup_request\<lparr>clq_key := k, clq_start_version := start\<rparr>"

definition new_prewrite_request :: "proto_mutation list \<Rightarrow> bytes \<Rightarrow> u64 \<Rightarrow> u64 \<Rightarrow> prewrite_request" where
  "new_prewrite_request ms primary start ttl =
     default_prewrite_request\<lparr>pw_mutations := ms, pw_primary_lock := primary, pw_start_version := start, pw_lock_ttl := ttl\<rparr>"

text \<open>\<open>PessimisticAction::DoPessimisticCheck\<close> is 1.\<close>

definition new_pessimistic_prewrite_request ::
  "proto_mutation list \<Rightarrow> bytes \<Rightarrow> u64 \<Rightarrow> u64 \<Rightarrow> u64 \<Rightarrow> prewrite_request" where
  "new_pessimistic_prewrite_request ms primary start ttl for_update_ts =
     (new_prewrite_request ms primary start ttl)\<lparr>pw_for_update_ts := for_update_ts,
        pw_pessimistic_actions := replicate (length ms) 1\<rparr>"

definition new_flush_request :: "proto_mutation list \<Rightarrow> bytes \<Rightarrow> u64 \<Rightarrow> u64 \<Rightarrow> u64 \<Rightarrow> flush_request" where
  "new_flush_request ms primary start generation ttl =
     default_flush_request\<lparr>flq_mutations := ms, flq_primary_key := primary, flq_start_ts := start,
       flq_min_commit_ts := saturating_add start 1, flq_generation := generation, flq_lock_ttl := ttl\<rparr>"

definition new_commit_request :: "bytes list \<Rightarrow> u64 \<Rightarrow> u64 \<Rightarrow> commit_request" where
  "new_commit_request ks start commit =
     default_commit_request\<lparr>cmq_keys := ks, cmq_start_version := start, cmq_commit_version := commit\<rparr>"

definition new_commit_request_with_primary_key :: "bytes list \<Rightarrow> bytes option \<Rightarrow> u64 \<Rightarrow> u64 \<Rightarrow> commit_request" where
  "new_commit_request_with_primary_key ks primary start commit =
    (case primary of None \<Rightarrow> new_commit_request ks start commit
     | Some p \<Rightarrow> (new_commit_request ks start commit)\<lparr>cmq_primary_key := p\<rparr>)"

definition new_batch_rollback_request :: "bytes list \<Rightarrow> u64 \<Rightarrow> batch_rollback_request" where
  "new_batch_rollback_request ks start = default_batch_rollback_request\<lparr>rbq_keys := ks, rbq_start_version := start\<rparr>"

definition new_pessimistic_rollback_request :: "bytes list \<Rightarrow> u64 \<Rightarrow> u64 \<Rightarrow> pessimistic_rollback_request" where
  "new_pessimistic_rollback_request ks start for_update_ts =
     default_pessimistic_rollback_request\<lparr>prq_keys := ks, prq_start_version := start, prq_for_update_ts := for_update_ts\<rparr>"

definition new_scan_lock_request :: "bytes \<Rightarrow> bytes \<Rightarrow> u64 \<Rightarrow> u32 \<Rightarrow> scan_lock_request" where
  "new_scan_lock_request s e safepoint limit =
     default_scan_lock_request\<lparr>slq_start_key := s, slq_end_key := e, slq_max_version := safepoint, slq_limit := limit\<rparr>"

definition new_heart_beat_request :: "u64 \<Rightarrow> bytes \<Rightarrow> u64 \<Rightarrow> txn_heart_beat_request" where
  "new_heart_beat_request start primary ttl =
     default_txn_heart_beat_request\<lparr>hbq_start_version := start, hbq_primary_lock := primary, hbq_advise_lock_ttl := ttl\<rparr>"

definition new_check_txn_status_request ::
  "bytes \<Rightarrow> u64 \<Rightarrow> u64 \<Rightarrow> u64 \<Rightarrow> bool \<Rightarrow> bool \<Rightarrow> bool \<Rightarrow> check_txn_status_request" where
  "new_check_txn_status_request primary lock_ts caller_start_ts current_ts rollback_if_not_exist force_sync_commit resolving =
     default_check_txn_status_request\<lparr>ctq_primary_key := primary, ctq_lock_ts := lock_ts, ctq_caller_start_ts := caller_start_ts,
       ctq_current_ts := current_ts, ctq_rollback_if_not_exist := rollback_if_not_exist,
       ctq_force_sync_commit := force_sync_commit, ctq_resolving_pessimistic_lock := resolving\<rparr>"

definition new_check_secondary_locks_request :: "bytes list \<Rightarrow> u64 \<Rightarrow> check_secondary_locks_request" where
  "new_check_secondary_locks_request ks start = default_check_secondary_locks_request\<lparr>csq_keys := ks, csq_start_version := start\<rparr>"

subsection \<open>Pessimistic locks\<close>

datatype wake_up_mode = WakeUpModeNormal | WakeUpModeForceLock

fun wake_up_mode_i32 :: "wake_up_mode \<Rightarrow> int" where
  "wake_up_mode_i32 WakeUpModeNormal = 0"
| "wake_up_mode_i32 WakeUpModeForceLock = 1"

record lock_options =
  lo_wait_timeout_ms :: int
  lo_return_values :: bool
  lo_check_existence :: bool
  lo_lock_only_if_exists :: bool
  lo_wake_up_mode :: wake_up_mode

definition default_lock_options :: lock_options where
  "default_lock_options = \<lparr>lo_wait_timeout_ms = 0, lo_return_values = False, lo_check_existence = False,
     lo_lock_only_if_exists = False, lo_wake_up_mode = WakeUpModeNormal\<rparr>"

definition new_pessimistic_lock_request ::
  "proto_mutation list \<Rightarrow> bytes \<Rightarrow> u64 \<Rightarrow> u64 \<Rightarrow> u64 \<Rightarrow> bool \<Rightarrow> lock_options \<Rightarrow> pessimistic_lock_request" where
  "new_pessimistic_lock_request ms primary start ttl for_update_ts is_first_lock options =
     default_pessimistic_lock_request\<lparr>plq_mutations := ms, plq_primary_lock := primary, plq_start_version := start,
       plq_lock_ttl := ttl, plq_for_update_ts := for_update_ts, plq_is_first_lock := is_first_lock,
       plq_wait_timeout := lo_wait_timeout_ms options, plq_return_values := lo_return_values options,
       plq_check_existence := lo_check_existence options, plq_lock_only_if_exists := lo_lock_only_if_exists options,
       plq_wake_up_mode := wake_up_mode_i32 (lo_wake_up_mode options),
       plq_min_commit_ts := saturating_add for_update_ts 1\<rparr>"

datatype lock_key_result_type = LockResultNormal | LockResultLockedWithConflict | LockResultFailed

text \<open>\<open>try_from(..).unwrap_or(LockResultFailed)\<close>.\<close>

definition lock_key_result_type_of :: "int \<Rightarrow> lock_key_result_type" where
  "lock_key_result_type_of i = (if i = 0 then LockResultNormal else if i = 1 then LockResultLockedWithConflict else LockResultFailed)"

function show_nat :: "nat \<Rightarrow> string" where
  "show_nat n = (if n < 10 then [char_of (48 + n)] else show_nat (n div 10) @ [char_of (48 + n mod 10)])"
  by auto
termination by (relation "measure id") auto

definition length_mismatch :: "string \<Rightarrow> string \<Rightarrow> nat \<Rightarrow> nat \<Rightarrow> error" where
  "length_mismatch field what n m = InternalError (''PessimisticLockResponse.'' @ field @ '' length mismatch: mutations='' @ show_nat n
     @ '', '' @ what @ ''='' @ show_nat m)"

definition pairs_of_results :: "proto_mutation list \<Rightarrow> pessimistic_lock_key_result list \<Rightarrow> kv_pair list" where
  "pairs_of_results ms rs = List.map_filter (\<lambda>(m, r).
     case lock_key_result_type_of (plk_type r) of
       LockResultFailed \<Rightarrow> None
     | _ \<Rightarrow> if plk_existence r then Some (new_kv_pair (pm_key m) (plk_value r)) else None) (zip ms rs)"

text \<open>The pairs of one response of a pessimistic lock request.\<close>

definition lock_response_pairs :: "pessimistic_lock_response \<Rightarrow> proto_mutation list \<Rightarrow> kv_pair list res" where
  "lock_response_pairs resp ms =
    (if pls_results resp \<noteq> []
     then if length (pls_results resp) \<noteq> length ms
          then Inl (length_mismatch ''results'' ''results'' (length ms) (length (pls_results resp)))
          else Inr (pairs_of_results ms (pls_results resp))
     else
      (let values = (if pls_values resp = [] \<and> ms \<noteq> [] then replicate (length ms) [] else pls_values resp);
           nf = pls_not_founds resp
       in if length values \<noteq> length ms then Inl (length_mismatch ''values'' ''values'' (length ms) (length values))
          else if nf \<noteq> [] \<and> length nf \<noteq> length ms
          then Inl (length_mismatch ''not_founds'' ''not_founds'' (length ms) (length nf))
          else if nf = []
          then Inr (map (\<lambda>(m, v). new_kv_pair (pm_key m) v) (filter (\<lambda>(m, v). v \<noteq> []) (zip ms values)))
          else Inr (map (\<lambda>((m, v), _). new_kv_pair (pm_key m) v) (filter (\<lambda>(_, n). \<not> n) (zip (zip ms values) nf)))))"

fun concat_results :: "(pessimistic_lock_response \<times> proto_mutation list) list \<Rightarrow> kv_pair list res" where
  "concat_results [] = Inr []"
| "concat_results ((resp, ms) # rest) =
     ok_bind (lock_response_pairs resp ms) (\<lambda>ps. ok_bind (concat_results rest) (\<lambda>qs. Inr (ps @ qs)))"

definition merge_pessimistic_lock ::
  "(pessimistic_lock_response \<times> proto_mutation list) res list \<Rightarrow> kv_pair list res" where
  "merge_pessimistic_lock input =
    (case first_error input of
       Some e \<Rightarrow> Inl (PessimisticLockError e (concat (map (map pm_key \<circ> snd) (oks input))))
     | None \<Rightarrow> concat_results (oks input))"

subsection \<open>The status of a transaction\<close>

datatype action = NoAction | TtlExpireRollback | LockNotExistRollback | MinCommitTsPushed | TtlExpirePessimisticRollback
  | LockNotExistDoNothing

definition action_of :: "int \<Rightarrow> action" where
  "action_of i = (if i = 1 then TtlExpireRollback else if i = 2 then LockNotExistRollback else if i = 3 then MinCommitTsPushed
     else if i = 4 then TtlExpirePessimisticRollback else if i = 5 then LockNotExistDoNothing else NoAction)"

datatype txn_status_kind = StatusCommitted timestamp | StatusRolledBack | StatusLocked u64 lock_info

record txn_status =
  st_kind :: txn_status_kind
  st_action :: action
  st_is_expired :: bool

definition status_kind_of :: "u64 \<Rightarrow> u64 \<Rightarrow> lock_info option \<Rightarrow> txn_status_kind" where
  "status_kind_of ts ttl info = (if ts \<noteq> 0 then StatusCommitted (from_version ts)
     else case info of Some i \<Rightarrow> StatusLocked ttl i | None \<Rightarrow> StatusRolledBack)"

definition txn_status_of :: "check_txn_status_response \<Rightarrow> txn_status" where
  "txn_status_of resp = \<lparr>st_kind = status_kind_of (cts_commit_version resp) (cts_lock_ttl resp) (cts_lock_info resp),
     st_action = action_of (cts_action resp), st_is_expired = False\<rparr>"

definition check_ttl :: "timestamp \<Rightarrow> txn_status \<Rightarrow> txn_status" where
  "check_ttl current st = (case st_kind st of
      StatusLocked ttl info \<Rightarrow>
        (if physical current - physical (from_version (li_lock_version info)) \<ge> as_i64 ttl
         then st\<lparr>st_is_expired := True\<rparr> else st)
    | _ \<Rightarrow> st)"

definition is_cacheable :: "txn_status \<Rightarrow> bool" where
  "is_cacheable st = (case st_kind st of
      StatusRolledBack \<Rightarrow> True
    | StatusCommitted _ \<Rightarrow> True
    | StatusLocked _ _ \<Rightarrow> st_is_expired st \<and> st_action st \<in> {NoAction, LockNotExistRollback, TtlExpireRollback})"

record secondary_locks_status =
  sl_commit_ts :: "timestamp option"
  sl_min_commit_ts :: u64
  sl_fallback_2pc :: bool

text \<open>The loop over the locks of one response; the boolean is the early return of the fallback.\<close>

fun scan_secondary_locks :: "lock_info list \<Rightarrow> u64 \<Rightarrow> u64 \<times> bool" where
  "scan_secondary_locks [] m = (m, False)"
| "scan_secondary_locks (l # ls) m =
     (if \<not> li_use_async_commit l then (m, True) else scan_secondary_locks ls (max m (li_min_commit_ts l)))"

text \<open>The merge of \<open>CheckSecondaryLocksResponse\<close>s; None of the outer option is the failed assertion on
  two different commit timestamps.\<close>

fun merge_secondary_locks_from ::
  "check_secondary_locks_response res list \<Rightarrow> secondary_locks_status \<Rightarrow> secondary_locks_status res option" where
  "merge_secondary_locks_from [] out = Some (Inr out)"
| "merge_secondary_locks_from (Inl e # rest) out = Some (Inl e)"
| "merge_secondary_locks_from (Inr resp # rest) out =
    (case scan_secondary_locks (css_locks resp) (sl_min_commit_ts out) of (m, fallback) \<Rightarrow>
      let out = out\<lparr>sl_min_commit_ts := m\<rparr>
      in if fallback then Some (Inr (out\<lparr>sl_fallback_2pc := True\<rparr>))
         else case (sl_commit_ts out, try_from_version (css_commit_ts resp)) of
            (Some a, Some b) \<Rightarrow> if a = b then merge_secondary_locks_from rest out else None
          | (Some a, None) \<Rightarrow> merge_secondary_locks_from rest out
          | (None, b) \<Rightarrow> merge_secondary_locks_from rest (out\<lparr>sl_commit_ts := b\<rparr>))"

definition merge_secondary_locks :: "check_secondary_locks_response res list \<Rightarrow> secondary_locks_status res option" where
  "merge_secondary_locks input =
     merge_secondary_locks_from input \<lparr>sl_commit_ts = None, sl_min_commit_ts = 0, sl_fallback_2pc = False\<rparr>"

subsection \<open>Locks reported by responses\<close>

text \<open>\<open>take_locks\<close> moves the locks out of a response: it returns them with the response left behind.\<close>

fun take_error_locks :: "key_error list \<Rightarrow> lock_info list \<times> key_error list" where
  "take_error_locks errs = (List.map_filter ke_locked errs, map (\<lambda>e. e\<lparr>ke_locked := None\<rparr>) errs)"

definition take_locks_opt :: "key_error option \<Rightarrow> lock_info list \<times> key_error option" where
  "take_locks_opt err = (case err of None \<Rightarrow> ([], None)
     | Some e \<Rightarrow> ((case ke_locked e of None \<Rightarrow> [] | Some l \<Rightarrow> [l]), Some (e\<lparr>ke_locked := None\<rparr>)))"

definition prewrite_take_locks :: "prewrite_response \<Rightarrow> lock_info list \<times> prewrite_response" where
  "prewrite_take_locks r = (let (ls, es) = take_error_locks (pws_errors r) in (ls, r\<lparr>pws_errors := es\<rparr>))"

definition flush_take_locks :: "flush_response \<Rightarrow> lock_info list \<times> flush_response" where
  "flush_take_locks r = (let (ls, es) = take_error_locks (fls_errors r) in (ls, r\<lparr>fls_errors := es\<rparr>))"

definition pessimistic_lock_take_locks :: "pessimistic_lock_response \<Rightarrow> lock_info list \<times> pessimistic_lock_response" where
  "pessimistic_lock_take_locks r = (let (ls, es) = take_error_locks (pls_errors r) in (ls, r\<lparr>pls_errors := es\<rparr>))"

definition pessimistic_rollback_take_locks ::
  "pessimistic_rollback_response \<Rightarrow> lock_info list \<times> pessimistic_rollback_response" where
  "pessimistic_rollback_take_locks r = (let (ls, es) = take_error_locks (prs_errors r) in (ls, r\<lparr>prs_errors := es\<rparr>))"

definition scan_lock_take_locks :: "scan_lock_response \<Rightarrow> lock_info list \<times> scan_lock_response" where
  "scan_lock_take_locks r = (sls_locks r, r\<lparr>sls_locks := []\<rparr>)"

definition scan_lock_has_next_batch :: "scan_lock_response \<Rightarrow> (bytes \<times> bytes) option" where
  "scan_lock_has_next_batch r = (if sls_locks r = [] then None else Some (li_key (last (sls_locks r)) @ [0], []))"

definition scan_lock_next_batch :: "bytes \<times> bytes \<Rightarrow> scan_lock_request \<Rightarrow> scan_lock_request" where
  "scan_lock_next_batch rng req = req\<lparr>slq_start_key := fst rng\<rparr>"

end
