(* ===== verification/Sharding.thy ===== *)
theory Sharding
  imports Pd_Client Txn_Requests "HOL-Library.Multiset"
begin

text \<open>
  How a request is split by region (\<open>request/shard.rs\<close>, the \<open>Shardable\<close> and \<open>Batchable\<close>
  implementations of \<open>transaction/requests.rs\<close>). A request is sorted, grouped by region through a lookup
  \<open>lookup\<close> that may fail, and for writes each group is cut into batches. The locale \<open>shardable\<close> is the
  trait \<open>Shardable\<close>; \<open>lossless_shardable\<close> adds the promise that a failed lookup is reported.
\<close>

subsection \<open>Batches\<close>

definition TXN_COMMIT_BATCH_SIZE :: nat where
  "TXN_COMMIT_BATCH_SIZE = 16 * 1024"

text \<open>The loop of \<open>batches\<close>, with the open batch and its size; sizes are lengths of data in memory, so
  their sums stay below the width of \<open>u64\<close>.\<close>

fun batches_from :: "('a \<Rightarrow> nat) \<Rightarrow> nat \<Rightarrow> nat \<Rightarrow> 'a list \<Rightarrow> 'a list \<Rightarrow> 'a list list" where
  "batches_from item_size batch_size n batch [] = (if batch = [] then [] else [batch])"
| "batches_from item_size batch_size n batch (x # xs) =
    (if n + item_size x \<ge> batch_size \<and> batch \<noteq> []
     then batch # batches_from item_size batch_size (item_size x) [x] xs
     else batches_from item_size batch_size (n + item_size x) (batch @ [x]) xs)"

definition batches :: "('a \<Rightarrow> nat) \<Rightarrow> 'a list \<Rightarrow> nat \<Rightarrow> 'a list list" where
  "batches item_size items batch_size = batches_from item_size batch_size 0 [] items"

definition mutation_size :: "proto_mutation \<Rightarrow> nat" where
  "mutation_size m = length (pm_key m) + length (pm_value m)"

subsection \<open>Shards\<close>

text \<open>The macros \<open>shardable_keys\<close> and \<open>shardable_key\<close>, and the pessimistic lock request: the groups of the
  sorted items are the shards.\<close>

definition sorted_groups ::
  "('s \<Rightarrow> key \<Rightarrow> 's \<times> region_with_leader res) \<Rightarrow> ('k \<Rightarrow> key) \<Rightarrow> 's \<Rightarrow> 'k list
     \<Rightarrow> 's \<times> ('k list \<times> region_with_leader) res list" where
  "sorted_groups lookup key_of s items = group_keys_by_region lookup key_of s (sort_key key_of items)"

text \<open>The \<open>flat_map\<close> of the batched requests. \<open>stream::iter(Err(e))\<close> iterates over a \<open>Result\<close>, whose
  \<open>Err\<close> yields no item: the error of a failed lookup leaves nothing behind.\<close>

fun flat_batches :: "('k list \<Rightarrow> 'sh list) \<Rightarrow> ('k list \<times> region_with_leader) res list
    \<Rightarrow> ('sh \<times> region_with_leader) res list" where
  "flat_batches f [] = []"
| "flat_batches f (Inl e # gs) = flat_batches f gs"
| "flat_batches f (Inr (g, r) # gs) = map (\<lambda>b. Inr (b, r)) (f g) @ flat_batches f gs"

record prewrite_shard =
  psh_mutations :: "proto_mutation list"
  psh_txn_size :: u64

definition prewrite_batches :: "proto_mutation list \<Rightarrow> prewrite_shard list" where
  "prewrite_batches ms = map (\<lambda>b. \<lparr>psh_mutations = b, psh_txn_size = of_nat (length ms)\<rparr>)
     (batches mutation_size ms TXN_COMMIT_BATCH_SIZE)"

definition prewrite_shards ::
  "('s \<Rightarrow> key \<Rightarrow> 's \<times> region_with_leader res) \<Rightarrow> 's \<Rightarrow> prewrite_request
     \<Rightarrow> 's \<times> (prewrite_shard \<times> region_with_leader) res list" where
  "prewrite_shards lookup s req =
     map_prod id (flat_batches prewrite_batches) (sorted_groups lookup pm_key s (pw_mutations req))"

definition prewrite_apply_shard :: "prewrite_shard \<Rightarrow> prewrite_request \<Rightarrow> prewrite_request" where
  "prewrite_apply_shard sh req =
    (let is_primary_shard = list_ex (\<lambda>m. pm_key m = pw_primary_lock req) (psh_mutations sh);
         req = (if pw_use_async_commit req \<and> \<not> is_primary_shard then req\<lparr>pw_secondaries := []\<rparr> else req);
         req = (if pw_try_one_pc req
                   \<and> (\<not> is_primary_shard \<or> length (psh_mutations sh) \<noteq> length (pw_secondaries req) + 1)
                then req\<lparr>pw_try_one_pc := False\<rparr> else req)
     in req\<lparr>pw_txn_size := psh_txn_size sh, pw_mutations := psh_mutations sh\<rparr>)"

text \<open>The effect of \<open>apply_store\<close> on the fields of the request that are modelled: \<open>attempt\<close> is the number
  of earlier tries.\<close>

definition prewrite_apply_store :: "nat \<Rightarrow> prewrite_request \<Rightarrow> prewrite_request" where
  "prewrite_apply_store attempt req = (if attempt > 0 then req\<lparr>pw_txn_size := - 1\<rparr> else req)"

definition flush_shards ::
  "('s \<Rightarrow> key \<Rightarrow> 's \<times> region_with_leader res) \<Rightarrow> 's \<Rightarrow> flush_request
     \<Rightarrow> 's \<times> (proto_mutation list \<times> region_with_leader) res list" where
  "flush_shards lookup s req =
     map_prod id (flat_batches (\<lambda>ms. batches mutation_size ms TXN_COMMIT_BATCH_SIZE))
       (sorted_groups lookup pm_key s (flq_mutations req))"

definition flush_apply_shard :: "proto_mutation list \<Rightarrow> flush_request \<Rightarrow> flush_request" where
  "flush_apply_shard sh req = req\<lparr>flq_mutations := sh\<rparr>"

definition commit_shards ::
  "('s \<Rightarrow> key \<Rightarrow> 's \<times> region_with_leader res) \<Rightarrow> 's \<Rightarrow> commit_request
     \<Rightarrow> 's \<times> (bytes list \<times> region_with_leader) res list" where
  "commit_shards lookup s req =
     map_prod id (flat_batches (\<lambda>ks. batches length ks TXN_COMMIT_BATCH_SIZE))
       (sorted_groups lookup (\<lambda>k. k) s (cmq_keys req))"

definition commit_apply_shard :: "bytes list \<Rightarrow> commit_request \<Rightarrow> commit_request" where
  "commit_apply_shard sh req = req\<lparr>cmq_keys := sh\<rparr>"

definition batch_rollback_shards ::
  "('s \<Rightarrow> key \<Rightarrow> 's \<times> region_with_leader res) \<Rightarrow> 's \<Rightarrow> batch_rollback_request
     \<Rightarrow> 's \<times> (bytes list \<times> region_with_leader) res list" where
  "batch_rollback_shards lookup s req = sorted_groups lookup (\<lambda>k. k) s (rbq_keys req)"

definition batch_rollback_apply_shard :: "bytes list \<Rightarrow> batch_rollback_request \<Rightarrow> batch_rollback_request" where
  "batch_rollback_apply_shard sh req = req\<lparr>rbq_keys := sh\<rparr>"

definition pessimistic_rollback_shards ::
  "('s \<Rightarrow> key \<Rightarrow> 's \<times> region_with_leader res) \<Rightarrow> 's \<Rightarrow> pessimistic_rollback_request
     \<Rightarrow> 's \<times> (bytes list \<times> region_with_leader) res list" where
  "pessimistic_rollback_shards lookup s req = sorted_groups lookup (\<lambda>k. k) s (prq_keys req)"

definition pessimistic_rollback_apply_shard ::
  "bytes list \<Rightarrow> pessimistic_rollback_request \<Rightarrow> pessimistic_rollback_request" where
  "pessimistic_rollback_apply_shard sh req = req\<lparr>prq_keys := sh\<rparr>"

definition pessimistic_lock_shards ::
  "('s \<Rightarrow> key \<Rightarrow> 's \<times> region_with_leader res) \<Rightarrow> 's \<Rightarrow> pessimistic_lock_request
     \<Rightarrow> 's \<times> (proto_mutation list \<times> region_with_leader) res list" where
  "pessimistic_lock_shards lookup s req = sorted_groups lookup pm_key s (plq_mutations req)"

definition pessimistic_lock_apply_shard ::
  "proto_mutation list \<Rightarrow> pessimistic_lock_request \<Rightarrow> pessimistic_lock_request" where
  "pessimistic_lock_apply_shard sh req = req\<lparr>plq_mutations := sh\<rparr>"

definition batch_get_shards ::
  "('s \<Rightarrow> key \<Rightarrow> 's \<times> region_with_leader res) \<Rightarrow> 's \<Rightarrow> batch_get_request
     \<Rightarrow> 's \<times> (bytes list \<times> region_with_leader) res list" where
  "batch_get_shards lookup s req = sorted_groups lookup (\<lambda>k. k) s (bgq_keys req)"

definition batch_get_apply_shard :: "bytes list \<Rightarrow> batch_get_request \<Rightarrow> batch_get_request" where
  "batch_get_apply_shard sh req = req\<lparr>bgq_keys := sh\<rparr>"

definition check_secondary_locks_shards ::
  "('s \<Rightarrow> key \<Rightarrow> 's \<times> region_with_leader res) \<Rightarrow> 's \<Rightarrow> check_secondary_locks_request
     \<Rightarrow> 's \<times> (bytes list \<times> region_with_leader) res list" where
  "check_secondary_locks_shards lookup s req = sorted_groups lookup (\<lambda>k. k) s (csq_keys req)"

definition check_secondary_locks_apply_shard ::
  "bytes list \<Rightarrow> check_secondary_locks_request \<Rightarrow> check_secondary_locks_request" where
  "check_secondary_locks_apply_shard sh req = req\<lparr>csq_keys := sh\<rparr>"

text \<open>\<open>shardable_key\<close> and the requests on the primary key: one key, popped from the shard.\<close>

definition pop_key :: "bytes list \<Rightarrow> bytes" where
  "pop_key sh = (if sh = [] then [] else last sh)"

definition get_shards ::
  "('s \<Rightarrow> key \<Rightarrow> 's \<times> region_with_leader res) \<Rightarrow> 's \<Rightarrow> get_request
     \<Rightarrow> 's \<times> (bytes list \<times> region_with_leader) res list" where
  "get_shards lookup s req = group_keys_by_region lookup (\<lambda>k. k) s [gq_key req]"

definition get_apply_shard :: "bytes list \<Rightarrow> get_request \<Rightarrow> get_request" where
  "get_apply_shard sh req = req\<lparr>gq_key := pop_key sh\<rparr>"

definition cleanup_shards ::
  "('s \<Rightarrow> key \<Rightarrow> 's \<times> region_with_leader res) \<Rightarrow> 's \<Rightarrow> cleanup_request
     \<Rightarrow> 's \<times> (bytes list \<times> region_with_leader) res list" where
  "cleanup_shards lookup s req = group_keys_by_region lookup (\<lambda>k. k) s [clq_key req]"

definition cleanup_apply_shard :: "bytes list \<Rightarrow> cleanup_request \<Rightarrow> cleanup_request" where
  "cleanup_apply_shard sh req = req\<lparr>clq_key := pop_key sh\<rparr>"

definition heart_beat_shards ::
  "('s \<Rightarrow> key \<Rightarrow> 's \<times> region_with_leader res) \<Rightarrow> 's \<Rightarrow> txn_heart_beat_request
     \<Rightarrow> 's \<times> (bytes list \<times> region_with_leader) res list" where
  "heart_beat_shards lookup s req = group_keys_by_region lookup (\<lambda>k. k) s [hbq_primary_lock req]"

definition heart_beat_apply_shard :: "bytes list \<Rightarrow> txn_heart_beat_request \<Rightarrow> txn_heart_beat_request" where
  "heart_beat_apply_shard sh req = req\<lparr>hbq_primary_lock := pop_key sh\<rparr>"

definition check_txn_status_shards ::
  "('s \<Rightarrow> key \<Rightarrow> 's \<times> region_with_leader res) \<Rightarrow> 's \<Rightarrow> check_txn_status_request
     \<Rightarrow> 's \<times> (bytes list \<times> region_with_leader) res list" where
  "check_txn_status_shards lookup s req = group_keys_by_region lookup (\<lambda>k. k) s [ctq_primary_key req]"

definition check_txn_status_apply_shard :: "bytes list \<Rightarrow> check_txn_status_request \<Rightarrow> check_txn_status_request" where
  "check_txn_status_apply_shard sh req = req\<lparr>ctq_primary_key := pop_key sh\<rparr>"

text \<open>\<open>shardable_range\<close> of the scan request, with the swap of a reverse scan, and the scan of locks.\<close>

definition scan_shards ::
  "('s \<Rightarrow> key \<Rightarrow> 's \<times> region_with_leader res) \<Rightarrow> 's \<Rightarrow> scan_request
     \<Rightarrow> ('s \<times> ((key \<times> key) \<times> region_with_leader) res list) option" where
  "scan_shards lookup s req = region_stream_for_range lookup
     (if sq_reverse req then (sq_end_key req, sq_start_key req) else (sq_start_key req, sq_end_key req)) s"

definition scan_apply_shard :: "key \<times> key \<Rightarrow> scan_request \<Rightarrow> scan_request" where
  "scan_apply_shard sh req =
    (if sq_reverse req then req\<lparr>sq_start_key := snd sh, sq_end_key := fst sh\<rparr>
     else req\<lparr>sq_start_key := fst sh, sq_end_key := snd sh\<rparr>)"

definition scan_lock_shards ::
  "('s \<Rightarrow> key \<Rightarrow> 's \<times> region_with_leader res) \<Rightarrow> 's \<Rightarrow> scan_lock_request
     \<Rightarrow> ('s \<times> ((key \<times> key) \<times> region_with_leader) res list) option" where
  "scan_lock_shards lookup s req = region_stream_for_range lookup (slq_start_key req, slq_end_key req) s"

definition scan_lock_apply_shard :: "key \<times> key \<Rightarrow> scan_lock_request \<Rightarrow> scan_lock_request" where
  "scan_lock_apply_shard sh req = req\<lparr>slq_start_key := fst sh, slq_end_key := snd sh\<rparr>"

subsection \<open>What batching guarantees\<close>

definition batch_ok :: "('a \<Rightarrow> nat) \<Rightarrow> nat \<Rightarrow> 'a list \<Rightarrow> bool" where
  "batch_ok sz batch_size b \<longleftrightarrow> length b = 1 \<or> sum_list (map sz b) < batch_size"

lemma concat_batches_from: "concat (batches_from sz bs n b xs) = b @ xs"
  by (induction sz bs n b xs rule: batches_from.induct) auto

lemma batches_from_ok:
  "n = sum_list (map sz b) \<Longrightarrow> b = [] \<or> batch_ok sz bs b \<Longrightarrow>
     list_all (\<lambda>c. c \<noteq> [] \<and> batch_ok sz bs c) (batches_from sz bs n b xs)"
proof (induction xs arbitrary: n b)
  case (Cons x xs)
  show ?case
  proof (cases "bs \<le> n + sz x \<and> b \<noteq> []")
    case True
    have "list_all (\<lambda>c. c \<noteq> [] \<and> batch_ok sz bs c) (batches_from sz bs (sz x) [x] xs)"
      by (rule Cons.IH) (simp_all add: batch_ok_def)
    with True Cons.prems(2) show ?thesis by simp
  next
    case False
    have "batch_ok sz bs (b @ [x])" using False Cons.prems(1) by (auto simp: batch_ok_def)
    then have "list_all (\<lambda>c. c \<noteq> [] \<and> batch_ok sz bs c) (batches_from sz bs (n + sz x) (b @ [x]) xs)"
      using Cons.prems(1) by (intro Cons.IH) simp_all
    moreover have "batches_from sz bs n b (x # xs) = batches_from sz bs (n + sz x) (b @ [x]) xs"
      unfolding batches_from.simps using False by (rule if_not_P)
    ultimately show ?thesis by simp
  qed
qed auto

lemma hd_batches_from: "b \<noteq> [] \<Longrightarrow> batches_from sz bs n b xs \<noteq> [] \<and> hd (hd (batches_from sz bs n b xs)) = hd b"
  by (induction xs arbitrary: n b) simp_all

lemma batches_from_greedy:
  "n = sum_list (map sz b) \<Longrightarrow>
     successively (\<lambda>c d. bs \<le> sum_list (map sz c) + sz (hd d)) (batches_from sz bs n b xs)"
proof (induction xs arbitrary: n b)
  case (Cons x xs)
  show ?case
  proof (cases "bs \<le> n + sz x \<and> b \<noteq> []")
    case True
    have "successively (\<lambda>c d. bs \<le> sum_list (map sz c) + sz (hd d)) (batches_from sz bs (sz x) [x] xs)"
      using Cons.IH [of "sz x" "[x]"] by simp
    then show ?thesis using True Cons.prems hd_batches_from [of "[x]" sz bs "sz x" xs]
      by (simp add: successively_Cons)
  next
    case False
    have "batches_from sz bs n b (x # xs) = batches_from sz bs (n + sz x) (b @ [x]) xs"
      unfolding batches_from.simps using False by (rule if_not_P)
    then show ?thesis using Cons.IH [of "n + sz x" "b @ [x]"] Cons.prems by simp
  qed
qed simp

text \<open>Cutting a list into batches loses and reorders nothing; every batch is non-empty and, unless it is
  one oversized item, stays below the batch size; and no batch could have taken the first item of the next.\<close>

theorem batches_correct:
  "concat (batches sz xs bs) = xs
   \<and> list_all (\<lambda>b. b \<noteq> [] \<and> (length b = 1 \<or> sum_list (map sz b) < bs)) (batches sz xs bs)
   \<and> successively (\<lambda>b c. bs \<le> sum_list (map sz b) + sz (hd c)) (batches sz xs bs)"
  using batches_from_ok [of 0 sz "[]" bs xs] batches_from_greedy [of 0 sz "[]" bs xs]
  by (simp add: batches_def concat_batches_from batch_ok_def)

lemma concat_batches: "concat (batches sz xs bs) = xs"
  by (simp add: batches_def concat_batches_from)

lemma batches_nonempty: "b \<in> set (batches sz xs bs) \<Longrightarrow> b \<noteq> []"
  using batches_from_ok [of 0 sz "[]" bs xs] by (auto simp: batches_def list_all_iff)

subsection \<open>The Shardable interface\<close>

text \<open>A request holds items, each with a key; a shard applied to the request leaves the items of the shard.
  Shards are non-empty, lie in their region, and together hold no more than the request; a lossless request
  also promises that nothing is missing unless the stream of shards reports an error.\<close>

locale shardable =
  fixes inv :: "'s \<Rightarrow> bool"
    and shards :: "'s \<Rightarrow> 'req \<Rightarrow> 's \<times> ('sh \<times> region_with_leader) res list"
    and apply_shard :: "'sh \<Rightarrow> 'req \<Rightarrow> 'req"
    and items :: "'req \<Rightarrow> 'k list"
    and key_of :: "'k \<Rightarrow> key"
  assumes shards_inv: "inv s \<Longrightarrow> inv (fst (shards s q))"
    and shards_region: "inv s \<Longrightarrow> (sh, r) \<in> set (oks (snd (shards s q))) \<Longrightarrow>
          items (apply_shard sh q) \<noteq> [] \<and> (\<forall>x \<in> set (items (apply_shard sh q)). contains r (key_of x))"
    and shards_part: "inv s \<Longrightarrow>
          mset (concat (map (\<lambda>(sh, r). items (apply_shard sh q)) (oks (snd (shards s q))))) \<subseteq># mset (items q)"

locale lossless_shardable = shardable +
  assumes shards_complete: "inv s \<Longrightarrow> \<not> failed (snd (shards s q)) \<Longrightarrow>
     mset (concat (map (\<lambda>(sh, r). items (apply_shard sh q)) (oks (snd (shards s q))))) = mset (items q)"

text \<open>What a request says of all its items alike, such as the transaction, is kept by its shards: the items can
  carry it.\<close>

locale tagged_shardable = lossless_shardable +
  fixes tag :: "'b \<Rightarrow> 't"
  assumes tag_apply: "tag (apply_shard sh q) = tag q"

definition tagged :: "('req \<Rightarrow> 't) \<Rightarrow> ('req \<Rightarrow> 'k list) \<Rightarrow> 'req \<Rightarrow> ('t \<times> 'k) list" where
  "tagged tag items q = map (Pair (tag q)) (items q)"

lemma mset_tagged_shards:
  assumes "\<And>sh. tag (apply_shard sh q) = tag q"
  shows "mset (concat (map (\<lambda>(sh, r). tagged tag items (apply_shard sh q)) shs))
    = image_mset (Pair (tag q)) (mset (concat (map (\<lambda>(sh, r). items (apply_shard sh q)) shs)))"
  using assms by (induction shs) (auto simp: tagged_def)

sublocale tagged_shardable \<subseteq> tagged: lossless_shardable inv shards apply_shard "tagged tag items" "\<lambda>x. key_of (snd x)"
proof (unfold_locales, goal_cases)
  case (1 s q) then show ?case by (rule shards_inv)
next
  case (2 s sh r q) then show ?case using shards_region [of s sh r q] by (auto simp: tagged_def)
next
  case (3 s q) then show ?case
    using image_mset_subseteq_mono [OF shards_part [OF 3, of q], of "Pair (tag q)"]
    unfolding mset_tagged_shards [of tag apply_shard, OF tag_apply] by (simp add: tagged_def)
next
  case (4 s q) then show ?case
    using shards_complete [OF 4, of] unfolding mset_tagged_shards [of tag apply_shard, OF tag_apply] by (simp add: tagged_def)
qed

lemma oks_append: "oks (xs @ ys) = oks xs @ oks ys"
  by (simp add: oks_def List.map_filter_def)

lemma oks_map_Inr: "oks (map (\<lambda>x. Inr (f x)) xs) = map f xs"
  by (induction xs) simp_all

lemma oks_flat_batches: "oks (flat_batches f gs) = concat (map (\<lambda>(g, r). map (\<lambda>b. (b, r)) (f g)) (oks gs))"
  by (induction f gs rule: flat_batches.induct) (simp_all add: oks_append oks_map_Inr)

lemma flat_batches_never_failed: "\<not> failed (flat_batches f gs)"
proof (induction f gs rule: flat_batches.induct)
  case (3 f g r gs)
  have "\<not> failed (map (\<lambda>b. Inr (b, r)) bs @ flat_batches f gs)" for bs using 3 by (induction bs) simp_all
  then show ?case by simp
qed simp_all

context region_source
begin

lemma sorted_groups_correct:
  assumes "inv s" "sorted_groups lookup key_of s xs = (s', gs)"
  shows "inv s'" "\<forall>(g, r) \<in> set (oks gs). g \<noteq> [] \<and> (\<forall>k \<in> set g. contains r (key_of k))"
    "mset (concat (map fst (oks gs))) \<subseteq># mset xs"
    "\<not> failed gs \<Longrightarrow> concat (map fst (oks gs)) = sort_key key_of xs"
    "\<not> failed gs \<Longrightarrow> mset (concat (map fst (oks gs))) = mset xs"
proof -
  from group_keys_correct [OF assms(1) assms(2) [unfolded sorted_groups_def]] obtain rest where
    *: "inv s'" "\<forall>(g, r) \<in> set (oks gs). g \<noteq> [] \<and> (\<forall>k \<in> set g. contains r (key_of k))"
      "sort_key key_of xs = concat (map fst (oks gs)) @ rest" "rest = [] \<longleftrightarrow> \<not> failed gs" by blast
  have m: "mset xs = mset (concat (map fst (oks gs))) + mset rest" using arg_cong [OF *(3), of mset] by simp
  show "inv s'" "\<forall>(g, r) \<in> set (oks gs). g \<noteq> [] \<and> (\<forall>k \<in> set g. contains r (key_of k))" by (fact *)+
  show "mset (concat (map fst (oks gs))) \<subseteq># mset xs" unfolding m by (rule mset_subset_eq_add_left)
  show "\<not> failed gs \<Longrightarrow> concat (map fst (oks gs)) = sort_key key_of xs" using *(3,4) by simp
  show "\<not> failed gs \<Longrightarrow> mset (concat (map fst (oks gs))) = mset xs" using m *(4) by simp
qed

text \<open>The laws of a batched request whose shards hold the items \<open>it\<close>.\<close>

lemma batched_correct:
  assumes "inv s" "sorted_groups lookup key_of s xs = (s', gs)"
    and it: "\<And>g. concat (map it (f g)) = g" "\<And>g b. b \<in> set (f g) \<Longrightarrow> it b \<noteq> []"
  shows "(sh, r) \<in> set (oks (flat_batches f gs)) \<Longrightarrow> it sh \<noteq> [] \<and> (\<forall>x \<in> set (it sh). contains r (key_of x))"
    and "concat (map (\<lambda>(sh, r). it sh) (oks (flat_batches f gs))) = concat (map fst (oks gs))"
proof -
  assume "(sh, r) \<in> set (oks (flat_batches f gs))"
  then obtain g where g: "(g, r) \<in> set (oks gs)" "sh \<in> set (f g)" by (auto simp: oks_flat_batches)
  have "set (it sh) \<subseteq> set (concat (map it (f g)))" using g(2) by auto
  then have "set (it sh) \<subseteq> set g" by (simp only: it(1))
  then show "it sh \<noteq> [] \<and> (\<forall>x \<in> set (it sh). contains r (key_of x))"
    using sorted_groups_correct(2) [OF assms(1,2)] g it(2) [OF g(2)] by blast
next
  have "concat (map (\<lambda>(sh, r). it sh) (concat (map (\<lambda>(g, r). map (\<lambda>b. (b, r)) (f g)) ps))) = concat (map fst ps)"
    for ps :: "(_ \<times> region_with_leader) list"
    by (induction ps) (auto simp: comp_def it(1))
  then show "concat (map (\<lambda>(sh, r). it sh) (oks (flat_batches f gs))) = concat (map fst (oks gs))"
    by (simp add: oks_flat_batches)
qed

lemma plain_batched_correct:
  assumes "inv s" "sorted_groups lookup key_of s xs = (s', gs)"
  shows "(sh, r) \<in> set (oks (flat_batches (\<lambda>g. batches sz g bs) gs)) \<Longrightarrow> sh \<noteq> [] \<and> (\<forall>x \<in> set sh. contains r (key_of x))"
    and "concat (map (\<lambda>(sh, r). sh) (oks (flat_batches (\<lambda>g. batches sz g bs) gs))) = concat (map fst (oks gs))"
proof -
  have b: "concat (map (\<lambda>b. b) (batches sz g bs)) = g" for g by (simp add: concat_batches)
  show "(sh, r) \<in> set (oks (flat_batches (\<lambda>g. batches sz g bs) gs)) \<Longrightarrow> sh \<noteq> [] \<and> (\<forall>x \<in> set sh. contains r (key_of x))"
    by (rule batched_correct(1) [OF assms b batches_nonempty])
  show "concat (map (\<lambda>(sh, r). sh) (oks (flat_batches (\<lambda>g. batches sz g bs) gs))) = concat (map fst (oks gs))"
    by (rule batched_correct(2) [OF assms b batches_nonempty])
qed

end

lemma concat_prewrite_batches: "concat (map psh_mutations (prewrite_batches ms)) = ms"
  by (simp add: prewrite_batches_def comp_def concat_batches)

lemma prewrite_batches_nonempty: "b \<in> set (prewrite_batches ms) \<Longrightarrow> psh_mutations b \<noteq> []"
  by (auto simp: prewrite_batches_def dest: batches_nonempty)

lemma prewrite_apply_shard_mutations [simp]: "pw_mutations (prewrite_apply_shard sh q) = psh_mutations sh"
  by (simp add: prewrite_apply_shard_def Let_def)

text \<open>Every request takes its laws from the region source it looks its keys up in.\<close>

sublocale region_source \<subseteq> keys_sh: lossless_shardable inv "sorted_groups lookup key_of" "\<lambda>sh q. sh" "\<lambda>q. q" key_of
  for key_of :: "'k \<Rightarrow> key"
proof (unfold_locales, goal_cases)
  case (1 s q) then show ?case by (rule sorted_groups_correct(1) [OF _ surjective_pairing])
next
  case (2 s sh r q) then show ?case
    using sorted_groups_correct(2) [OF 2(1) surjective_pairing, of key_of q] by auto
next
  case (3 s q)
  have "(\<lambda>(sh :: 'k list, r :: region_with_leader). sh) = fst" by auto
  with 3 show ?case using sorted_groups_correct(3) [OF 3 surjective_pairing, of key_of q] by simp
next
  case (4 s q)
  have "(\<lambda>(sh :: 'k list, r :: region_with_leader). sh) = fst" by auto
  with 4 show ?case using sorted_groups_correct(5) [OF 4(1) surjective_pairing, of key_of q] by simp
qed

sublocale region_source \<subseteq> batch_rollback_sh: lossless_shardable inv "batch_rollback_shards lookup" batch_rollback_apply_shard rbq_keys "\<lambda>k. k"
  by unfold_locales (use keys_sh.shards_inv keys_sh.shards_region [where key_of = "\<lambda>k :: key. k"]
      keys_sh.shards_part [where key_of = "\<lambda>k :: key. k"] keys_sh.shards_complete [where key_of = "\<lambda>k :: key. k"]
    in \<open>auto simp: batch_rollback_shards_def batch_rollback_apply_shard_def\<close>)

sublocale region_source \<subseteq> pessimistic_rollback_sh: lossless_shardable inv "pessimistic_rollback_shards lookup" pessimistic_rollback_apply_shard prq_keys "\<lambda>k. k"
  by unfold_locales (use keys_sh.shards_inv keys_sh.shards_region [where key_of = "\<lambda>k :: key. k"]
      keys_sh.shards_part [where key_of = "\<lambda>k :: key. k"] keys_sh.shards_complete [where key_of = "\<lambda>k :: key. k"]
    in \<open>auto simp: pessimistic_rollback_shards_def pessimistic_rollback_apply_shard_def\<close>)

sublocale region_source \<subseteq> batch_rollback_tsh: tagged_shardable inv "batch_rollback_shards lookup" batch_rollback_apply_shard
  rbq_keys "\<lambda>k. k" rbq_start_version
  by unfold_locales (simp add: batch_rollback_apply_shard_def)

sublocale region_source \<subseteq> pessimistic_rollback_tsh: tagged_shardable inv "pessimistic_rollback_shards lookup"
  pessimistic_rollback_apply_shard prq_keys "\<lambda>k. k" "\<lambda>q. (prq_start_version q, prq_for_update_ts q)"
  by unfold_locales (simp add: pessimistic_rollback_apply_shard_def)

sublocale region_source \<subseteq> batch_get_sh: lossless_shardable inv "batch_get_shards lookup" batch_get_apply_shard bgq_keys "\<lambda>k. k"
  by unfold_locales (use keys_sh.shards_inv keys_sh.shards_region [where key_of = "\<lambda>k :: key. k"]
      keys_sh.shards_part [where key_of = "\<lambda>k :: key. k"] keys_sh.shards_complete [where key_of = "\<lambda>k :: key. k"]
    in \<open>auto simp: batch_get_shards_def batch_get_apply_shard_def\<close>)

sublocale region_source \<subseteq> check_secondary_locks_sh: lossless_shardable inv "check_secondary_locks_shards lookup" check_secondary_locks_apply_shard csq_keys "\<lambda>k. k"
  by unfold_locales (use keys_sh.shards_inv keys_sh.shards_region [where key_of = "\<lambda>k :: key. k"]
      keys_sh.shards_part [where key_of = "\<lambda>k :: key. k"] keys_sh.shards_complete [where key_of = "\<lambda>k :: key. k"]
    in \<open>auto simp: check_secondary_locks_shards_def check_secondary_locks_apply_shard_def\<close>)

sublocale region_source \<subseteq> pessimistic_lock_sh: lossless_shardable inv "pessimistic_lock_shards lookup" pessimistic_lock_apply_shard plq_mutations "pm_key"
  by unfold_locales (use keys_sh.shards_inv keys_sh.shards_region [where key_of = "pm_key :: proto_mutation \<Rightarrow> key"]
      keys_sh.shards_part [where key_of = "pm_key :: proto_mutation \<Rightarrow> key"] keys_sh.shards_complete [where key_of = "pm_key :: proto_mutation \<Rightarrow> key"]
    in \<open>auto simp: pessimistic_lock_shards_def pessimistic_lock_apply_shard_def\<close>)

text \<open>A request on one key has one shard.\<close>

sublocale region_source \<subseteq> get_sh: lossless_shardable inv "get_shards lookup" get_apply_shard "\<lambda>q. [gq_key q]" "\<lambda>k. k"
  by unfold_locales (auto simp: get_shards_def get_apply_shard_def pop_key_def
    dest: lookup_pair lookup_error split: sum.splits prod.splits)

sublocale region_source \<subseteq> cleanup_sh: lossless_shardable inv "cleanup_shards lookup" cleanup_apply_shard "\<lambda>q. [clq_key q]" "\<lambda>k. k"
  by unfold_locales (auto simp: cleanup_shards_def cleanup_apply_shard_def pop_key_def
    dest: lookup_pair lookup_error split: sum.splits prod.splits)

sublocale region_source \<subseteq> heart_beat_sh: lossless_shardable inv "heart_beat_shards lookup" heart_beat_apply_shard "\<lambda>q. [hbq_primary_lock q]" "\<lambda>k. k"
  by unfold_locales (auto simp: heart_beat_shards_def heart_beat_apply_shard_def pop_key_def
    dest: lookup_pair lookup_error split: sum.splits prod.splits)

sublocale region_source \<subseteq> check_txn_status_sh: lossless_shardable inv "check_txn_status_shards lookup" check_txn_status_apply_shard "\<lambda>q. [ctq_primary_key q]" "\<lambda>k. k"
  by unfold_locales (auto simp: check_txn_status_shards_def check_txn_status_apply_shard_def pop_key_def
    dest: lookup_pair lookup_error split: sum.splits prod.splits)

text \<open>The batched requests promise less: they are not lossless.\<close>

sublocale region_source \<subseteq> prewrite_sh: shardable inv "prewrite_shards lookup" prewrite_apply_shard pw_mutations pm_key
proof (unfold_locales, goal_cases)
  case (1 s q) then show ?case
    by (simp add: prewrite_shards_def sorted_groups_correct(1) [OF _ surjective_pairing])
next
  case (2 s sh r q) then show ?case
    using batched_correct(1) [OF 2(1) surjective_pairing concat_prewrite_batches prewrite_batches_nonempty]
    by (simp add: prewrite_shards_def)
next
  case (3 s q) then show ?case
    using batched_correct(2) [OF 3 surjective_pairing concat_prewrite_batches prewrite_batches_nonempty]
      sorted_groups_correct(3) [OF 3 surjective_pairing]
    by (simp add: prewrite_shards_def)
qed

sublocale region_source \<subseteq> flush_sh: shardable inv "flush_shards lookup" flush_apply_shard flq_mutations "pm_key"
proof (unfold_locales, goal_cases)
  case (1 s q) then show ?case
    by (simp add: flush_shards_def sorted_groups_correct(1) [OF _ surjective_pairing])
next
  case (2 s sh r q) then show ?case
    using plain_batched_correct(1) [OF 2(1) surjective_pairing] by (simp add: flush_shards_def flush_apply_shard_def)
next
  case (3 s q) then show ?case
    by (simp add: flush_shards_def flush_apply_shard_def plain_batched_correct(2) [OF _ surjective_pairing]
      sorted_groups_correct(3) [OF _ surjective_pairing])
qed

sublocale region_source \<subseteq> commit_sh: shardable inv "commit_shards lookup" commit_apply_shard cmq_keys "\<lambda>k. k"
proof (unfold_locales, goal_cases)
  case (1 s q) then show ?case
    by (simp add: commit_shards_def sorted_groups_correct(1) [OF _ surjective_pairing])
next
  case (2 s sh r q) then show ?case
    using plain_batched_correct(1) [OF 2(1) surjective_pairing] by (simp add: commit_shards_def commit_apply_shard_def)
next
  case (3 s q) then show ?case
    by (simp add: commit_shards_def commit_apply_shard_def plain_batched_correct(2) [OF _ surjective_pairing]
      sorted_groups_correct(3) [OF _ surjective_pairing])
qed

text \<open>C10: The shards of a prewrite are non-empty, lie in the region they are sent to and carry each mutation
  at most once; when no region lookup fails they carry every mutation, in key order.\<close>

theorem prewrite_shards_correct:
  assumes "pd_source_inv enable_codec s"
    and "sorted_groups (region_for_key enable_codec) pm_key s (pw_mutations q) = (s', gs)"
  shows "(\<forall>(sh, r) \<in> set (oks (snd (prewrite_shards (region_for_key enable_codec) s q))).
            psh_mutations sh \<noteq> [] \<and> (\<forall>m \<in> set (psh_mutations sh). contains r (pm_key m)))
    \<and> mset (concat (map (psh_mutations \<circ> fst) (oks (snd (prewrite_shards (region_for_key enable_codec) s q))))) \<subseteq># mset (pw_mutations q)
    \<and> (\<not> failed gs \<longrightarrow>
         concat (map (psh_mutations \<circ> fst) (oks (snd (prewrite_shards (region_for_key enable_codec) s q)))) = sort_key pm_key (pw_mutations q))"
proof -
  have e: "psh_mutations \<circ> fst = (\<lambda>(sh, r). psh_mutations sh)" by auto
  show ?thesis
    using pd_source.batched_correct [OF assms concat_prewrite_batches prewrite_batches_nonempty]
      pd_source.sorted_groups_correct(3,4) [OF assms]
    unfolding e by (auto simp: prewrite_shards_def assms(2))
qed

lemma sorted_groups_failed:
  assumes "\<And>s k. lookup s k = (s, Inl e)"
  shows "sorted_groups lookup key_of s xs = (s, if xs = [] then [] else [Inl e])"
  by (cases "sort_key key_of xs") (use arg_cong [OF mset_sort, of set_mset key_of xs] in \<open>auto simp: sorted_groups_def assms\<close>)

lemma batched_shards_failed:
  assumes "\<And>s k. lookup s k = (s, Inl e)"
  shows "prewrite_shards lookup s q = (s, [])" "flush_shards lookup s f = (s, [])" "commit_shards lookup s c = (s, [])"
  by (simp_all add: prewrite_shards_def flush_shards_def commit_shards_def sorted_groups_failed [OF assms])

text \<open>A region lookup that fails is not reported by the shards of a prewrite, a flush or a commit: when PD
  cannot be reached the request has no shard and no error, so a plan over it sends nothing and succeeds.
  Requests that are not batched report the error.\<close>

theorem batched_shards_drop_errors:
  assumes "\<And>s k. lookup s k = (s, Inl e)"
  shows "snd (prewrite_shards lookup s q) = [] \<and> snd (flush_shards lookup s f) = [] \<and> snd (commit_shards lookup s c) = []
    \<and> (rbq_keys r \<noteq> [] \<longrightarrow> snd (batch_rollback_shards lookup s r) = [Inl e])"
  by (simp add: batched_shards_failed [OF assms] batch_rollback_shards_def sorted_groups_failed [OF assms])

theorem batched_shards_drop_errors_witness:
  "snd (commit_shards (\<lambda>(s :: unit) k. (s, Inl Unimplemented)) () (new_commit_request [[1], [2]] 5 6)) = []
   \<and> snd (batch_rollback_shards (\<lambda>(s :: unit) k. (s, Inl Unimplemented)) () (new_batch_rollback_request [[1]] 5)) = [Inl Unimplemented]"
  using batched_shards_drop_errors [of "\<lambda>(s :: unit) k. (s, Inl Unimplemented)" Unimplemented "()" undefined undefined
    "new_commit_request [[1], [2]] 5 6" "new_batch_rollback_request [[1]] 5"]
  by (simp add: new_batch_rollback_request_def)

definition demo_mutation :: "op \<Rightarrow> key \<Rightarrow> proto_mutation" where
  "demo_mutation opr k = \<lparr>pm_op = opr, pm_key = k, pm_value = [], pm_assertion = AssertionNone\<rparr>"

theorem prewrite_shards_correct_witness:
  "let ms = [demo_mutation OpPut [7], demo_mutation OpPut [1]];
       shs = oks (snd (prewrite_shards (region_for_key True) demo_source (new_prewrite_request ms [1] 5 3000)))
   in mset (concat (map (psh_mutations \<circ> fst) shs)) \<subseteq># mset ms
      \<and> (\<forall>(sh, r) \<in> set shs. psh_mutations sh \<noteq> [] \<and> (\<forall>m \<in> set (psh_mutations sh). contains r (pm_key m)))"
  using prewrite_shards_correct [OF demo_source_inv surjective_pairing,
    of "new_prewrite_request [demo_mutation OpPut [7], demo_mutation OpPut [1]] [1] 5 3000"]
  by (simp add: new_prewrite_request_def)

subsection \<open>One-phase commit\<close>

text \<open>A prewrite keeps asking for one-phase commit only for a shard that holds the primary and as many
  mutations as there are committed keys; when the committed keys are the keys of the mutations, that shard is
  the whole transaction.\<close>

theorem one_pc_shard_is_whole:
  assumes "mset (psh_mutations sh) \<subseteq># mset ms" "distinct (map pm_key ms)"
    and "set (pw_secondaries q) = pm_key ` set ms - {pw_primary_lock q}" "distinct (pw_secondaries q)"
    and "pw_primary_lock q \<in> pm_key ` set ms"
    and "pw_try_one_pc (prewrite_apply_shard sh q)"
  shows "mset (psh_mutations sh) = mset ms"
proof -
  have "pw_try_one_pc q" "length (psh_mutations sh) = length (pw_secondaries q) + 1"
    using assms(6) by (auto simp: prewrite_apply_shard_def Let_def split: if_splits)
  moreover have "length (pw_secondaries q) = card (pm_key ` set ms) - 1"
    using distinct_card [OF assms(4)] assms(3,5) by (simp add: card_Diff_subset)
  moreover have "card (pm_key ` set ms) = length ms" "card (pm_key ` set ms) > 0"
    using distinct_card [OF assms(2)] assms(5) by (auto simp: card_gt_0_iff)
  ultimately have "size (mset (psh_mutations sh)) = size (mset ms)" by simp
  with assms(1) show ?thesis by (metis mset_subset_size subset_mset.le_less less_irrefl)
qed

theorem one_pc_shard_is_whole_witness:
  "pw_try_one_pc (prewrite_apply_shard \<lparr>psh_mutations = [demo_mutation OpPut [1]], psh_txn_size = 1\<rparr>
      ((new_prewrite_request [demo_mutation OpPut [1]] [1] 5 3000)\<lparr>pw_try_one_pc := True\<rparr>))
   \<and> mset [demo_mutation OpPut [1]] = mset [demo_mutation OpPut [1]]"
proof -
  let ?q = "(new_prewrite_request [demo_mutation OpPut [1]] [1] 5 3000)\<lparr>pw_try_one_pc := True\<rparr>"
  let ?sh = "\<lparr>psh_mutations = [demo_mutation OpPut [1]], psh_txn_size = 1\<rparr>"
  have s: "pw_secondaries ?q = []" "pw_primary_lock ?q = [1]" "pw_try_one_pc ?q"
    by (simp_all add: new_prewrite_request_def default_prewrite_request_def)
  then have "pw_try_one_pc (prewrite_apply_shard ?sh ?q)"
    by (simp add: prewrite_apply_shard_def Let_def demo_mutation_def)
  then show ?thesis
    using one_pc_shard_is_whole [of ?sh "[demo_mutation OpPut [1]]" ?q] s by (simp add: demo_mutation_def)
qed

text \<open>A key that is only checked at prewrite is no committed key, and then the count is off: the shard of
  one region asks for one-phase commit although another region holds a mutation of the same transaction.\<close>

theorem one_pc_on_part_of_transaction:
  "\<exists>(q :: prewrite_request) (sh :: prewrite_shard) rest. pw_mutations q = psh_mutations sh @ rest \<and> rest \<noteq> [] \<and> distinct (map pm_key (pw_mutations q))
     \<and> pw_secondaries q = map pm_key (filter (\<lambda>m. pm_op m \<noteq> OpCheckNotExists \<and> pm_key m \<noteq> pw_primary_lock q) (pw_mutations q))
     \<and> pw_try_one_pc (prewrite_apply_shard sh q)"
proof -
  let ?ms = "[demo_mutation OpPut [1], demo_mutation OpCheckNotExists [2], demo_mutation OpPut [9]]"
  let ?q = "(new_prewrite_request ?ms [1] 5 3000)\<lparr>pw_try_one_pc := True, pw_secondaries := [[9]]\<rparr>"
  let ?sh = "\<lparr>psh_mutations = take 2 ?ms, psh_txn_size = 2\<rparr>"
  have "pw_mutations ?q = psh_mutations ?sh @ drop 2 ?ms \<and> drop 2 ?ms \<noteq> [] \<and> distinct (map pm_key (pw_mutations ?q))
     \<and> pw_secondaries ?q = map pm_key (filter (\<lambda>m. pm_op m \<noteq> OpCheckNotExists \<and> pm_key m \<noteq> pw_primary_lock ?q) (pw_mutations ?q))
     \<and> pw_try_one_pc (prewrite_apply_shard ?sh ?q)"
    by (simp add: prewrite_apply_shard_def Let_def demo_mutation_def new_prewrite_request_def default_prewrite_request_def)
  then show ?thesis by blast
qed

end
