(* ===== verification/Backoff.thy ===== *)
theory Backoff
  imports Prelude
begin

text \<open>
  The retry delays of \<open>backoff.rs\<close>. The random number generator is a parameter \<open>rnd\<close>: \<open>rnd n\<close> is what
  \<open>gen_range(0..n)\<close> returns, and an empty range is the panic of that call, None. Durations are
  milliseconds.
\<close>

datatype backoff_kind = NoBackoff | NoJitter | FullJitter | EqualJitter | DecorrelatedJitter

record backoff =
  bo_kind :: backoff_kind
  bo_current_attempts :: u32
  bo_max_attempts :: u32
  bo_base_delay_ms :: u64
  bo_current_delay_ms :: u64
  bo_max_delay_ms :: u64

definition gen_range :: "(u64 \<Rightarrow> u64) \<Rightarrow> u64 \<Rightarrow> u64 option" where
  "gen_range rnd n = (if n = 0 then None else Some (rnd n))"

definition next_delay_duration :: "(u64 \<Rightarrow> u64) \<Rightarrow> backoff \<Rightarrow> (backoff \<times> u64 option) option" where
  "next_delay_duration rnd b =
    (if bo_current_attempts b \<ge> bo_max_attempts b then Some (b, None)
     else
      (let b = b\<lparr>bo_current_attempts := bo_current_attempts b + 1\<rparr>;
           delay_ms = min (bo_max_delay_ms b) (bo_current_delay_ms b);
           shifted = b\<lparr>bo_current_delay_ms := push_bit 1 (bo_current_delay_ms b)\<rparr>
       in case bo_kind b of
            NoBackoff \<Rightarrow> Some (b, None)
          | NoJitter \<Rightarrow> Some (shifted, Some delay_ms)
          | FullJitter \<Rightarrow> map_option (\<lambda>r. (shifted, Some r)) (gen_range rnd delay_ms)
          | EqualJitter \<Rightarrow>
             (let half = drop_bit 1 delay_ms
              in map_option (\<lambda>r. (shifted, Some (r + half))) (gen_range rnd half))
          | DecorrelatedJitter \<Rightarrow>
             (let upper_exclusive = max (saturating_sub (saturating_mul (bo_current_delay_ms b) 3) (bo_base_delay_ms b)) 1
              in map_option (\<lambda>r. let d = min (r + bo_base_delay_ms b) (bo_max_delay_ms b)
                                  in (b\<lparr>bo_current_delay_ms := d\<rparr>, Some d)) (gen_range rnd upper_exclusive))))"

definition is_no_backoff :: "backoff \<Rightarrow> bool" where
  "is_no_backoff b \<longleftrightarrow> bo_kind b = NoBackoff"

definition no_backoff :: backoff where
  "no_backoff = \<lparr>bo_kind = NoBackoff, bo_current_attempts = 0, bo_max_attempts = 0, bo_base_delay_ms = 0,
     bo_current_delay_ms = 0, bo_max_delay_ms = 0\<rparr>"

definition no_jitter_backoff :: "u64 \<Rightarrow> u64 \<Rightarrow> u32 \<Rightarrow> backoff" where
  "no_jitter_backoff base max_delay n = \<lparr>bo_kind = NoJitter, bo_current_attempts = 0, bo_max_attempts = n,
     bo_base_delay_ms = base, bo_current_delay_ms = base, bo_max_delay_ms = max_delay\<rparr>"

definition full_jitter_backoff :: "u64 \<Rightarrow> u64 \<Rightarrow> u32 \<Rightarrow> backoff" where
  "full_jitter_backoff base max_delay n =
    (let base = max base 1; max_delay = max max_delay 1
     in \<lparr>bo_kind = FullJitter, bo_current_attempts = 0, bo_max_attempts = n,
     bo_base_delay_ms = base, bo_current_delay_ms = base, bo_max_delay_ms = max_delay\<rparr>)"

definition equal_jitter_backoff :: "u64 \<Rightarrow> u64 \<Rightarrow> u32 \<Rightarrow> backoff" where
  "equal_jitter_backoff base max_delay n =
    (let base = max base 2; max_delay = max max_delay 2
     in \<lparr>bo_kind = EqualJitter, bo_current_attempts = 0, bo_max_attempts = n,
     bo_base_delay_ms = base, bo_current_delay_ms = base, bo_max_delay_ms = max_delay\<rparr>)"

definition decorrelated_jitter_backoff :: "u64 \<Rightarrow> u64 \<Rightarrow> u32 \<Rightarrow> backoff" where
  "decorrelated_jitter_backoff base max_delay n =
    (let base = max base 1; max_delay = max max_delay base
     in \<lparr>bo_kind = DecorrelatedJitter, bo_current_attempts = 0, bo_max_attempts = n,
     bo_base_delay_ms = base, bo_current_delay_ms = base, bo_max_delay_ms = max_delay\<rparr>)"

definition DEFAULT_REGION_BACKOFF :: backoff where
  "DEFAULT_REGION_BACKOFF = no_jitter_backoff 2 500 10"

definition DEFAULT_STORE_BACKOFF :: backoff where
  "DEFAULT_STORE_BACKOFF = no_jitter_backoff 2 1000 10"

definition OPTIMISTIC_BACKOFF :: backoff where
  "OPTIMISTIC_BACKOFF = no_jitter_backoff 2 500 10"

definition PESSIMISTIC_BACKOFF :: backoff where
  "PESSIMISTIC_BACKOFF = no_jitter_backoff 2 500 10"

subsection \<open>How many delays there are, and how long\<close>

text \<open>The delays of successive calls, one random source each, up to the call that ends the retries; the
  second part is False when a call panics.\<close>

fun delays :: "(u64 \<Rightarrow> u64) list \<Rightarrow> backoff \<Rightarrow> u64 list \<times> bool" where
  "delays [] b = ([], True)"
| "delays (rnd # rnds) b =
    (case next_delay_duration rnd b of
       None \<Rightarrow> ([], False)
     | Some (b', None) \<Rightarrow> ([], True)
     | Some (b', Some d) \<Rightarrow> (case delays rnds b' of (ds, ok) \<Rightarrow> (d # ds, ok)))"

definition attempts_left :: "backoff \<Rightarrow> nat" where
  "attempts_left b = unat (bo_max_attempts b) - unat (bo_current_attempts b)"

text \<open>The delay has room for the doublings of the attempts that are left.\<close>

definition roomy :: "backoff \<Rightarrow> bool" where
  "roomy b \<longleftrightarrow> (case bo_kind b of
      NoBackoff \<Rightarrow> True
    | NoJitter \<Rightarrow> unat (bo_current_delay_ms b) * 2 ^ attempts_left b < 2 ^ 64
    | FullJitter \<Rightarrow> unat (bo_current_delay_ms b) * 2 ^ attempts_left b < 2 ^ 64 \<and> 1 \<le> bo_current_delay_ms b \<and> 1 \<le> bo_max_delay_ms b
    | EqualJitter \<Rightarrow> unat (bo_current_delay_ms b) * 2 ^ attempts_left b < 2 ^ 64 \<and> 2 \<le> bo_current_delay_ms b \<and> 2 \<le> bo_max_delay_ms b
    | DecorrelatedJitter \<Rightarrow> bo_base_delay_ms b \<le> bo_max_delay_ms b)"

definition valid_rnd :: "(u64 \<Rightarrow> u64) \<Rightarrow> bool" where
  "valid_rnd rnd \<longleftrightarrow> (\<forall>n. n \<noteq> 0 \<longrightarrow> rnd n < n)"

lemma gen_range_valid: "valid_rnd rnd \<Longrightarrow> n \<noteq> 0 \<Longrightarrow> \<exists>r. gen_range rnd n = Some r \<and> r < n"
  by (simp add: gen_range_def valid_rnd_def)

lemma unat_double: "unat (w :: u64) * 2 < 2 ^ 64 \<Longrightarrow> unat (push_bit 1 w) = unat w * 2"
  by (simp add: push_bit_eq_mult unat_word_ariths)

lemma attempts_left_0: "bo_current_attempts b \<ge> bo_max_attempts b \<longleftrightarrow> attempts_left b = 0"
  by (simp add: attempts_left_def word_le_nat_alt)

lemma attempts_left_Suc:
  assumes "attempts_left b > 0"
  shows "attempts_left (b\<lparr>bo_current_attempts := bo_current_attempts b + 1\<rparr>) = attempts_left b - 1"
proof -
  have l: "unat (bo_current_attempts b) < unat (bo_max_attempts b)" using assms by (simp add: attempts_left_def)
  have "unat (bo_max_attempts b) < 2 ^ 32" using unsigned_less [of "bo_max_attempts b"] by simp
  with l have "unat (bo_current_attempts b + 1) = unat (bo_current_attempts b) + 1"
    by (simp add: unat_word_ariths)
  with l show ?thesis by (simp add: attempts_left_def)
qed

lemma attempts_left_delay [simp]: "attempts_left (b\<lparr>bo_current_delay_ms := d\<rparr>) = attempts_left b"
  by (simp add: attempts_left_def)

lemma room_step:
  assumes "unat d * 2 ^ n < 2 ^ 64" "n > 0"
  shows "unat (push_bit 1 (d :: u64)) = unat d * 2" "unat (push_bit 1 d) * 2 ^ (n - 1) < 2 ^ 64"
proof -
  have p: "(2 :: nat) ^ n = 2 * 2 ^ (n - 1)" using assms(2) by (cases n) simp_all
  have "unat d * 2 \<le> unat d * 2 ^ n" unfolding p by simp
  with assms(1) have "unat d * 2 < 2 ^ 64" by linarith
  then show e: "unat (push_bit 1 d) = unat d * 2" by (rule unat_double)
  show "unat (push_bit 1 d) * 2 ^ (n - 1) < 2 ^ 64" using assms(1) unfolding e p by (simp add: mult.assoc)
qed

lemma room_step_le: "unat d * 2 ^ n < 2 ^ 64 \<Longrightarrow> n > 0 \<Longrightarrow> d \<le> push_bit 1 (d :: u64)"
  using room_step(1) [of d n] by (simp add: word_le_nat_alt)

lemma unat_half: "unat (drop_bit 1 (d :: u64)) = unat d div 2"
proof -
  have "unat (drop_bit 1 d) = drop_bit 1 (take_bit LENGTH(64) (unat d))" by (rule unsigned_drop_bit_eq)
  also have "take_bit LENGTH(64) (unat d) = unat d" by (rule take_bit_nat_eq_self) (rule unsigned_less)
  finally show ?thesis by (simp only: drop_bit_eq_div power_one_right)
qed

lemma half_sum:
  assumes "r < drop_bit 1 (d :: u64)"
  shows "r + drop_bit 1 d \<le> d"
proof -
  have "unat r < unat d div 2" using assms by (simp only: word_less_nat_alt unat_half)
  then have "unat r + unat (drop_bit 1 d) \<le> unat d" unfolding unat_half by linarith
  moreover have "unat d < 2 ^ 64" using unsigned_less [of d] by simp
  ultimately show ?thesis by (simp add: word_le_nat_alt unat_word_ariths)
qed

lemma next_delay_step:
  assumes "roomy b" "bo_kind b \<noteq> NoBackoff" "attempts_left b > 0" "valid_rnd rnd"
  shows "\<exists>b' d. next_delay_duration rnd b = Some (b', Some d) \<and> roomy b' \<and> bo_kind b' = bo_kind b
    \<and> attempts_left b' = attempts_left b - 1 \<and> bo_max_delay_ms b' = bo_max_delay_ms b \<and> d \<le> bo_max_delay_ms b"
proof -
  let ?b = "b\<lparr>bo_current_attempts := bo_current_attempts b + 1\<rparr>"
  let ?s = "?b\<lparr>bo_current_delay_ms := push_bit 1 (bo_current_delay_ms b)\<rparr>"
  let ?m = "min (bo_max_delay_ms b) (bo_current_delay_ms b)"
  have n: "\<not> bo_current_attempts b \<ge> bo_max_attempts b" using assms(3) attempts_left_0 by simp
  have l: "attempts_left ?s = attempts_left b - 1" "attempts_left ?b = attempts_left b - 1"
    using attempts_left_Suc [OF assms(3)] by simp_all
  note next_delay = next_delay_duration_def [of rnd b] Let_def
  show ?thesis
  proof (cases "bo_kind b")
    case NoBackoff
    then show ?thesis using assms(2) by simp
  next
    case NoJitter
    with assms(1,3) have "roomy ?s" using room_step by (simp add: roomy_def l)
    then show ?thesis using NoJitter n l by (simp add: next_delay)
  next
    case FullJitter
    with assms(1) have c: "unat (bo_current_delay_ms b) * 2 ^ attempts_left b < 2 ^ 64"
      "1 \<le> bo_current_delay_ms b" "1 \<le> bo_max_delay_ms b" by (simp_all add: roomy_def)
    have "roomy ?s" using FullJitter c room_step [OF c(1) assms(3)] order_trans [OF c(2) room_step_le [OF c(1) assms(3)]]
      by (simp add: roomy_def l)
    moreover have "?m \<noteq> 0" using c(2,3) by (auto simp: min_def)
    then obtain r where "gen_range rnd ?m = Some r" "r < ?m" using gen_range_valid [OF assms(4)] by blast
    ultimately show ?thesis using FullJitter n l by (simp add: next_delay less_imp_le)
  next
    case EqualJitter
    with assms(1) have c: "unat (bo_current_delay_ms b) * 2 ^ attempts_left b < 2 ^ 64"
      "2 \<le> bo_current_delay_ms b" "2 \<le> bo_max_delay_ms b" by (simp_all add: roomy_def)
    have "roomy ?s" using EqualJitter c room_step [OF c(1) assms(3)] order_trans [OF c(2) room_step_le [OF c(1) assms(3)]]
      by (simp add: roomy_def l)
    moreover have m2: "2 \<le> ?m" using c(2,3) by simp
    then have "unat (2 :: u64) \<le> unat ?m" by (simp only: word_le_nat_alt)
    then have "unat (drop_bit 1 ?m) \<noteq> 0" unfolding unat_half by simp
    then have "drop_bit 1 ?m \<noteq> 0" by (metis unsigned_0)
    then obtain r where r: "gen_range rnd (drop_bit 1 ?m) = Some r" "r < drop_bit 1 ?m"
      using gen_range_valid [OF assms(4)] by blast
    have "r + drop_bit 1 ?m \<le> bo_max_delay_ms b" using half_sum [OF r(2)] by simp
    ultimately show ?thesis using EqualJitter n l r(1) by (simp add: next_delay)
  next
    case DecorrelatedJitter
    let ?u = "max (saturating_sub (saturating_mul (bo_current_delay_ms b) 3) (bo_base_delay_ms b)) 1"
    have "?u \<noteq> 0" by (auto simp: max_def not_le)
    then obtain r where "gen_range rnd ?u = Some r" using gen_range_valid [OF assms(4)] by blast
    then show ?thesis using DecorrelatedJitter n l assms(1) by (simp add: next_delay roomy_def)
  qed
qed

lemma delays_bounded:
  "roomy b \<Longrightarrow> bo_kind b \<noteq> NoBackoff \<Longrightarrow> list_all valid_rnd rnds \<Longrightarrow>
     snd (delays rnds b) \<and> length (fst (delays rnds b)) = min (length rnds) (attempts_left b)
     \<and> list_all (\<lambda>d. d \<le> bo_max_delay_ms b) (fst (delays rnds b))"
proof (induction rnds b rule: delays.induct)
  case (2 rnd rnds b)
  show ?case
  proof (cases "attempts_left b = 0")
    case True
    then have "next_delay_duration rnd b = Some (b, None)" using attempts_left_0 by (simp add: next_delay_duration_def)
    then show ?thesis using True by simp
  next
    case False
    then obtain b' d where s: "next_delay_duration rnd b = Some (b', Some d)" "roomy b'" "bo_kind b' = bo_kind b"
      "attempts_left b' = attempts_left b - 1" "bo_max_delay_ms b' = bo_max_delay_ms b" "d \<le> bo_max_delay_ms b"
      using next_delay_step [OF 2(2,3), of rnd] 2(4) by auto
    have "snd (delays rnds b') \<and> length (fst (delays rnds b')) = min (length rnds) (attempts_left b')
       \<and> list_all (\<lambda>d. d \<le> bo_max_delay_ms b') (fst (delays rnds b'))"
      by (rule 2(1) [OF s(1) refl refl s(2)]) (use 2(3,4) s(3) in simp_all)
    then show ?thesis using s False by (cases "delays rnds b'") simp
  qed
qed simp

text \<open>A backoff whose base delay can be doubled for all of its attempts never panics, gives exactly
  \<open>max_attempts\<close> delays and then stops, and no delay exceeds the maximum, whatever the random numbers.\<close>

theorem backoff_bounded:
  assumes "list_all valid_rnd rnds" "unat (max base 2) * 2 ^ unat n < 2 ^ 64"
    and "b \<in> {no_jitter_backoff base max_delay n, full_jitter_backoff base max_delay n,
      equal_jitter_backoff base max_delay n, decorrelated_jitter_backoff base max_delay n}"
  shows "snd (delays rnds b) \<and> length (fst (delays rnds b)) = min (length rnds) (unat n)
    \<and> list_all (\<lambda>d. d \<le> bo_max_delay_ms b) (fst (delays rnds b))"
proof -
  have m: "unat a * 2 ^ unat n < 2 ^ 64" if "a \<le> max base 2" for a :: u64
  proof -
    have "unat a * 2 ^ unat n \<le> unat (max base 2) * 2 ^ unat n"
      using that by (intro mult_le_mono1) (simp add: word_le_nat_alt)
    then show ?thesis using assms(2) by (rule le_less_trans)
  qed
  have "max base 1 \<le> max base (2 :: u64)" by (rule max.mono) simp_all
  note ms = m [OF this, simplified] m [of base, OF max.cobounded1, simplified] m [OF order_refl, simplified]
  have k: "bo_kind b \<noteq> NoBackoff \<and> attempts_left b = unat n \<and> roomy b"
    using assms(3) unfolding insert_iff empty_iff
    by (elim disjE; simp add: no_jitter_backoff_def full_jitter_backoff_def equal_jitter_backoff_def
      decorrelated_jitter_backoff_def attempts_left_def roomy_def Let_def ms)
  then show ?thesis using delays_bounded [of b, OF _ _ assms(1)] by simp
qed

lemma valid_rnd_0: "valid_rnd (\<lambda>n. 0)"
  by (simp add: valid_rnd_def word_neq_0_conv)

theorem backoff_bounded_witness:
  "snd (delays (replicate 20 (\<lambda>n. 0)) DEFAULT_REGION_BACKOFF)
   \<and> length (fst (delays (replicate 20 (\<lambda>n. 0)) DEFAULT_REGION_BACKOFF)) = 10"
  using backoff_bounded [of "replicate 20 (\<lambda>n. 0)" 2 10 DEFAULT_REGION_BACKOFF 500] valid_rnd_0
  by (simp add: DEFAULT_REGION_BACKOFF_def list_all_length)

text \<open>Without jitter the i-th delay is the base delay doubled i times, cut at the maximum.\<close>

theorem no_jitter_delays:
  assumes "unat base * 2 ^ unat n < 2 ^ 64" "length rnds = unat n"
  shows "map unat (fst (delays rnds (no_jitter_backoff base max_delay n)))
    = map (\<lambda>i. min (unat max_delay) (unat base * 2 ^ i)) [0..<unat n]"
proof -
  have "map unat (fst (delays rnds b)) = map (\<lambda>i. min (unat (bo_max_delay_ms b)) (unat (bo_current_delay_ms b) * 2 ^ i)) [0..<attempts_left b]"
    if "bo_kind b = NoJitter" "roomy b" "length rnds = attempts_left b" for b :: backoff
    using that
  proof (induction rnds b rule: delays.induct)
    case (2 rnd rnds b)
    let ?s = "b\<lparr>bo_current_attempts := bo_current_attempts b + 1, bo_current_delay_ms := push_bit 1 (bo_current_delay_ms b)\<rparr>"
    have l: "attempts_left b > 0" using 2(4) by simp
    have r: "unat (bo_current_delay_ms b) * 2 ^ attempts_left b < 2 ^ 64" using 2(2,3) by (simp add: roomy_def)
    have nd: "next_delay_duration rnd b = Some (?s, Some (min (bo_max_delay_ms b) (bo_current_delay_ms b)))"
      using 2(2) l attempts_left_0 [of b] by (simp add: next_delay_duration_def Let_def)
    have a: "attempts_left ?s = attempts_left b - 1" using attempts_left_Suc [OF l] by simp
    have rs: "roomy ?s" using 2(2) room_step(2) [OF r l] a by (simp add: roomy_def)
    have IH: "map unat (fst (delays rnds ?s)) =
        map (\<lambda>i. min (unat (bo_max_delay_ms ?s)) (unat (bo_current_delay_ms ?s) * 2 ^ i)) [0..<attempts_left ?s]"
      by (rule 2(1) [OF nd refl refl]) (use 2(2,4) rs a in simp_all)
    have u: "[0..<attempts_left b] = 0 # map Suc [0..<attempts_left b - 1]"
      using l by (cases "attempts_left b") (simp_all add: map_Suc_upt upt_conv_Cons del: upt_Suc)
    have m: "unat (min (bo_max_delay_ms b) (bo_current_delay_ms b)) = min (unat (bo_max_delay_ms b)) (unat (bo_current_delay_ms b))"
      by (simp add: min_def word_le_nat_alt)
    have c: "unat (bo_current_delay_ms ?s) = unat (bo_current_delay_ms b) * 2" using room_step(1) [OF r l] by simp
    have "fst (delays (rnd # rnds) b) = min (bo_max_delay_ms b) (bo_current_delay_ms b) # fst (delays rnds ?s)"
      unfolding delays.simps nd by (cases "delays rnds ?s") simp
    then show ?case using IH [unfolded a c] m by (simp add: u comp_def mult.assoc)
  qed simp
  from this [of "no_jitter_backoff base max_delay n"] show ?thesis
    using assms by (simp add: no_jitter_backoff_def roomy_def attempts_left_def)
qed

theorem no_jitter_delays_witness:
  "map unat (fst (delays (replicate 10 (\<lambda>n. 0)) DEFAULT_REGION_BACKOFF)) = [2, 4, 8, 16, 32, 64, 128, 256, 500, 500]"
  using no_jitter_delays [of 2 10 "replicate 10 (\<lambda>n. 0)" 500]
  by (simp add: DEFAULT_REGION_BACKOFF_def upt_rec)

text \<open>The doubling drops the top bit: a backoff with enough attempts ends up with the delay zero, which
  makes the next draw of a full jitter an empty range.\<close>

theorem jitter_backoff_panics:
  "snd (delays (replicate 64 (\<lambda>n. 0)) (full_jitter_backoff 1 (- 1) 65))
   \<and> \<not> snd (delays (replicate 65 (\<lambda>n. 0)) (full_jitter_backoff 1 (- 1) 65))"
  by code_simp

end
