(* ===== verification/Read_Routing.thy ===== *)
theory Read_Routing
  imports Region
begin

text \<open>
  The choice of the peer that serves a request: \<open>request/read_routing.rs\<close>, with the health of the stores
  (\<open>store/health.rs\<close>), the pending backoffs (\<open>request/pending_backoff.rs\<close>) and the replica read modes
  (\<open>replica_read.rs\<close>). The clock is the parameter \<open>now\<close>, in milliseconds.
\<close>

subsection \<open>Store health\<close>

record store_health_entry =
  he_slow_until_epoch_ms :: int
  he_tikv_side_slow_score :: int
  he_tikv_side_feedback_seq_no :: u64

type_synonym store_health = "u64 \<Rightarrow> store_health_entry option"

definition default_health_entry :: store_health_entry where
  "default_health_entry = \<lparr>he_slow_until_epoch_ms = 0, he_tikv_side_slow_score = 0, he_tikv_side_feedback_seq_no = 0\<rparr>"

definition health_entry :: "store_health \<Rightarrow> u64 \<Rightarrow> store_health_entry" where
  "health_entry h store = (case h store of None \<Rightarrow> default_health_entry | Some e \<Rightarrow> e)"

definition is_slow :: "store_health \<Rightarrow> u64 \<Rightarrow> int \<Rightarrow> bool" where
  "is_slow h store now = (case h store of None \<Rightarrow> False | Some e \<Rightarrow> he_slow_until_epoch_ms e > now)"

definition mark_slow_for :: "int \<Rightarrow> u64 \<Rightarrow> nat \<Rightarrow> store_health \<Rightarrow> store_health" where
  "mark_slow_for now store duration_ms h =
    (let slow_for_ms = (if int duration_ms < 2 ^ 63 then int duration_ms else 2 ^ 63 - 1);
         slow_until = i64_saturating_add now slow_for_ms;
         e = health_entry h store
     in h(store \<mapsto> e\<lparr>he_slow_until_epoch_ms := max (he_slow_until_epoch_ms e) slow_until\<rparr>))"

definition record_tikv_health_feedback :: "u64 \<Rightarrow> u64 \<Rightarrow> int \<Rightarrow> store_health \<Rightarrow> store_health" where
  "record_tikv_health_feedback store seq_no slow_score h =
    (let e = health_entry h store
     in h(store \<mapsto> (if seq_no \<ge> he_tikv_side_feedback_seq_no e
            then e\<lparr>he_tikv_side_feedback_seq_no := seq_no, he_tikv_side_slow_score := slow_score\<rparr> else e)))"

definition clear_slow :: "u64 \<Rightarrow> store_health \<Rightarrow> store_health" where
  "clear_slow store h = h(store := None)"

subsection \<open>Pending backoffs\<close>

datatype pending_backoff_kind = TikvServerBusy

record pending_backoff =
  pb_kind :: pending_backoff_kind
  pb_error :: region_error_msg

type_synonym pending_backoffs = "u64 \<Rightarrow> pending_backoff option"

definition add_pending :: "u64 option \<Rightarrow> pending_backoff_kind \<Rightarrow> region_error_msg \<Rightarrow> pending_backoffs \<Rightarrow> pending_backoffs" where
  "add_pending store kind e m = m((case store of None \<Rightarrow> 0 | Some i \<Rightarrow> i) \<mapsto> \<lparr>pb_kind = kind, pb_error = e\<rparr>)"

definition take_for_retry :: "u64 option \<Rightarrow> pending_backoffs \<Rightarrow> pending_backoff option \<times> pending_backoffs" where
  "take_for_retry store m = (let i = (case store of None \<Rightarrow> 0 | Some i \<Rightarrow> i) in (m i, m(i := None)))"

subsection \<open>Routing\<close>

datatype replica_read_type = ReadLeader | ReadFollower | ReadMixed | ReadLearner | ReadPreferLeader

definition is_follower_read :: "replica_read_type \<Rightarrow> bool" where
  "is_follower_read m \<longleftrightarrow> m \<noteq> ReadLeader"

record read_routing =
  rr_replica_read :: replica_read_type
  rr_stale_read :: bool
  rr_seed :: u32
  rr_force_leader :: bool
  rr_input_request_source :: "string option"
  rr_store_match :: "u64 list"
  rr_store_health :: store_health
  rr_pinned_stores :: "u64 \<Rightarrow> u64 option"
  rr_pending_backoffs :: pending_backoffs

definition default_read_routing :: read_routing where
  "default_read_routing = \<lparr>rr_replica_read = ReadLeader, rr_stale_read = False, rr_seed = 0, rr_force_leader = False,
     rr_input_request_source = None, rr_store_match = [], rr_store_health = (\<lambda>_. None),
     rr_pinned_stores = (\<lambda>_. None), rr_pending_backoffs = (\<lambda>_. None)\<rparr>"

definition new_read_routing :: "replica_read_type \<Rightarrow> bool \<Rightarrow> read_routing" where
  "new_read_routing mode stale = default_read_routing\<lparr>rr_replica_read := mode, rr_stale_read := stale\<rparr>"

definition pin_store_for_region :: "u64 \<Rightarrow> u64 \<Rightarrow> read_routing \<Rightarrow> read_routing" where
  "pin_store_for_region region store rr = rr\<lparr>rr_pinned_stores := (rr_pinned_stores rr)(region \<mapsto> store)\<rparr>"

definition clear_pinned_store_for_region :: "u64 \<Rightarrow> read_routing \<Rightarrow> read_routing" where
  "clear_pinned_store_for_region region rr = rr\<lparr>rr_pinned_stores := (rr_pinned_stores rr)(region := None)\<rparr>"

definition mark_store_slow_for :: "int \<Rightarrow> u64 \<Rightarrow> nat \<Rightarrow> read_routing \<Rightarrow> read_routing" where
  "mark_store_slow_for now store ms rr = rr\<lparr>rr_store_health := mark_slow_for now store ms (rr_store_health rr)\<rparr>"

definition add_pending_backoff :: "u64 option \<Rightarrow> pending_backoff_kind \<Rightarrow> region_error_msg \<Rightarrow> read_routing \<Rightarrow> read_routing" where
  "add_pending_backoff store kind e rr = rr\<lparr>rr_pending_backoffs := add_pending store kind e (rr_pending_backoffs rr)\<rparr>"

definition take_pending_backoff_for_retry :: "u64 option \<Rightarrow> read_routing \<Rightarrow> pending_backoff option \<times> read_routing" where
  "take_pending_backoff_for_retry store rr =
    (case take_for_retry store (rr_pending_backoffs rr) of (p, m) \<Rightarrow> (p, rr\<lparr>rr_pending_backoffs := m\<rparr>))"

definition is_replica_read_mode :: "read_routing \<Rightarrow> bool" where
  "is_replica_read_mode rr \<longleftrightarrow> is_follower_read (rr_replica_read rr) \<or> rr_stale_read rr"

definition is_stale_read :: "read_routing \<Rightarrow> bool" where
  "is_stale_read rr \<longleftrightarrow> rr_stale_read rr \<and> \<not> rr_force_leader rr"

definition force_leader :: "read_routing \<Rightarrow> read_routing" where
  "force_leader rr = rr\<lparr>rr_force_leader := True\<rparr>"

record read_peer =
  rp_target_peer :: peer
  rp_replica_read :: bool
  rp_stale_read :: bool

definition leader_peer :: "peer \<Rightarrow> read_peer" where
  "leader_peer p = \<lparr>rp_target_peer = p, rp_replica_read = False, rp_stale_read = False\<rparr>"

text \<open>\<open>PeerRole::try_from(role).unwrap_or(Voter) == Learner\<close>.\<close>

definition is_learner :: "peer \<Rightarrow> bool" where
  "is_learner p \<longleftrightarrow> peer_role p = 1"

definition pick_peer :: "peer list \<Rightarrow> u64 \<Rightarrow> u32 \<Rightarrow> nat \<Rightarrow> peer option" where
  "pick_peer peers region seed attempt =
    (if peers = [] then None
     else let idx = (ucast region + seed + of_nat attempt :: u32) mod of_nat (length peers)
          in Some (peers ! unat idx))"

record score_strategy =
  ss_try_leader :: bool
  ss_prefer_leader :: bool
  ss_learner_only :: bool

definition default_strategy :: score_strategy where
  "default_strategy = \<lparr>ss_try_leader = False, ss_prefer_leader = False, ss_learner_only = False\<rparr>"

definition FLAG_NOT_ATTEMPTED :: int where "FLAG_NOT_ATTEMPTED = 1"
definition FLAG_NORMAL_PEER :: int where "FLAG_NORMAL_PEER = 2"
definition FLAG_PREFER_LEADER :: int where "FLAG_PREFER_LEADER = 4"
definition FLAG_LABEL_MATCHES :: int where "FLAG_LABEL_MATCHES = 8"
definition FLAG_NOT_SLOW :: int where "FLAG_NOT_SLOW = 16"

text \<open>The flags are distinct bits, each set at most once: the disjunctions are sums.\<close>

definition calculate_score :: "int \<Rightarrow> peer \<Rightarrow> bool \<Rightarrow> store_health \<Rightarrow> u64 list \<Rightarrow> score_strategy \<Rightarrow> int" where
  "calculate_score now p is_leader health store_match strategy =
    (let label_matching_enabled = (store_match \<noteq> []);
         label_matches = (store_match = [] \<or> peer_store_id p \<in> set store_match);
         slow = is_slow health (peer_store_id p) now
     in (if label_matches then FLAG_LABEL_MATCHES else 0)
      + (if \<not> slow then FLAG_NOT_SLOW else 0)
      + FLAG_NOT_ATTEMPTED
      + (if is_leader then
           (if ss_prefer_leader strategy then (if \<not> slow then FLAG_PREFER_LEADER else FLAG_NORMAL_PEER)
            else if ss_try_leader strategy then (if label_matching_enabled then FLAG_PREFER_LEADER else FLAG_NORMAL_PEER)
            else 0)
         else if ss_learner_only strategy then (if is_learner p then FLAG_NORMAL_PEER else 0)
         else FLAG_NORMAL_PEER))"

fun max_score_peers :: "(peer \<Rightarrow> int) \<Rightarrow> int \<Rightarrow> peer list \<Rightarrow> peer list \<Rightarrow> peer list" where
  "max_score_peers score max_score max_peers [] = max_peers"
| "max_score_peers score max_score max_peers (p # ps) =
    (if peer_is_witness p then max_score_peers score max_score max_peers ps
     else if score p > max_score then max_score_peers score (score p) [p] ps
     else if score p = max_score then max_score_peers score max_score (max_peers @ [p]) ps
     else max_score_peers score max_score max_peers ps)"

definition select_peer_by_score :: "int \<Rightarrow> read_routing \<Rightarrow> u64 \<Rightarrow> nat \<Rightarrow> peer \<Rightarrow> peer list \<Rightarrow> score_strategy \<Rightarrow> peer" where
  "select_peer_by_score now rr region attempt leader peers strategy =
    (let score = (\<lambda>p. calculate_score now p (peer_store_id p = peer_store_id leader) (rr_store_health rr) (rr_store_match rr) strategy)
     in case pick_peer (max_score_peers score (- 1) [] peers) region (rr_seed rr) attempt of
          None \<Rightarrow> leader | Some p \<Rightarrow> p)"

definition followers_of :: "peer \<Rightarrow> peer list \<Rightarrow> peer list" where
  "followers_of leader ps = filter (\<lambda>p. \<not> peer_is_witness p \<and> peer_store_id p \<noteq> peer_store_id leader \<and> \<not> is_learner p) ps"

definition learners_of :: "peer \<Rightarrow> peer list \<Rightarrow> peer list" where
  "learners_of leader ps = filter (\<lambda>p. \<not> peer_is_witness p \<and> peer_store_id p \<noteq> peer_store_id leader \<and> is_learner p) ps"

definition pinned_peer :: "read_routing \<Rightarrow> region_with_leader \<Rightarrow> peer option" where
  "pinned_peer rr r = (case rr_pinned_stores rr (region_id r) of
      None \<Rightarrow> None
    | Some store \<Rightarrow> List.find (\<lambda>p. \<not> peer_is_witness p \<and> peer_store_id p = store) (mr_peers (rl_region r)))"

definition select_target :: "int \<Rightarrow> read_routing \<Rightarrow> region_with_leader \<Rightarrow> nat \<Rightarrow> peer \<Rightarrow> peer" where
  "select_target now rr r attempt leader =
    (let peers = mr_peers (rl_region r);
         followers = followers_of leader peers;
         learners = learners_of leader peers;
         or_leader = (\<lambda>p. case p of None \<Rightarrow> leader | Some p \<Rightarrow> p);
         by_score = select_peer_by_score now rr (region_id r) attempt leader
     in case rr_replica_read rr of
          ReadLeader \<Rightarrow> leader
        | ReadPreferLeader \<Rightarrow>
           (if attempt = 0 then
              (if is_slow (rr_store_health rr) (peer_store_id leader) now \<and> (followers \<noteq> [] \<or> learners \<noteq> [])
               then by_score (followers @ learners) (default_strategy\<lparr>ss_prefer_leader := True\<rparr>)
               else by_score peers (default_strategy\<lparr>ss_prefer_leader := True\<rparr>))
            else by_score peers default_strategy)
        | ReadFollower \<Rightarrow> if attempt = 0 then or_leader (pick_peer followers (region_id r) (rr_seed rr) attempt) else leader
        | ReadLearner \<Rightarrow> if attempt = 0 then or_leader (pick_peer learners (region_id r) (rr_seed rr) attempt) else leader
        | ReadMixed \<Rightarrow> if attempt = 0 then by_score peers default_strategy else leader)"

definition select_peer_inner :: "int \<Rightarrow> read_routing \<Rightarrow> region_with_leader \<Rightarrow> nat \<Rightarrow> bool \<Rightarrow> read_peer res" where
  "select_peer_inner now rr r attempt respect_overrides =
    (case rl_leader r of
       None \<Rightarrow> Inl (LeaderNotFound (ver_id r))
     | Some leader \<Rightarrow>
        if respect_overrides \<and> rr_force_leader rr then Inr (leader_peer leader)
        else
         (case (if respect_overrides \<and> attempt > 0 then pinned_peer rr r else None) of
            Some p \<Rightarrow> Inr \<lparr>rp_target_peer = p,
                rp_replica_read = (\<not> rr_stale_read rr \<and> peer_store_id p \<noteq> peer_store_id leader),
                rp_stale_read = rr_stale_read rr\<rparr>
          | None \<Rightarrow>
             if rr_stale_read rr then
               (let replicas = followers_of leader (mr_peers (rl_region r)) @ learners_of leader (mr_peers (rl_region r));
                    target = (if attempt = 0
                       then (case pick_peer replicas (region_id r) (rr_seed rr) attempt of None \<Rightarrow> leader | Some p \<Rightarrow> p)
                       else leader)
                in Inr \<lparr>rp_target_peer = target, rp_replica_read = False, rp_stale_read = True\<rparr>)
             else
               (let target = select_target now rr r attempt leader
                in Inr \<lparr>rp_target_peer = target, rp_replica_read = (peer_store_id target \<noteq> peer_store_id leader),
                     rp_stale_read = False\<rparr>)))"

definition select_peer :: "int \<Rightarrow> read_routing \<Rightarrow> region_with_leader \<Rightarrow> nat \<Rightarrow> read_peer res" where
  "select_peer now rr r attempt = select_peer_inner now rr r attempt True"

definition select_peer_for_request_source :: "int \<Rightarrow> read_routing \<Rightarrow> region_with_leader \<Rightarrow> read_peer res" where
  "select_peer_for_request_source now rr r = select_peer_inner now rr r 0 False"

subsection \<open>Which peer is chosen\<close>

lemma pick_peer_mem: "pick_peer ps region seed attempt = Some p \<Longrightarrow> length ps < 2 ^ 32 \<Longrightarrow> p \<in> set ps"
proof -
  assume p: "pick_peer ps region seed attempt = Some p" and l: "length ps < 2 ^ 32"
  let ?w = "of_nat (length ps) :: u32"
  have "ps \<noteq> []" using p by (auto simp: pick_peer_def)
  moreover have u: "unat ?w = length ps" using l by (simp add: unsigned_of_nat take_bit_nat_eq_self)
  ultimately have "unat (x mod ?w) < length ps" for x by (simp add: unat_mod)
  with p show ?thesis by (auto simp: pick_peer_def Let_def split: if_splits)
qed

lemma pick_peer_None: "pick_peer ps region seed attempt = None \<longleftrightarrow> ps = []"
  by (simp add: pick_peer_def Let_def)

lemma max_score_peers_set:
  "set (max_score_peers score m ms ps) \<subseteq> set ms \<union> {p \<in> set ps. \<not> peer_is_witness p}"
  by (induction score m ms ps rule: max_score_peers.induct) auto

lemma max_score_peers_best:
  "\<forall>p \<in> set ms. score p = m \<Longrightarrow> x \<in> set (max_score_peers score m ms ps) \<Longrightarrow>
     m \<le> score x \<and> (\<forall>q \<in> set ps. \<not> peer_is_witness q \<longrightarrow> score q \<le> score x)"
proof (induction ps arbitrary: m ms)
  case (Cons p ps)
  consider "peer_is_witness p" | "\<not> peer_is_witness p" "score p > m" | "\<not> peer_is_witness p" "score p = m"
    | "\<not> peer_is_witness p" "score p < m" by linarith
  then show ?case
  proof cases
    case 1 then show ?thesis using Cons.IH [OF Cons.prems(1)] Cons.prems(2) by simp
  next
    case 2 then show ?thesis using Cons.IH [of "[p]" "score p"] Cons.prems(2) by simp
  next
    case 3 then show ?thesis using Cons.IH [of "ms @ [p]" m] Cons.prems by simp
  next
    case 4 then show ?thesis using Cons.IH [OF Cons.prems(1)] Cons.prems(2) by simp
  qed
qed simp

lemma max_score_peers_nonempty:
  "ms \<noteq> [] \<or> (\<exists>p \<in> set ps. \<not> peer_is_witness p \<and> score p \<ge> m) \<Longrightarrow> max_score_peers score m ms ps \<noteq> []"
  by (induction score m ms ps rule: max_score_peers.induct) auto

lemma max_score_peers_length: "length (max_score_peers score m ms ps) \<le> length ms + length ps"
proof (induction score m ms ps rule: max_score_peers.induct)
  case (2 score m ms p ps)
  then show ?case by (cases "peer_is_witness p"; cases "score p > m"; cases "score p = m") auto
qed simp

lemma calculate_score_ge: "calculate_score now p l h sm st \<ge> 1"
  by (simp add: calculate_score_def Let_def FLAG_NOT_ATTEMPTED_def FLAG_NORMAL_PEER_def FLAG_PREFER_LEADER_def
    FLAG_LABEL_MATCHES_def FLAG_NOT_SLOW_def)

lemma select_by_score_mem:
  assumes "length ps < 2 ^ 32"
  shows "select_peer_by_score now rr region attempt leader ps st = leader
    \<or> select_peer_by_score now rr region attempt leader ps st \<in> {p \<in> set ps. \<not> peer_is_witness p}"
proof -
  let ?score = "\<lambda>p. calculate_score now p (peer_store_id p = peer_store_id leader) (rr_store_health rr) (rr_store_match rr) st"
  let ?ms = "max_score_peers ?score (- 1) [] ps"
  have "length ?ms < 2 ^ 32" using max_score_peers_length [of ?score "- 1" "[]" ps] assms by simp
  then have "p \<in> {p \<in> set ps. \<not> peer_is_witness p}" if "pick_peer ?ms region (rr_seed rr) attempt = Some p" for p
    using pick_peer_mem [OF that] max_score_peers_set [of ?score "- 1" "[]" ps] by auto
  then show ?thesis by (simp add: select_peer_by_score_def split: option.splits)
qed

text \<open>The best peer by score: one with the highest score among the peers that can serve reads.\<close>

lemma select_by_score_best:
  assumes "length ps < 2 ^ 32" "\<exists>p \<in> set ps. \<not> peer_is_witness p"
  shows "select_peer_by_score now rr region attempt leader ps st \<in> {p \<in> set ps. \<not> peer_is_witness p
     \<and> (\<forall>q \<in> set ps. \<not> peer_is_witness q \<longrightarrow>
          calculate_score now q (peer_store_id q = peer_store_id leader) (rr_store_health rr) (rr_store_match rr) st
        \<le> calculate_score now p (peer_store_id p = peer_store_id leader) (rr_store_health rr) (rr_store_match rr) st)}"
proof -
  let ?score = "\<lambda>p. calculate_score now p (peer_store_id p = peer_store_id leader) (rr_store_health rr) (rr_store_match rr) st"
  let ?ms = "max_score_peers ?score (- 1) [] ps"
  have "- 1 \<le> ?score p" for p by (rule order_trans [OF _ calculate_score_ge]) simp
  then have "?ms \<noteq> []" using assms(2) by (intro max_score_peers_nonempty) blast
  then obtain p where p: "pick_peer ?ms region (rr_seed rr) attempt = Some p"
    using pick_peer_None [of ?ms region "rr_seed rr" attempt] by (cases "pick_peer ?ms region (rr_seed rr) attempt") simp_all
  have "length ?ms < 2 ^ 32" using max_score_peers_length [of ?score "- 1" "[]" ps] assms(1) by simp
  from pick_peer_mem [OF p this] have m: "p \<in> set ?ms" .
  have "p \<in> {p \<in> set ps. \<not> peer_is_witness p}" using m max_score_peers_set [of ?score "- 1" "[]" ps] by auto
  moreover have "\<forall>q \<in> set ps. \<not> peer_is_witness q \<longrightarrow> ?score q \<le> ?score p"
    using max_score_peers_best [of "[]" ?score "- 1" p ps] m by simp
  ultimately show ?thesis using p by (simp add: select_peer_by_score_def)
qed

lemma pinned_peer_mem: "pinned_peer rr r = Some p \<Longrightarrow> p \<in> {p \<in> set (mr_peers (rl_region r)). \<not> peer_is_witness p}"
  by (auto simp: pinned_peer_def find_Some_iff split: option.splits)

lemma replica_lists: "set (followers_of l ps) \<union> set (learners_of l ps)
    = {p \<in> set ps. \<not> peer_is_witness p \<and> peer_store_id p \<noteq> peer_store_id l}"
  by (auto simp: followers_of_def learners_of_def)

lemma replica_list_lengths: "length (followers_of l ps) + length (learners_of l ps) \<le> length ps"
  unfolding followers_of_def learners_of_def by (induction ps) auto

lemma select_target_mem:
  assumes "length (mr_peers (rl_region r)) < 2 ^ 32"
  shows "select_target now rr r attempt leader = leader
    \<or> select_target now rr r attempt leader \<in> {p \<in> set (mr_peers (rl_region r)). \<not> peer_is_witness p}"
proof -
  let ?ps = "mr_peers (rl_region r)"
  let ?fs = "followers_of leader ?ps" and ?ls = "learners_of leader ?ps"
  have l: "length ?fs < 2 ^ 32" "length ?ls < 2 ^ 32" "length (?fs @ ?ls) < 2 ^ 32"
    using replica_list_lengths [of leader ?ps] assms by simp_all
  have sub: "set ?fs \<subseteq> {p \<in> set ?ps. \<not> peer_is_witness p}" "set ?ls \<subseteq> {p \<in> set ?ps. \<not> peer_is_witness p}"
    using replica_lists [of leader ?ps] by blast+
  have "(case pick_peer xs a b c of None \<Rightarrow> leader | Some p \<Rightarrow> p) = leader
      \<or> (case pick_peer xs a b c of None \<Rightarrow> leader | Some p \<Rightarrow> p) \<in> {p \<in> set ?ps. \<not> peer_is_witness p}"
    if "length xs < 2 ^ 32" "set xs \<subseteq> {p \<in> set ?ps. \<not> peer_is_witness p}" for xs a b c
    using pick_peer_mem [of xs a b c] that by (auto split: option.splits)
  moreover have "select_peer_by_score now rr a b leader (?fs @ ?ls) st = leader
      \<or> select_peer_by_score now rr a b leader (?fs @ ?ls) st \<in> {p \<in> set ?ps. \<not> peer_is_witness p}" for a b st
    using select_by_score_mem [OF l(3), of now rr a b leader st] sub by auto
  ultimately show ?thesis
    using select_by_score_mem [OF assms, of now rr] l sub
    by (cases "rr_replica_read rr") (simp_all add: select_target_def Let_def)
qed

text \<open>A request goes to the leader or to a peer of the region that is no witness; a stale read never
  carries the replica-read flag, and any other request carries it exactly when it leaves the leader's store.\<close>

theorem select_peer_serves:
  assumes "select_peer now rr r attempt = Inr rp" "length (mr_peers (rl_region r)) < 2 ^ 32"
  shows "\<exists>leader. rl_leader r = Some leader
    \<and> (rp_target_peer rp = leader \<or> rp_target_peer rp \<in> {p \<in> set (mr_peers (rl_region r)). \<not> peer_is_witness p})
    \<and> (rp_stale_read rp \<longrightarrow> \<not> rp_replica_read rp)
    \<and> (\<not> rp_stale_read rp \<longrightarrow> (rp_replica_read rp \<longleftrightarrow> peer_store_id (rp_target_peer rp) \<noteq> peer_store_id leader))"
proof -
  obtain leader where l: "rl_leader r = Some leader"
    using assms(1) by (cases "rl_leader r") (simp_all add: select_peer_def select_peer_inner_def)
  let ?fs = "followers_of leader (mr_peers (rl_region r))" and ?ls = "learners_of leader (mr_peers (rl_region r))"
  have len: "length (?fs @ ?ls) < 2 ^ 32" using replica_list_lengths [of leader "mr_peers (rl_region r)"] assms(2) by simp
  have pk: "p \<in> {p \<in> set (mr_peers (rl_region r)). \<not> peer_is_witness p}"
    if "pick_peer (?fs @ ?ls) a b c = Some p" for a b c p
    using pick_peer_mem [OF that len] replica_lists [of leader "mr_peers (rl_region r)"] by auto
  consider "rr_force_leader rr" | p where "\<not> rr_force_leader rr" "attempt > 0" "pinned_peer rr r = Some p"
    | "\<not> rr_force_leader rr" "attempt = 0 \<or> pinned_peer rr r = None"
    by (cases "pinned_peer rr r") auto
  then show ?thesis
  proof cases
    case 1 then show ?thesis using assms(1) l by (auto simp: select_peer_def select_peer_inner_def leader_peer_def)
  next
    case 2 then show ?thesis using assms(1) l pinned_peer_mem [OF 2(3)]
      by (auto simp: select_peer_def select_peer_inner_def)
  next
    case 3
    then have n: "(if True \<and> 0 < attempt then pinned_peer rr r else None) = None" by auto
    show ?thesis
    proof (cases "rr_stale_read rr")
      case True
      then show ?thesis using assms(1) l 3(1) n pk
        by (auto simp: select_peer_def select_peer_inner_def Let_def split: option.splits if_splits)
    next
      case False
      then show ?thesis using assms(1) l 3(1) n select_target_mem [OF assms(2), of now rr attempt leader]
        by (auto simp: select_peer_def select_peer_inner_def Let_def)
    qed
  qed
qed

definition demo_peer :: "u64 \<Rightarrow> bool \<Rightarrow> peer" where
  "demo_peer store witness = \<lparr>peer_id = store, peer_store_id = store, peer_role = 0, peer_is_witness = witness\<rparr>"

definition demo_routed_region :: region_with_leader where
  "demo_routed_region = \<lparr>rl_region = \<lparr>mr_id = 1, mr_start_key = [], mr_end_key = [],
       mr_region_epoch = None, mr_peers = [demo_peer 1 False, demo_peer 2 False, demo_peer 3 True]\<rparr>,
     rl_leader = Some (demo_peer 1 False)\<rparr>"

lemma demo_select:
  "select_peer 0 (new_read_routing ReadFollower False) demo_routed_region 0 =
     Inr \<lparr>rp_target_peer = demo_peer 2 False, rp_replica_read = True, rp_stale_read = False\<rparr>"
  by (simp add: select_peer_def select_peer_inner_def new_read_routing_def default_read_routing_def demo_routed_region_def
    select_target_def Let_def pick_peer_def followers_of_def is_learner_def demo_peer_def region_id_def)

theorem select_peer_serves_witness:
  "\<exists>leader. rl_leader demo_routed_region = Some leader \<and> peer_store_id (demo_peer 2 False) \<noteq> peer_store_id leader"
  using select_peer_serves [OF demo_select] by (auto simp: demo_routed_region_def)

text \<open>In prefer-leader mode a first attempt goes to the leader's store when that store is not slow and
  no label restricts the stores; when it is slow and there is another replica, it goes to a replica that is
  not slow if there is one.\<close>

theorem prefer_leader_routing:
  assumes "rr_replica_read rr = ReadPreferLeader" "\<not> rr_stale_read rr" "\<not> rr_force_leader rr" "rr_store_match rr = []"
    and "rl_leader r = Some leader" "leader \<in> set (mr_peers (rl_region r))" "\<not> peer_is_witness leader"
    and "length (mr_peers (rl_region r)) < 2 ^ 32"
  shows "\<exists>p. map_sum id rp_target_peer (select_peer now rr r 0) = Inr p
    \<and> (\<not> is_slow (rr_store_health rr) (peer_store_id leader) now \<longrightarrow> peer_store_id p = peer_store_id leader)
    \<and> (is_slow (rr_store_health rr) (peer_store_id leader) now \<longrightarrow>
        (\<exists>q \<in> set (mr_peers (rl_region r)). \<not> peer_is_witness q \<and> peer_store_id q \<noteq> peer_store_id leader
            \<and> \<not> is_slow (rr_store_health rr) (peer_store_id q) now) \<longrightarrow>
        peer_store_id p \<noteq> peer_store_id leader \<and> \<not> is_slow (rr_store_health rr) (peer_store_id p) now)"
proof -
  let ?ps = "mr_peers (rl_region r)" and ?h = "rr_store_health rr"
  let ?reps = "followers_of leader ?ps @ learners_of leader ?ps"
  let ?st = "default_strategy\<lparr>ss_prefer_leader := True\<rparr>"
  let ?score = "\<lambda>p. calculate_score now p (peer_store_id p = peer_store_id leader) ?h (rr_store_match rr) ?st"
  let ?t = "select_target now rr r 0 leader"
  have sel: "map_sum id rp_target_peer (select_peer now rr r 0) = Inr ?t"
    using assms(2,3,5) by (simp add: select_peer_def select_peer_inner_def Let_def)
  have score: "?score p = 8 + (if is_slow ?h (peer_store_id p) now then 0 else 16) + 1
      + (if peer_store_id p = peer_store_id leader \<and> \<not> is_slow ?h (peer_store_id p) now then 4 else 2)" for p
    using assms(4) by (simp add: calculate_score_def Let_def default_strategy_def FLAG_NOT_ATTEMPTED_def FLAG_NORMAL_PEER_def
      FLAG_PREFER_LEADER_def FLAG_LABEL_MATCHES_def FLAG_NOT_SLOW_def)
  show ?thesis
  proof (cases "is_slow ?h (peer_store_id leader) now")
    case False
    then have t: "?t = select_peer_by_score now rr (region_id r) 0 leader ?ps ?st"
      using assms(1) by (simp add: select_target_def Let_def)
    have "?score leader \<le> ?score ?t"
      using select_by_score_best [OF assms(8), of now rr "region_id r" 0 leader ?st] assms(6,7) unfolding t by blast
    then have "peer_store_id ?t = peer_store_id leader" using False unfolding score by (simp split: if_splits)
    with sel False show ?thesis by blast
  next
    case True
    show ?thesis
    proof (cases "\<exists>q \<in> set ?ps. \<not> peer_is_witness q \<and> peer_store_id q \<noteq> peer_store_id leader \<and> \<not> is_slow ?h (peer_store_id q) now")
      case ex: True
      then obtain q where q: "q \<in> set ?reps" "\<not> peer_is_witness q" "peer_store_id q \<noteq> peer_store_id leader"
        "\<not> is_slow ?h (peer_store_id q) now" using replica_lists [of leader ?ps] by auto
      then have "followers_of leader ?ps \<noteq> [] \<or> learners_of leader ?ps \<noteq> []" by auto
      then have t: "?t = select_peer_by_score now rr (region_id r) 0 leader ?reps ?st"
        using assms(1) True by (simp add: select_target_def Let_def)
      have len: "length ?reps < 2 ^ 32" using replica_list_lengths [of leader ?ps] assms(8) by simp
      have b: "?t \<in> set ?reps" "?score q \<le> ?score ?t"
        using select_by_score_best [OF len, of now rr "region_id r" 0 leader ?st] q unfolding t by blast+
      have "peer_store_id ?t \<noteq> peer_store_id leader" using b(1) replica_lists [of leader ?ps] by auto
      moreover have "\<not> is_slow ?h (peer_store_id ?t) now" using b(2) q(3,4) unfolding score by (simp split: if_splits)
      ultimately show ?thesis using sel True by blast
    qed (use sel True in blast)
  qed
qed

theorem prefer_leader_routing_witness:
  "\<exists>p. map_sum id rp_target_peer (select_peer 0 (new_read_routing ReadPreferLeader False) demo_routed_region 0) = Inr p
     \<and> peer_store_id p = 1"
  using prefer_leader_routing [of "new_read_routing ReadPreferLeader False" demo_routed_region "demo_peer 1 False" 0]
  by (auto simp: new_read_routing_def default_read_routing_def demo_routed_region_def demo_peer_def is_slow_def)

end
