(* ===== verification/Plan_Types.thy ===== *)
theory Plan_Types
  imports Sharding Backoff Read_Routing
begin

text \<open>
  What a plan runs on: the operations of \<open>PdClient\<close> and of the runtime that \<open>request/plan.rs\<close> calls, with
  the outside world as an abstract state \<open>'w\<close>; the store a region is served by (\<open>store/mod.rs\<close>) and the
  context it writes into a request (\<open>store/request.rs\<close>); the errors a response carries
  (\<open>store/errors.rs\<close>).
\<close>

subsection \<open>The client's surroundings\<close>

record rpc_context =
  ctx_region_id :: u64
  ctx_region_epoch :: "region_epoch option"
  ctx_peer :: "peer option"
  ctx_replica_read :: bool
  ctx_stale_read :: bool
  ctx_is_retry_request :: bool
  ctx_request_source :: string

definition default_context :: rpc_context where
  "default_context = \<lparr>ctx_region_id = 0, ctx_region_epoch = None, ctx_peer = None, ctx_replica_read = False,
     ctx_stale_read = False, ctx_is_retry_request = False, ctx_request_source = []\<rparr>"

datatype replica_kind = KindLeader | KindFollower | KindLearner

record 'c region_store =
  rst_region :: region_with_leader
  rst_client :: 'c
  rst_replica_read :: bool
  rst_stale_read :: bool
  rst_attempt :: nat
  rst_patched_request_source :: "string option"
  rst_replica_kind :: "replica_kind option"

definition new_region_store :: "region_with_leader \<Rightarrow> 'c \<Rightarrow> 'c region_store" where
  "new_region_store r client = \<lparr>rst_region = r, rst_client = client, rst_replica_read = False, rst_stale_read = False,
     rst_attempt = 0, rst_patched_request_source = None, rst_replica_kind = None\<rparr>"

text \<open>\<open>RegionStore::apply_to_request\<close> with \<open>set_leader\<close>, \<open>set_replica_read\<close> and \<open>set_stale_read\<close>; the tags and
  interceptors of a user's request context are not modelled.\<close>

definition apply_to_request :: "'c region_store \<Rightarrow> rpc_context \<Rightarrow> rpc_context res" where
  "apply_to_request st ctx =
    (case rl_leader (rst_region st) of
       None \<Rightarrow> Inl (LeaderNotFound (ver_id (rst_region st)))
     | Some leader \<Rightarrow> Inr (ctx\<lparr>ctx_region_id := region_id (rst_region st),
         ctx_region_epoch := mr_region_epoch (rl_region (rst_region st)), ctx_peer := Some leader,
         ctx_replica_read := rst_replica_read st, ctx_stale_read := rst_stale_read st,
         ctx_is_retry_request := (rst_attempt st > 0),
         ctx_request_source := (case rst_patched_request_source st of None \<Rightarrow> ctx_request_source ctx | Some src \<Rightarrow> src)\<rparr>))"

text \<open>The trait \<open>PdClient\<close> over a world \<open>'w\<close>, and what plans take from the runtime: the clock, the random
  numbers, sleeping, and the order in which the concurrent tasks of a \<open>FuturesUnordered\<close> finish.\<close>

record ('w, 'c) pd_client =
  pd_region_for_key :: "'w \<Rightarrow> key \<Rightarrow> 'w \<times> region_with_leader res"
  pd_region_for_id :: "'w \<Rightarrow> u64 \<Rightarrow> 'w \<times> region_with_leader res"
  pd_map_region_to_store :: "'w \<Rightarrow> region_with_leader \<Rightarrow> 'w \<times> 'c region_store res"
  pd_invalidate_region_cache :: "'w \<Rightarrow> region_ver_id \<Rightarrow> 'w"
  pd_invalidate_store_cache :: "'w \<Rightarrow> u64 \<Rightarrow> 'w"
  pd_update_leader :: "'w \<Rightarrow> region_ver_id \<Rightarrow> peer \<Rightarrow> 'w \<times> unit res"
  pd_get_timestamp :: "'w \<Rightarrow> 'w \<times> timestamp res"
  pd_all_stores :: "'w \<Rightarrow> 'w \<times> 'c list res"
  pd_store_health :: "'w \<Rightarrow> store_health"
  pd_set_store_health :: "store_health \<Rightarrow> 'w \<Rightarrow> 'w"
  rt_now :: "'w \<Rightarrow> int"
  rt_rnd :: "'w \<Rightarrow> u64 \<Rightarrow> u64"
  rt_sleep :: "'w \<Rightarrow> u64 \<Rightarrow> 'w"
  rt_order :: "'w \<Rightarrow> nat \<Rightarrow> nat list"

definition store_for_key :: "('w, 'c) pd_client \<Rightarrow> 'w \<Rightarrow> key \<Rightarrow> 'w \<times> 'c region_store res" where
  "store_for_key pd w k =
    (case pd_region_for_key pd w k of (w, Inl e) \<Rightarrow> (w, Inl e) | (w, Inr r) \<Rightarrow> pd_map_region_to_store pd w r)"

definition store_for_id :: "('w, 'c) pd_client \<Rightarrow> 'w \<Rightarrow> u64 \<Rightarrow> 'w \<times> 'c region_store res" where
  "store_for_id pd w i =
    (case pd_region_for_id pd w i of (w, Inl e) \<Rightarrow> (w, Inl e) | (w, Inr r) \<Rightarrow> pd_map_region_to_store pd w r)"

subsection \<open>Errors in responses\<close>

definition extract_errors :: "key_error option list \<Rightarrow> error list option" where
  "extract_errors es = (let errors = map error_from_key_error (List.map_filter (\<lambda>e. e) es)
     in if errors = [] then None else Some errors)"

text \<open>\<open>has_key_error\<close>: the errors of a response with one optional error, and what is left of the field.\<close>

definition opt_key_errors :: "key_error option \<Rightarrow> error list option" where
  "opt_key_errors e = map_option (\<lambda>e. [error_from_key_error e]) e"

definition prewrite_key_errors :: "prewrite_response \<Rightarrow> error list option" where
  "prewrite_key_errors r = extract_errors (map Some (pws_errors r))"

definition flush_key_errors :: "flush_response \<Rightarrow> error list option" where
  "flush_key_errors r = extract_errors (map Some (fls_errors r))"

definition pessimistic_lock_key_errors :: "pessimistic_lock_response \<Rightarrow> error list option" where
  "pessimistic_lock_key_errors r = extract_errors (map Some (pls_errors r))"

definition pessimistic_rollback_key_errors :: "pessimistic_rollback_response \<Rightarrow> error list option" where
  "pessimistic_rollback_key_errors r = extract_errors (map Some (prs_errors r))"

definition scan_key_errors :: "scan_response \<Rightarrow> error list option" where
  "scan_key_errors r = extract_errors (map kv_error (ss_pairs r))"

definition batch_get_key_errors :: "batch_get_response \<Rightarrow> error list option" where
  "batch_get_key_errors r = extract_errors (map kv_error (bgs_pairs r))"

end
