(* ===== verification/Plan.thy ===== *)
theory Plan
  imports Plan_Types
begin

text \<open>
  Plans that retry over regions (\<open>request/plan.rs\<close>): the handling of region errors, \<open>RetryableMultiRegion\<close>
  with its mutually recursive handlers, and the plans that wrap it. A plan with a shardable request is a
  record of its operations over a plan state \<open>'p\<close>. The handlers recurse as often as stores report errors
  that are retried at once, so they run on fuel, and None is running out of it; a result is paired with the
  plan state that was executed for it, which is not part of what the code returns.
\<close>

subsection \<open>Region errors\<close>

definition on_region_epoch_not_match ::
  "('w, 'c) pd_client \<Rightarrow> 'w \<Rightarrow> 'c region_store \<Rightarrow> epoch_not_match \<Rightarrow> 'w \<times> bool res" where
  "on_region_epoch_not_match pd w st err =
    (let region = rst_region st;
         invalidated = pd_invalidate_region_cache pd w (ver_id region)
     in if enm_current_regions err = [] then (invalidated, Inr False)
        else
         (let verdict = (\<lambda>r. if mr_id r \<noteq> region_id region then None
              else (case (mr_region_epoch r, mr_region_epoch (rl_region region)) of
                 (None, _) \<Rightarrow> Some True
               | (Some _, None) \<Rightarrow> Some True
               | (Some returned, Some current) \<Rightarrow>
                   if conf_ver returned < conf_ver current \<or> version returned < version current then Some False else None))
          in case List.map_filter verdict (enm_current_regions err) of
               [] \<Rightarrow> (invalidated, Inr True)
             | True # _ \<Rightarrow> (invalidated, Inr True)
             | False # _ \<Rightarrow> (w, Inr False)))"

definition handle_region_error ::
  "('w, 'c) pd_client \<Rightarrow> 'w \<Rightarrow> region_error_msg \<Rightarrow> 'c region_store \<Rightarrow> 'w \<times> bool res" where
  "handle_region_error pd w e st =
    (let v = ver_id (rst_region st);
         invalidated = pd_invalidate_region_cache pd w v
     in case re_not_leader e of
          Some nl \<Rightarrow>
           (case nl_leader nl of
              Some leader \<Rightarrow>
               (case pd_update_leader pd w v leader of
                  (w', Inr _) \<Rightarrow> (w', Inr True)
                | (w', Inl err) \<Rightarrow> (pd_invalidate_region_cache pd w' v, Inl err))
            | None \<Rightarrow> (invalidated, Inr False))
        | None \<Rightarrow>
         if re_store_not_match e
         then ((case get_store_id (rst_region st) of Inr i \<Rightarrow> pd_invalidate_store_cache pd invalidated i | Inl _ \<Rightarrow> invalidated), Inr True)
         else (case re_epoch_not_match e of
            Some err \<Rightarrow> on_region_epoch_not_match pd w st err
          | None \<Rightarrow>
            if re_region_not_found e \<noteq> None \<or> re_key_not_in_region e then (invalidated, Inr True)
            else if re_stale_command e then (invalidated, Inr False)
            else if re_server_is_busy e \<noteq> None \<or> re_max_timestamp_not_synced e \<or> re_read_index_not_ready e
              \<or> re_proposal_in_merging_mode e then (w, Inr False)
            else if re_raft_entry_too_large e then (w, Inl (RegionError e))
            else (invalidated, Inr False)))"

subsection \<open>Retrying over regions\<close>

definition replica_kind_for_peer :: "peer \<Rightarrow> peer \<Rightarrow> replica_kind" where
  "replica_kind_for_peer leader p =
    (if peer_store_id p = peer_store_id leader then KindLeader else if is_learner p then KindLearner else KindFollower)"

fun replica_kind_str :: "replica_kind \<Rightarrow> string" where
  "replica_kind_str KindLeader = ''leader''"
| "replica_kind_str KindFollower = ''follower''"
| "replica_kind_str KindLearner = ''learner''"

fun is_grpc_error :: "error \<Rightarrow> bool" where
  "is_grpc_error (GrpcAPI n) = True"
| "is_grpc_error Grpc = True"
| "is_grpc_error _ = False"

text \<open>The world and the routing of the request, which is shared by its retries.\<close>

record 'w plan_state =
  ps_world :: 'w
  ps_routing :: read_routing

record ('w, 'c, 'p, 'sh, 'resp) plan_ops =
  op_shards :: "'w \<Rightarrow> 'p \<Rightarrow> ('w \<times> ('sh \<times> region_with_leader) res list) option"
  op_apply_shard :: "'sh \<Rightarrow> 'p \<Rightarrow> 'p"
  op_apply_store :: "'c region_store \<Rightarrow> 'p \<Rightarrow> 'p res"
  op_execute :: "'w plan_state \<Rightarrow> 'p \<Rightarrow> ('w plan_state \<times> 'resp res) option"
  op_key_errors :: "'resp \<Rightarrow> error list option"
  op_region_error :: "'resp \<Rightarrow> region_error_msg option"

definition set_world :: "'w \<Rightarrow> 'w plan_state \<Rightarrow> 'w plan_state" where
  "set_world w s = s\<lparr>ps_world := w\<rparr>"

definition map_routing :: "(read_routing \<Rightarrow> read_routing) \<Rightarrow> 'w plan_state \<Rightarrow> 'w plan_state" where
  "map_routing f s = s\<lparr>ps_routing := f (ps_routing s)\<rparr>"

text \<open>What one try of a shard leads to: a result, or another try of the plan with a backoff and a count of
  attempts.\<close>

datatype ('p, 'resp) shard_next = Done "'resp res list res" | Retry 'p backoff nat

text \<open>A delay of the backoff and the sleep; None is the panic of an empty range of random numbers.\<close>

definition back_off :: "('w, 'c) pd_client \<Rightarrow> 'w plan_state \<Rightarrow> backoff \<Rightarrow> ('w plan_state \<times> backoff option) option" where
  "back_off pd s b =
    (case next_delay_duration (rt_rnd pd (ps_world s)) b of
       None \<Rightarrow> None
     | Some (b', None) \<Rightarrow> Some (s, None)
     | Some (b', Some d) \<Rightarrow> Some (set_world (rt_sleep pd (ps_world s) d) s, Some b'))"

definition handle_other_error ::
  "('w, 'c) pd_client \<Rightarrow> 'w plan_state \<Rightarrow> 'p \<Rightarrow> region_ver_id \<Rightarrow> u64 option \<Rightarrow> backoff \<Rightarrow> nat \<Rightarrow> error
     \<Rightarrow> ('w plan_state \<times> ('p, 'resp) shard_next) option" where
  "handle_other_error pd s plan v store b attempt e =
    (let w = pd_invalidate_region_cache pd (ps_world s) v;
         w = (if is_grpc_error e then (case store of None \<Rightarrow> w | Some i \<Rightarrow> pd_invalidate_store_cache pd w i) else w)
     in case back_off pd (set_world w s) b of
          None \<Rightarrow> None
        | Some (s', Some b') \<Rightarrow> Some (s', Retry plan b' (attempt + 1))
        | Some (s', None) \<Rightarrow> Some (s', Done (Inl e)))"

definition request_source_override ::
  "int \<Rightarrow> read_routing \<Rightarrow> region_with_leader \<Rightarrow> peer \<Rightarrow> peer \<Rightarrow> nat \<Rightarrow> string option res" where
  "request_source_override now rr region leader target attempt =
    (case rr_input_request_source rr of
       None \<Rightarrow> Inr None
     | Some input \<Rightarrow>
        if input = [] then Inr None
        else ok_bind (select_peer_for_request_source now rr region) (\<lambda>base.
          let kind = replica_kind_str (replica_kind_for_peer leader (rp_target_peer base));
              base_read_type = (if rp_stale_read base then ''stale_'' @ kind else kind)
          in Inr (Some (if attempt = 0 then base_read_type @ ''_'' @ input
               else ''retry_'' @ base_read_type @ ''_'' @ replica_kind_str (replica_kind_for_peer leader target) @ ''_'' @ input))))"

definition STALE_READ_MAX_RETRIES :: nat where "STALE_READ_MAX_RETRIES = 120"
definition STALE_READ_SLEEP :: u64 where "STALE_READ_SLEEP = 200"

definition non_witness_peers :: "region_with_leader \<Rightarrow> nat" where
  "non_witness_peers r = length (filter (\<lambda>p. \<not> peer_is_witness p) (mr_peers (rl_region r)))"

text \<open>A region error that is not resolved yet: another replica at once, while there is one, or a delay.\<close>

definition retry_unresolved ::
  "('w, 'c) pd_client \<Rightarrow> 'w plan_state \<Rightarrow> 'p \<Rightarrow> region_with_leader \<Rightarrow> backoff \<Rightarrow> nat \<Rightarrow> region_error_msg
     \<Rightarrow> ('w plan_state \<times> ('p, 'resp) shard_next) option" where
  "retry_unresolved pd s plan region b attempt e =
    (if is_replica_read_mode (ps_routing s) \<and> re_server_is_busy e \<noteq> None
        \<and> non_witness_peers region > 1 \<and> attempt + 1 < non_witness_peers region
     then
       Some (case get_store_id region of
           Inr i \<Rightarrow> map_routing (mark_store_slow_for (rt_now pd (ps_world s)) i 500 \<circ> add_pending_backoff (Some i) TikvServerBusy e) s
         | Inl _ \<Rightarrow> s, Retry plan b (attempt + 1))
     else
      (case back_off pd s b of
         None \<Rightarrow> None
       | Some (s', Some b') \<Rightarrow> Some (s', Retry plan b' (attempt + 1))
       | Some (s', None) \<Rightarrow> Some (s', Done (Inl (RegionError e)))))"

text \<open>Errors that are gone soon keep the peer for the next try.\<close>

definition pin_after_error :: "region_error_msg \<Rightarrow> region_with_leader \<Rightarrow> read_routing \<Rightarrow> read_routing" where
  "pin_after_error e region rr =
    (if re_max_timestamp_not_synced e \<or> re_read_index_not_ready e \<or> re_proposal_in_merging_mode e
     then (case get_store_id region of Inr i \<Rightarrow> pin_store_for_region (region_id region) i rr | Inl _ \<Rightarrow> rr)
     else clear_pinned_store_for_region (region_id region) rr)"

text \<open>The part of \<open>single_shard_handler\<close> that handles a region error of the response.\<close>

definition on_region_error ::
  "('w, 'c) pd_client \<Rightarrow> 'w plan_state \<Rightarrow> 'p \<Rightarrow> 'c region_store \<Rightarrow> backoff \<Rightarrow> nat \<Rightarrow> region_error_msg
     \<Rightarrow> ('w plan_state \<times> ('p, 'resp) shard_next) option" where
  "on_region_error pd s plan st b attempt e =
    (if re_data_is_not_ready e \<noteq> None \<and> rst_stale_read st then
       (if attempt \<ge> STALE_READ_MAX_RETRIES then Some (s, Done (Inl (RegionError e)))
        else Some (set_world (rt_sleep pd (ps_world s) STALE_READ_SLEEP) s, Retry plan b (attempt + 1)))
     else
      (let region = rst_region st;
           s = map_routing (pin_after_error e region) s
       in if is_replica_read_mode (ps_routing s) \<and> re_stale_command e then
            (let s = map_routing (clear_pinned_store_for_region (region_id region)) s
             in if attempt + 1 \<ge> non_witness_peers region
                then Some (set_world (pd_invalidate_region_cache pd (ps_world s) (ver_id region)) s, Done (Inl (RegionError e)))
                else Some (s, Retry plan b (attempt + 1)))
          else
           (case handle_region_error pd (ps_world s) e st of
              (w, Inl err) \<Rightarrow> Some (set_world w s, Done (Inl err))
            | (w, Inr resolved) \<Rightarrow>
                if resolved then Some (set_world w s, Retry plan b (attempt + 1))
                else retry_unresolved pd (set_world w s) plan region b attempt e)))"

text \<open>From the response of a store to a result or a retry.\<close>

definition on_response ::
  "('w, 'c) pd_client \<Rightarrow> ('w, 'c, 'p, 'sh, 'resp) plan_ops \<Rightarrow> 'w plan_state \<Rightarrow> 'p \<Rightarrow> 'c region_store \<Rightarrow> backoff
     \<Rightarrow> nat \<Rightarrow> 'resp \<Rightarrow> ('w plan_state \<times> ('p, 'resp) shard_next) option" where
  "on_response pd ops s plan st b attempt resp =
    (case op_key_errors ops resp of
       Some es \<Rightarrow> Some (s, Done (Inr [Inl (MultipleKeyErrors es)]))
     | None \<Rightarrow>
        (case op_region_error ops resp of
           Some e \<Rightarrow> on_region_error pd s plan st b attempt e
         | None \<Rightarrow> Some (map_routing (clear_pinned_store_for_region (region_id (rst_region st))) s, Done (Inr [Inr resp]))))"

definition pending_exhausted :: error where
  "pending_exhausted = RegionError (default_region_error\<lparr>re_message := ''backoff attempts exhausted while applying pending backoff''\<rparr>)"

text \<open>The pending backoff of the store that is about to be asked.\<close>

definition apply_pending ::
  "('w, 'c) pd_client \<Rightarrow> 'w plan_state \<Rightarrow> region_with_leader \<Rightarrow> backoff \<Rightarrow> ('w plan_state \<times> backoff option) option" where
  "apply_pending pd s region b =
    (case get_store_id region of
       Inl _ \<Rightarrow> Some (s, Some b)
     | Inr i \<Rightarrow>
        (case take_pending_backoff_for_retry (Some i) (ps_routing s) of
           (None, rr) \<Rightarrow> Some (s\<lparr>ps_routing := rr\<rparr>, Some b)
         | (Some pending, rr) \<Rightarrow> back_off pd (s\<lparr>ps_routing := rr\<rparr>) b))"

text \<open>Choosing the peer and its store; the request is pointed at it.\<close>

definition attach_store ::
  "('w, 'c) pd_client \<Rightarrow> ('w, 'c, 'p, 'sh, 'resp) plan_ops \<Rightarrow> 'w plan_state \<Rightarrow> 'p \<Rightarrow> region_with_leader \<Rightarrow> nat
     \<Rightarrow> 'w plan_state \<times> ('p \<times> 'c region_store) res" where
  "attach_store pd ops s plan region attempt =
    (let rr = ps_routing s; now = rt_now pd (ps_world s)
     in case select_peer now rr region attempt of
          Inl e \<Rightarrow> (s, Inl e)
        | Inr read_peer \<Rightarrow>
           (case rl_leader region of
              None \<Rightarrow> (s, Inl (LeaderNotFound (ver_id region)))
            | Some leader \<Rightarrow>
               (case request_source_override now rr region leader (rp_target_peer read_peer) attempt of
                  Inl e \<Rightarrow> (s, Inl e)
                | Inr src \<Rightarrow>
                   (case pd_map_region_to_store pd (ps_world s) (region\<lparr>rl_leader := Some (rp_target_peer read_peer)\<rparr>) of
                      (w, Inl e) \<Rightarrow> (set_world w s, Inl e)
                    | (w, Inr st) \<Rightarrow>
                       (let st = st\<lparr>rst_replica_read := rp_replica_read read_peer, rst_stale_read := rp_stale_read read_peer,
                              rst_attempt := attempt,
                              rst_replica_kind := Some (replica_kind_for_peer leader (rp_target_peer read_peer)),
                              rst_patched_request_source := src\<rparr>
                        in (set_world w s, map_sum id (\<lambda>plan. (plan, st)) (op_apply_store ops st plan)))))))"

text \<open>\<open>single_shard_handler\<close> up to its recursive calls.\<close>

definition single_shard_step ::
  "('w, 'c) pd_client \<Rightarrow> ('w, 'c, 'p, 'sh, 'resp) plan_ops \<Rightarrow> 'w plan_state \<Rightarrow> 'p \<Rightarrow> region_with_leader \<Rightarrow> backoff
     \<Rightarrow> nat \<Rightarrow> ('w plan_state \<times> 'p \<times> ('p, 'resp) shard_next) option" where
  "single_shard_step pd ops s plan region b attempt =
    (case attach_store pd ops s plan region attempt of
       (s, Inl (LeaderNotFound v)) \<Rightarrow>
         map_option (\<lambda>(s, n). (s, plan, n)) (handle_other_error pd s plan v None b (attempt + 1) (LeaderNotFound v))
     | (s, Inl e) \<Rightarrow> Some (s, plan, Done (Inl e))
     | (s, Inr (plan, st)) \<Rightarrow>
        (case apply_pending pd s (rst_region st) b of
           None \<Rightarrow> None
         | Some (s, None) \<Rightarrow> Some (s, plan, Done (Inl pending_exhausted))
         | Some (s, Some b) \<Rightarrow>
            (case op_execute ops s plan of
               None \<Rightarrow> None
             | Some (s, Inl e) \<Rightarrow>
                if is_grpc_error e then
                  (let store = (case get_store_id (rst_region st) of Inl _ \<Rightarrow> None | Inr i \<Rightarrow> Some i);
                       s = (case store of None \<Rightarrow> s | Some i \<Rightarrow> map_routing (mark_store_slow_for (rt_now pd (ps_world s)) i 500) s)
                   in map_option (\<lambda>(s, n). (s, plan, n))
                        (handle_other_error pd s plan (ver_id (rst_region st)) store b (attempt + 1) e))
                else Some (s, plan, Done (Inl e))
             | Some (s, Inr resp) \<Rightarrow>
                map_option (\<lambda>(s, n). (s, plan, n)) (on_response pd ops s plan st b attempt resp))))"

text \<open>\<open>single_plan_handler\<close>, with the tasks of the shards run in the order in which they finish. Without
  \<open>preserve_region_results\<close> the first failure is returned and the tasks that have not finished are dropped.\<close>

type_synonym ('p, 'resp) plan_result = "('p \<times> 'resp res) list res"

text \<open>An order of the tasks is a permutation of their indices; any other list stands for the order of the stream.\<close>

definition in_order :: "nat list \<Rightarrow> 'a list \<Rightarrow> 'a list" where
  "in_order is xs = (if sort is = [0..<length xs] then map (\<lambda>i. xs ! i) is else xs)"

fun run_shards ::
  "('w, 'c) pd_client \<Rightarrow> ('w, 'c, 'p, 'sh, 'resp) plan_ops \<Rightarrow> bool
     \<Rightarrow> ('w plan_state \<Rightarrow> 'p \<Rightarrow> backoff \<Rightarrow> nat \<Rightarrow> ('w plan_state \<times> ('p, 'resp) plan_result) option)
     \<Rightarrow> backoff \<Rightarrow> nat \<Rightarrow> 'w plan_state \<Rightarrow> ('p \<times> region_with_leader) list \<Rightarrow> ('w plan_state \<times> ('p, 'resp) plan_result) option" where
  "run_shards pd ops preserve again b attempt s [] = Some (s, Inr [])"
| "run_shards pd ops preserve again b attempt s ((plan, region) # tasks) =
    (case (case single_shard_step pd ops s plan region b attempt of
             None \<Rightarrow> None
           | Some (s, p, Done r) \<Rightarrow> Some (s, map_sum id (map (\<lambda>x. (p, x))) r)
           | Some (s, p, Retry p' b' attempt') \<Rightarrow> again s p' b' attempt') of
       None \<Rightarrow> None
     | Some (s, Inl e) \<Rightarrow>
        (if preserve
         then map_option (map_prod id (map_sum id (\<lambda>rs. (plan, Inl e) # rs))) (run_shards pd ops preserve again b attempt s tasks)
         else Some (s, Inl e))
     | Some (s, Inr rs) \<Rightarrow>
        map_option (map_prod id (map_sum id (\<lambda>rs'. rs @ rs'))) (run_shards pd ops preserve again b attempt s tasks))"

primrec single_plan_handler ::
  "('w, 'c) pd_client \<Rightarrow> ('w, 'c, 'p, 'sh, 'resp) plan_ops \<Rightarrow> bool \<Rightarrow> nat \<Rightarrow> 'w plan_state \<Rightarrow> 'p \<Rightarrow> backoff \<Rightarrow> nat
     \<Rightarrow> ('w plan_state \<times> ('p, 'resp) plan_result) option" where
  "single_plan_handler pd ops preserve 0 = (\<lambda>s plan b attempt. None)"
| "single_plan_handler pd ops preserve (Suc fuel) = (\<lambda>s plan b attempt.
    (case op_shards ops (ps_world s) plan of
       None \<Rightarrow> None
     | Some (w, shards) \<Rightarrow>
        (case first_error shards of
           Some e \<Rightarrow> Some (set_world w s, Inl e)
         | None \<Rightarrow> run_shards pd ops preserve (single_plan_handler pd ops preserve fuel) b attempt (set_world w s)
             (in_order (rt_order pd w (length shards)) (map (\<lambda>(sh, r). (op_apply_shard ops sh plan, r)) (oks shards))))))"

definition retry_multi_region ::
  "('w, 'c) pd_client \<Rightarrow> ('w, 'c, 'p, 'sh, 'resp) plan_ops \<Rightarrow> bool \<Rightarrow> nat \<Rightarrow> backoff \<Rightarrow> 'w plan_state \<Rightarrow> 'p
     \<Rightarrow> ('w plan_state \<times> ('p, 'resp) plan_result) option" where
  "retry_multi_region pd ops preserve fuel b s plan = single_plan_handler pd ops preserve fuel s plan b 0"

end
