(* ===== verification/Plan_Props.thy ===== *)
theory Plan_Props
  imports Plan
begin

text \<open>
  What a plan over regions guarantees: which keys were answered when it succeeds, when it ends, and what each
  region error leads to. The locale \<open>region_plan\<close> is what a plan asks of the client it runs on.
\<close>

text \<open>An answer: a response without errors that a store gave to the plan that is paired with it.\<close>

definition answered :: "('w, 'c, 'p, 'sh, 'resp) plan_ops \<Rightarrow> 'p \<times> 'resp res \<Rightarrow> bool" where
  "answered ops pr \<longleftrightarrow> (\<forall>resp. snd pr = Inr resp \<longrightarrow> op_key_errors ops resp = None \<and> op_region_error ops resp = None
     \<and> (\<exists>s s'. op_execute ops s (fst pr) = Some (s', Inr resp)))"

text \<open>The items that a list of results speaks of.\<close>

definition covered :: "('p \<Rightarrow> 'k list) \<Rightarrow> ('p \<times> 'resp res) list \<Rightarrow> 'k multiset" where
  "covered items rs = mset (concat (map (items \<circ> fst) rs))"

lemma covered_simps [simp]: "covered items [] = {#}" "covered items (x # rs) = mset (items (fst x)) + covered items rs"
  "covered items (rs @ rs') = covered items rs + covered items rs'"
  by (simp_all add: covered_def)

subsection \<open>The client under a plan\<close>

text \<open>The promises of the surroundings: every operation of the client and of the runtime keeps the invariant
  of the world, and pointing a request at a store keeps its items.\<close>

locale region_plan = shardable inv shards apply_shard items key_of
  for inv :: "'w \<Rightarrow> bool"
    and shards :: "'w \<Rightarrow> 'p \<Rightarrow> 'w \<times> ('sh \<times> region_with_leader) res list"
    and apply_shard :: "'sh \<Rightarrow> 'p \<Rightarrow> 'p"
    and items :: "'p \<Rightarrow> 'k list"
    and key_of :: "'k \<Rightarrow> key" +
  fixes pd :: "('w, 'c) pd_client"
    and ops :: "('w, 'c, 'p, 'sh, 'resp) plan_ops"
  assumes ops_shards: "op_shards ops w p = Some (shards w p)"
    and ops_apply_shard: "op_apply_shard ops = apply_shard"
    and apply_store_items: "op_apply_store ops st p = Inr p' \<Longrightarrow> items p' = items p"
    and execute_inv: "inv (ps_world s) \<Longrightarrow> op_execute ops s p = Some (s', r) \<Longrightarrow> inv (ps_world s')"
    and map_store_inv: "inv w \<Longrightarrow> inv (fst (pd_map_region_to_store pd w region))"
    and invalidate_region_inv: "inv w \<Longrightarrow> inv (pd_invalidate_region_cache pd w v)"
    and invalidate_store_inv: "inv w \<Longrightarrow> inv (pd_invalidate_store_cache pd w i)"
    and update_leader_inv: "inv w \<Longrightarrow> inv (fst (pd_update_leader pd w v leader))"
    and sleep_inv: "inv w \<Longrightarrow> inv (rt_sleep pd w d)"

locale lossless_region_plan = region_plan + lossless_shardable

subsection \<open>One try of a shard\<close>

lemma world_simps [simp]:
  "ps_world (set_world w s) = w" "ps_world (map_routing f s) = ps_world s" "ps_routing (set_world w s) = ps_routing s"
  "ps_world (s\<lparr>ps_routing := rr\<rparr>) = ps_world s"
  by (simp_all add: set_world_def map_routing_def)

lemma mset_in_order: "mset (in_order is xs) = mset xs"
proof (cases "sort is = [0..<length xs]")
  case True
  then have "mset is = mset [0..<length xs]" by (metis mset_sort)
  then have "image_mset (\<lambda>i. xs ! i) (mset is) = mset (map (\<lambda>i. xs ! i) [0..<length xs])" by simp
  with True show ?thesis by (simp add: in_order_def map_nth)
qed (simp add: in_order_def)

lemma map_sum_Inr_iff: "map_sum f g x = Inr y \<longleftrightarrow> (\<exists>z. x = Inr z \<and> y = g z)"
  by (cases x) auto

lemma mset_concat_map: "mset (concat (map f xs)) = sum_mset (image_mset (\<lambda>x. mset (f x)) (mset xs))"
  by (induction xs) simp_all

text \<open>A try that does not succeed either fails or tries the same request again.\<close>

definition retries_or_fails :: "'p \<Rightarrow> ('p, 'resp) shard_next \<Rightarrow> bool" where
  "retries_or_fails plan n \<longleftrightarrow> (case n of Done (Inl e) \<Rightarrow> True | Done (Inr _) \<Rightarrow> False | Retry p b k \<Rightarrow> p = plan)"

lemma retries_or_fails_simps [simp]:
  "retries_or_fails plan (Done (Inl e))" "retries_or_fails plan (Retry p b k) \<longleftrightarrow> p = plan"
  "\<not> retries_or_fails plan (Done (Inr rs))"
  by (simp_all add: retries_or_fails_def)

lemma handle_other_error_next:
  "handle_other_error pd s plan v store b attempt e = Some (s', n) \<Longrightarrow> retries_or_fails plan n"
  by (auto simp: handle_other_error_def Let_def split: option.splits)

lemma retry_unresolved_next:
  "retry_unresolved pd s plan region b attempt e = Some (s', n) \<Longrightarrow> retries_or_fails plan n"
  by (auto simp: retry_unresolved_def split: option.splits if_splits)

lemma on_region_error_next:
  "on_region_error pd s plan st b attempt e = Some (s', n) \<Longrightarrow> retries_or_fails plan n"
  unfolding on_region_error_def Let_def
  by (auto dest: retry_unresolved_next split: if_splits sum.splits prod.splits)

text \<open>Handling a region error touches the world through the operations of the client only.\<close>

lemma handle_region_error_keeps:
  assumes w: "I w" and invalidate: "\<And>w v. I w \<Longrightarrow> I (pd_invalidate_region_cache pd w v)"
    and store: "\<And>w i. I w \<Longrightarrow> I (pd_invalidate_store_cache pd w i)"
    and leader: "\<And>w v l. I w \<Longrightarrow> I (fst (pd_update_leader pd w v l))"
  shows "I (fst (handle_region_error pd w e st))"
proof -
  have ep: "I (fst (on_region_epoch_not_match pd w st en))" for en
    using w by (auto simp: on_region_epoch_not_match_def Let_def invalidate split: list.splits bool.splits)
  have up: "I (fst (case pd_update_leader pd w v l of (w', Inr _) \<Rightarrow> (w', Inr True)
      | (w', Inl err) \<Rightarrow> (pd_invalidate_region_cache pd w' v, Inl err)))" for v l
    using leader [OF w, of v l] by (auto simp: invalidate split: prod.splits sum.splits)
  show ?thesis
  proof (cases "re_not_leader e")
    case (Some nl)
    then show ?thesis using w up by (cases "nl_leader nl") (simp_all add: handle_region_error_def Let_def invalidate)
  next
    case None
    then show ?thesis using w ep
      by (cases "re_epoch_not_match e") (simp_all add: handle_region_error_def Let_def invalidate store split: sum.split)
  qed
qed

context region_plan
begin

lemma back_off_inv: "inv (ps_world s) \<Longrightarrow> back_off pd s b = Some (s', b') \<Longrightarrow> inv (ps_world s')"
  by (auto simp: back_off_def sleep_inv split: option.splits prod.splits)

lemma handle_other_error_inv:
  assumes "inv (ps_world s)" "handle_other_error pd s plan v store b attempt e = Some (s', n)"
  shows "inv (ps_world s')"
proof -
  let ?w1 = "pd_invalidate_region_cache pd (ps_world s) v"
  let ?w = "if is_grpc_error e then (case store of None \<Rightarrow> ?w1 | Some i \<Rightarrow> pd_invalidate_store_cache pd ?w1 i) else ?w1"
  have "inv ?w" using assms(1) by (simp add: invalidate_region_inv invalidate_store_inv split: option.split)
  moreover obtain b' where "back_off pd (set_world ?w s) b = Some (s', b')"
    using assms(2) by (auto simp: handle_other_error_def Let_def split: option.splits)
  ultimately show ?thesis using back_off_inv [of "set_world ?w s" b s' b'] by simp
qed

lemma handle_region_error_inv: "inv w \<Longrightarrow> inv (fst (handle_region_error pd w e st))"
  by (rule handle_region_error_keeps) (simp_all add: invalidate_region_inv invalidate_store_inv update_leader_inv)

lemma retry_unresolved_inv:
  assumes "inv (ps_world s)" "retry_unresolved pd s plan region b attempt e = Some (s', n)"
  shows "inv (ps_world s')"
proof (cases "is_replica_read_mode (ps_routing s) \<and> re_server_is_busy e \<noteq> None
    \<and> non_witness_peers region > 1 \<and> attempt + 1 < non_witness_peers region")
  case True
  then show ?thesis using assms by (auto simp: retry_unresolved_def split: sum.splits)
next
  case False
  then obtain b' where "back_off pd s b = Some (s', b')"
    using assms(2) by (auto simp: retry_unresolved_def split: option.splits)
  then show ?thesis using back_off_inv [OF assms(1)] by blast
qed

lemma on_region_error_inv:
  assumes "inv (ps_world s)" "on_region_error pd s plan st b attempt e = Some (s', n)"
  shows "inv (ps_world s')"
proof -
  let ?s0 = "map_routing (pin_after_error e (rst_region st)) s"
  obtain w r where h: "handle_region_error pd (ps_world s) e st = (w, r)" by fastforce
  have w: "inv w" using handle_region_error_inv [OF assms(1), of e st] h by simp
  have "inv (ps_world s')" if "retry_unresolved pd (set_world w ?s0) plan (rst_region st) b attempt e = Some (s', n)"
    using retry_unresolved_inv [OF _ that] w by simp
  then show ?thesis
    using assms w h unfolding on_region_error_def
    by (cases r) (auto simp: Let_def sleep_inv invalidate_region_inv split: if_splits)
qed

lemma apply_pending_inv:
  assumes "inv (ps_world s)" "apply_pending pd s region b = Some (s', b')"
  shows "inv (ps_world s')"
proof (cases "get_store_id region")
  case (Inr i)
  obtain p rr where t: "take_pending_backoff_for_retry (Some i) (ps_routing s) = (p, rr)" by fastforce
  show ?thesis
    using assms Inr t back_off_inv [of "s\<lparr>ps_routing := rr\<rparr>" b s' b'] by (cases p) (auto simp: apply_pending_def)
qed (use assms in \<open>auto simp: apply_pending_def\<close>)

lemma attach_store_inv:
  assumes "inv (ps_world s)" "attach_store pd ops s plan region attempt = (s', r)"
  shows "inv (ps_world s')" "r = Inr (p, st) \<Longrightarrow> items p = items plan"
proof -
  obtain w m where m: "pd_map_region_to_store pd (ps_world s)
      (region\<lparr>rl_leader := Some (rp_target_peer rp)\<rparr>) = (w rp, m rp)" for rp :: read_peer
    using that [of "\<lambda>rp. fst (pd_map_region_to_store pd (ps_world s) (region\<lparr>rl_leader := Some (rp_target_peer rp)\<rparr>))"
      "\<lambda>rp. snd (pd_map_region_to_store pd (ps_world s) (region\<lparr>rl_leader := Some (rp_target_peer rp)\<rparr>))"] by simp
  have w: "inv (w rp)" for rp
    using map_store_inv [OF assms(1), of "region\<lparr>rl_leader := Some (rp_target_peer rp)\<rparr>"] m [of rp] by simp
  show "inv (ps_world s')"
    using assms w by (auto simp: attach_store_def Let_def m split: sum.splits option.splits)
  show "r = Inr (p, st) \<Longrightarrow> items p = items plan"
    using assms(2) apply_store_items
    by (auto simp: attach_store_def Let_def m map_sum_Inr_iff split: sum.splits option.splits)
qed

text \<open>What a task has shown when it is done: a result for exactly its items, and for a success a response
  without errors to that very request.\<close>

lemma on_response_facts:
  assumes "inv (ps_world s)" "op_execute ops s0 p = Some (s, Inr resp)"
    and "on_response pd ops s p st b attempt resp = Some (s', n)"
  shows "inv (ps_world s') \<and> (retries_or_fails p n \<or> (\<exists>x. n = Done (Inr [x]) \<and> answered ops (p, x)))"
proof (cases "op_key_errors ops resp")
  case (Some es)
  then show ?thesis using assms by (auto simp: on_response_def answered_def)
next
  case None
  show ?thesis
  proof (cases "op_region_error ops resp")
    case (Some e)
    then show ?thesis
      using assms(3) None on_region_error_next on_region_error_inv [OF assms(1)] by (fastforce simp: on_response_def)
  next
    case nr: None
    then show ?thesis using assms None by (auto simp: on_response_def answered_def)
  qed
qed

lemma single_shard_step_facts:
  assumes "inv (ps_world s)" "single_shard_step pd ops s plan region b attempt = Some (s', p, n)"
  shows "inv (ps_world s') \<and> items p = items plan \<and> (retries_or_fails p n \<or> (\<exists>x. n = Done (Inr [x]) \<and> answered ops (p, x)))"
proof -
  obtain s1 r where at: "attach_store pd ops s plan region attempt = (s1, r)" by fastforce
  note ai = attach_store_inv [OF assms(1) at]
  show ?thesis
  proof (cases r)
    case (Inl e)
    then consider v where "e = LeaderNotFound v" "p = plan"
        "handle_other_error pd s1 plan v None b (attempt + 1) (LeaderNotFound v) = Some (s', n)"
      | "s' = s1" "p = plan" "n = Done (Inl e)"
      using assms(2) at by (cases e) (auto simp: single_shard_step_def)
    then show ?thesis
    proof cases
      case 1
      then show ?thesis using handle_other_error_inv [OF ai(1) 1(3)] handle_other_error_next [OF 1(3)] by simp
    next
      case 2
      then show ?thesis using ai(1) by simp
    qed
  next
    case (Inr ps)
    obtain p1 st where ps: "ps = (p1, st)" by fastforce
    have it: "items p1 = items plan" using ai(2) Inr ps by simp
    from assms(2) at Inr ps obtain s2 b2 where ap: "apply_pending pd s1 (rst_region st) b = Some (s2, b2)"
      by (auto simp: single_shard_step_def split: option.splits)
    have i2: "inv (ps_world s2)" by (rule apply_pending_inv [OF ai(1) ap])
    show ?thesis
    proof (cases b2)
      case None
      then show ?thesis using assms(2) at Inr ps ap i2 it by (auto simp: single_shard_step_def)
    next
      case (Some b3)
      with assms(2) at Inr ps ap obtain s3 r3 where ex: "op_execute ops s2 p1 = Some (s3, r3)"
        by (auto simp: single_shard_step_def split: option.splits)
      have i3: "inv (ps_world s3)" by (rule execute_inv [OF i2 ex])
      show ?thesis
      proof (cases r3)
        case (Inl e)
        let ?store = "case get_store_id (rst_region st) of Inl _ \<Rightarrow> None | Inr i \<Rightarrow> Some i"
        let ?s4 = "case ?store of None \<Rightarrow> s3 | Some i \<Rightarrow> map_routing (mark_store_slow_for (rt_now pd (ps_world s3)) i 500) s3"
        have i4: "inv (ps_world ?s4)" using i3 by (simp split: option.split)
        show ?thesis
        proof (cases "is_grpc_error e")
          case True
          then have h: "p = p1" "handle_other_error pd ?s4 p1 (ver_id (rst_region st)) ?store b3 (attempt + 1) e = Some (s', n)"
            using assms(2) at \<open>r = Inr ps\<close> ps ap Some ex Inl by (auto simp: single_shard_step_def Let_def)
          show ?thesis using handle_other_error_inv [OF i4 h(2)] handle_other_error_next [OF h(2)] it h(1) by simp
        next
          case False
          then show ?thesis using assms(2) at \<open>r = Inr ps\<close> ps ap Some ex Inl i3 it by (auto simp: single_shard_step_def)
        qed
      next
        case (Inr resp)
        then have "p = p1" "on_response pd ops s3 p1 st b3 attempt resp = Some (s', n)"
          using assms(2) at \<open>r = Inr ps\<close> ps ap Some ex by (auto simp: single_shard_step_def)
        then show ?thesis using on_response_facts [OF i3 ex [unfolded Inr]] it by simp
      qed
    qed
  qed
qed

text \<open>The claim on a handler: it keeps the invariant and its results are answers; \<open>P\<close> relates the items that
  are covered to those that were asked for.\<close>

definition handles :: "('k multiset \<Rightarrow> 'k multiset \<Rightarrow> bool) \<Rightarrow>
    ('w plan_state \<Rightarrow> 'p \<Rightarrow> backoff \<Rightarrow> nat \<Rightarrow> ('w plan_state \<times> ('p, 'resp) plan_result) option) \<Rightarrow> bool" where
  "handles P h \<longleftrightarrow> (\<forall>s plan b k s' r. inv (ps_world s) \<longrightarrow> h s plan b k = Some (s', r) \<longrightarrow>
     inv (ps_world s') \<and> (\<forall>rs. r = Inr rs \<longrightarrow> P (covered items rs) (mset (items plan)) \<and> list_all (answered ops) rs))"

lemma run_shards_facts:
  assumes h: "handles P again" and refl: "\<And>m. P m m" and plus: "\<And>a b c d. P a b \<Longrightarrow> P c d \<Longrightarrow> P (a + c) (b + d)"
  shows "inv (ps_world s) \<Longrightarrow> run_shards pd ops preserve again b attempt s tasks = Some (s', r) \<Longrightarrow>
     inv (ps_world s') \<and> (\<forall>rs. r = Inr rs \<longrightarrow>
        P (covered items rs) (mset (concat (map (items \<circ> fst) tasks))) \<and> list_all (answered ops) rs)"
proof (induction tasks arbitrary: s s' r)
  case Nil
  then show ?case by (auto simp: refl)
next
  case (Cons t tasks)
  obtain plan region where t: "t = (plan, region)" by fastforce
  let ?one = "case single_shard_step pd ops s plan region b attempt of
             None \<Rightarrow> None
           | Some (s, p, Done r) \<Rightarrow> Some (s, map_sum id (map (\<lambda>x. (p, x))) r)
           | Some (s, p, Retry p' b' attempt') \<Rightarrow> again s p' b' attempt'"
  from Cons.prems(2) t obtain s1 r1 where one: "?one = Some (s1, r1)"
    by (auto split: option.splits)
  have f: "inv (ps_world s1) \<and> (\<forall>rs. r1 = Inr rs \<longrightarrow> P (covered items rs) (mset (items plan)) \<and> list_all (answered ops) rs)"
  proof -
    from one obtain s0 p n where st: "single_shard_step pd ops s plan region b attempt = Some (s0, p, n)"
      by (auto split: option.splits)
    note facts = single_shard_step_facts [OF Cons.prems(1) st]
    show ?thesis
    proof (cases n)
      case (Done res)
      then show ?thesis using one st facts refl [of "mset (items plan)"] by (cases res) auto
    next
      case (Retry p' b' k')
      then have "again s0 p' b' k' = Some (s1, r1)" "items p' = items plan" using one st facts by auto
      then show ?thesis using h facts unfolding handles_def by metis
    qed
  qed
  have step: "run_shards pd ops preserve again b attempt s (t # tasks) =
    (case r1 of Inl e \<Rightarrow> (if preserve
         then map_option (map_prod id (map_sum id (\<lambda>rs. (plan, Inl e) # rs))) (run_shards pd ops preserve again b attempt s1 tasks)
         else Some (s1, Inl e))
     | Inr rs \<Rightarrow> map_option (map_prod id (map_sum id (\<lambda>rs'. rs @ rs'))) (run_shards pd ops preserve again b attempt s1 tasks))"
    unfolding t run_shards.simps one by (simp split: sum.split)
  show ?case
  proof (cases "\<exists>e. r1 = Inl e \<and> \<not> preserve")
    case True
    then show ?thesis using Cons.prems(2) step f by auto
  next
    case False
    then obtain s2 r2 where rest: "run_shards pd ops preserve again b attempt s1 tasks = Some (s2, r2)" "s' = s2"
      using Cons.prems(2) step by (cases r1; cases "run_shards pd ops preserve again b attempt s1 tasks") (auto split: if_splits)
    note IH = Cons.IH [OF conjunct1 [OF f] rest(1)]
    show ?thesis
    proof (cases r1)
      case (Inl e)
      then have "r = map_sum id (\<lambda>rs. (plan, Inl e) # rs) r2" using False Cons.prems(2) step rest by simp
      then show ?thesis using IH rest(2) t plus [OF refl [of "mset (items plan)"]]
        by (cases r2) (auto simp: answered_def)
    next
      case (Inr rs1)
      then have "r = map_sum id (\<lambda>rs'. rs1 @ rs') r2" using Cons.prems(2) step rest by simp
      then show ?thesis using IH rest(2) t f Inr plus [of "covered items rs1" "mset (items plan)"]
        by (cases r2) auto
    qed
  qed
qed

lemma tasks_items:
  "mset (concat (map (items \<circ> fst) (in_order (rt_order pd w (length shs)) (map (\<lambda>(sh, r). (apply_shard sh plan, r)) (oks shs)))))
    = mset (concat (map (\<lambda>(sh, r). items (apply_shard sh plan)) (oks shs)))"
proof -
  let ?ts = "map (\<lambda>(sh, r). (apply_shard sh plan, r)) (oks shs)"
  have "mset (in_order (rt_order pd w (length shs)) ?ts) = mset ?ts" by (rule mset_in_order)
  then have "mset (concat (map (items \<circ> fst) (in_order (rt_order pd w (length shs)) ?ts))) = mset (concat (map (items \<circ> fst) ?ts))"
    unfolding mset_concat_map by (rule arg_cong)
  then show ?thesis by (simp add: comp_def case_prod_unfold)
qed

lemma handler_step:
  assumes h: "handles P (single_plan_handler pd ops preserve fuel)"
    and P: "\<And>m. P m m" "\<And>a b c d. P a b \<Longrightarrow> P c d \<Longrightarrow> P (a + c) (b + d)" "\<And>a b c. P a b \<Longrightarrow> P b c \<Longrightarrow> P a c"
    and sh: "\<And>w plan. inv w \<Longrightarrow> first_error (snd (shards w plan)) = None \<Longrightarrow>
      P (mset (concat (map (\<lambda>(sh, r). items (apply_shard sh plan)) (oks (snd (shards w plan)))))) (mset (items plan))"
  shows "handles P (single_plan_handler pd ops preserve (Suc fuel))"
  unfolding handles_def
proof (intro allI impI, goal_cases)
  case (1 s plan b k s' r)
  obtain w shs where sp: "shards (ps_world s) plan = (w, shs)" by fastforce
  have w: "inv w" using shards_inv [OF 1(1), of plan] sp by simp
  show ?case
  proof (cases "first_error shs")
    case (Some e)
    then show ?thesis using 1(2) w by (auto simp: ops_shards sp)
  next
    case None
    let ?ts = "in_order (rt_order pd w (length shs)) (map (\<lambda>(sh, r). (apply_shard sh plan, r)) (oks shs))"
    have run: "run_shards pd ops preserve (single_plan_handler pd ops preserve fuel) b k (set_world w s) ?ts = Some (s', r)"
      using 1(2) None by (simp add: ops_shards sp ops_apply_shard)
    have "P (mset (concat (map (items \<circ> fst) ?ts))) (mset (items plan))"
      using sh [OF 1(1), of plan] None sp by (simp add: tasks_items)
    then show ?thesis using run_shards_facts [OF h P(1,2) _ run] w P(3) by auto
  qed
qed

lemma single_plan_handles: "handles (\<subseteq>#) (single_plan_handler pd ops preserve fuel)"
proof (induction fuel)
  case 0
  then show ?case by (simp add: handles_def)
next
  case (Suc fuel)
  then show ?case
    by (rule handler_step) (auto intro: subset_mset.add_mono subset_mset.order_trans shards_part)
qed

lemma retry_multi_region_inv:
  "inv (ps_world s) \<Longrightarrow> retry_multi_region pd ops preserve fuel b s plan = Some (s', r) \<Longrightarrow> inv (ps_world s')"
  using single_plan_handles [of preserve fuel] unfolding retry_multi_region_def handles_def by blast

lemma retry_multi_region_part:
  assumes "inv (ps_world s)" "retry_multi_region pd ops preserve fuel b s plan = Some (s', Inr rs)"
  shows "inv (ps_world s')" "covered items rs \<subseteq># mset (items plan)" "list_all (answered ops) rs"
  using single_plan_handles [of preserve fuel] assms unfolding retry_multi_region_def handles_def by blast+

end

context lossless_region_plan
begin

lemma lossless_plan_handles: "handles (=) (single_plan_handler pd ops preserve fuel)"
proof (induction fuel)
  case 0
  then show ?case by (simp add: handles_def)
next
  case (Suc fuel)
  then show ?case
    by (rule handler_step) (auto simp: first_error_None intro: shards_complete)
qed

text \<open>A lossless request that succeeds has a result for every one of its items.\<close>

lemma retry_multi_region_complete:
  assumes "inv (ps_world s)" "retry_multi_region pd ops preserve fuel b s plan = Some (s', Inr rs)"
  shows "inv (ps_world s')" "covered items rs = mset (items plan)" "list_all (answered ops) rs"
  using lossless_plan_handles [of preserve fuel] assms unfolding retry_multi_region_def handles_def by blast+

end

end
