(* ===== verification/Plan_Client.thy ===== *)
theory Plan_Client
  imports Plan_Props
begin

text \<open>
  The plans that requests are built from (\<open>request/plan.rs\<close>, \<open>request/plan_builder.rs\<close>): dispatching a
  request, resolving the locks it meets, merging and extracting errors; and the client they run on in
  production, \<open>PdRpcClient\<close> (\<open>pd/client.rs\<close>), over its region and store caches. PD, the stores and the
  runtime are the parameter \<open>out\<close> over a state \<open>'u\<close>.
\<close>

subsection \<open>Dispatch\<close>

record ('req, 'c) dispatch_plan =
  di_request :: 'req
  di_context :: rpc_context
  di_client :: "'c option"

text \<open>\<open>PlanBuilder::new\<close>: the request source defaults to \<open>unknown\<close>.\<close>

definition new_dispatch :: "'req \<Rightarrow> ('req, 'c) dispatch_plan" where
  "new_dispatch req = \<lparr>di_request = req, di_context = default_context\<lparr>ctx_request_source := ''unknown''\<rparr>, di_client = None\<rparr>"

definition dispatch_execute ::
  "('w \<Rightarrow> 'c \<Rightarrow> rpc_context \<Rightarrow> 'req \<Rightarrow> 'w \<times> 'resp res) \<Rightarrow> 'w plan_state \<Rightarrow> ('req, 'c) dispatch_plan
     \<Rightarrow> ('w plan_state \<times> 'resp res) option" where
  "dispatch_execute kv s p =
    (case di_client p of
       None \<Rightarrow> Some (s, Inl (InternalError ''Dispatch plan executed without an attached kv_client''))
     | Some client \<Rightarrow>
        (case kv (ps_world s) client (di_context p) (di_request p) of (w, r) \<Rightarrow> Some (set_world w s, r)))"

text \<open>\<open>Shardable for Dispatch\<close>, over the \<open>Shardable\<close> of the request; \<open>req_store\<close> is what the request itself
  does in \<open>apply_store\<close> besides taking the context.\<close>

definition dispatch_ops ::
  "('w \<Rightarrow> 'c \<Rightarrow> rpc_context \<Rightarrow> 'req \<Rightarrow> 'w \<times> 'resp res) \<Rightarrow> ('w \<Rightarrow> 'req \<Rightarrow> 'w \<times> ('sh \<times> region_with_leader) res list)
     \<Rightarrow> ('sh \<Rightarrow> 'req \<Rightarrow> 'req) \<Rightarrow> (nat \<Rightarrow> 'req \<Rightarrow> 'req) \<Rightarrow> ('resp \<Rightarrow> error list option) \<Rightarrow> ('resp \<Rightarrow> region_error_msg option)
     \<Rightarrow> ('w, 'c, ('req, 'c) dispatch_plan, 'sh, 'resp) plan_ops" where
  "dispatch_ops kv shards apply_shard req_store key_errors region_error =
    \<lparr>op_shards = (\<lambda>w p. Some (shards w (di_request p))),
     op_apply_shard = (\<lambda>sh p. p\<lparr>di_request := apply_shard sh (di_request p)\<rparr>),
     op_apply_store = (\<lambda>st p. ok_bind (apply_to_request st (di_context p)) (\<lambda>ctx.
        Inr (p\<lparr>di_client := Some (rst_client st), di_context := ctx, di_request := req_store (rst_attempt st) (di_request p)\<rparr>))),
     op_execute = dispatch_execute kv, op_key_errors = key_errors, op_region_error = region_error\<rparr>"

subsection \<open>Resolving locks\<close>

definition epoch_not_match_default :: region_error_msg where
  "epoch_not_match_default = default_region_error\<lparr>re_epoch_not_match := Some \<lparr>enm_current_regions = []\<rparr>\<rparr>"

text \<open>\<open>ResolveLock::execute\<close>. \<open>resolver\<close> is \<open>resolve_locks\<close>, \<open>take_fn\<close> is \<open>take_locks\<close> of the response, and
  \<open>reroute\<close> is the default response with an \<open>epoch_not_match\<close> error. The loop asks again as long as locks
  are found and resolved.\<close>

primrec resolve_lock_loop ::
  "('w, 'c) pd_client \<Rightarrow> ('w \<Rightarrow> lock_info list \<Rightarrow> ('w \<times> lock_info list res) option) \<Rightarrow> ('resp \<Rightarrow> lock_info list \<times> 'resp) \<Rightarrow> 'resp
     \<Rightarrow> ('w plan_state \<Rightarrow> ('w plan_state \<times> 'resp res) option) \<Rightarrow> backoff \<Rightarrow> nat \<Rightarrow> 'w plan_state \<Rightarrow> 'resp \<Rightarrow> backoff
     \<Rightarrow> ('w plan_state \<times> 'resp res) option" where
  "resolve_lock_loop pd resolver take_fn reroute inner b0 0 = (\<lambda>s resp b. None)"
| "resolve_lock_loop pd resolver take_fn reroute inner b0 (Suc fuel) = (\<lambda>s resp b.
    (case take_fn resp of (locks, resp) \<Rightarrow>
       if locks = [] then Some (s, Inr resp)
       else if is_no_backoff b0 then Some (s, Inl (ResolveLockError locks))
       else
        (let stale = is_stale_read (ps_routing s);
             s = (if stale then map_routing force_leader s else s)
         in case resolver (ps_world s) locks of
              None \<Rightarrow> None
            | Some (w, Inl e) \<Rightarrow> Some (set_world w s, Inl e)
            | Some (w, Inr live) \<Rightarrow>
               (let s = set_world w s
                in if live = [] then
                     (if stale then Some (s, Inr reroute)
                      else case inner s of
                          None \<Rightarrow> None
                        | Some (s, Inl e) \<Rightarrow> Some (s, Inl e)
                        | Some (s, Inr resp) \<Rightarrow> resolve_lock_loop pd resolver take_fn reroute inner b0 fuel s resp b)
                   else
                    (case back_off pd s b of
                       None \<Rightarrow> None
                     | Some (s, None) \<Rightarrow> Some (s, Inl (ResolveLockError live))
                     | Some (s, Some b) \<Rightarrow>
                        if stale then Some (s, Inr reroute)
                        else (case inner s of
                            None \<Rightarrow> None
                          | Some (s, Inl e) \<Rightarrow> Some (s, Inl e)
                          | Some (s, Inr resp) \<Rightarrow> resolve_lock_loop pd resolver take_fn reroute inner b0 fuel s resp b))))))"

definition resolve_lock_execute ::
  "('w, 'c) pd_client \<Rightarrow> ('w \<Rightarrow> lock_info list \<Rightarrow> ('w \<times> lock_info list res) option) \<Rightarrow> ('resp \<Rightarrow> lock_info list \<times> 'resp) \<Rightarrow> 'resp
     \<Rightarrow> ('w plan_state \<Rightarrow> 'p \<Rightarrow> ('w plan_state \<times> 'resp res) option) \<Rightarrow> backoff \<Rightarrow> nat \<Rightarrow> 'w plan_state \<Rightarrow> 'p
     \<Rightarrow> ('w plan_state \<times> 'resp res) option" where
  "resolve_lock_execute pd resolver take_fn reroute inner b fuel s p =
    (case inner s p of
       None \<Rightarrow> None
     | Some (s, Inl e) \<Rightarrow> Some (s, Inl e)
     | Some (s, Inr resp) \<Rightarrow> resolve_lock_loop pd resolver take_fn reroute (\<lambda>s. inner s p) b fuel s resp b)"

definition resolve_lock_ops ::
  "('w, 'c) pd_client \<Rightarrow> ('w \<Rightarrow> lock_info list \<Rightarrow> ('w \<times> lock_info list res) option) \<Rightarrow> ('resp \<Rightarrow> lock_info list \<times> 'resp) \<Rightarrow> 'resp
     \<Rightarrow> backoff \<Rightarrow> nat \<Rightarrow> ('w, 'c, 'p, 'sh, 'resp) plan_ops \<Rightarrow> ('w, 'c, 'p, 'sh, 'resp) plan_ops" where
  "resolve_lock_ops pd resolver take_fn reroute b fuel ops =
     ops\<lparr>op_execute := resolve_lock_execute pd resolver take_fn reroute (op_execute ops) b fuel\<rparr>"

subsection \<open>Merging and extracting errors\<close>

definition collect_single :: "'a res list \<Rightarrow> 'a res" where
  "collect_single rs = (case rs of [r] \<Rightarrow> r
     | _ \<Rightarrow> Inl (InternalError (''CollectSingle expected 1 response, got '' @ show_nat (length rs))))"

definition collect_error :: "'a res list \<Rightarrow> 'a list res" where
  "collect_error rs = (case first_error rs of Some e \<Rightarrow> Inl e | None \<Rightarrow> Inr (oks rs))"

text \<open>\<open>HasKeyErrors\<close> and \<open>HasRegionErrors\<close> of a list of results: a result that is an error is turned into its
  text by \<open>display\<close>.\<close>

fun list_key_errors :: "(error \<Rightarrow> string) \<Rightarrow> ('resp \<Rightarrow> error list option) \<Rightarrow> 'resp res list \<Rightarrow> error list option" where
  "list_key_errors display key_errors [] = None"
| "list_key_errors display key_errors (Inl e # rs) = Some [StringError (display e)]"
| "list_key_errors display key_errors (Inr r # rs) =
    (case key_errors r of Some es \<Rightarrow> Some es | None \<Rightarrow> list_key_errors display key_errors rs)"

definition list_region_errors :: "('resp \<Rightarrow> region_error_msg option) \<Rightarrow> 'resp res list \<Rightarrow> region_error_msg list" where
  "list_region_errors region_error rs = List.map_filter region_error (oks rs)"

definition extract_error ::
  "(error \<Rightarrow> string) \<Rightarrow> ('resp \<Rightarrow> error list option) \<Rightarrow> ('resp \<Rightarrow> region_error_msg option) \<Rightarrow> 'resp res list \<Rightarrow> 'resp res list res" where
  "extract_error display key_errors region_error rs =
    (case list_key_errors display key_errors rs of
       Some es \<Rightarrow> Inl (ExtractedErrors es)
     | None \<Rightarrow>
        (case list_region_errors region_error rs of
           [] \<Rightarrow> Inr rs
         | es \<Rightarrow> Inl (ExtractedErrors (map RegionError es))))"

definition extract_error_single :: "('resp \<Rightarrow> error list option) \<Rightarrow> ('resp \<Rightarrow> region_error_msg option) \<Rightarrow> 'resp \<Rightarrow> 'resp res" where
  "extract_error_single key_errors region_error resp =
    (case key_errors resp of
       Some es \<Rightarrow> Inl (ExtractedErrors es)
     | None \<Rightarrow> (case region_error resp of None \<Rightarrow> Inr resp | Some e \<Rightarrow> Inl (ExtractedErrors [RegionError e])))"

text \<open>Running a plan with a fresh routing, as \<open>PlanBuilder::new\<close> makes it; the health of the stores is
  shared with the client.\<close>

definition fresh_routing :: "('w, 'c) pd_client \<Rightarrow> 'w \<Rightarrow> read_routing" where
  "fresh_routing pd w = default_read_routing\<lparr>rr_store_health := pd_store_health pd w\<rparr>"

definition run_plan ::
  "('w, 'c) pd_client \<Rightarrow> ('w, 'c, 'p, 'sh, 'resp) plan_ops \<Rightarrow> bool \<Rightarrow> nat \<Rightarrow> backoff \<Rightarrow> 'w \<Rightarrow> 'p
     \<Rightarrow> ('w \<times> ('p, 'resp) plan_result) option" where
  "run_plan pd ops preserve fuel b w p =
     map_option (\<lambda>(s, r). (pd_set_store_health pd (rr_store_health (ps_routing s)) (ps_world s), r))
       (retry_multi_region pd ops preserve fuel b \<lparr>ps_world = w, ps_routing = fresh_routing pd w\<rparr> p)"

text \<open>A plan that succeeds after \<open>extract_error\<close> has only responses, none with an error.\<close>

lemma list_key_errors_None:
  "list_key_errors display key_errors rs = None \<Longrightarrow> \<exists>resps. rs = map Inr resps \<and> list_all (\<lambda>r. key_errors r = None) resps"
proof (induction rs)
  case (Cons x rs)
  then obtain r resps where "x = Inr r" "rs = map Inr resps" "list_all (\<lambda>r. key_errors r = None) resps" "key_errors r = None"
    by (cases x) (auto split: option.splits)
  then show ?case by (intro exI [of _ "r # resps"]) simp
qed simp

lemma extract_error_ok:
  "extract_error display key_errors region_error rs = Inr xs \<Longrightarrow> \<exists>resps. rs = map Inr resps \<and> xs = rs"
  using list_key_errors_None [of display key_errors rs]
  by (auto simp: extract_error_def split: option.splits list.splits)

lemma run_plan_retry:
  "run_plan pd ops preserve fuel b w p = Some (w', r) \<Longrightarrow>
    \<exists>s. retry_multi_region pd ops preserve fuel b \<lparr>ps_world = w, ps_routing = fresh_routing pd w\<rparr> p = Some (s, r)"
  by (auto simp: run_plan_def)

subsection \<open>The client of production\<close>

record 'u client_world =
  cw_source :: region_source_state
  cw_stores :: store_cache
  cw_health :: store_health
  cw_outside :: 'u

record ('u, 'c) outside =
  out_pd_store :: "'u \<Rightarrow> u64 \<Rightarrow> store_meta res"
  out_pd_all_stores :: "'u \<Rightarrow> store_meta list res"
  out_connect :: "'u \<Rightarrow> string \<Rightarrow> 'c res"
  out_get_timestamp :: "'u \<Rightarrow> 'u \<times> timestamp res"
  out_now :: "'u \<Rightarrow> int"
  out_rnd :: "'u \<Rightarrow> u64 \<Rightarrow> u64"
  out_sleep :: "'u \<Rightarrow> u64 \<Rightarrow> 'u"
  out_order :: "'u \<Rightarrow> nat \<Rightarrow> nat list"

fun connect_all :: "(string \<Rightarrow> 'c res) \<Rightarrow> store_meta list \<Rightarrow> 'c list res" where
  "connect_all connect [] = Inr []"
| "connect_all connect (st # sts) =
     ok_bind (connect (sm_address st)) (\<lambda>c. ok_bind (connect_all connect sts) (\<lambda>cs. Inr (c # cs)))"

definition pd_rpc_client :: "bool \<Rightarrow> ('u, 'c) outside \<Rightarrow> ('u client_world, 'c) pd_client" where
  "pd_rpc_client enable_codec out =
    \<lparr>pd_region_for_key = (\<lambda>w k. case region_for_key enable_codec (cw_source w) k of (src, r) \<Rightarrow> (w\<lparr>cw_source := src\<rparr>, r)),
     pd_region_for_id = (\<lambda>w i. case region_for_id enable_codec (cw_source w) i of (src, r) \<Rightarrow> (w\<lparr>cw_source := src\<rparr>, r)),
     pd_map_region_to_store = (\<lambda>w r.
        case map_region_to_store (out_pd_store out (cw_outside w)) (out_connect out (cw_outside w)) r (cw_stores w) of
          (c, res) \<Rightarrow> (w\<lparr>cw_stores := c\<rparr>, map_sum id (\<lambda>(region, client). new_region_store region client) res)),
     pd_invalidate_region_cache = (\<lambda>w v. w\<lparr>cw_source := (cw_source w)\<lparr>rs_cache := invalidate_region_cache v (rs_cache (cw_source w))\<rparr>\<rparr>),
     pd_invalidate_store_cache = (\<lambda>w i. w\<lparr>cw_stores := invalidate_store_cache i (cw_stores w)\<rparr>),
     pd_update_leader = (\<lambda>w v leader. let env = rs_env (cw_source w)
        in (w\<lparr>cw_source := (cw_source w)\<lparr>rs_cache := update_leader (env_ttl env) (env_rnd env) (env_now env) v leader (rs_cache (cw_source w))\<rparr>\<rparr>, Inr ())),
     pd_get_timestamp = (\<lambda>w. case out_get_timestamp out (cw_outside w) of (u, r) \<Rightarrow> (w\<lparr>cw_outside := u\<rparr>, r)),
     pd_all_stores = (\<lambda>w. case read_through_all_stores (out_pd_all_stores out (cw_outside w)) (cw_stores w) of
          (c, Inl e) \<Rightarrow> (w\<lparr>cw_stores := c\<rparr>, Inl e)
        | (c, Inr sts) \<Rightarrow> (w\<lparr>cw_stores := c\<rparr>, connect_all (out_connect out (cw_outside w)) sts)),
     pd_store_health = cw_health,
     pd_set_store_health = (\<lambda>h w. w\<lparr>cw_health := h\<rparr>),
     rt_now = (\<lambda>w. out_now out (cw_outside w)),
     rt_rnd = (\<lambda>w. out_rnd out (cw_outside w)),
     rt_sleep = (\<lambda>w d. w\<lparr>cw_outside := out_sleep out (cw_outside w) d\<rparr>),
     rt_order = (\<lambda>w. out_order out (cw_outside w))\<rparr>"

text \<open>A request to a store changes what is outside of the client.\<close>

definition rpc :: "('u \<Rightarrow> 'c \<Rightarrow> rpc_context \<Rightarrow> 'req \<Rightarrow> 'u \<times> 'resp res) \<Rightarrow> 'u client_world \<Rightarrow> 'c \<Rightarrow> rpc_context \<Rightarrow> 'req
     \<Rightarrow> 'u client_world \<times> 'resp res" where
  "rpc kv w client ctx req = (case kv (cw_outside w) client ctx req of (u, r) \<Rightarrow> (w\<lparr>cw_outside := u\<rparr>, r))"

definition client_inv :: "bool \<Rightarrow> 'u client_world \<Rightarrow> bool" where
  "client_inv enable_codec w \<longleftrightarrow> pd_source_inv enable_codec (cw_source w)"

subsection \<open>The client keeps its invariant\<close>

lemma source_leader_inv:
  assumes "pd_source_inv ec src"
  shows "pd_source_inv ec (src\<lparr>rs_cache := update_leader t rnd now v leader (rs_cache src)\<rparr>)"
proof -
  have i: "region_source_inv src" using assms by (simp add: pd_source_inv_def)
  have "cache_inv (update_leader t rnd now v leader (rs_cache src))"
    using i by (intro update_leader_inv) (simp add: region_source_inv_def)
  moreover have "\<forall>v' r. cached (update_leader t rnd now v leader (rs_cache src)) v' = Some r \<longrightarrow> range_of r = rs_range_of_version src v'"
    using i update_leader_range unfolding region_source_inv_def by metis
  ultimately show ?thesis using assms i by (simp add: pd_source_inv_def region_source_inv_def)
qed

lemma source_invalidate_inv:
  assumes "pd_source_inv ec src"
  shows "pd_source_inv ec (src\<lparr>rs_cache := invalidate_region_cache v (rs_cache src)\<rparr>)"
proof -
  have i: "region_source_inv src" using assms by (simp add: pd_source_inv_def)
  have "cache_inv (remove_ver_id v (rs_cache src))" using i by (intro cache_inv_remove) (simp add: region_source_inv_def)
  moreover have "\<forall>v' r. cached (remove_ver_id v (rs_cache src)) v' = Some r \<longrightarrow> range_of r = rs_range_of_version src v'"
    using i by (simp add: cached_remove region_source_inv_def)
  ultimately show ?thesis using assms i by (simp add: pd_source_inv_def region_source_inv_def invalidate_is_remove)
qed

lemma client_inv_region_for_key:
  "client_inv ec w \<Longrightarrow> client_inv ec (fst (pd_region_for_key (pd_rpc_client ec out) w k))"
  using pd_source.lookup_inv [of ec "cw_source w" k] by (auto simp: client_inv_def pd_rpc_client_def split: prod.splits)

lemma client_inv_map_store: "client_inv ec w \<Longrightarrow> client_inv ec (fst (pd_map_region_to_store (pd_rpc_client ec out) w r))"
  by (simp add: client_inv_def pd_rpc_client_def split: prod.splits)

lemma client_inv_invalidate_region: "client_inv ec w \<Longrightarrow> client_inv ec (pd_invalidate_region_cache (pd_rpc_client ec out) w v)"
  by (simp add: client_inv_def pd_rpc_client_def source_invalidate_inv)

lemma client_inv_invalidate_store: "client_inv ec w \<Longrightarrow> client_inv ec (pd_invalidate_store_cache (pd_rpc_client ec out) w i)"
  by (simp add: client_inv_def pd_rpc_client_def)

lemma client_inv_update_leader: "client_inv ec w \<Longrightarrow> client_inv ec (fst (pd_update_leader (pd_rpc_client ec out) w v leader))"
  by (simp add: client_inv_def pd_rpc_client_def Let_def source_leader_inv)

lemma client_inv_sleep: "client_inv ec w \<Longrightarrow> client_inv ec (rt_sleep (pd_rpc_client ec out) w d)"
  by (simp add: client_inv_def pd_rpc_client_def)

lemma client_inv_timestamp: "client_inv ec w \<Longrightarrow> client_inv ec (fst (pd_get_timestamp (pd_rpc_client ec out) w))"
  by (simp add: client_inv_def pd_rpc_client_def split: prod.splits)

lemma client_inv_health: "client_inv ec w \<Longrightarrow> client_inv ec (pd_set_store_health (pd_rpc_client ec out) h w)"
  by (simp add: client_inv_def pd_rpc_client_def)

lemma client_inv_rpc: "client_inv ec w \<Longrightarrow> client_inv ec (fst (rpc kv w client ctx req))"
  by (simp add: client_inv_def rpc_def split: prod.splits)

text \<open>The interface \<open>PdClient\<close> as the plans use it: its lookups are a region source, and no operation breaks
  the invariant of the client.\<close>

locale client = region_source "pd_region_for_key pd" inv
  for pd :: "('w, 'c) pd_client" and inv :: "'w \<Rightarrow> bool" +
  assumes map_store_inv: "inv w \<Longrightarrow> inv (fst (pd_map_region_to_store pd w r))"
    and invalidate_region_inv: "inv w \<Longrightarrow> inv (pd_invalidate_region_cache pd w v)"
    and invalidate_store_inv: "inv w \<Longrightarrow> inv (pd_invalidate_store_cache pd w i)"
    and update_leader_inv: "inv w \<Longrightarrow> inv (fst (pd_update_leader pd w v leader))"
    and sleep_inv: "inv w \<Longrightarrow> inv (rt_sleep pd w d)"
    and timestamp_inv: "inv w \<Longrightarrow> inv (fst (pd_get_timestamp pd w))"
    and health_inv: "inv w \<Longrightarrow> inv (pd_set_store_health pd h w)"

interpretation rpc_client: client "pd_rpc_client enable_codec out" "client_inv enable_codec" for enable_codec out
proof (unfold_locales, goal_cases)
  case (1 s k) then show ?case by (rule client_inv_region_for_key)
next
  case (2 s k r)
  then have "snd (region_for_key enable_codec (cw_source s) k) = Inr r" by (simp add: pd_rpc_client_def split: prod.splits)
  then show ?case using 2(1) pd_source.lookup_contains by (auto simp: client_inv_def)
qed (simp_all add: client_inv_map_store client_inv_invalidate_region client_inv_invalidate_store
  client_inv_update_leader client_inv_sleep client_inv_timestamp client_inv_health)

context client
begin

lemma back_off_inv: "inv (ps_world s) \<Longrightarrow> back_off pd s b = Some (s', b') \<Longrightarrow> inv (ps_world s')"
  by (auto simp: back_off_def sleep_inv split: option.splits prod.splits)

lemma store_for_key_inv: "inv w \<Longrightarrow> inv (fst (store_for_key pd w k))"
  using lookup_inv [of w k] map_store_inv by (auto simp: store_for_key_def split: prod.splits sum.splits)

lemma resolve_lock_loop_inv:
  assumes inner: "\<And>s s' r. inv (ps_world s) \<Longrightarrow> inner s = Some (s', r) \<Longrightarrow> inv (ps_world s')"
    and resolver: "\<And>w ls w' r. inv w \<Longrightarrow> resolver w ls = Some (w', r) \<Longrightarrow> inv w'"
  shows "inv (ps_world s) \<Longrightarrow> resolve_lock_loop pd resolver take_fn reroute inner b0 fuel s resp b = Some (s', r) \<Longrightarrow>
    inv (ps_world s')"
proof (induction fuel arbitrary: s resp b)
  case (Suc fuel)
  obtain locks resp' where t: "take_fn resp = (locks, resp')" by fastforce
  let ?s = "if is_stale_read (ps_routing s) then map_routing force_leader s else s"
  have i: "inv (ps_world ?s)" using Suc.prems(1) by simp
  show ?case
  proof (cases "locks = [] \<or> is_no_backoff b0")
    case True
    then show ?thesis using Suc.prems t by (auto split: if_splits)
  next
    case False
    then obtain w lr where rs: "resolver (ps_world ?s) locks = Some (w, lr)"
      using Suc.prems(2) t by (auto simp: Let_def split: option.splits)
    have w: "inv w" by (rule resolver [OF i rs])
    have again: "inv (ps_world s')"
      if "(case inner s1 of None \<Rightarrow> None | Some (s, Inl e) \<Rightarrow> Some (s, Inl e)
         | Some (s, Inr resp) \<Rightarrow> resolve_lock_loop pd resolver take_fn reroute inner b0 fuel s resp b1) = Some (s', r)"
        "inv (ps_world s1)" for s1 b1
      using that inner [OF that(2)] Suc.IH by (auto split: option.splits sum.splits)
    show ?thesis
      using Suc.prems(2) t False rs w again back_off_inv [of "set_world w ?s" b]
      by (cases lr) (auto simp: Let_def split: if_splits option.splits)
  qed
qed simp

end

lemma dispatch_execute_inv:
  assumes "I (ps_world s)" "dispatch_execute kv s p = Some (s', r)"
    and "\<And>w c ctx req. I w \<Longrightarrow> I (fst (kv w c ctx req))"
  shows "I (ps_world s')"
proof (cases "di_client p")
  case (Some c)
  then show ?thesis using assms(2) assms(3) [OF assms(1), of c "di_context p" "di_request p"]
    by (auto simp: dispatch_execute_def split: prod.splits)
qed (use assms in \<open>auto simp: dispatch_execute_def\<close>)

subsection \<open>Where answers come from\<close>

lemma resolve_lock_loop_answer:
  "resolve_lock_loop pd resolver take_fn reroute inner b0 fuel s resp b = Some (s', Inr r) \<Longrightarrow>
     r = reroute \<or> (\<exists>resp0. take_fn resp0 = ([], r) \<and> (resp0 = resp \<or> (\<exists>s1 s2. inner s1 = Some (s2, Inr resp0))))"
proof (induction fuel arbitrary: s resp b)
  case (Suc fuel)
  obtain locks resp1 where t: "take_fn resp = (locks, resp1)" by fastforce
  have again: ?case
    if "inner s1 = Some (s2, Inr resp2)" "resolve_lock_loop pd resolver take_fn reroute inner b0 fuel s2 resp2 b1 = Some (s', Inr r)"
    for s1 s2 resp2 b1
    using that Suc.IH [OF that(2)] by blast
  show ?case
  proof (cases "locks = [] \<or> is_no_backoff b0")
    case True
    then show ?thesis using Suc.prems t by (auto split: if_splits)
  next
    case False
    then show ?thesis using Suc.prems t
      by (auto simp: Let_def split: option.splits sum.splits if_splits) (use again in blast)+
  qed
qed simp

lemma dispatch_execute_answer:
  "dispatch_execute kv s p = Some (s', Inr resp) \<Longrightarrow>
     \<exists>client w w'. di_client p = Some client \<and> kv w client (di_context p) (di_request p) = (w', Inr resp)"
  by (auto simp: dispatch_execute_def split: option.splits prod.splits)

text \<open>An answer under \<open>resolve_lock\<close> is what a store said to that very request, without the locks.\<close>

lemma resolving_answered:
  assumes "answered (resolve_lock_ops pd resolver take_fn reroute b fuel
      (dispatch_ops kv shards apply_shard req_store key_errors region_error)) (p, Inr resp)"
    and "region_error reroute \<noteq> None"
  shows "key_errors resp = None \<and> region_error resp = None \<and>
    (\<exists>client w w' resp0. kv w client (di_context p) (di_request p) = (w', Inr resp0) \<and> take_fn resp0 = ([], resp))"
proof -
  obtain s s' where ok: "key_errors resp = None" "region_error resp = None"
    and e: "resolve_lock_execute pd resolver take_fn reroute (dispatch_execute kv) b fuel s p = Some (s', Inr resp)"
    using assms(1) by (auto simp: answered_def resolve_lock_ops_def dispatch_ops_def)
  obtain s1 resp1 where i: "dispatch_execute kv s p = Some (s1, Inr resp1)"
    and l: "resolve_lock_loop pd resolver take_fn reroute (\<lambda>s. dispatch_execute kv s p) b fuel s1 resp1 b = Some (s', Inr resp)"
    using e by (auto simp: resolve_lock_execute_def split: option.splits sum.splits)
  from resolve_lock_loop_answer [OF l] obtain resp0 s2 s3 where "take_fn resp0 = ([], resp)" "dispatch_execute kv s2 p = Some (s3, Inr resp0)"
    using i ok(2) assms(2) by auto
  then show ?thesis using dispatch_execute_answer [of kv s2 p s3 resp0] ok by blast
qed

subsection \<open>Requests on the client\<close>

text \<open>A shardable request that is sent by the client: \<open>kv\<close> is what a store does with it, \<open>resolver\<close> how the
  locks it meets are resolved.\<close>

locale client_request = client pd inv + shardable inv shards apply_shard items key_of
  for pd :: "('w, 'c) pd_client" and inv :: "'w \<Rightarrow> bool"
    and shards :: "'w \<Rightarrow> 'req \<Rightarrow> 'w \<times> ('sh \<times> region_with_leader) res list"
    and apply_shard :: "'sh \<Rightarrow> 'req \<Rightarrow> 'req"
    and items :: "'req \<Rightarrow> 'k list"
    and key_of :: "'k \<Rightarrow> key" +
  fixes req_store :: "nat \<Rightarrow> 'req \<Rightarrow> 'req"
    and kv :: "'w \<Rightarrow> 'c \<Rightarrow> rpc_context \<Rightarrow> 'req \<Rightarrow> 'w \<times> 'resp res"
    and resolver :: "'w \<Rightarrow> lock_info list \<Rightarrow> ('w \<times> lock_info list res) option"
  assumes req_store_items: "items (req_store n q) = items q"
    and kv_inv: "inv w \<Longrightarrow> inv (fst (kv w c ctx req))"
    and resolver_inv: "inv w \<Longrightarrow> resolver w ls = Some (w', r) \<Longrightarrow> inv w'"

text \<open>The request under \<open>retry_multi_region\<close>, alone and with the locks it meets resolved.\<close>

sublocale client_request \<subseteq> plain: region_plan inv "\<lambda>w p. shards w (di_request p)"
  "\<lambda>sh p. p\<lparr>di_request := apply_shard sh (di_request p)\<rparr>" "\<lambda>p. items (di_request p)" key_of
  pd "dispatch_ops kv shards apply_shard req_store key_errors region_error"
  for key_errors and region_error
proof (unfold_locales, goal_cases)
  case (2 w sh r q)
  then show ?case using shards_region [of w sh r "di_request q"] by simp
next
  case (3 w q)
  then show ?case using shards_part [of w "di_request q"] by simp
next
  case (6 st p p')
  then show ?case by (auto simp: dispatch_ops_def ok_bind_Inr_iff req_store_items)
next
  case (7 s p s' r)
  then have e: "dispatch_execute kv s p = Some (s', r)" by (simp add: dispatch_ops_def)
  show ?case by (rule dispatch_execute_inv [of inv, OF 7(1) e kv_inv])
qed (simp_all add: dispatch_ops_def shards_inv map_store_inv invalidate_region_inv invalidate_store_inv update_leader_inv sleep_inv)

sublocale client_request \<subseteq> resolving: region_plan inv "\<lambda>w p. shards w (di_request p)"
  "\<lambda>sh p. p\<lparr>di_request := apply_shard sh (di_request p)\<rparr>" "\<lambda>p. items (di_request p)" key_of
  pd "resolve_lock_ops pd resolver take_fn reroute lock_backoff fuel
     (dispatch_ops kv shards apply_shard req_store key_errors region_error)"
  for take_fn reroute lock_backoff fuel key_errors region_error
proof (unfold_locales, goal_cases)
  case (3 st p p')
  then show ?case by (auto simp: dispatch_ops_def resolve_lock_ops_def ok_bind_Inr_iff req_store_items)
next
  case (4 s p s' r)
  obtain s1 r1 where e: "dispatch_execute kv s p = Some (s1, r1)"
    using 4(2) by (auto simp: resolve_lock_ops_def resolve_lock_execute_def dispatch_ops_def split: option.splits)
  have i: "inv (ps_world s1)" by (rule dispatch_execute_inv [of inv, OF 4(1) e kv_inv])
  show ?case
  proof (cases r1)
    case (Inl err)
    then show ?thesis using 4(2) e i by (auto simp: resolve_lock_ops_def resolve_lock_execute_def dispatch_ops_def)
  next
    case (Inr resp)
    then have l: "resolve_lock_loop pd resolver take_fn reroute
        (\<lambda>s. dispatch_execute kv s p) lock_backoff fuel s1 resp lock_backoff = Some (s', r)"
      using 4(2) e by (simp add: resolve_lock_ops_def resolve_lock_execute_def dispatch_ops_def)
    show ?thesis
      by (rule resolve_lock_loop_inv [OF dispatch_execute_inv [of inv, OF _ _ kv_inv] resolver_inv i l])
  qed
qed (simp_all add: dispatch_ops_def resolve_lock_ops_def map_store_inv invalidate_region_inv invalidate_store_inv
  update_leader_inv sleep_inv)

locale lossless_client_request = client_request + lossless_shardable inv shards apply_shard items key_of

sublocale lossless_client_request \<subseteq> lossless_plain: lossless_region_plan inv "\<lambda>w p. shards w (di_request p)"
  "\<lambda>sh p. p\<lparr>di_request := apply_shard sh (di_request p)\<rparr>" "\<lambda>p. items (di_request p)" key_of
  pd "dispatch_ops kv shards apply_shard req_store key_errors region_error"
  for key_errors and region_error
proof (unfold_locales, goal_cases)
  case (1 w q)
  then show ?case using shards_complete [of w "di_request q"] by simp
qed

sublocale lossless_client_request \<subseteq> lossless_resolving: lossless_region_plan inv "\<lambda>w p. shards w (di_request p)"
  "\<lambda>sh p. p\<lparr>di_request := apply_shard sh (di_request p)\<rparr>" "\<lambda>p. items (di_request p)" key_of
  pd "resolve_lock_ops pd resolver take_fn reroute lock_backoff fuel
     (dispatch_ops kv shards apply_shard req_store key_errors region_error)"
  for take_fn reroute lock_backoff fuel key_errors region_error
  by unfold_locales

end
