(* ===== verification/Lock_Resolver.thy ===== *)
theory Lock_Resolver
  imports Plan_Client
begin

text \<open>
  Resolving locks (\<open>transaction/lock.rs\<close>): the locks that a request meets, and the cleanup of locks for
  garbage collection. \<open>kv\<close> holds what a store does with each request; the tables of the source are partial
  functions.
\<close>

subsection \<open>Requests to stores\<close>

type_synonym ('w, 'c, 'req, 'resp) kv_op = "'w \<Rightarrow> 'c \<Rightarrow> rpc_context \<Rightarrow> 'req \<Rightarrow> 'w \<times> 'resp res"

record ('w, 'c) kv_ops =
  kv_get :: "('w, 'c, get_request, get_response) kv_op"
  kv_batch_get :: "('w, 'c, batch_get_request, batch_get_response) kv_op"
  kv_scan :: "('w, 'c, scan_request, scan_response) kv_op"
  kv_prewrite :: "('w, 'c, prewrite_request, prewrite_response) kv_op"
  kv_commit :: "('w, 'c, commit_request, commit_response) kv_op"
  kv_batch_rollback :: "('w, 'c, batch_rollback_request, batch_rollback_response) kv_op"
  kv_pessimistic_lock :: "('w, 'c, pessimistic_lock_request, pessimistic_lock_response) kv_op"
  kv_pessimistic_rollback :: "('w, 'c, pessimistic_rollback_request, pessimistic_rollback_response) kv_op"
  kv_heart_beat :: "('w, 'c, txn_heart_beat_request, txn_heart_beat_response) kv_op"
  kv_cleanup :: "('w, 'c, cleanup_request, cleanup_response) kv_op"
  kv_resolve_lock :: "('w, 'c, resolve_lock_request, resolve_lock_response) kv_op"
  kv_check_txn_status :: "('w, 'c, check_txn_status_request, check_txn_status_response) kv_op"
  kv_check_secondary_locks :: "('w, 'c, check_secondary_locks_request, check_secondary_locks_response) kv_op"
  kv_flush :: "('w, 'c, flush_request, flush_response) kv_op"
  kv_scan_lock :: "('w, 'c, scan_lock_request, scan_lock_response) kv_op"

definition lift_kv :: "('u, 'c) kv_ops \<Rightarrow> ('u client_world, 'c) kv_ops" where
  "lift_kv kv = \<lparr>kv_get = rpc (kv_get kv), kv_batch_get = rpc (kv_batch_get kv), kv_scan = rpc (kv_scan kv), kv_prewrite = rpc (kv_prewrite kv),
     kv_commit = rpc (kv_commit kv), kv_batch_rollback = rpc (kv_batch_rollback kv),
     kv_pessimistic_lock = rpc (kv_pessimistic_lock kv), kv_pessimistic_rollback = rpc (kv_pessimistic_rollback kv),
     kv_heart_beat = rpc (kv_heart_beat kv), kv_cleanup = rpc (kv_cleanup kv), kv_resolve_lock = rpc (kv_resolve_lock kv),
     kv_check_txn_status = rpc (kv_check_txn_status kv), kv_check_secondary_locks = rpc (kv_check_secondary_locks kv),
     kv_flush = rpc (kv_flush kv), kv_scan_lock = rpc (kv_scan_lock kv)\<rparr>"

subsection \<open>Resolving the locks of one transaction in one region\<close>

definition RESOLVE_LOCK_RETRY_LIMIT :: nat where "RESOLVE_LOCK_RETRY_LIMIT = 10"

text \<open>A resolve request to one store, with \<open>resolve_lock(no_backoff)\<close> and \<open>extract_error\<close>.\<close>

definition resolve_in_store ::
  "('w, 'c) kv_ops \<Rightarrow> 'w \<Rightarrow> 'c region_store \<Rightarrow> resolve_lock_request \<Rightarrow> 'w \<times> resolve_lock_response res" where
  "resolve_in_store kv w st req =
    (case apply_to_request st (default_context\<lparr>ctx_request_source := ''unknown''\<rparr>) of
       Inl e \<Rightarrow> (w, Inl e)
     | Inr ctx \<Rightarrow>
        (case kv_resolve_lock kv w (rst_client st) ctx req of
           (w, Inl e) \<Rightarrow> (w, Inl e)
         | (w, Inr resp) \<Rightarrow>
            (case take_locks_opt (rls_error resp) of (locks, err) \<Rightarrow>
              if locks \<noteq> [] then (w, Inl (ResolveLockError locks))
              else (w, extract_error_single (opt_key_errors \<circ> rls_error) rls_region_error (resp\<lparr>rls_error := err\<rparr>)))))"

text \<open>The loop of \<open>resolve_lock_with_retry\<close>: \<open>n\<close> tries are left, \<open>last_error\<close> is the region error of the try
  before. None is the panic of the backoff.\<close>

primrec resolve_lock_tries ::
  "('w, 'c) pd_client \<Rightarrow> ('w, 'c) kv_ops \<Rightarrow> key \<Rightarrow> u64 \<Rightarrow> u64 \<Rightarrow> nat \<Rightarrow> 'w \<Rightarrow> backoff \<Rightarrow> error option
     \<Rightarrow> ('w \<times> region_ver_id res) option" where
  "resolve_lock_tries pd kv key start commit 0 = (\<lambda>w b last_error.
     Some (w, Inl (case last_error of Some e \<Rightarrow> e
       | None \<Rightarrow> InternalError ''resolve lock retry loop exhausted without producing an error'')))"
| "resolve_lock_tries pd kv key start commit (Suc n) = (\<lambda>w b last_error.
    (case store_for_key pd w key of
       (w, Inl e) \<Rightarrow> Some (w, Inl e)
     | (w, Inr st) \<Rightarrow>
       (let i = RESOLVE_LOCK_RETRY_LIMIT - Suc n;
            st = st\<lparr>rst_attempt := i\<rparr>
        in case resolve_in_store kv w st (new_resolve_lock_request start commit) of
             (w, Inr _) \<Rightarrow> Some (w, Inr (ver_id (rst_region st)))
           | (w, Inl (ExtractedErrors errors)) \<Rightarrow>
              (if errors = [] then Some (w, Inl (InternalError ''ResolveLock returned ExtractedErrors([]), which violates plan invariants''))
               else case last errors of
                  RegionError e \<Rightarrow>
                   (case handle_region_error pd w e st of
                      (w, Inl err) \<Rightarrow> Some (w, Inl err)
                    | (w, Inr resolved) \<Rightarrow>
                       if \<not> resolved \<and> i + 1 < RESOLVE_LOCK_RETRY_LIMIT then
                         (case back_off pd \<lparr>ps_world = w, ps_routing = default_read_routing\<rparr> b of
                            None \<Rightarrow> None
                          | Some (s, Some b') \<Rightarrow> resolve_lock_tries pd kv key start commit n (ps_world s) b' (Some (RegionError e))
                          | Some (s, None) \<Rightarrow> resolve_lock_tries pd kv key start commit n (ps_world s) b (Some (RegionError e)))
                       else resolve_lock_tries pd kv key start commit n w b (Some (RegionError e)))
                | e \<Rightarrow> Some (w, Inl e))
           | (w, Inl e) \<Rightarrow> Some (w, Inl e))))"

definition resolve_lock_with_retry ::
  "('w, 'c) pd_client \<Rightarrow> ('w, 'c) kv_ops \<Rightarrow> key \<Rightarrow> u64 \<Rightarrow> u64 \<Rightarrow> backoff \<Rightarrow> 'w \<Rightarrow> ('w \<times> region_ver_id res) option" where
  "resolve_lock_with_retry pd kv key start commit b w =
     resolve_lock_tries pd kv key start commit RESOLVE_LOCK_RETRY_LIMIT w b None"

subsection \<open>Resolving the locks that a request meets\<close>

definition lock_expired :: "timestamp \<Rightarrow> lock_info \<Rightarrow> bool" where
  "lock_expired ts l \<longleftrightarrow> physical ts - physical (from_version (li_lock_version l)) \<ge> as_i64 (li_lock_ttl l)"

text \<open>The cleanup of a primary lock: the plan of a \<open>CleanupRequest\<close>. Its response carries no locks, so the
  \<open>resolve_lock\<close> layer of the plan hands the response through.\<close>

definition cleanup_primary ::
  "('w, 'c) pd_client \<Rightarrow> ('w, 'c) kv_ops \<Rightarrow> nat \<Rightarrow> key \<Rightarrow> u64 \<Rightarrow> 'w \<Rightarrow> ('w \<times> u64 res) option" where
  "cleanup_primary pd kv fuel primary ver w =
     map_option (\<lambda>(w, r). (w, ok_bind r (\<lambda>rs. ok_bind (collect_single (map snd rs)) (\<lambda>resp. Inr (cls_commit_version resp)))))
       (run_plan pd (dispatch_ops (kv_cleanup kv) (cleanup_shards (pd_region_for_key pd)) cleanup_apply_shard (\<lambda>_ q. q)
          (opt_key_errors \<circ> cls_error) cls_region_error) False fuel DEFAULT_REGION_BACKOFF w
          (new_dispatch (new_cleanup_request primary ver)))"

fun resolve_expired ::
  "('w, 'c) pd_client \<Rightarrow> ('w, 'c) kv_ops \<Rightarrow> nat \<Rightarrow> lock_info list \<Rightarrow> (u64 \<Rightarrow> u64 option) \<Rightarrow> (u64 \<Rightarrow> region_ver_id list)
     \<Rightarrow> 'w \<Rightarrow> ('w \<times> unit res) option" where
  "resolve_expired pd kv fuel [] commit_versions clean_regions w = Some (w, Inr ())"
| "resolve_expired pd kv fuel (l # ls) commit_versions clean_regions w =
    (case pd_region_for_key pd w (li_primary_lock l) of
       (w, Inl e) \<Rightarrow> Some (w, Inl e)
     | (w, Inr region) \<Rightarrow>
        if ver_id region \<in> set (clean_regions (li_lock_version l))
        then resolve_expired pd kv fuel ls commit_versions clean_regions w
        else
         (case (case commit_versions (li_lock_version l) of
                  Some v \<Rightarrow> Some (w, Inr v)
                | None \<Rightarrow> cleanup_primary pd kv fuel (li_primary_lock l) (li_lock_version l) w) of
            None \<Rightarrow> None
          | Some (w, Inl e) \<Rightarrow> Some (w, Inl e)
          | Some (w, Inr commit_version) \<Rightarrow>
             (case resolve_lock_with_retry pd kv (li_key l) (li_lock_version l) commit_version DEFAULT_REGION_BACKOFF w of
                None \<Rightarrow> None
              | Some (w, Inl e) \<Rightarrow> Some (w, Inl e)
              | Some (w, Inr cleaned) \<Rightarrow>
                 resolve_expired pd kv fuel ls (commit_versions(li_lock_version l \<mapsto> commit_version))
                   (clean_regions(li_lock_version l := cleaned # clean_regions (li_lock_version l))) w)))"

definition resolve_locks ::
  "('w, 'c) pd_client \<Rightarrow> ('w, 'c) kv_ops \<Rightarrow> nat \<Rightarrow> 'w \<Rightarrow> lock_info list \<Rightarrow> ('w \<times> lock_info list res) option" where
  "resolve_locks pd kv fuel w locks =
    (case pd_get_timestamp pd w of
       (w, Inl e) \<Rightarrow> Some (w, Inl e)
     | (w, Inr ts) \<Rightarrow>
        map_option (map_prod id (map_sum id (\<lambda>_. filter (\<lambda>l. \<not> lock_expired ts l) locks)))
          (resolve_expired pd kv fuel (filter (lock_expired ts) locks) (\<lambda>_. None) (\<lambda>_. []) w))"

subsection \<open>The lock resolver of garbage collection\<close>

record resolve_locks_context =
  rc_resolved :: "u64 \<Rightarrow> txn_status option"
  rc_clean_regions :: "u64 \<Rightarrow> region_ver_id list"

definition new_resolve_locks_context :: resolve_locks_context where
  "new_resolve_locks_context = \<lparr>rc_resolved = (\<lambda>_. None), rc_clean_regions = (\<lambda>_. [])\<rparr>"

definition save_resolved :: "u64 \<Rightarrow> txn_status \<Rightarrow> resolve_locks_context \<Rightarrow> resolve_locks_context" where
  "save_resolved txn st c = c\<lparr>rc_resolved := (rc_resolved c)(txn \<mapsto> st)\<rparr>"

definition is_region_cleaned :: "resolve_locks_context \<Rightarrow> u64 \<Rightarrow> region_ver_id \<Rightarrow> bool" where
  "is_region_cleaned c txn v \<longleftrightarrow> v \<in> set (rc_clean_regions c txn)"

definition save_cleaned_region :: "u64 \<Rightarrow> region_ver_id \<Rightarrow> resolve_locks_context \<Rightarrow> resolve_locks_context" where
  "save_cleaned_region txn v c = c\<lparr>rc_clean_regions := (rc_clean_regions c)(txn := v # rc_clean_regions c txn)\<rparr>"

definition check_txn_status ::
  "('w, 'c) pd_client \<Rightarrow> ('w, 'c) kv_ops \<Rightarrow> nat \<Rightarrow> u64 \<Rightarrow> bytes \<Rightarrow> u64 \<Rightarrow> u64 \<Rightarrow> bool \<Rightarrow> bool \<Rightarrow> bool
     \<Rightarrow> 'w \<times> resolve_locks_context \<Rightarrow> (('w \<times> resolve_locks_context) \<times> txn_status res) option" where
  "check_txn_status pd kv fuel txn primary caller_start_ts current_ts rollback_if_not_exist force_sync_commit resolving_pessimistic_lock wc =
    (case wc of (w, c) \<Rightarrow>
       case rc_resolved c txn of
         Some st \<Rightarrow> Some ((w, c), Inr st)
       | None \<Rightarrow>
          (case run_plan pd (dispatch_ops (kv_check_txn_status kv) (check_txn_status_shards (pd_region_for_key pd))
                  check_txn_status_apply_shard (\<lambda>_ q. q) (opt_key_errors \<circ> cts_error) cts_region_error) False fuel
                  DEFAULT_REGION_BACKOFF w
                  (new_dispatch (new_check_txn_status_request primary txn caller_start_ts current_ts rollback_if_not_exist
                     force_sync_commit resolving_pessimistic_lock)) of
             None \<Rightarrow> None
           | Some (w, r) \<Rightarrow>
              (case ok_bind r (\<lambda>rs. ok_bind (collect_single (map snd rs))
                      (extract_error_single (opt_key_errors \<circ> cts_error) cts_region_error)) of
                 Inl e \<Rightarrow> Some ((w, c), Inl e)
               | Inr resp \<Rightarrow>
                  (case pd_get_timestamp pd w of
                     (w, Inl e) \<Rightarrow> Some ((w, c), Inl e)
                   | (w, Inr current) \<Rightarrow>
                      (let st = check_ttl current (txn_status_of resp)
                       in Some ((w, if is_cacheable st then save_resolved txn st c else c), Inr st))))))"

text \<open>The loop of \<open>check_all_secondaries\<close> over the responses with their shards: the minimal commit timestamp
  so far, whether a lock was missing, and the commit timestamp that the missing locks determine.\<close>

fun all_secondaries ::
  "(check_secondary_locks_response \<times> bytes list) list \<Rightarrow> u64 \<Rightarrow> bool \<Rightarrow> u64 option \<Rightarrow> secondary_locks_status \<Rightarrow> secondary_locks_status res" where
  "all_secondaries [] min_ts missing determined status =
     Inr (case determined of
         Some ts \<Rightarrow> status\<lparr>sl_commit_ts := try_from_version ts, sl_min_commit_ts := ts\<rparr>
       | None \<Rightarrow> status\<lparr>sl_min_commit_ts := min_ts\<rparr>)"
| "all_secondaries ((resp, shard) # rest) min_ts missing determined status =
    (if length (css_locks resp) < length shard then
       (let ts = css_commit_ts resp
        in case determined of
             None \<Rightarrow> if ts \<noteq> 0 \<and> ts < min_ts
                then Inl (InternalError (''commit ts must be >= min commit ts: commit_ts='' @ show_nat (unat ts) @ '', min_commit_ts='' @ show_nat (unat min_ts)))
                else all_secondaries rest min_ts True (Some ts) status
           | Some prev \<Rightarrow> if prev = ts then all_secondaries rest min_ts True determined status
                else Inl (InternalError (''commit ts mismatch in async commit recovery: '' @ show_nat (unat prev) @ '' and '' @ show_nat (unat ts))))
     else if list_ex (\<lambda>l. \<not> li_use_async_commit l) (css_locks resp) then Inr (status\<lparr>sl_fallback_2pc := True\<rparr>)
     else all_secondaries rest (if missing then min_ts else fold (\<lambda>l m. max m (li_min_commit_ts l)) (css_locks resp) min_ts)
            missing determined status)"

definition check_all_secondaries ::
  "(error \<Rightarrow> string) \<Rightarrow> ('w, 'c) pd_client \<Rightarrow> ('w, 'c) kv_ops \<Rightarrow> nat \<Rightarrow> bytes list \<Rightarrow> u64 \<Rightarrow> u64 \<Rightarrow> 'w
     \<Rightarrow> ('w \<times> secondary_locks_status res) option" where
  "check_all_secondaries display pd kv fuel keys txn primary_min_commit_ts w =
     map_option (\<lambda>(w, r). (w, ok_bind r (\<lambda>rs.
         ok_bind (extract_error display (opt_key_errors \<circ> css_error \<circ> fst) (css_region_error \<circ> fst)
             (map (\<lambda>(p, x). map_sum id (\<lambda>resp. (resp, csq_keys (di_request p))) x) rs)) (\<lambda>xs.
         ok_bind (collect_error xs) (\<lambda>responses.
           all_secondaries responses primary_min_commit_ts False None
             \<lparr>sl_commit_ts = None, sl_min_commit_ts = primary_min_commit_ts, sl_fallback_2pc = False\<rparr>)))))
       (run_plan pd (dispatch_ops (kv_check_secondary_locks kv) (check_secondary_locks_shards (pd_region_for_key pd))
          check_secondary_locks_apply_shard (\<lambda>_ q. q) (opt_key_errors \<circ> css_error) css_region_error) False fuel
          DEFAULT_REGION_BACKOFF w (new_dispatch (new_check_secondary_locks_request keys txn)))"

definition batch_resolve_locks ::
  "('w, 'c) kv_ops \<Rightarrow> 'w \<Rightarrow> 'c region_store \<Rightarrow> txn_info list \<Rightarrow> 'w \<times> region_ver_id res" where
  "batch_resolve_locks kv w st infos =
    (case apply_to_request st (default_context\<lparr>ctx_request_source := ''unknown''\<rparr>) of
       Inl e \<Rightarrow> (w, Inl e)
     | Inr ctx \<Rightarrow>
        (case kv_resolve_lock kv w (rst_client st) ctx (new_batch_resolve_lock_request infos) of
           (w, Inl e) \<Rightarrow> (w, Inl e)
         | (w, Inr resp) \<Rightarrow>
            (w, ok_bind (extract_error_single (opt_key_errors \<circ> rls_error) rls_region_error resp) (\<lambda>_. Inr (ver_id (rst_region st))))))"

definition is_pessimistic_lock :: "lock_info \<Rightarrow> bool" where
  "is_pessimistic_lock l \<longleftrightarrow> li_lock_type l = 5"

text \<open>What becomes of the transaction of one lock: its commit timestamp, or 0 when it is rolled back.\<close>

definition decide_txn ::
  "(error \<Rightarrow> string) \<Rightarrow> ('w, 'c) pd_client \<Rightarrow> ('w, 'c) kv_ops \<Rightarrow> nat \<Rightarrow> lock_info \<Rightarrow> 'w \<times> resolve_locks_context
     \<Rightarrow> (('w \<times> resolve_locks_context) \<times> u64 res) option" where
  "decide_txn display pd kv fuel l wc =
    (let txn = li_lock_version l;
         settle = (\<lambda>wc st. case st_kind st of
             StatusLocked _ info \<Rightarrow> (wc, Inl (ResolveLockError [info]))
           | StatusCommitted ts \<Rightarrow> (wc, Inr (version_of ts))
           | StatusRolledBack \<Rightarrow> (wc, Inr 0))
     in case check_txn_status pd kv fuel txn (li_primary_lock l) 0 (- 1) True False (is_pessimistic_lock l) wc of
          None \<Rightarrow> None
        | Some (wc, Inl e) \<Rightarrow> Some (wc, Inl e)
        | Some ((w, c), Inr st) \<Rightarrow>
           (case st_kind st of
              StatusLocked _ info \<Rightarrow>
               (case check_all_secondaries display pd kv fuel (li_secondaries info) txn (li_min_commit_ts info) w of
                  None \<Rightarrow> None
                | Some (w, Inl e) \<Rightarrow> Some ((w, c), Inl e)
                | Some (w, Inr sec) \<Rightarrow>
                   if sl_fallback_2pc sec then
                     (case check_txn_status pd kv fuel txn (li_primary_lock l) 0 (- 1) True True (is_pessimistic_lock l) (w, c) of
                        None \<Rightarrow> None
                      | Some (wc, Inl e) \<Rightarrow> Some (wc, Inl e)
                      | Some (wc, Inr st) \<Rightarrow> Some (settle wc st))
                   else Some ((w, c), Inr (case sl_commit_ts sec of Some ts \<Rightarrow> version_of ts | None \<Rightarrow> sl_min_commit_ts sec)))
            | _ \<Rightarrow> Some (settle (w, c) st)))"

fun collect_txn_infos ::
  "(error \<Rightarrow> string) \<Rightarrow> ('w, 'c) pd_client \<Rightarrow> ('w, 'c) kv_ops \<Rightarrow> nat \<Rightarrow> region_ver_id \<Rightarrow> lock_info list \<Rightarrow> (u64 \<times> u64) list
     \<Rightarrow> 'w \<times> resolve_locks_context \<Rightarrow> (('w \<times> resolve_locks_context) \<times> (u64 \<times> u64) list res) option" where
  "collect_txn_infos display pd kv fuel region [] infos wc = Some (wc, Inr infos)"
| "collect_txn_infos display pd kv fuel region (l # ls) infos wc =
    (if li_lock_version l \<in> fst ` set infos \<or> is_region_cleaned (snd wc) (li_lock_version l) region
     then collect_txn_infos display pd kv fuel region ls infos wc
     else (case decide_txn display pd kv fuel l wc of
         None \<Rightarrow> None
       | Some (wc, Inl e) \<Rightarrow> Some (wc, Inl e)
       | Some (wc, Inr ts) \<Rightarrow> collect_txn_infos display pd kv fuel region ls (infos @ [(li_lock_version l, ts)]) wc))"

text \<open>\<open>cleanup_locks\<close>; the transactions of the request stand in the order in which they were met.\<close>

definition cleanup_locks ::
  "(error \<Rightarrow> string) \<Rightarrow> ('w, 'c) pd_client \<Rightarrow> ('w, 'c) kv_ops \<Rightarrow> nat \<Rightarrow> 'c region_store \<Rightarrow> lock_info list
     \<Rightarrow> 'w \<times> resolve_locks_context \<Rightarrow> (('w \<times> resolve_locks_context) \<times> unit res) option" where
  "cleanup_locks display pd kv fuel st locks wc =
    (if locks = [] then Some (wc, Inr ())
     else case collect_txn_infos display pd kv fuel (ver_id (rst_region st)) locks [] wc of
        None \<Rightarrow> None
      | Some (wc, Inl e) \<Rightarrow> Some (wc, Inl e)
      | Some ((w, c), Inr infos) \<Rightarrow>
         (case batch_resolve_locks kv w st (map (\<lambda>(txn, ts). \<lparr>ti_txn = txn, ti_status = ts, ti_is_txn_file = False\<rparr>) infos) of
            (w, Inl e) \<Rightarrow> Some ((w, c), Inl e)
          | (w, Inr cleaned) \<Rightarrow> Some ((w, fold (\<lambda>(txn, _). save_cleaned_region txn cleaned) infos c), Inr ())))"

end
