(* ===== verification/Txn_Options.thy ===== *)
theory Txn_Options
  imports Lock_Resolver Complex_Main
begin

text \<open>
  The options of a transaction (\<open>TransactionOptions\<close>, \<open>PipelinedTxnOptions\<close> and \<open>RetryOptions\<close>): their
  builders, the check that a pipelined transaction makes of them, and the timestamp that a pessimistic
  transaction pushes. Durations are milliseconds.
\<close>

subsection \<open>Options\<close>

datatype transaction_kind = TxnOptimistic | TxnPessimistic timestamp

text \<open>A floating point number, as far as the options look at it.\<close>

datatype f64 = Finite rat | NotFinite

record pipelined_txn_options =
  po_flush_concurrency :: nat
  po_resolve_lock_concurrency :: nat
  po_write_throttle_ratio :: f64
  po_min_flush_keys :: nat

definition default_pipelined_txn_options :: pipelined_txn_options where
  "default_pipelined_txn_options = \<lparr>po_flush_concurrency = 4, po_resolve_lock_concurrency = 4,
     po_write_throttle_ratio = Finite 0, po_min_flush_keys = 10000\<rparr>"

record retry_options =
  ro_region_backoff :: backoff
  ro_lock_backoff :: backoff

definition default_optimistic :: retry_options where
  "default_optimistic = \<lparr>ro_region_backoff = DEFAULT_REGION_BACKOFF, ro_lock_backoff = OPTIMISTIC_BACKOFF\<rparr>"

definition default_pessimistic :: retry_options where
  "default_pessimistic = \<lparr>ro_region_backoff = DEFAULT_REGION_BACKOFF, ro_lock_backoff = PESSIMISTIC_BACKOFF\<rparr>"

definition no_retry_options :: retry_options where
  "no_retry_options = \<lparr>ro_region_backoff = no_backoff, ro_lock_backoff = no_backoff\<rparr>"

datatype check_level = CheckPanic | CheckWarn | CheckNone

datatype heartbeat_option = NoHeartbeat | FixedTime nat

definition is_auto_heartbeat :: "heartbeat_option \<Rightarrow> bool" where
  "is_auto_heartbeat h \<longleftrightarrow> h \<noteq> NoHeartbeat"

record transaction_options =
  to_kind :: transaction_kind
  to_try_one_pc :: bool
  to_async_commit :: bool
  to_read_only :: bool
  to_replica_read :: replica_read_type
  to_stale_read :: bool
  to_retry_options :: retry_options
  to_check_level :: check_level
  to_assertion_level :: assertion_level
  to_max_commit_ts_safe_window :: nat
  to_commit_wait_until_tso :: "u64 option"
  to_commit_wait_until_tso_timeout :: nat
  to_heartbeat_option :: heartbeat_option
  to_pipelined :: "pipelined_txn_options option"

definition MAX_TTL :: u64 where "MAX_TTL = 20000"
definition DEFAULT_LOCK_TTL :: u64 where "DEFAULT_LOCK_TTL = 3000"
definition DEFAULT_HEARTBEAT_INTERVAL :: nat where "DEFAULT_HEARTBEAT_INTERVAL = 10000"
definition DEFAULT_MAX_COMMIT_TS_SAFE_WINDOW :: nat where "DEFAULT_MAX_COMMIT_TS_SAFE_WINDOW = 2000"
definition DEFAULT_COMMIT_WAIT_UNTIL_TSO_TIMEOUT :: nat where "DEFAULT_COMMIT_WAIT_UNTIL_TSO_TIMEOUT = 1000"
definition COMMIT_WAIT_UNTIL_TSO_POLL_INTERVAL :: u64 where "COMMIT_WAIT_UNTIL_TSO_POLL_INTERVAL = 10"

definition new_optimistic :: transaction_options where
  "new_optimistic = \<lparr>to_kind = TxnOptimistic, to_try_one_pc = False, to_async_commit = False, to_read_only = False,
     to_replica_read = ReadLeader, to_stale_read = False, to_retry_options = default_optimistic, to_check_level = CheckPanic,
     to_assertion_level = LevelOff, to_max_commit_ts_safe_window = DEFAULT_MAX_COMMIT_TS_SAFE_WINDOW,
     to_commit_wait_until_tso = None, to_commit_wait_until_tso_timeout = DEFAULT_COMMIT_WAIT_UNTIL_TSO_TIMEOUT,
     to_heartbeat_option = FixedTime DEFAULT_HEARTBEAT_INTERVAL, to_pipelined = None\<rparr>"

definition new_pessimistic :: transaction_options where
  "new_pessimistic = \<lparr>to_kind = TxnPessimistic (from_version 0), to_try_one_pc = False, to_async_commit = False, to_read_only = False,
     to_replica_read = ReadLeader, to_stale_read = False, to_retry_options = default_pessimistic, to_check_level = CheckPanic,
     to_assertion_level = LevelOff, to_max_commit_ts_safe_window = DEFAULT_MAX_COMMIT_TS_SAFE_WINDOW,
     to_commit_wait_until_tso = None, to_commit_wait_until_tso_timeout = DEFAULT_COMMIT_WAIT_UNTIL_TSO_TIMEOUT,
     to_heartbeat_option = FixedTime DEFAULT_HEARTBEAT_INTERVAL, to_pipelined = None\<rparr>"

subsection \<open>Builders\<close>

definition use_async_commit :: "transaction_options \<Rightarrow> transaction_options" where
  "use_async_commit t = (if to_pipelined t \<noteq> None then t else t\<lparr>to_async_commit := True\<rparr>)"

definition try_one_pc :: "transaction_options \<Rightarrow> transaction_options" where
  "try_one_pc t = (if to_pipelined t \<noteq> None then t else t\<lparr>to_try_one_pc := True\<rparr>)"

definition read_only :: "transaction_options \<Rightarrow> transaction_options" where
  "read_only t = t\<lparr>to_read_only := True, to_pipelined := None\<rparr>"

definition use_pipelined_txn :: "pipelined_txn_options \<Rightarrow> transaction_options \<Rightarrow> transaction_options" where
  "use_pipelined_txn p t = t\<lparr>to_try_one_pc := False, to_async_commit := False, to_read_only := False, to_pipelined := Some p\<rparr>"

definition no_resolve_locks :: "transaction_options \<Rightarrow> transaction_options" where
  "no_resolve_locks t = t\<lparr>to_retry_options := (to_retry_options t)\<lparr>ro_lock_backoff := no_backoff\<rparr>\<rparr>"

definition no_resolve_regions :: "transaction_options \<Rightarrow> transaction_options" where
  "no_resolve_regions t = t\<lparr>to_retry_options := (to_retry_options t)\<lparr>ro_region_backoff := no_backoff\<rparr>\<rparr>"

definition with_assertion_level :: "assertion_level \<Rightarrow> transaction_options \<Rightarrow> transaction_options" where
  "with_assertion_level level t = t\<lparr>to_assertion_level := level\<rparr>"

definition with_replica_read :: "replica_read_type \<Rightarrow> transaction_options \<Rightarrow> transaction_options" where
  "with_replica_read r t = t\<lparr>to_replica_read := r\<rparr>"

definition with_stale_read :: "bool \<Rightarrow> transaction_options \<Rightarrow> transaction_options" where
  "with_stale_read stale t = t\<lparr>to_stale_read := stale\<rparr>"

definition with_safe_window :: "nat \<Rightarrow> transaction_options \<Rightarrow> transaction_options" where
  "with_safe_window window t = t\<lparr>to_max_commit_ts_safe_window := window\<rparr>"

definition with_retry_options :: "retry_options \<Rightarrow> transaction_options \<Rightarrow> transaction_options" where
  "with_retry_options ro t = t\<lparr>to_retry_options := ro\<rparr>"

definition drop_check :: "check_level \<Rightarrow> transaction_options \<Rightarrow> transaction_options" where
  "drop_check level t = t\<lparr>to_check_level := level\<rparr>"

definition with_heartbeat_option :: "heartbeat_option \<Rightarrow> transaction_options \<Rightarrow> transaction_options" where
  "with_heartbeat_option h t = t\<lparr>to_heartbeat_option := h\<rparr>"

definition with_flush_concurrency :: "nat \<Rightarrow> pipelined_txn_options \<Rightarrow> pipelined_txn_options" where
  "with_flush_concurrency n p = p\<lparr>po_flush_concurrency := n\<rparr>"

definition with_resolve_lock_concurrency :: "nat \<Rightarrow> pipelined_txn_options \<Rightarrow> pipelined_txn_options" where
  "with_resolve_lock_concurrency n p = p\<lparr>po_resolve_lock_concurrency := n\<rparr>"

definition with_write_throttle_ratio :: "f64 \<Rightarrow> pipelined_txn_options \<Rightarrow> pipelined_txn_options" where
  "with_write_throttle_ratio r p = p\<lparr>po_write_throttle_ratio := r\<rparr>"

definition set_commit_wait_until_tso :: "u64 \<Rightarrow> transaction_options \<Rightarrow> transaction_options" where
  "set_commit_wait_until_tso tso t = t\<lparr>to_commit_wait_until_tso := (if tso \<noteq> 0 then Some tso else None)\<rparr>"

definition commit_wait_until_tso :: "transaction_options \<Rightarrow> u64" where
  "commit_wait_until_tso t = (case to_commit_wait_until_tso t of None \<Rightarrow> 0 | Some tso \<Rightarrow> tso)"

definition is_pessimistic_options :: "transaction_options \<Rightarrow> bool" where
  "is_pessimistic_options t = (case to_kind t of TxnPessimistic _ \<Rightarrow> True | TxnOptimistic \<Rightarrow> False)"

definition is_pipelined :: "transaction_options \<Rightarrow> bool" where
  "is_pipelined t \<longleftrightarrow> to_pipelined t \<noteq> None"

definition push_for_update_ts :: "timestamp \<Rightarrow> transaction_options \<Rightarrow> transaction_options" where
  "push_for_update_ts ts t = t\<lparr>to_kind := (case to_kind t of
      TxnOptimistic \<Rightarrow> TxnPessimistic ts
    | TxnPessimistic old \<Rightarrow> TxnPessimistic (from_version (max (version_of old) (version_of ts))))\<rparr>"

text \<open>The text of the ratio in the message is the argument \<open>show_ratio\<close>.\<close>

definition validate :: "(f64 \<Rightarrow> string) \<Rightarrow> transaction_options \<Rightarrow> unit res" where
  "validate show_ratio t =
    (case to_pipelined t of
       None \<Rightarrow> Inr ()
     | Some p \<Rightarrow>
        if is_pessimistic_options t
        then Inl (InvalidPipelinedTransaction ''pipelined transactions are only supported for optimistic transactions'')
        else if to_try_one_pc t \<or> to_async_commit t
        then Inl (InvalidPipelinedTransaction ''pipelined transactions cannot enable 1PC or async-commit'')
        else if po_flush_concurrency p = 0 then Inl (InvalidPipelinedTransaction ''flush_concurrency must be > 0'')
        else if po_resolve_lock_concurrency p = 0 then Inl (InvalidPipelinedTransaction ''resolve_lock_concurrency must be > 0'')
        else if (case po_write_throttle_ratio p of NotFinite \<Rightarrow> True | Finite r \<Rightarrow> r < 0 \<or> r \<ge> 1)
        then Inl (InvalidPipelinedTransaction (''write_throttle_ratio must be in [0, 1), got '' @ show_ratio (po_write_throttle_ratio p)))
        else if po_min_flush_keys p = 0 then Inl (InvalidPipelinedTransaction ''min_flush_keys must be > 0'')
        else Inr ())"

text \<open>Options that a transaction may run with: what the builders keep and \<open>validate\<close> checks.\<close>

definition valid_options :: "transaction_options \<Rightarrow> bool" where
  "valid_options t \<longleftrightarrow> (case to_pipelined t of
      None \<Rightarrow> True
    | Some p \<Rightarrow> \<not> is_pessimistic_options t \<and> \<not> to_try_one_pc t \<and> \<not> to_async_commit t
        \<and> po_flush_concurrency p > 0 \<and> po_resolve_lock_concurrency p > 0 \<and> po_min_flush_keys p > 0
        \<and> (\<exists>r. po_write_throttle_ratio p = Finite r \<and> 0 \<le> r \<and> r < 1))"

lemma validate_valid: "validate show_ratio t = Inr () \<longleftrightarrow> valid_options t"
  by (auto simp: validate_def valid_options_def split: option.splits f64.splits)

lemma push_for_update_ts_kind:
  "\<exists>ts'. to_kind (push_for_update_ts ts t) = TxnPessimistic ts'"
  by (auto simp: push_for_update_ts_def split: transaction_kind.splits)

subsection \<open>Options that can be built\<close>

text \<open>The fields of the options are private: every value is built from the two defaults by the builders.\<close>

inductive pipelined_built :: "pipelined_txn_options \<Rightarrow> bool" where
  "pipelined_built default_pipelined_txn_options"
| "pipelined_built p \<Longrightarrow> pipelined_built (with_flush_concurrency n p)"
| "pipelined_built p \<Longrightarrow> pipelined_built (with_resolve_lock_concurrency n p)"
| "pipelined_built p \<Longrightarrow> pipelined_built (with_write_throttle_ratio r p)"

inductive options_built :: "transaction_options \<Rightarrow> bool" where
  built_optimistic: "options_built new_optimistic"
| built_pessimistic: "options_built new_pessimistic"
| built_async_commit: "options_built t \<Longrightarrow> options_built (use_async_commit t)"
| built_one_pc: "options_built t \<Longrightarrow> options_built (try_one_pc t)"
| built_read_only: "options_built t \<Longrightarrow> options_built (read_only t)"
| built_pipelined: "options_built t \<Longrightarrow> pipelined_built p \<Longrightarrow> options_built (use_pipelined_txn p t)"
| built_locks: "options_built t \<Longrightarrow> options_built (no_resolve_locks t)"
| built_regions: "options_built t \<Longrightarrow> options_built (no_resolve_regions t)"
| built_assertion: "options_built t \<Longrightarrow> options_built (with_assertion_level level t)"
| built_replica: "options_built t \<Longrightarrow> options_built (with_replica_read rt t)"
| built_stale: "options_built t \<Longrightarrow> options_built (with_stale_read stale t)"
| built_window: "options_built t \<Longrightarrow> options_built (with_safe_window window t)"
| built_retry: "options_built t \<Longrightarrow> options_built (with_retry_options ro t)"
| built_drop: "options_built t \<Longrightarrow> options_built (drop_check check t)"
| built_heartbeat: "options_built t \<Longrightarrow> options_built (with_heartbeat_option h t)"
| built_wait: "options_built t \<Longrightarrow> options_built (set_commit_wait_until_tso tso t)"
| built_push: "options_built t \<Longrightarrow> is_pessimistic_options t \<Longrightarrow> options_built (push_for_update_ts ts t)"

lemmas builder_defs = use_async_commit_def try_one_pc_def read_only_def use_pipelined_txn_def no_resolve_locks_def no_resolve_regions_def
  with_assertion_level_def with_replica_read_def with_stale_read_def with_safe_window_def with_retry_options_def drop_check_def
  with_heartbeat_option_def set_commit_wait_until_tso_def push_for_update_ts_def

lemma pipelined_built_flush_keys: "pipelined_built p \<Longrightarrow> po_min_flush_keys p = 10000"
  by (induction rule: pipelined_built.induct)
     (simp_all add: default_pipelined_txn_options_def with_flush_concurrency_def with_resolve_lock_concurrency_def with_write_throttle_ratio_def)

lemma options_built_modes:
  assumes "options_built t" "to_pipelined t = Some p"
  shows "\<not> to_try_one_pc t \<and> \<not> to_async_commit t \<and> \<not> to_read_only t \<and> po_min_flush_keys p = 10000"
  using assms
  by (induction rule: options_built.induct)
     (auto simp: builder_defs new_optimistic_def new_pessimistic_def pipelined_built_flush_keys split: if_splits)

text \<open>C24: However options are built, a pipelined transaction never has one-phase commit, async commit or read-only set as
  well, so the transaction modes exclude each other; what is left for \<open>validate\<close> to refuse is a pessimistic
  pipelined transaction, a concurrency of 0 and a ratio outside of the interval.\<close>

theorem built_options_exclude_modes:
  assumes "options_built t"
  shows "(to_pipelined t \<noteq> None \<longrightarrow> \<not> to_try_one_pc t \<and> \<not> to_async_commit t \<and> \<not> to_read_only t)
    \<and> (validate show_ratio t = Inr () \<longleftrightarrow> (\<forall>p. to_pipelined t = Some p \<longrightarrow> \<not> is_pessimistic_options t
        \<and> po_flush_concurrency p > 0 \<and> po_resolve_lock_concurrency p > 0
        \<and> (\<exists>r. po_write_throttle_ratio p = Finite r \<and> 0 \<le> r \<and> r < 1)))"
  using options_built_modes [OF assms] by (auto simp: validate_valid valid_options_def split: option.splits)

theorem built_options_exclude_modes_witness:
  "let t = try_one_pc (use_pipelined_txn default_pipelined_txn_options (use_async_commit new_optimistic)) in
     to_pipelined t \<noteq> None \<and> \<not> to_try_one_pc t \<and> \<not> to_async_commit t \<and> validate (\<lambda>_. []) t = Inr ()"
proof -
  let ?t = "try_one_pc (use_pipelined_txn default_pipelined_txn_options (use_async_commit new_optimistic))"
  have "options_built ?t" by (intro options_built.intros pipelined_built.intros)
  from built_options_exclude_modes [OF this, of "\<lambda>_. []"] show ?thesis
    by (simp add: Let_def builder_defs default_pipelined_txn_options_def new_optimistic_def is_pessimistic_options_def)
qed

end
