(* ===== verification/Committer.thy ===== *)
theory Committer
  imports Txn_Options
begin

text \<open>
  The committer (\<open>Committer\<close> in \<open>transaction/transaction.rs\<close>): the two phases of a commit, the shortcuts of
  async commit and one-phase commit, and the rollback. An operation returns None when it panics or runs out
  of fuel. The commit of the secondary keys is spawned as a task of its own: \<open>committer_commit\<close> returns it
  with its result, and \<open>commit_secondary\<close> is what the task runs. \<open>display\<close> is the text of an error.
\<close>

subsection \<open>State\<close>

record committer =
  cm_primary_key :: "key option"
  cm_prewrite_mutations :: "proto_mutation list"
  cm_commit_keys :: "bytes list"
  cm_start_version :: timestamp
  cm_options :: transaction_options
  cm_keyspace :: keyspace
  cm_undetermined :: bool
  cm_write_size :: u64
  cm_start_instant :: int

definition new_committer ::
  "key option \<Rightarrow> proto_mutation list \<Rightarrow> bytes list \<Rightarrow> timestamp \<Rightarrow> transaction_options \<Rightarrow> keyspace \<Rightarrow> u64 \<Rightarrow> int \<Rightarrow> committer" where
  "new_committer primary ms ks start options ks_id write_size instant = \<lparr>cm_primary_key = primary, cm_prewrite_mutations = ms,
     cm_commit_keys = ks, cm_start_version = start, cm_options = options, cm_keyspace = ks_id, cm_undetermined = False,
     cm_write_size = write_size, cm_start_instant = instant\<rparr>"

definition with_options :: "(transaction_options \<Rightarrow> transaction_options) \<Rightarrow> committer \<Rightarrow> committer" where
  "with_options f c = c\<lparr>cm_options := f (cm_options c)\<rparr>"

subsection \<open>Timestamps\<close>

primrec fetch_loop ::
  "('w, 'c) pd_client \<Rightarrow> u64 \<Rightarrow> nat \<Rightarrow> int \<Rightarrow> nat \<Rightarrow> 'w \<Rightarrow> ('w \<times> timestamp res) option" where
  "fetch_loop pd wait_until_tso timeout start 0 = (\<lambda>w. None)"
| "fetch_loop pd wait_until_tso timeout start (Suc fuel) = (\<lambda>w.
    (case pd_get_timestamp pd w of
       (w, Inl e) \<Rightarrow> Some (w, Inl e)
     | (w, Inr ts) \<Rightarrow>
        if version_of ts \<ge> wait_until_tso then Some (w, Inr ts)
        else if rt_now pd w - start \<ge> int timeout then Some (w, Inl (CommitTsLag (version_of ts) wait_until_tso))
        else fetch_loop pd wait_until_tso timeout start fuel (rt_sleep pd w COMMIT_WAIT_UNTIL_TSO_POLL_INTERVAL)))"

definition fetch_commit_timestamp ::
  "('w, 'c) pd_client \<Rightarrow> nat \<Rightarrow> transaction_options \<Rightarrow> 'w \<Rightarrow> ('w \<times> timestamp res) option" where
  "fetch_commit_timestamp pd fuel options w =
    (case to_commit_wait_until_tso options of
       None \<Rightarrow> Some (pd_get_timestamp pd w)
     | Some tso \<Rightarrow> fetch_loop pd tso (to_commit_wait_until_tso_timeout options) (rt_now pd w) fuel w)"

definition PD_TS_LOGICAL_BITS :: nat where "PD_TS_LOGICAL_BITS = 18"

definition add_physical_ms :: "u64 \<Rightarrow> u64 \<Rightarrow> u64" where
  "add_physical_ms ver delta_ms = saturating_add ver (saturating_mul delta_ms (push_bit PD_TS_LOGICAL_BITS 1))"

definition extract_physical_ms :: "u64 \<Rightarrow> u64" where
  "extract_physical_ms ver = drop_bit PD_TS_LOGICAL_BITS ver"

definition min_commit_ts :: "committer \<Rightarrow> u64" where
  "min_commit_ts c =
    (let m = saturating_add (version_of (cm_start_version c)) 1
     in case to_kind (cm_options c) of
          TxnPessimistic for_update_ts \<Rightarrow> max m (saturating_add (version_of for_update_ts) 1)
        | TxnOptimistic \<Rightarrow> m)"

definition max_commit_ts :: "committer \<Rightarrow> u64 \<Rightarrow> u64" where
  "max_commit_ts c elapsed =
    (let current_ts = add_physical_ms (version_of (cm_start_version c)) elapsed;
         safe_window_ms = of_nat (min (to_max_commit_ts_safe_window (cm_options c)) (2 ^ 64 - 1))
     in add_physical_ms current_ts safe_window_ms)"

text \<open>\<open>calc_txn_lock_ttl\<close>: the factor 6000 times the square root of the megabytes written, rounded down and
  clamped. The root is exact here: the largest number of at most \<open>MAX_TTL\<close> whose square times a megabyte is
  at most the square of the factor times the size.\<close>

definition ttl_of_size :: "nat \<Rightarrow> nat" where
  "ttl_of_size n_bytes = length (takeWhile (\<lambda>n. n * n * (1024 * 1024) \<le> 6000 * 6000 * n_bytes) [1..<unat MAX_TTL + 1])"

definition calc_txn_lock_ttl :: "committer \<Rightarrow> u64" where
  "calc_txn_lock_ttl c =
    (if unat (cm_write_size c) > TXN_COMMIT_BATCH_SIZE
     then max DEFAULT_LOCK_TTL (min MAX_TTL (of_nat (ttl_of_size (unat (cm_write_size c)))))
     else DEFAULT_LOCK_TTL)"

definition elapsed_ms :: "('w, 'c) pd_client \<Rightarrow> 'w \<Rightarrow> committer \<Rightarrow> u64" where
  "elapsed_ms pd w c = of_nat (nat (rt_now pd w - cm_start_instant c))"

subsection \<open>Requests\<close>

fun assertion_level_i32 :: "assertion_level \<Rightarrow> int" where
  "assertion_level_i32 LevelOff = 0"
| "assertion_level_i32 LevelFast = 1"
| "assertion_level_i32 LevelStrict = 2"

definition prewrite_request_for :: "committer \<Rightarrow> bytes \<Rightarrow> u64 \<Rightarrow> prewrite_request" where
  "prewrite_request_for c primary elapsed =
    (let options = cm_options c; start = version_of (cm_start_version c);
         lock_ttl = saturating_add (calc_txn_lock_ttl c) elapsed;
         q = (case to_kind options of
                TxnOptimistic \<Rightarrow> new_prewrite_request (cm_prewrite_mutations c) primary start lock_ttl
              | TxnPessimistic for_update_ts \<Rightarrow>
                  new_pessimistic_prewrite_request (cm_prewrite_mutations c) primary start lock_ttl (version_of for_update_ts));
         q = q\<lparr>pw_use_async_commit := to_async_commit options, pw_try_one_pc := to_try_one_pc options,
               pw_min_commit_ts := min_commit_ts c, pw_secondaries := filter (\<lambda>k. primary \<noteq> k) (cm_commit_keys c)\<rparr>;
         q = (if to_async_commit options \<or> to_try_one_pc options then
                (let q = q\<lparr>pw_max_commit_ts := max_commit_ts c elapsed\<rparr>
                 in if to_async_commit options \<and> is_pessimistic_options options
                    then q\<lparr>pw_lock_ttl := max (pw_lock_ttl q)
                           (saturating_add (saturating_sub (extract_physical_ms (pw_max_commit_ts q)) (extract_physical_ms start)) 1)\<rparr>
                    else q)
              else q)
     in q\<lparr>pw_assertion_level := assertion_level_i32 (to_assertion_level options)\<rparr>)"

text \<open>A plan with \<open>resolve_lock\<close> and \<open>retry_multi_region\<close>.\<close>

definition resolving_plan ::
  "('w, 'c) pd_client \<Rightarrow> ('w, 'c) kv_ops \<Rightarrow> nat \<Rightarrow> retry_options \<Rightarrow> ('resp \<Rightarrow> lock_info list \<times> 'resp) \<Rightarrow> 'resp
     \<Rightarrow> ('w, 'c, ('req, 'c) dispatch_plan, 'sh, 'resp) plan_ops \<Rightarrow> bool \<Rightarrow> 'req \<Rightarrow> 'w
     \<Rightarrow> ('w \<times> (('req, 'c) dispatch_plan, 'resp) plan_result) option" where
  "resolving_plan pd kv fuel ro take_fn reroute ops preserve q w =
     run_plan pd (resolve_lock_ops pd (resolve_locks pd kv fuel) take_fn reroute (ro_lock_backoff ro) fuel ops)
       preserve fuel (ro_region_backoff ro) w (new_dispatch q)"

definition prewrite_ops :: "('w, 'c) pd_client \<Rightarrow> ('w, 'c) kv_ops
    \<Rightarrow> ('w, 'c, (prewrite_request, 'c) dispatch_plan, prewrite_shard, prewrite_response) plan_ops" where
  "prewrite_ops pd kv = dispatch_ops (kv_prewrite kv) (prewrite_shards (pd_region_for_key pd)) prewrite_apply_shard
     prewrite_apply_store prewrite_key_errors pws_region_error"

definition commit_ops :: "('w, 'c) pd_client \<Rightarrow> ('w, 'c) kv_ops
    \<Rightarrow> ('w, 'c, (commit_request, 'c) dispatch_plan, bytes list, commit_response) plan_ops" where
  "commit_ops pd kv = dispatch_ops (kv_commit kv) (commit_shards (pd_region_for_key pd)) commit_apply_shard
     (\<lambda>_ q. q) (opt_key_errors \<circ> cms_error) cms_region_error"

definition batch_rollback_ops :: "('w, 'c) pd_client \<Rightarrow> ('w, 'c) kv_ops
    \<Rightarrow> ('w, 'c, (batch_rollback_request, 'c) dispatch_plan, bytes list, batch_rollback_response) plan_ops" where
  "batch_rollback_ops pd kv = dispatch_ops (kv_batch_rollback kv) (batch_rollback_shards (pd_region_for_key pd))
     batch_rollback_apply_shard (\<lambda>_ q. q) (opt_key_errors \<circ> rbs_error) rbs_region_error"

definition pessimistic_rollback_ops :: "('w, 'c) pd_client \<Rightarrow> ('w, 'c) kv_ops
    \<Rightarrow> ('w, 'c, (pessimistic_rollback_request, 'c) dispatch_plan, bytes list, pessimistic_rollback_response) plan_ops" where
  "pessimistic_rollback_ops pd kv = dispatch_ops (kv_pessimistic_rollback kv) (pessimistic_rollback_shards (pd_region_for_key pd))
     pessimistic_rollback_apply_shard (\<lambda>_ q. q) pessimistic_rollback_key_errors prs_region_error"

definition prewrite_reroute :: prewrite_response where
  "prewrite_reroute = \<lparr>pws_region_error = Some epoch_not_match_default, pws_errors = [], pws_min_commit_ts = 0, pws_one_pc_commit_ts = 0\<rparr>"

definition commit_reroute :: commit_response where
  "commit_reroute = \<lparr>cms_region_error = Some epoch_not_match_default, cms_error = None, cms_commit_version = 0\<rparr>"

definition batch_rollback_reroute :: batch_rollback_response where
  "batch_rollback_reroute = \<lparr>rbs_region_error = Some epoch_not_match_default, rbs_error = None\<rparr>"

definition pessimistic_rollback_reroute :: pessimistic_rollback_response where
  "pessimistic_rollback_reroute = \<lparr>prs_region_error = Some epoch_not_match_default, prs_errors = []\<rparr>"

definition commit_take_locks :: "commit_response \<Rightarrow> lock_info list \<times> commit_response" where
  "commit_take_locks r = (case take_locks_opt (cms_error r) of (ls, e) \<Rightarrow> (ls, r\<lparr>cms_error := e\<rparr>))"

definition batch_rollback_take_locks :: "batch_rollback_response \<Rightarrow> lock_info list \<times> batch_rollback_response" where
  "batch_rollback_take_locks r = (case take_locks_opt (rbs_error r) of (ls, e) \<Rightarrow> (ls, r\<lparr>rbs_error := e\<rparr>))"

text \<open>Sending a commit and the two rollbacks: the results of the regions after \<open>extract_error\<close>.\<close>

definition send_commit ::
  "(error \<Rightarrow> string) \<Rightarrow> ('w, 'c) pd_client \<Rightarrow> ('w, 'c) kv_ops \<Rightarrow> nat \<Rightarrow> retry_options \<Rightarrow> commit_request \<Rightarrow> 'w
     \<Rightarrow> ('w \<times> commit_response res list res) option" where
  "send_commit display pd kv fuel ro q w =
     map_option (map_prod id (\<lambda>r. ok_bind r (extract_error display (opt_key_errors \<circ> cms_error) cms_region_error \<circ> map snd)))
       (resolving_plan pd kv fuel ro commit_take_locks commit_reroute (commit_ops pd kv) False q w)"

definition send_batch_rollback ::
  "(error \<Rightarrow> string) \<Rightarrow> ('w, 'c) pd_client \<Rightarrow> ('w, 'c) kv_ops \<Rightarrow> nat \<Rightarrow> retry_options \<Rightarrow> batch_rollback_request \<Rightarrow> 'w
     \<Rightarrow> ('w \<times> batch_rollback_response res list res) option" where
  "send_batch_rollback display pd kv fuel ro q w =
     map_option (map_prod id (\<lambda>r. ok_bind r (extract_error display (opt_key_errors \<circ> rbs_error) rbs_region_error \<circ> map snd)))
       (resolving_plan pd kv fuel ro batch_rollback_take_locks batch_rollback_reroute (batch_rollback_ops pd kv) False q w)"

definition send_pessimistic_rollback ::
  "(error \<Rightarrow> string) \<Rightarrow> ('w, 'c) pd_client \<Rightarrow> ('w, 'c) kv_ops \<Rightarrow> nat \<Rightarrow> retry_options \<Rightarrow> pessimistic_rollback_request \<Rightarrow> 'w
     \<Rightarrow> ('w \<times> pessimistic_rollback_response res list res) option" where
  "send_pessimistic_rollback display pd kv fuel ro q w =
     map_option (map_prod id (\<lambda>r. ok_bind r (extract_error display pessimistic_rollback_key_errors prs_region_error \<circ> map snd)))
       (resolving_plan pd kv fuel ro pessimistic_rollback_take_locks pessimistic_rollback_reroute
          (pessimistic_rollback_ops pd kv) False q w)"

subsection \<open>Prewrite\<close>

definition max_of :: "u64 list \<Rightarrow> u64 option" where
  "max_of xs = (if xs = [] then None else Some (fold max xs 0))"

fun prewrite_error :: "error \<Rightarrow> error" where
  "prewrite_error (MultipleKeyErrors es) = (case es of [e] \<Rightarrow> e | _ \<Rightarrow> MultipleKeyErrors es)"
| "prewrite_error (ExtractedErrors es) = (case es of [e] \<Rightarrow> e | _ \<Rightarrow> MultipleKeyErrors es)"
| "prewrite_error e = e"

text \<open>What becomes of the responses; None is the failed assertion that no response carries a one-phase commit
  timestamp.\<close>

definition after_prewrite :: "prewrite_response list \<Rightarrow> committer \<Rightarrow> (committer \<times> timestamp option res) option" where
  "after_prewrite responses c =
    (let rest = (\<lambda>c. if list_ex (\<lambda>r. pws_one_pc_commit_ts r \<noteq> 0) responses then None
         else Some (with_options (\<lambda>t. t\<lparr>to_try_one_pc := False\<rparr>) c,
           Inr (Option.bind (max_of (map pws_min_commit_ts responses)) try_from_version)))
     in if to_try_one_pc (cm_options c) \<and> length responses = 1
        then (let r = hd responses
              in if pws_one_pc_commit_ts r \<noteq> 0 then Some (c, Inr (try_from_version (pws_one_pc_commit_ts r)))
                 else if pws_min_commit_ts r \<noteq> 0
                 then Some (c, Inl (StringError ''invalid PrewriteResponse: min_commit_ts must be 0 when 1PC falls back to 2PC''))
                 else rest (with_options (\<lambda>t. t\<lparr>to_async_commit := False\<rparr>) c))
        else rest c)"

text \<open>\<open>prewrite\<close>: the results of the regions are merged by \<open>CollectError\<close>, then the errors left in the vector
  are extracted.\<close>

definition prewrite_results :: "(error \<Rightarrow> string) \<Rightarrow> ('p, prewrite_response) plan_result \<Rightarrow> prewrite_response list res" where
  "prewrite_results display r =
     ok_bind r (\<lambda>rs. ok_bind (collect_error (map snd rs)) (\<lambda>responses.
       ok_bind (extract_error display prewrite_key_errors pws_region_error (map Inr responses)) (\<lambda>_. Inr responses)))"

definition committer_prewrite ::
  "(error \<Rightarrow> string) \<Rightarrow> ('w, 'c) pd_client \<Rightarrow> ('w, 'c) kv_ops \<Rightarrow> nat \<Rightarrow> committer \<Rightarrow> 'w
     \<Rightarrow> ('w \<times> committer \<times> timestamp option res) option" where
  "committer_prewrite display pd kv fuel c w =
    (case cm_primary_key c of
       None \<Rightarrow> None
     | Some primary \<Rightarrow>
        (case resolving_plan pd kv fuel (to_retry_options (cm_options c)) prewrite_take_locks prewrite_reroute (prewrite_ops pd kv)
                False (prewrite_request_for c primary (elapsed_ms pd w c)) w of
           None \<Rightarrow> None
         | Some (w, r) \<Rightarrow>
            (case prewrite_results display r of
               Inl e \<Rightarrow> Some (w, c, Inl (prewrite_error e))
             | Inr responses \<Rightarrow> map_option (\<lambda>(c, r). (w, c, r)) (after_prewrite responses c))))"

subsection \<open>Commit and rollback\<close>

fun is_grpc :: "error \<Rightarrow> bool" where
  "is_grpc Grpc = True"
| "is_grpc _ = False"

definition commit_primary ::
  "(error \<Rightarrow> string) \<Rightarrow> ('w, 'c) pd_client \<Rightarrow> ('w, 'c) kv_ops \<Rightarrow> nat \<Rightarrow> committer \<Rightarrow> 'w
     \<Rightarrow> ('w \<times> committer \<times> timestamp res) option" where
  "commit_primary display pd kv fuel c w =
    (case fetch_commit_timestamp pd fuel (cm_options c) w of
       None \<Rightarrow> None
     | Some (w, Inl e) \<Rightarrow> Some (w, c, Inl e)
     | Some (w, Inr commit_version) \<Rightarrow>
        (case send_commit display pd kv fuel (to_retry_options (cm_options c))
                (new_commit_request_with_primary_key (case cm_primary_key c of None \<Rightarrow> [] | Some k \<Rightarrow> [k]) (cm_primary_key c)
                   (version_of (cm_start_version c)) (version_of commit_version)) w of
           None \<Rightarrow> None
         | Some (w, Inr _) \<Rightarrow> Some (w, c, Inr commit_version)
         | Some (w, Inl e) \<Rightarrow> Some (w, if is_grpc e then c\<lparr>cm_undetermined := True\<rparr> else c, Inl e)))"

definition commit_primary_checked ::
  "(error \<Rightarrow> string) \<Rightarrow> ('w, 'c) pd_client \<Rightarrow> ('w, 'c) kv_ops \<Rightarrow> nat \<Rightarrow> committer \<Rightarrow> 'w
     \<Rightarrow> ('w \<times> committer \<times> timestamp res) option" where
  "commit_primary_checked display pd kv fuel c w =
     map_option (\<lambda>(w, c, r). (w, c, case r of Inr ts \<Rightarrow> Inr ts
         | Inl e \<Rightarrow> Inl (if cm_undetermined c then UndeterminedError e else e)))
       (commit_primary display pd kv fuel c w)"

text \<open>\<open>commit\<close>: the last component is the task that commits the secondary keys.\<close>

definition committer_commit ::
  "(error \<Rightarrow> string) \<Rightarrow> ('w, 'c) pd_client \<Rightarrow> ('w, 'c) kv_ops \<Rightarrow> nat \<Rightarrow> committer \<Rightarrow> 'w
     \<Rightarrow> ('w \<times> timestamp option res \<times> (committer \<times> timestamp) option) option" where
  "committer_commit display pd kv fuel c w =
    (case committer_prewrite display pd kv fuel c w of
       None \<Rightarrow> None
     | Some (w, c, Inl e) \<Rightarrow> Some (w, Inl e, None)
     | Some (w, c, Inr min_ts) \<Rightarrow>
        if to_try_one_pc (cm_options c) then Some (w, Inr min_ts, None)
        else
         (case (if to_async_commit (cm_options c) then
                  (case min_ts of
                     Some ts \<Rightarrow> Some (w, c, Inr ts)
                   | None \<Rightarrow> commit_primary_checked display pd kv fuel (with_options (\<lambda>t. t\<lparr>to_async_commit := False\<rparr>) c) w)
                else commit_primary_checked display pd kv fuel c w) of
            None \<Rightarrow> None
          | Some (w, c, Inl e) \<Rightarrow> Some (w, Inl e, None)
          | Some (w, c, Inr commit_ts) \<Rightarrow> Some (w, Inr (Some commit_ts), Some (c, commit_ts))))"

text \<open>The request of the secondary task, or None when there is nothing left to commit. The task panics without
  a primary key, unless it has all keys to commit.\<close>

definition secondary_request :: "committer \<Rightarrow> timestamp \<Rightarrow> commit_request option" where
  "secondary_request c commit_ts =
    (let start = version_of (cm_start_version c); commit = version_of commit_ts
     in if to_async_commit (cm_options c) then Some (new_commit_request (cm_commit_keys c) start commit)
        else if length (cm_commit_keys c) = 1 then None
        else Some (new_commit_request (filter (\<lambda>k. cm_primary_key c \<noteq> Some k) (cm_commit_keys c)) start commit))"

definition commit_secondary ::
  "(error \<Rightarrow> string) \<Rightarrow> ('w, 'c) pd_client \<Rightarrow> ('w, 'c) kv_ops \<Rightarrow> nat \<Rightarrow> committer \<Rightarrow> timestamp \<Rightarrow> 'w \<Rightarrow> ('w \<times> unit res) option" where
  "commit_secondary display pd kv fuel c commit_ts w =
    (if \<not> to_async_commit (cm_options c) \<and> length (cm_commit_keys c) \<noteq> 1 \<and> cm_primary_key c = None then None
     else case secondary_request c commit_ts of
       None \<Rightarrow> Some (w, Inr ())
     | Some q \<Rightarrow>
        Option.bind (send_commit display pd kv fuel (to_retry_options (cm_options c)) q w) (\<lambda>(w, r).
          map_option (\<lambda>r. (w, map_sum id (\<lambda>_. ()) r)) (truncate_result (cm_keyspace c) r)))"

definition committer_rollback ::
  "(error \<Rightarrow> string) \<Rightarrow> ('w, 'c) pd_client \<Rightarrow> ('w, 'c) kv_ops \<Rightarrow> nat \<Rightarrow> committer \<Rightarrow> 'w \<Rightarrow> ('w \<times> unit res) option" where
  "committer_rollback display pd kv fuel c w =
    (if cm_commit_keys c = [] then Some (w, Inr ())
     else
      (let start = version_of (cm_start_version c); ro = to_retry_options (cm_options c); ks = cm_commit_keys c
       in case to_kind (cm_options c) of
            TxnOptimistic \<Rightarrow>
              Option.bind (send_batch_rollback display pd kv fuel ro (new_batch_rollback_request ks start) w) (\<lambda>(w, r).
                map_option (\<lambda>r. (w, map_sum id (\<lambda>_. ()) r)) (truncate_result (cm_keyspace c) r))
          | TxnPessimistic for_update_ts \<Rightarrow>
              Option.bind (send_pessimistic_rollback display pd kv fuel ro
                  (new_pessimistic_rollback_request ks start (version_of for_update_ts)) w) (\<lambda>(w, r).
                map_option (\<lambda>r. (w, map_sum id (\<lambda>_. ()) r)) (truncate_result (cm_keyspace c) r))))"

end
