(* ===== verification/Pipelined.thy ===== *)
theory Pipelined
  imports Committer
begin

text \<open>
  Pipelined transactions (\<open>transaction/pipelined.rs\<close>): the buffer is flushed in generations by a task of its own
  while the transaction goes on, and the locks of what was flushed are resolved region by region at the end.
  The task is a value of the state: it is pending until it has run, which \<open>background_flush\<close> lets it do at any
  time and \<open>flush_wait\<close> at the latest. \<open>partial\<close> is what the part of a flush that has run when the transaction is
  cancelled did to the world. An operation returns None when it panics or runs out of fuel.
\<close>

subsection \<open>State\<close>

definition PIPELINED_REQUEST_SOURCE :: string where "PIPELINED_REQUEST_SOURCE = ''external_pdml''"
definition PIPELINED_LOCK_TTL_MS :: u64 where "PIPELINED_LOCK_TTL_MS = 20000"

datatype flush_task = FlushPending flush_request retry_options | FlushFinished "unit res"

record pipelined_txn_state =
  pt_opts :: pipelined_txn_options
  pt_generation :: u64
  pt_mutable :: "(key \<times> proto_mutation) list"
  pt_flushing :: "flush_task option"
  pt_flushed_start :: "key option"
  pt_flushed_end_exclusive :: "key option"
  pt_cancelled :: bool

definition new_pipelined_txn_state :: "pipelined_txn_options \<Rightarrow> pipelined_txn_state" where
  "new_pipelined_txn_state opts = \<lparr>pt_opts = opts, pt_generation = 0, pt_mutable = [], pt_flushing = None,
     pt_flushed_start = None, pt_flushed_end_exclusive = None, pt_cancelled = False\<rparr>"

definition cancel_pipelined :: "pipelined_txn_state \<Rightarrow> pipelined_txn_state" where
  "cancel_pipelined s = s\<lparr>pt_cancelled := True\<rparr>"

definition record_mutation :: "key \<Rightarrow> proto_mutation option \<Rightarrow> pipelined_txn_state \<Rightarrow> pipelined_txn_state" where
  "record_mutation k m s = s\<lparr>pt_mutable := (case m of Some m \<Rightarrow> bt_insert k m (pt_mutable s) | None \<Rightarrow> bt_remove k (pt_mutable s))\<rparr>"

definition flushed_range :: "pipelined_txn_state \<Rightarrow> (key \<times> key) option" where
  "flushed_range s = (case (pt_flushed_start s, pt_flushed_end_exclusive s) of (Some a, Some b) \<Rightarrow> Some (a, b) | _ \<Rightarrow> None)"

definition update_flushed_range :: "key \<Rightarrow> key \<Rightarrow> pipelined_txn_state \<Rightarrow> pipelined_txn_state" where
  "update_flushed_range min_key max_key s =
    (let max_key_exclusive = next_key max_key
     in s\<lparr>pt_flushed_start := (case pt_flushed_start s of
            Some existing \<Rightarrow> if existing \<le> min_key then Some existing else Some min_key | None \<Rightarrow> Some min_key),
          pt_flushed_end_exclusive := (case pt_flushed_end_exclusive s of
            Some existing \<Rightarrow> if existing \<ge> max_key_exclusive then Some existing else Some max_key_exclusive
          | None \<Rightarrow> Some max_key_exclusive)\<rparr>)"

subsection \<open>The flush task\<close>

definition flush_ops :: "('w, 'c) pd_client \<Rightarrow> ('w, 'c) kv_ops
    \<Rightarrow> ('w, 'c, (flush_request, 'c) dispatch_plan, proto_mutation list, flush_response) plan_ops" where
  "flush_ops pd kv = dispatch_ops (kv_flush kv) (flush_shards (pd_region_for_key pd)) flush_apply_shard (\<lambda>_ q. q)
     flush_key_errors fls_region_error"

definition flush_reroute :: flush_response where
  "flush_reroute = \<lparr>fls_region_error = Some epoch_not_match_default, fls_errors = []\<rparr>"

definition run_flush ::
  "(error \<Rightarrow> string) \<Rightarrow> ('w, 'c) pd_client \<Rightarrow> ('w, 'c) kv_ops \<Rightarrow> nat \<Rightarrow> retry_options \<Rightarrow> flush_request \<Rightarrow> 'w \<Rightarrow> ('w \<times> unit res) option" where
  "run_flush display pd kv fuel ro q w =
     map_option (map_prod id (\<lambda>r. map_sum id (\<lambda>_. ()) (ok_bind r (extract_error display flush_key_errors fls_region_error \<circ> map snd))))
       (run_plan pd (resolve_lock_ops pd (resolve_locks pd kv fuel) flush_take_locks flush_reroute (ro_lock_backoff ro) fuel (flush_ops pd kv))
          False fuel (ro_region_backoff ro) w
          ((new_dispatch q)\<lparr>di_context := default_context\<lparr>ctx_request_source := PIPELINED_REQUEST_SOURCE\<rparr>\<rparr>))"

text \<open>The scheduler runs the pending task.\<close>

definition background_flush ::
  "(error \<Rightarrow> string) \<Rightarrow> ('w, 'c) pd_client \<Rightarrow> ('w, 'c) kv_ops \<Rightarrow> nat \<Rightarrow> pipelined_txn_state \<Rightarrow> 'w \<Rightarrow> ('w \<times> pipelined_txn_state) option" where
  "background_flush display pd kv fuel s w =
    (case pt_flushing s of
       Some (FlushPending q ro) \<Rightarrow>
        if pt_cancelled s then Some (w, s\<lparr>pt_flushing := Some (FlushFinished (Inr ()))\<rparr>)
        else map_option (\<lambda>(w, r). (w, s\<lparr>pt_flushing := Some (FlushFinished r)\<rparr>)) (run_flush display pd kv fuel ro q w)
     | _ \<Rightarrow> Some (w, s))"

definition flush_wait ::
  "(error \<Rightarrow> string) \<Rightarrow> ('w, 'c) pd_client \<Rightarrow> ('w, 'c) kv_ops \<Rightarrow> nat \<Rightarrow> ('w \<Rightarrow> 'w) \<Rightarrow> pipelined_txn_state \<Rightarrow> 'w
     \<Rightarrow> ('w \<times> pipelined_txn_state \<times> unit res) option" where
  "flush_wait display pd kv fuel partial s w =
    (let s' = s\<lparr>pt_flushing := None\<rparr>
     in case pt_flushing s of
          None \<Rightarrow> Some (w, s', Inr ())
        | Some (FlushFinished r) \<Rightarrow> Some (w, s', r)
        | Some (FlushPending q ro) \<Rightarrow>
           if pt_cancelled s then Some (partial w, s', Inr ())
           else map_option (\<lambda>(w, r). (w, s', r)) (run_flush display pd kv fuel ro q w))"

subsection \<open>Flushing\<close>

text \<open>A transaction is cancelled only by its rollback, after which nothing is flushed: \<open>partial\<close> does not matter here.\<close>

definition start_flush ::
  "(error \<Rightarrow> string) \<Rightarrow> ('w, 'c) pd_client \<Rightarrow> ('w, 'c) kv_ops \<Rightarrow> nat \<Rightarrow> u64 \<Rightarrow> bytes \<Rightarrow> assertion_level \<Rightarrow> retry_options
     \<Rightarrow> pipelined_txn_state \<Rightarrow> 'w \<Rightarrow> ('w \<times> pipelined_txn_state \<times> unit res) option" where
  "start_flush display pd kv fuel start_ts primary level ro s w =
    (case flush_wait display pd kv fuel (\<lambda>w. w) s w of
       None \<Rightarrow> None
     | Some (w, s, Inl e) \<Rightarrow> Some (w, s, Inl e)
     | Some (w, s, Inr _) \<Rightarrow>
        if pt_mutable s = [] then Some (w, s, Inr ())
        else
         (let generation = saturating_add (pt_generation s) 1;
              s = update_flushed_range (fst (hd (pt_mutable s))) (fst (last (pt_mutable s))) (s\<lparr>pt_generation := generation\<rparr>);
              q = (new_flush_request (map snd (pt_mutable s)) primary start_ts generation PIPELINED_LOCK_TTL_MS)
                    \<lparr>flq_assertion_level := assertion_level_i32 level\<rparr>
          in Some (w, s\<lparr>pt_mutable := [], pt_flushing := Some (FlushPending q ro)\<rparr>, Inr ())))"

definition maybe_flush ::
  "(error \<Rightarrow> string) \<Rightarrow> ('w, 'c) pd_client \<Rightarrow> ('w, 'c) kv_ops \<Rightarrow> nat \<Rightarrow> u64 \<Rightarrow> bytes \<Rightarrow> assertion_level \<Rightarrow> retry_options
     \<Rightarrow> pipelined_txn_state \<Rightarrow> 'w \<Rightarrow> ('w \<times> pipelined_txn_state \<times> unit res) option" where
  "maybe_flush display pd kv fuel start_ts primary level ro s w =
    (if pt_flushing s \<noteq> None then Some (w, s, Inr ())
     else if length (pt_mutable s) < po_min_flush_keys (pt_opts s) then Some (w, s, Inr ())
     else start_flush display pd kv fuel start_ts primary level ro s w)"

primrec flush_all_rounds ::
  "(error \<Rightarrow> string) \<Rightarrow> ('w, 'c) pd_client \<Rightarrow> ('w, 'c) kv_ops \<Rightarrow> nat \<Rightarrow> u64 \<Rightarrow> bytes \<Rightarrow> assertion_level \<Rightarrow> retry_options \<Rightarrow> nat
     \<Rightarrow> pipelined_txn_state \<Rightarrow> 'w \<Rightarrow> ('w \<times> pipelined_txn_state \<times> unit res) option" where
  "flush_all_rounds display pd kv fuel start_ts primary level ro 0 = (\<lambda>s w. None)"
| "flush_all_rounds display pd kv fuel start_ts primary level ro (Suc n) = (\<lambda>s w.
    (case flush_wait display pd kv fuel (\<lambda>w. w) s w of
       None \<Rightarrow> None
     | Some (w, s, Inl e) \<Rightarrow> Some (w, s, Inl e)
     | Some (w, s, Inr _) \<Rightarrow>
        if pt_mutable s = [] then Some (w, s, Inr ())
        else
         (case start_flush display pd kv fuel start_ts primary level ro s w of
            None \<Rightarrow> None
          | Some (w, s, Inl e) \<Rightarrow> Some (w, s, Inl e)
          | Some (w, s, Inr _) \<Rightarrow> flush_all_rounds display pd kv fuel start_ts primary level ro n s w)))"

text \<open>Two rounds are enough: the second finds nothing left to flush.\<close>

definition flush_all ::
  "(error \<Rightarrow> string) \<Rightarrow> ('w, 'c) pd_client \<Rightarrow> ('w, 'c) kv_ops \<Rightarrow> nat \<Rightarrow> u64 \<Rightarrow> bytes \<Rightarrow> assertion_level \<Rightarrow> retry_options
     \<Rightarrow> pipelined_txn_state \<Rightarrow> 'w \<Rightarrow> ('w \<times> pipelined_txn_state \<times> unit res) option" where
  "flush_all display pd kv fuel start_ts primary level ro = flush_all_rounds display pd kv fuel start_ts primary level ro 2"

subsection \<open>Resolving what was flushed\<close>

text \<open>The stores of the regions of a range, one after the other.\<close>

primrec stores_in_range ::
  "('w, 'c) pd_client \<Rightarrow> key \<Rightarrow> nat \<Rightarrow> key \<Rightarrow> 'w \<Rightarrow> ('w \<times> 'c region_store list res) option" where
  "stores_in_range pd stop 0 = (\<lambda>key w. None)"
| "stores_in_range pd stop (Suc fuel) = (\<lambda>key w.
    if stop \<noteq> [] \<and> key \<ge> stop then Some (w, Inr [])
    else
     (case pd_region_for_key pd w key of
        (w, Inl e) \<Rightarrow> Some (w, Inl e)
      | (w, Inr region) \<Rightarrow>
         (case pd_map_region_to_store pd w region of
            (w, Inl e) \<Rightarrow> Some (w, Inl e)
          | (w, Inr st) \<Rightarrow>
             (let following = mr_end_key (rl_region region)
              in if following = [] \<or> (stop \<noteq> [] \<and> following \<ge> stop) then Some (w, Inr [st])
                 else map_option (map_prod id (map_sum id (\<lambda>sts. st # sts))) (stores_in_range pd stop fuel following w)))))"

definition resolve_in_region ::
  "('w, 'c) kv_ops \<Rightarrow> 'w \<Rightarrow> 'c region_store \<Rightarrow> resolve_lock_request \<Rightarrow> 'w \<times> unit res" where
  "resolve_in_region kv w st req =
    (case apply_to_request st (default_context\<lparr>ctx_request_source := PIPELINED_REQUEST_SOURCE\<rparr>) of
       Inl e \<Rightarrow> (w, Inl e)
     | Inr ctx \<Rightarrow>
        (case kv_resolve_lock kv w (rst_client st) ctx req of
           (w, Inl e) \<Rightarrow> (w, Inl e)
         | (w, Inr resp) \<Rightarrow> (w, map_sum id (\<lambda>_. ()) (extract_error_single (opt_key_errors \<circ> rls_error) rls_region_error resp))))"

fun run_resolves ::
  "('w, 'c) kv_ops \<Rightarrow> resolve_lock_request \<Rightarrow> 'w \<Rightarrow> (nat \<times> 'c region_store) list \<Rightarrow> 'w \<times> (nat \<times> unit res) list" where
  "run_resolves kv req w [] = (w, [])"
| "run_resolves kv req w ((i, st) # tasks) =
    (case resolve_in_region kv w st req of (w, r) \<Rightarrow>
      (case run_resolves kv req w tasks of (w, rs) \<Rightarrow> (w, (i, r) # rs)))"

text \<open>Every region has a task; they finish in any order, and the first that failed in the order of the regions
  gives the result.\<close>

definition resolve_flushed_locks ::
  "('w, 'c) pd_client \<Rightarrow> ('w, 'c) kv_ops \<Rightarrow> nat \<Rightarrow> u64 \<Rightarrow> u64 \<Rightarrow> key \<times> key \<Rightarrow> 'w \<Rightarrow> ('w \<times> unit res) option" where
  "resolve_flushed_locks pd kv fuel start_ts commit_ts rng w =
    (case stores_in_range pd (snd rng) fuel (fst rng) w of
       None \<Rightarrow> None
     | Some (w, Inl e) \<Rightarrow> Some (w, Inl e)
     | Some (w, Inr sts) \<Rightarrow>
        (case run_resolves kv (new_resolve_lock_request start_ts commit_ts) w
                (in_order (rt_order pd w (length sts)) (zip [0..<length sts] sts)) of
           (w, rs) \<Rightarrow> Some (w, case first_error (map snd (sort_key fst rs)) of Some e \<Rightarrow> Inl e | None \<Rightarrow> Inr ())))"

end
