(* ===== verification/Transaction.thy ===== *)
theory Transaction
  imports Pipelined
begin

text \<open>
  The transaction (\<open>Transaction\<close> in \<open>transaction/transaction.rs\<close>): the object a user reads, writes, commits and
  rolls back with, around the buffer, the committer and the pipelined state. An operation takes the environment
  \<open>env\<close>, the state of the transaction and the world, and returns both with its result, or None when it panics or
  runs out of fuel. The tasks it spawns are recorded in the state. The request context, which only decorates
  requests, is left out.
\<close>

subsection \<open>State\<close>

datatype transaction_status = TxReadOnly | TxActive | TxCommitted | TxStartedCommit | TxRolledback
  | TxStartedRollback | TxDropped

text \<open>The spawned tasks: the commit of the secondary keys, the resolution of flushed locks and the heartbeat.\<close>

datatype txn_task = TaskCommitSecondary committer timestamp | TaskResolveFlushed u64 u64 "key \<times> key" | TaskHeartbeat key

text \<open>The latches are what a guard says about a transaction: whether it is stale.\<close>

record transaction =
  tx_status :: transaction_status
  tx_timestamp :: timestamp
  tx_buffer :: buffer
  tx_options :: transaction_options
  tx_keyspace :: keyspace
  tx_latches :: "(u64 \<Rightarrow> bytes list \<Rightarrow> bool) option"
  tx_pipelined :: "pipelined_txn_state option"
  tx_is_heartbeat_started :: bool
  tx_has_pessimistic_lock :: bool
  tx_start_instant :: int
  tx_tasks :: "txn_task list"

record ('w, 'c) txn_env =
  te_display :: "error \<Rightarrow> string"
  te_pd :: "('w, 'c) pd_client"
  te_kv :: "('w, 'c) kv_ops"
  te_fuel :: nat

type_synonym ('w, 'a) txn_result = "('w \<times> transaction \<times> 'a res) option"

definition new_transaction ::
  "timestamp \<Rightarrow> transaction_options \<Rightarrow> keyspace \<Rightarrow> (u64 \<Rightarrow> bytes list \<Rightarrow> bool) option \<Rightarrow> int \<Rightarrow> transaction" where
  "new_transaction ts options ks latches now = \<lparr>tx_status = (if to_read_only options then TxReadOnly else TxActive),
     tx_timestamp = ts, tx_buffer = new_buffer (is_pessimistic_options options), tx_options = options, tx_keyspace = ks,
     tx_latches = latches, tx_pipelined = map_option new_pipelined_txn_state (to_pipelined options),
     tx_is_heartbeat_started = False, tx_has_pessimistic_lock = False, tx_start_instant = now, tx_tasks = []\<rparr>"

text \<open>The question mark: go on with the value, or return the error.\<close>

definition txn_bind ::
  "('w, 'a) txn_result \<Rightarrow> ('w \<Rightarrow> transaction \<Rightarrow> 'a \<Rightarrow> ('w, 'b) txn_result) \<Rightarrow> ('w, 'b) txn_result" where
  "txn_bind m f = (case m of None \<Rightarrow> None | Some (w, t, Inl e) \<Rightarrow> Some (w, t, Inl e) | Some (w, t, Inr x) \<Rightarrow> f w t x)"

definition txn_is_pessimistic :: "transaction \<Rightarrow> bool" where
  "txn_is_pessimistic t = is_pessimistic_options (tx_options t)"

definition with_buffer :: "(buffer \<Rightarrow> buffer) \<Rightarrow> transaction \<Rightarrow> transaction" where
  "with_buffer f t = t\<lparr>tx_buffer := f (tx_buffer t)\<rparr>"

definition check_allow_operation :: "transaction \<Rightarrow> unit res" where
  "check_allow_operation t =
    (case tx_status t of TxReadOnly \<Rightarrow> Inr () | TxActive \<Rightarrow> Inr () | _ \<Rightarrow> Inl OperationAfterCommitError)"

definition allowed :: "transaction \<Rightarrow> 'w \<Rightarrow> ('w, 'a) txn_result \<Rightarrow> ('w, 'a) txn_result" where
  "allowed t w m = (case check_allow_operation t of Inl e \<Rightarrow> Some (w, t, Inl e) | Inr _ \<Rightarrow> m)"

text \<open>\<open>transit_status\<close>: no other task writes the status, so the exchange succeeds in the first round.\<close>

definition transit_status :: "transaction_status list \<Rightarrow> transaction_status \<Rightarrow> transaction \<Rightarrow> transaction option" where
  "transit_status from to t = (if tx_status t \<in> set from then Some (t\<lparr>tx_status := to\<rparr>) else None)"

text \<open>\<open>Drop\<close>: None is the panic.\<close>

definition drop_transaction :: "bool \<Rightarrow> transaction \<Rightarrow> transaction option" where
  "drop_transaction panicking t =
    (if panicking then Some t
     else if tx_status t = TxActive \<and> to_check_level (tx_options t) = CheckPanic then None
     else Some (t\<lparr>tx_status := TxDropped\<rparr>))"

subsection \<open>Pipelined state\<close>

definition pipelined_record_key_change :: "key \<Rightarrow> transaction \<Rightarrow> transaction" where
  "pipelined_record_key_change k t =
    (case tx_pipelined t of
       None \<Rightarrow> t
     | Some p \<Rightarrow> t\<lparr>tx_pipelined := Some (record_mutation k (mutation_for_key (tx_buffer t) k (to_assertion_level (tx_options t))) p)\<rparr>)"

definition set_pipelined :: "transaction \<Rightarrow> ('w \<times> pipelined_txn_state \<times> 'a res) option \<Rightarrow> ('w, 'a) txn_result" where
  "set_pipelined t m = map_option (\<lambda>(w, p, r). (w, t\<lparr>tx_pipelined := Some p\<rparr>, r)) m"

definition pipelined_maybe_flush :: "('w, 'c) txn_env \<Rightarrow> transaction \<Rightarrow> 'w \<Rightarrow> ('w, unit) txn_result" where
  "pipelined_maybe_flush env t w =
    (case (tx_pipelined t, get_primary_key (tx_buffer t)) of
       (Some p, Some primary) \<Rightarrow>
         set_pipelined t (maybe_flush (te_display env) (te_pd env) (te_kv env) (te_fuel env) (version_of (tx_timestamp t)) primary
           (to_assertion_level (tx_options t)) (to_retry_options (tx_options t)) p w)
     | _ \<Rightarrow> Some (w, t, Inr ()))"

subsection \<open>Heartbeats\<close>

definition start_auto_heartbeat :: "key \<Rightarrow> transaction \<Rightarrow> transaction" where
  "start_auto_heartbeat primary t =
    (if \<not> is_auto_heartbeat (to_heartbeat_option (tx_options t)) \<or> tx_is_heartbeat_started t then t
     else t\<lparr>tx_is_heartbeat_started := True, tx_tasks := tx_tasks t @ [TaskHeartbeat primary]\<rparr>)"

fun is_txn_not_found_heartbeat_error :: "error \<Rightarrow> bool" where
  "is_txn_not_found_heartbeat_error (TxnNotFound ts) = True"
| "is_txn_not_found_heartbeat_error (MultipleKeyErrors errors) = (errors \<noteq> [] \<and> list_all is_txn_not_found_heartbeat_error errors)"
| "is_txn_not_found_heartbeat_error (ExtractedErrors errors) = (errors \<noteq> [] \<and> list_all is_txn_not_found_heartbeat_error errors)"
| "is_txn_not_found_heartbeat_error (UndeterminedError inner) = is_txn_not_found_heartbeat_error inner"
| "is_txn_not_found_heartbeat_error _ = False"

definition heart_beat_ops :: "('w, 'c) pd_client \<Rightarrow> ('w, 'c) kv_ops
    \<Rightarrow> ('w, 'c, (txn_heart_beat_request, 'c) dispatch_plan, key list, txn_heart_beat_response) plan_ops" where
  "heart_beat_ops pd kv = dispatch_ops (kv_heart_beat kv) (heart_beat_shards (pd_region_for_key pd)) heart_beat_apply_shard
     (\<lambda>_ q. q) (opt_key_errors \<circ> hbs_error) hbs_region_error"

definition heart_beat_take_locks :: "txn_heart_beat_response \<Rightarrow> lock_info list \<times> txn_heart_beat_response" where
  "heart_beat_take_locks r = (case take_locks_opt (hbs_error r) of (ls, e) \<Rightarrow> (ls, r\<lparr>hbs_error := e\<rparr>))"

definition heart_beat_reroute :: txn_heart_beat_response where
  "heart_beat_reroute = \<lparr>hbs_region_error = Some epoch_not_match_default, hbs_error = None, hbs_lock_ttl = 0\<rparr>"

text \<open>The task, over the statuses of the transaction that it reads after each sleep: it ends with a result or is
  still running when the list is used up.\<close>

fun heartbeat_task ::
  "('w, 'c) txn_env \<Rightarrow> timestamp \<Rightarrow> key \<Rightarrow> backoff \<Rightarrow> nat \<Rightarrow> int \<Rightarrow> transaction_status list \<Rightarrow> 'w \<Rightarrow> ('w \<times> unit res option) option" where
  "heartbeat_task env start_ts primary region_backoff interval started [] w = Some (w, None)"
| "heartbeat_task env start_ts primary region_backoff interval started (status # rest) w =
    (let w = rt_sleep (te_pd env) w (of_nat interval)
     in if status \<in> {TxRolledback, TxCommitted, TxDropped} then Some (w, Some (Inr ()))
        else
         (case run_plan (te_pd env) (heart_beat_ops (te_pd env) (te_kv env)) False (te_fuel env) region_backoff w
                (new_dispatch (new_heart_beat_request (version_of start_ts) primary
                   (of_nat (nat (rt_now (te_pd env) w - started)) + MAX_TTL))) of
            None \<Rightarrow> None
          | Some (w, r) \<Rightarrow>
             (case ok_bind r (collect_single \<circ> map snd) of
                Inr _ \<Rightarrow> heartbeat_task env start_ts primary region_backoff interval started rest w
              | Inl e \<Rightarrow> Some (w, Some (if is_txn_not_found_heartbeat_error e then Inr () else Inl e)))))"

definition send_heart_beat :: "('w, 'c) txn_env \<Rightarrow> transaction \<Rightarrow> 'w \<Rightarrow> ('w, u64) txn_result" where
  "send_heart_beat env t w = allowed t w
    (case get_primary_key (tx_buffer t) of
       None \<Rightarrow> Some (w, t, Inl NoPrimaryKey)
     | Some primary \<Rightarrow>
        map_option (\<lambda>(w, r). (w, t, ok_bind r (\<lambda>rs. ok_bind (extract_error (te_display env) (opt_key_errors \<circ> hbs_error) hbs_region_error (map snd rs))
            (\<lambda>rs. ok_bind (collect_single rs) (\<lambda>resp. Inr (hbs_lock_ttl resp))))))
          (resolving_plan (te_pd env) (te_kv env) (te_fuel env) (to_retry_options (tx_options t)) heart_beat_take_locks heart_beat_reroute
            (heart_beat_ops (te_pd env) (te_kv env)) False
            (new_heart_beat_request (version_of (tx_timestamp t)) primary
               (of_nat (nat (rt_now (te_pd env) w - tx_start_instant t)) + MAX_TTL)) w))"

subsection \<open>Pessimistic locks\<close>

definition lock_mutation :: "key \<times> assertion \<Rightarrow> proto_mutation" where
  "lock_mutation l = \<lparr>pm_op = OpPessimisticLock, pm_key = fst l, pm_value = [], pm_assertion = snd l\<rparr>"

definition pessimistic_lock_ops :: "('w, 'c) pd_client \<Rightarrow> ('w, 'c) kv_ops
    \<Rightarrow> ('w, 'c, (pessimistic_lock_request, 'c) dispatch_plan, proto_mutation list, pessimistic_lock_response) plan_ops" where
  "pessimistic_lock_ops pd kv = dispatch_ops (kv_pessimistic_lock kv) (pessimistic_lock_shards (pd_region_for_key pd))
     pessimistic_lock_apply_shard (\<lambda>_ q. q) pessimistic_lock_key_errors pls_region_error"

definition pessimistic_lock_reroute :: pessimistic_lock_response where
  "pessimistic_lock_reroute = \<lparr>pls_region_error = Some epoch_not_match_default, pls_errors = [], pls_commit_ts = 0, pls_value = [],
     pls_values = [], pls_not_founds = [], pls_results = []\<rparr>"

text \<open>The plan keeps the results of all regions and each response with the mutations of its shard.\<close>

definition send_pessimistic_lock ::
  "('w, 'c) txn_env \<Rightarrow> retry_options \<Rightarrow> pessimistic_lock_request \<Rightarrow> 'w \<Rightarrow> ('w \<times> kv_pair list res) option" where
  "send_pessimistic_lock env ro q w =
     map_option (map_prod id (\<lambda>r. ok_bind r (\<lambda>rs.
         merge_pessimistic_lock (map (\<lambda>(p, x). map_sum id (\<lambda>resp. (resp, plq_mutations (di_request p))) x) rs))))
       (resolving_plan (te_pd env) (te_kv env) (te_fuel env) ro pessimistic_lock_take_locks pessimistic_lock_reroute
          (pessimistic_lock_ops (te_pd env) (te_kv env)) True q w)"

definition pessimistic_lock_rollback ::
  "('w, 'c) txn_env \<Rightarrow> key list \<Rightarrow> timestamp \<Rightarrow> transaction \<Rightarrow> 'w \<Rightarrow> ('w, unit) txn_result" where
  "pessimistic_lock_rollback env keys for_update_ts t w =
    (if keys = [] then Some (w, t, Inr ())
     else Option.bind (send_pessimistic_rollback (te_display env) (te_pd env) (te_kv env) (te_fuel env) (to_retry_options (tx_options t))
            (new_pessimistic_rollback_request keys (version_of (tx_timestamp t)) (version_of for_update_ts)) w) (\<lambda>(w, r).
       Option.bind (truncate_result (tx_keyspace t) r) (\<lambda>r.
         case r of
           Inl e \<Rightarrow> Some (w, t, Inl e)
         | Inr _ \<Rightarrow> Some (w, with_buffer (fold unlock keys) t, Inr ()))))"

definition presumed_assertion :: "buffer \<Rightarrow> key \<times> assertion \<Rightarrow> key \<times> assertion" where
  "presumed_assertion b l =
    (if snd l = AssertionNone \<and> has_presume_key_not_exists (key_flags_of b (fst l)) then (fst l, AssertionNotExist) else l)"

text \<open>What becomes of a lock request: its keys join the transaction, or those that were locked are released.\<close>

definition after_pessimistic_lock ::
  "('w, 'c) txn_env \<Rightarrow> (key \<times> assertion) list \<Rightarrow> timestamp \<Rightarrow> transaction \<Rightarrow> 'w \<Rightarrow> kv_pair list res \<Rightarrow> ('w, kv_pair list) txn_result" where
  "after_pessimistic_lock env locks for_update_ts t w r =
    (case r of
       Inr pairs \<Rightarrow>
        (let t = (with_buffer (primary_key_or (fst (hd locks))) t)\<lparr>tx_has_pessimistic_lock := True\<rparr>
         in case get_primary_key (tx_buffer t) of
              None \<Rightarrow> None
            | Some primary \<Rightarrow> Some (w, with_buffer (fold (lock \<circ> fst) locks) (start_auto_heartbeat primary t), Inr pairs))
     | Inl (PessimisticLockError inner success_keys) \<Rightarrow>
        (if success_keys = [] then Some (w, t, Inl (PessimisticLockError inner success_keys))
         else txn_bind (pessimistic_lock_rollback env success_keys for_update_ts t w) (\<lambda>w t _.
           Some (w, t, Inl (PessimisticLockError inner success_keys))))
     | Inl e \<Rightarrow> Some (w, t, Inl e))"

definition pessimistic_lock ::
  "('w, 'c) txn_env \<Rightarrow> (key \<times> assertion) list \<Rightarrow> lock_options \<Rightarrow> transaction \<Rightarrow> 'w \<Rightarrow> ('w, kv_pair list) txn_result" where
  "pessimistic_lock env locks options t w =
    (if \<not> txn_is_pessimistic t then Some (w, t, Inl InvalidTransactionType)
     else if locks = [] then Some (w, t, Inr [])
     else if lo_wake_up_mode options = WakeUpModeForceLock \<and> length locks \<noteq> 1
     then Some (w, t, Inl (InvalidPessimisticLockOptions ''WakeUpModeForceLock only supports a single key per request''))
     else
      (let locks = map (presumed_assertion (tx_buffer t)) locks;
           primary = (case get_primary_key (tx_buffer t) of Some k \<Rightarrow> k | None \<Rightarrow> fst (hd locks))
       in case pd_get_timestamp (te_pd env) w of
            (w, Inl e) \<Rightarrow> Some (w, t, Inl e)
          | (w, Inr for_update_ts) \<Rightarrow>
             (let t = t\<lparr>tx_options := push_for_update_ts for_update_ts (tx_options t)\<rparr>;
                  q = new_pessimistic_lock_request (map lock_mutation locks) primary (version_of (tx_timestamp t)) MAX_TTL
                        (version_of for_update_ts) (\<not> tx_has_pessimistic_lock t \<and> length locks = 1) options
              in case send_pessimistic_lock env (to_retry_options (tx_options t)) q w of
                   None \<Rightarrow> None
                 | Some (w, r) \<Rightarrow> after_pessimistic_lock env locks for_update_ts t w r)))"

subsection \<open>Reads\<close>

definition read_routing_of :: "transaction \<Rightarrow> read_routing" where
  "read_routing_of t = (new_read_routing (to_replica_read (tx_options t)) (to_stale_read (tx_options t)))
     \<lparr>rr_seed := ucast (version_of (tx_timestamp t))\<rparr>"

text \<open>A plan with the routing of a transaction, whose health of the stores is its own.\<close>

definition read_plan ::
  "('w, 'c) txn_env \<Rightarrow> transaction \<Rightarrow> ('resp \<Rightarrow> lock_info list \<times> 'resp) \<Rightarrow> 'resp
     \<Rightarrow> ('w, 'c, ('req, 'c) dispatch_plan, 'sh, 'resp) plan_ops \<Rightarrow> 'req \<Rightarrow> 'w \<Rightarrow> ('w \<times> 'resp res list res) option" where
  "read_plan env t take_fn reroute ops q w =
    (let ro = to_retry_options (tx_options t)
     in map_option (\<lambda>(s, r). (ps_world s, map_sum id (map snd) r))
          (retry_multi_region (te_pd env)
             (resolve_lock_ops (te_pd env) (resolve_locks (te_pd env) (te_kv env) (te_fuel env)) take_fn reroute (ro_lock_backoff ro) (te_fuel env) ops)
             False (te_fuel env) (ro_region_backoff ro) \<lparr>ps_world = w, ps_routing = read_routing_of t\<rparr> (new_dispatch q)))"

definition get_take_locks :: "get_response \<Rightarrow> lock_info list \<times> get_response" where
  "get_take_locks r = (case take_locks_opt (gs_error r) of (ls, e) \<Rightarrow> (ls, r\<lparr>gs_error := e\<rparr>))"

text \<open>\<open>pair_locks\<close>: the locks are taken from the pairs, and from the error of the response only without pairs.\<close>

definition take_pair_lock :: "proto_kv_pair \<Rightarrow> lock_info list \<times> proto_kv_pair" where
  "take_pair_lock p = (case take_locks_opt (kv_error p) of (ls, e) \<Rightarrow> (ls, p\<lparr>kv_error := e\<rparr>))"

definition batch_get_take_locks :: "batch_get_response \<Rightarrow> lock_info list \<times> batch_get_response" where
  "batch_get_take_locks r =
    (if bgs_pairs r = [] then (case take_locks_opt (bgs_error r) of (ls, e) \<Rightarrow> (ls, r\<lparr>bgs_error := e\<rparr>))
     else (concat (map (fst \<circ> take_pair_lock) (bgs_pairs r)), r\<lparr>bgs_pairs := map (snd \<circ> take_pair_lock) (bgs_pairs r)\<rparr>))"

definition scan_take_locks :: "scan_response \<Rightarrow> lock_info list \<times> scan_response" where
  "scan_take_locks r =
    (if ss_pairs r = [] then (case take_locks_opt (ss_error r) of (ls, e) \<Rightarrow> (ls, r\<lparr>ss_error := e\<rparr>))
     else (concat (map (fst \<circ> take_pair_lock) (ss_pairs r)), r\<lparr>ss_pairs := map (snd \<circ> take_pair_lock) (ss_pairs r)\<rparr>))"

definition get_ops :: "('w, 'c) pd_client \<Rightarrow> ('w, 'c) kv_ops
    \<Rightarrow> ('w, 'c, (get_request, 'c) dispatch_plan, bytes list, get_response) plan_ops" where
  "get_ops pd kv = dispatch_ops (kv_get kv) (get_shards (pd_region_for_key pd)) get_apply_shard (\<lambda>_ q. q)
     (opt_key_errors \<circ> gs_error) gs_region_error"

definition batch_get_ops :: "('w, 'c) pd_client \<Rightarrow> ('w, 'c) kv_ops
    \<Rightarrow> ('w, 'c, (batch_get_request, 'c) dispatch_plan, bytes list, batch_get_response) plan_ops" where
  "batch_get_ops pd kv = dispatch_ops (kv_batch_get kv) (batch_get_shards (pd_region_for_key pd)) batch_get_apply_shard (\<lambda>_ q. q)
     batch_get_key_errors bgs_region_error"

definition scan_ops :: "('w, 'c) pd_client \<Rightarrow> ('w, 'c) kv_ops
    \<Rightarrow> ('w, 'c, (scan_request, 'c) dispatch_plan, key \<times> key, scan_response) plan_ops" where
  "scan_ops pd kv = (dispatch_ops (kv_scan kv) (\<lambda>w q. (w, [])) scan_apply_shard (\<lambda>_ q. q) scan_key_errors ss_region_error)
     \<lparr>op_shards := \<lambda>w p. scan_shards (pd_region_for_key pd) w (di_request p)\<rparr>"

definition get_reroute :: get_response where
  "get_reroute = \<lparr>gs_region_error = Some epoch_not_match_default, gs_error = None, gs_value = [], gs_not_found = False, gs_commit_ts = 0\<rparr>"

definition batch_get_reroute :: batch_get_response where
  "batch_get_reroute = \<lparr>bgs_region_error = Some epoch_not_match_default, bgs_pairs = [], bgs_error = None\<rparr>"

definition scan_reroute :: scan_response where
  "scan_reroute = \<lparr>ss_region_error = Some epoch_not_match_default, ss_pairs = [], ss_error = None\<rparr>"

definition kv_pair_from :: "proto_kv_pair \<Rightarrow> kv_pair" where
  "kv_pair_from p = \<lparr>kp_key = kv_key p, kp_value = kv_value p, kp_commit_ts = kv_commit_ts p\<rparr>"

text \<open>\<open>Collect\<close>: the pairs of all responses, or the first error.\<close>

definition collect_pairs :: "('resp \<Rightarrow> proto_kv_pair list) \<Rightarrow> 'resp res list \<Rightarrow> kv_pair list res" where
  "collect_pairs pairs rs = ok_bind (collect_error rs) (\<lambda>rs. Inr (map kv_pair_from (concat (map pairs rs))))"

definition fetch_get :: "('w, 'c) txn_env \<Rightarrow> transaction \<Rightarrow> bool \<Rightarrow> key \<Rightarrow> 'w \<Rightarrow> ('w \<times> get_response res) option" where
  "fetch_get env t need_commit_ts k w = map_option (map_prod id (\<lambda>r. ok_bind r collect_single))
     (read_plan env t get_take_locks get_reroute (get_ops (te_pd env) (te_kv env))
        (new_get_request_with_need_commit_ts k (version_of (tx_timestamp t)) need_commit_ts) w)"

definition fetch_batch_get :: "('w, 'c) txn_env \<Rightarrow> transaction \<Rightarrow> bool \<Rightarrow> key list \<Rightarrow> 'w \<Rightarrow> ('w \<times> kv_pair list res) option" where
  "fetch_batch_get env t need_commit_ts ks w = map_option (map_prod id (\<lambda>r. ok_bind r (collect_pairs bgs_pairs)))
     (read_plan env t batch_get_take_locks batch_get_reroute (batch_get_ops (te_pd env) (te_kv env))
        (new_batch_get_request_with_need_commit_ts ks (version_of (tx_timestamp t)) need_commit_ts) w)"

definition fetch_scan ::
  "('w, 'c) txn_env \<Rightarrow> transaction \<Rightarrow> bool \<Rightarrow> bool \<Rightarrow> bound_range \<Rightarrow> u32 \<Rightarrow> 'w \<Rightarrow> ('w \<times> kv_pair list res) option" where
  "fetch_scan env t key_only rev_ord r limit w = map_option (map_prod id (\<lambda>x. ok_bind x (collect_pairs ss_pairs)))
     (read_plan env t scan_take_locks scan_reroute (scan_ops (te_pd env) (te_kv env))
        (case into_keys r of (start, stop) \<Rightarrow> new_scan_request start (case stop of None \<Rightarrow> [] | Some k \<Rightarrow> k) (version_of (tx_timestamp t)) limit key_only rev_ord) w)"

definition through_buffer :: "transaction \<Rightarrow> 'w \<Rightarrow> buffer \<times> 'a res \<Rightarrow> ('w, 'a) txn_result" where
  "through_buffer t w br = Some (w, t\<lparr>tx_buffer := fst br\<rparr>, snd br)"

definition value_of_get :: "get_response \<Rightarrow> val_bytes option" where
  "value_of_get resp = (if gs_not_found resp then None else Some (gs_value resp))"

definition txn_get :: "('w, 'c) txn_env \<Rightarrow> key \<Rightarrow> transaction \<Rightarrow> 'w \<Rightarrow> ('w, val_bytes option) txn_result" where
  "txn_get env key t w = allowed t w
    (let k = encode_key (tx_keyspace t) Txn key; b = tx_buffer t
     in case get_from_mutations b k of
          Determined v \<Rightarrow> Some (w, t, Inr v)
        | Undetermined \<Rightarrow>
           Option.bind (fetch_get env t False k w) (\<lambda>(w, r).
             through_buffer t w (get_or_else k (\<lambda>_. map_sum id value_of_get r) b)))"

definition txn_key_exists :: "('w, 'c) txn_env \<Rightarrow> key \<Rightarrow> transaction \<Rightarrow> 'w \<Rightarrow> ('w, bool) txn_result" where
  "txn_key_exists env key t w = txn_bind (txn_get env key t w) (\<lambda>w t v. Some (w, t, Inr (v \<noteq> None)))"

definition txn_batch_get :: "('w, 'c) txn_env \<Rightarrow> key list \<Rightarrow> transaction \<Rightarrow> 'w \<Rightarrow> ('w, kv_pair list) txn_result" where
  "txn_batch_get env keys t w = allowed t w
    (let ks = map (encode_key (tx_keyspace t) Txn) keys; b = tx_buffer t
     in Option.bind (fetch_batch_get env t False (filter (\<lambda>k. get_from_mutations b k = Undetermined) ks) w) (\<lambda>(w, r).
          through_buffer t w (map_prod id (map_sum id (truncate_kv_pairs (tx_keyspace t))) (batch_get_or_else ks (\<lambda>_. r) b))))"

definition txn_scan ::
  "('w, 'c) txn_env \<Rightarrow> bound_range \<Rightarrow> u32 \<Rightarrow> bool \<Rightarrow> bool \<Rightarrow> transaction \<Rightarrow> 'w \<Rightarrow> ('w, kv_pair list) txn_result" where
  "txn_scan env rng limit key_only rev_ord t w = allowed t w
    (let r = encode_bound_range (tx_keyspace t) Txn rng; b = tx_buffer t
     in if range_panics r then None
        else Option.bind (fetch_scan env t key_only rev_ord r (redundant_limit limit (bt_range r (entry_map b))) w) (\<lambda>(w, x).
          Option.bind (scan_and_fetch r limit (\<not> key_only) rev_ord (\<lambda>_ _. x) b) (\<lambda>br.
            through_buffer t w (map_prod id (map_sum id (truncate_kv_pairs (tx_keyspace t))) br))))"

text \<open>Reads that can ask for the commit timestamps: a value entry is a value with its timestamp, 0 when it is not
  known or was not asked for.\<close>

record value_entry =
  ve_value :: val_bytes
  ve_commit_ts :: u64

text \<open>What the buffer answers, None when the store has to be asked.\<close>

definition local_entry :: "bool \<Rightarrow> buffer \<Rightarrow> key \<Rightarrow> value_entry option option" where
  "local_entry need_commit_ts b k =
    (case read_value_state_of b k of
       RLocal v \<Rightarrow> Some (map_option (\<lambda>v. \<lparr>ve_value = v, ve_commit_ts = 0\<rparr>) v)
     | RCached None \<Rightarrow> Some None
     | RCached (Some v) \<Rightarrow>
        if \<not> need_commit_ts then Some (Some \<lparr>ve_value = v, ve_commit_ts = 0\<rparr>)
        else (case cached_commit_ts b k of
            Some ts \<Rightarrow> if ts \<noteq> 0 then Some (Some \<lparr>ve_value = v, ve_commit_ts = ts\<rparr>) else None
          | None \<Rightarrow> None)
     | RUndetermined \<Rightarrow> None)"

definition txn_get_with_options ::
  "('w, 'c) txn_env \<Rightarrow> key \<Rightarrow> bool \<Rightarrow> transaction \<Rightarrow> 'w \<Rightarrow> ('w, value_entry option) txn_result" where
  "txn_get_with_options env key need_commit_ts t w = allowed t w
    (let k = encode_key (tx_keyspace t) Txn key
     in case local_entry need_commit_ts (tx_buffer t) k of
          Some entry \<Rightarrow> Some (w, t, Inr entry)
        | None \<Rightarrow>
           Option.bind (fetch_get env t need_commit_ts k w) (\<lambda>(w, r).
             case r of
               Inl e \<Rightarrow> Some (w, t, Inl e)
             | Inr resp \<Rightarrow>
                (let entry = (if gs_not_found resp then None
                       else Some \<lparr>ve_value = gs_value resp, ve_commit_ts = (if need_commit_ts then gs_commit_ts resp else 0)\<rparr>)
                 in through_buffer t w (map_prod id (map_sum id (\<lambda>_. entry))
                      (update_read_cache k (map_option ve_value entry) (case entry of None \<Rightarrow> 0 | Some v \<Rightarrow> ve_commit_ts v) (tx_buffer t))))))"

text \<open>The cached pairs of a batch, as a hash map; a pair that cannot be cached ends the operation.\<close>

fun cache_pairs ::
  "keyspace \<Rightarrow> bool \<Rightarrow> kv_pair list \<Rightarrow> buffer \<Rightarrow> (key \<rightharpoonup> value_entry) \<Rightarrow> buffer \<times> (key \<rightharpoonup> value_entry) res" where
  "cache_pairs ks need_commit_ts [] b out = (b, Inr out)"
| "cache_pairs ks need_commit_ts (p # ps) b out =
    (let ts = (if need_commit_ts then kp_commit_ts p else 0)
     in case update_read_cache (kp_key p) (Some (kp_value p)) ts b of
          (b, Inl e) \<Rightarrow> (b, Inl e)
        | (b, Inr _) \<Rightarrow>
           cache_pairs ks need_commit_ts ps b (out(truncate_key ks (kp_key p) \<mapsto> \<lparr>ve_value = kp_value p, ve_commit_ts = ts\<rparr>)))"

definition txn_batch_get_with_options ::
  "('w, 'c) txn_env \<Rightarrow> key list \<Rightarrow> bool \<Rightarrow> transaction \<Rightarrow> 'w \<Rightarrow> ('w, key \<rightharpoonup> value_entry) txn_result" where
  "txn_batch_get_with_options env keys need_commit_ts t w = allowed t w
    (let ks = map (encode_key (tx_keyspace t) Txn) keys; b = tx_buffer t;
         out = fold (\<lambda>k out. case local_entry need_commit_ts b k of
             Some (Some entry) \<Rightarrow> out(truncate_key (tx_keyspace t) k \<mapsto> entry) | _ \<Rightarrow> out) ks Map.empty;
         remote_keys = filter (\<lambda>k. local_entry need_commit_ts b k = None) ks
     in if remote_keys = [] then Some (w, t, Inr out)
        else Option.bind (fetch_batch_get env t need_commit_ts remote_keys w) (\<lambda>(w, r).
          case r of
            Inl e \<Rightarrow> Some (w, t, Inl e)
          | Inr pairs \<Rightarrow> through_buffer t w (cache_pairs (tx_keyspace t) need_commit_ts pairs b out)))"

subsection \<open>Locks and writes\<close>

definition pessimistic_lock_keys ::
  "('w, 'c) txn_env \<Rightarrow> key list \<Rightarrow> lock_options \<Rightarrow> transaction \<Rightarrow> 'w \<Rightarrow> ('w, kv_pair list) txn_result" where
  "pessimistic_lock_keys env ks = pessimistic_lock env (map (\<lambda>k. (k, AssertionNone)) ks)"

definition txn_lock_keys :: "('w, 'c) txn_env \<Rightarrow> key list \<Rightarrow> lock_options \<Rightarrow> transaction \<Rightarrow> 'w \<Rightarrow> ('w, unit) txn_result" where
  "txn_lock_keys env keys options t w = allowed t w
    (let ks = map (encode_key (tx_keyspace t) Txn) keys
     in txn_bind
          (if \<not> txn_is_pessimistic t
           then Some (w, fold (\<lambda>k t. pipelined_record_key_change k (with_buffer (lock k) t)) ks t, Inr [])
           else pessimistic_lock_keys env ks options t w)
          (\<lambda>w t _. pipelined_maybe_flush env t w))"

definition txn_get_for_update ::
  "('w, 'c) txn_env \<Rightarrow> key \<Rightarrow> lock_options \<Rightarrow> transaction \<Rightarrow> 'w \<Rightarrow> ('w, val_bytes option) txn_result" where
  "txn_get_for_update env key options t w = allowed t w
    (if \<not> txn_is_pessimistic t
     then txn_bind (txn_lock_keys env [key] default_lock_options t w) (\<lambda>w t _. txn_get env key t w)
     else txn_bind (pessimistic_lock_keys env [encode_key (tx_keyspace t) Txn key] (options\<lparr>lo_return_values := True\<rparr>) t w) (\<lambda>w t pairs.
       Some (w, t, Inr (if pairs = [] then None else Some (kp_value (last pairs))))))"

definition txn_batch_get_for_update ::
  "('w, 'c) txn_env \<Rightarrow> key list \<Rightarrow> lock_options \<Rightarrow> transaction \<Rightarrow> 'w \<Rightarrow> ('w, kv_pair list) txn_result" where
  "txn_batch_get_for_update env keys options t w = allowed t w
    (if \<not> txn_is_pessimistic t
     then txn_bind (txn_lock_keys env keys default_lock_options t w) (\<lambda>w t _. txn_batch_get env keys t w)
     else txn_bind (pessimistic_lock_keys env (map (encode_key (tx_keyspace t) Txn) keys) (options\<lparr>lo_return_values := True\<rparr>) t w)
       (\<lambda>w t pairs. Some (w, t, Inr (truncate_kv_pairs (tx_keyspace t) pairs))))"

text \<open>A write: the key is locked first in a pessimistic transaction, then the buffer changes.\<close>

definition locked_write ::
  "('w, 'c) txn_env \<Rightarrow> (key \<times> assertion) list \<Rightarrow> (key \<times> (buffer \<Rightarrow> buffer)) list \<Rightarrow> transaction \<Rightarrow> 'w \<Rightarrow> ('w, unit) txn_result" where
  "locked_write env locks changes t w =
     txn_bind (if txn_is_pessimistic t then pessimistic_lock env locks default_lock_options t w else Some (w, t, Inr [])) (\<lambda>w t _.
       pipelined_maybe_flush env (fold (\<lambda>(k, f) t. pipelined_record_key_change k (with_buffer f t)) changes t) w)"

definition txn_put :: "('w, 'c) txn_env \<Rightarrow> key \<Rightarrow> val_bytes \<Rightarrow> transaction \<Rightarrow> 'w \<Rightarrow> ('w, unit) txn_result" where
  "txn_put env key v t w = allowed t w
    (let k = encode_key (tx_keyspace t) Txn key in locked_write env [(k, AssertionNone)] [(k, put k v)] t w)"

definition txn_insert :: "('w, 'c) txn_env \<Rightarrow> key \<Rightarrow> val_bytes \<Rightarrow> transaction \<Rightarrow> 'w \<Rightarrow> ('w, unit) txn_result" where
  "txn_insert env key v t w = allowed t w
    (let k = encode_key (tx_keyspace t) Txn key
     in if buffer_get (tx_buffer t) k \<noteq> None then Some (w, t, Inl DuplicateKeyInsertion)
        else locked_write env [(k, AssertionNotExist)] [(k, insert k v)] t w)"

definition txn_delete :: "('w, 'c) txn_env \<Rightarrow> key \<Rightarrow> transaction \<Rightarrow> 'w \<Rightarrow> ('w, unit) txn_result" where
  "txn_delete env key t w = allowed t w
    (let k = encode_key (tx_keyspace t) Txn key in locked_write env [(k, AssertionNone)] [(k, delete k)] t w)"

definition txn_batch_mutate :: "('w, 'c) txn_env \<Rightarrow> mutation list \<Rightarrow> transaction \<Rightarrow> 'w \<Rightarrow> ('w, unit) txn_result" where
  "txn_batch_mutate env mutations t w = allowed t w
    (let ms = map (encode_mutation (tx_keyspace t) Txn) mutations
     in locked_write env (map (\<lambda>m. (mutation_key m, AssertionNone)) ms) (map (\<lambda>m. (mutation_key m, mutate m)) ms) t w)"

definition set_key_assertion :: "key \<Rightarrow> assertion \<Rightarrow> transaction \<Rightarrow> transaction" where
  "set_key_assertion key a t =
    (let k = encode_key (tx_keyspace t) Txn key in pipelined_record_key_change k (with_buffer (set_assertion k a) t))"

definition txn_update_key_flags :: "key \<Rightarrow> flags_op list \<Rightarrow> transaction \<Rightarrow> transaction" where
  "txn_update_key_flags key ops t =
    (let k = encode_key (tx_keyspace t) Txn key in pipelined_record_key_change k (with_buffer (update_key_flags k ops) t))"

subsection \<open>Commit and rollback\<close>

text \<open>The keys that are committed: those that are written and not only checked at prewrite.\<close>

definition commit_keys_of :: "buffer \<Rightarrow> proto_mutation list \<Rightarrow> bytes list" where
  "commit_keys_of b ms =
     map pm_key (filter (\<lambda>m. pm_op m \<noteq> OpCheckNotExists \<and> \<not> has_prewrite_only (key_flags_of b (pm_key m))) ms)"

definition choose_primary :: "key option \<Rightarrow> bytes list \<Rightarrow> key option" where
  "choose_primary primary commit_keys =
    (if commit_keys = [] then primary
     else case primary of
       Some pk \<Rightarrow> if pk \<in> set commit_keys then Some pk else Some (hd commit_keys)
     | None \<Rightarrow> Some (hd commit_keys))"

definition committer_of :: "transaction \<Rightarrow> key option \<Rightarrow> proto_mutation list \<Rightarrow> bytes list \<Rightarrow> committer" where
  "committer_of t primary ms commit_keys = new_committer primary ms commit_keys (tx_timestamp t) (tx_options t) (tx_keyspace t)
     (of_nat (get_write_size (tx_buffer t))) (tx_start_instant t)"

definition finish :: "transaction_status \<Rightarrow> ('w, 'a) txn_result \<Rightarrow> ('w, 'a) txn_result" where
  "finish status m = txn_bind m (\<lambda>w t x. Some (w, t\<lparr>tx_status := status\<rparr>, Inr x))"

definition pipelined_state :: "transaction \<Rightarrow> 'w \<Rightarrow> (pipelined_txn_state \<Rightarrow> ('w, 'a) txn_result) \<Rightarrow> ('w, 'a) txn_result" where
  "pipelined_state t w f =
    (case tx_pipelined t of
       None \<Rightarrow> Some (w, t, Inl (InvalidPipelinedTransaction ''pipelined transaction state is missing''))
     | Some p \<Rightarrow> f p)"

definition txn_flush_all :: "('w, 'c) txn_env \<Rightarrow> bytes \<Rightarrow> transaction \<Rightarrow> 'w \<Rightarrow> ('w, unit) txn_result" where
  "txn_flush_all env primary t w = pipelined_state t w (\<lambda>p.
     set_pipelined t (flush_all (te_display env) (te_pd env) (te_kv env) (te_fuel env) (version_of (tx_timestamp t)) primary
       (to_assertion_level (tx_options t)) (to_retry_options (tx_options t)) p w))"

definition spawn :: "txn_task list \<Rightarrow> transaction \<Rightarrow> transaction" where
  "spawn tasks t = t\<lparr>tx_tasks := tx_tasks t @ tasks\<rparr>"

definition resolve_flushed_task :: "transaction \<Rightarrow> u64 \<Rightarrow> txn_task list" where
  "resolve_flushed_task t commit_ts =
    (case Option.bind (tx_pipelined t) flushed_range of
       None \<Rightarrow> []
     | Some rng \<Rightarrow> [TaskResolveFlushed (version_of (tx_timestamp t)) commit_ts rng])"

definition commit_pipelined :: "('w, 'c) txn_env \<Rightarrow> key \<Rightarrow> transaction \<Rightarrow> 'w \<Rightarrow> ('w, timestamp option) txn_result" where
  "commit_pipelined env primary t w =
     txn_bind (txn_flush_all env primary t w) (\<lambda>w t _.
       case fetch_commit_timestamp (te_pd env) (te_fuel env) (tx_options t) w of
         None \<Rightarrow> None
       | Some (w, Inl e) \<Rightarrow> Some (w, t, Inl e)
       | Some (w, Inr commit_version) \<Rightarrow>
          (case send_commit (te_display env) (te_pd env) (te_kv env) (te_fuel env) (to_retry_options (tx_options t))
                  (new_commit_request_with_primary_key [primary] (Some primary) (version_of (tx_timestamp t)) (version_of commit_version)) w of
             None \<Rightarrow> None
           | Some (w, Inl e) \<Rightarrow> Some (w, t, Inl (if is_grpc e then UndeterminedError e else e))
           | Some (w, Inr _) \<Rightarrow> Some (w, spawn (resolve_flushed_task t (version_of commit_version)) t, Inr (Some commit_version))))"

definition commit_plain ::
  "('w, 'c) txn_env \<Rightarrow> key option \<Rightarrow> proto_mutation list \<Rightarrow> bytes list \<Rightarrow> transaction \<Rightarrow> 'w \<Rightarrow> ('w, timestamp option) txn_result" where
  "commit_plain env primary ms commit_keys t w =
    (if commit_keys = []
     then (case committer_prewrite (te_display env) (te_pd env) (te_kv env) (te_fuel env)
                  (committer_of t (case primary of Some k \<Rightarrow> Some k | None \<Rightarrow> Some (pm_key (hd ms))) ms commit_keys) w of
             None \<Rightarrow> None
           | Some (w, c, Inl e) \<Rightarrow> Some (w, t, Inl e)
           | Some (w, c, Inr _) \<Rightarrow> Some (w, t, Inr None))
     else if \<not> txn_is_pessimistic t \<and> (case tx_latches t of None \<Rightarrow> False | Some stale \<Rightarrow> stale (version_of (tx_timestamp t)) commit_keys)
     then Some (w, t, Inl (WriteConflictInLatch (version_of (tx_timestamp t))))
     else
      (case primary of
         None \<Rightarrow> None
       | Some k \<Rightarrow>
          (let t = start_auto_heartbeat k t
           in case committer_commit (te_display env) (te_pd env) (te_kv env) (te_fuel env) (committer_of t primary ms commit_keys) w of
                None \<Rightarrow> None
              | Some (w, r, secondary) \<Rightarrow> Some (w, spawn (case secondary of None \<Rightarrow> [] | Some (c, ts) \<Rightarrow> [TaskCommitSecondary c ts]) t, r))))"

definition txn_commit :: "('w, 'c) txn_env \<Rightarrow> transaction \<Rightarrow> 'w \<Rightarrow> ('w, timestamp option) txn_result" where
  "txn_commit env t w =
    (case transit_status [TxStartedCommit, TxActive] TxStartedCommit t of
       None \<Rightarrow> Some (w, t, Inl OperationAfterCommitError)
     | Some t \<Rightarrow>
        (let b = tx_buffer t; ms = to_proto_mutations b (to_assertion_level (tx_options t))
         in if ms = [] then (if get_primary_key b = None then Some (w, t, Inr None) else None)
            else
             (let commit_keys = commit_keys_of b ms; primary = choose_primary (get_primary_key b) commit_keys
              in finish TxCommitted
                  (if is_pipelined (tx_options t) then
                     (let pk = (case primary of Some k \<Rightarrow> k | None \<Rightarrow> pm_key (hd ms))
                      in if commit_keys = [] then txn_bind (txn_flush_all env pk t w) (\<lambda>w t _. Some (w, t, Inr None))
                         else commit_pipelined env pk t w)
                   else commit_plain env primary ms commit_keys t w))))"

definition rollback_pipelined :: "('w, 'c) txn_env \<Rightarrow> ('w \<Rightarrow> 'w) \<Rightarrow> transaction \<Rightarrow> 'w \<Rightarrow> ('w, unit) txn_result" where
  "rollback_pipelined env partial t w = pipelined_state t w (\<lambda>p.
     map_option (\<lambda>(w, p, r). let t = t\<lparr>tx_pipelined := Some p\<rparr> in (w, spawn (resolve_flushed_task t 0) t, Inr ()))
       (flush_wait (te_display env) (te_pd env) (te_kv env) (te_fuel env) partial (cancel_pipelined p) w))"

definition txn_rollback :: "('w, 'c) txn_env \<Rightarrow> ('w \<Rightarrow> 'w) \<Rightarrow> transaction \<Rightarrow> 'w \<Rightarrow> ('w, unit) txn_result" where
  "txn_rollback env partial t w =
    (case transit_status [TxStartedRollback, TxActive, TxStartedCommit] TxStartedRollback t of
       None \<Rightarrow> Some (w, t, Inl OperationAfterCommitError)
     | Some t \<Rightarrow> finish TxRolledback
        (if is_pipelined (tx_options t) then rollback_pipelined env partial t w
         else
          (let b = tx_buffer t; ms = to_proto_mutations b (to_assertion_level (tx_options t)); commit_keys = commit_keys_of b ms
           in if commit_keys = [] then Some (w, t, Inr ())
              else map_option (\<lambda>(w, r). (w, t, r))
                (committer_rollback (te_display env) (te_pd env) (te_kv env) (te_fuel env)
                   (committer_of t (get_primary_key b) ms commit_keys) w))))"

end
