(* ===== verification/Lock_Props.thy ===== *)
theory Lock_Props
  imports Lock_Resolver
begin

text \<open>
  What lock resolution guarantees: it keeps the invariant of the client, so it can run inside any plan; the
  verdict on an async-commit transaction from its secondary locks; and two places where it does less than it
  says.
\<close>

subsection \<open>Stores and the invariant of the client\<close>

definition kv_keeps :: "('w \<Rightarrow> bool) \<Rightarrow> ('w, 'c) kv_ops \<Rightarrow> bool" where
  "kv_keeps I kv \<longleftrightarrow>
     (\<forall>w c ctx q. I w \<longrightarrow> I (fst (kv_get kv w c ctx q))) \<and> (\<forall>w c ctx q. I w \<longrightarrow> I (fst (kv_batch_get kv w c ctx q)))
   \<and> (\<forall>w c ctx q. I w \<longrightarrow> I (fst (kv_scan kv w c ctx q)))
   \<and> (\<forall>w c ctx q. I w \<longrightarrow> I (fst (kv_prewrite kv w c ctx q))) \<and> (\<forall>w c ctx q. I w \<longrightarrow> I (fst (kv_commit kv w c ctx q)))
   \<and> (\<forall>w c ctx q. I w \<longrightarrow> I (fst (kv_batch_rollback kv w c ctx q)))
   \<and> (\<forall>w c ctx q. I w \<longrightarrow> I (fst (kv_pessimistic_lock kv w c ctx q)))
   \<and> (\<forall>w c ctx q. I w \<longrightarrow> I (fst (kv_pessimistic_rollback kv w c ctx q)))
   \<and> (\<forall>w c ctx q. I w \<longrightarrow> I (fst (kv_heart_beat kv w c ctx q))) \<and> (\<forall>w c ctx q. I w \<longrightarrow> I (fst (kv_cleanup kv w c ctx q)))
   \<and> (\<forall>w c ctx q. I w \<longrightarrow> I (fst (kv_resolve_lock kv w c ctx q)))
   \<and> (\<forall>w c ctx q. I w \<longrightarrow> I (fst (kv_check_txn_status kv w c ctx q)))
   \<and> (\<forall>w c ctx q. I w \<longrightarrow> I (fst (kv_check_secondary_locks kv w c ctx q)))
   \<and> (\<forall>w c ctx q. I w \<longrightarrow> I (fst (kv_flush kv w c ctx q))) \<and> (\<forall>w c ctx q. I w \<longrightarrow> I (fst (kv_scan_lock kv w c ctx q)))"

locale client_kv = client pd inv for pd :: "('w, 'c) pd_client" and inv :: "'w \<Rightarrow> bool" +
  fixes kv :: "('w, 'c) kv_ops"
  assumes kv_keeps: "kv_keeps inv kv"
begin

lemma kv_inv:
  "inv w \<Longrightarrow> inv (fst (kv_prewrite kv w c ctx q1))" "inv w \<Longrightarrow> inv (fst (kv_commit kv w c ctx q2))"
  "inv w \<Longrightarrow> inv (fst (kv_batch_rollback kv w c ctx q3))" "inv w \<Longrightarrow> inv (fst (kv_pessimistic_lock kv w c ctx q4))"
  "inv w \<Longrightarrow> inv (fst (kv_pessimistic_rollback kv w c ctx q5))" "inv w \<Longrightarrow> inv (fst (kv_heart_beat kv w c ctx q6))"
  "inv w \<Longrightarrow> inv (fst (kv_cleanup kv w c ctx q7))" "inv w \<Longrightarrow> inv (fst (kv_resolve_lock kv w c ctx q8))"
  "inv w \<Longrightarrow> inv (fst (kv_check_txn_status kv w c ctx q9))" "inv w \<Longrightarrow> inv (fst (kv_check_secondary_locks kv w c ctx q10))"
  "inv w \<Longrightarrow> inv (fst (kv_flush kv w c ctx q11))" "inv w \<Longrightarrow> inv (fst (kv_get kv w c ctx q12))"
  "inv w \<Longrightarrow> inv (fst (kv_batch_get kv w c ctx q13))" "inv w \<Longrightarrow> inv (fst (kv_scan_lock kv w c ctx q14))"
  "inv w \<Longrightarrow> inv (fst (kv_scan kv w c ctx q15))"
  using kv_keeps by (simp_all add: kv_keeps_def)

end

interpretation rpc_kv: client_kv "pd_rpc_client enable_codec out" "client_inv enable_codec" "lift_kv kv"
  for enable_codec out kv
  by unfold_locales (simp add: kv_keeps_def lift_kv_def client_inv_rpc)

text \<open>The requests that need no lock resolution are sent as they are.\<close>

sublocale client_kv \<subseteq> cleanup_rq: lossless_client_request pd inv "cleanup_shards (pd_region_for_key pd)" cleanup_apply_shard
  "\<lambda>q. [clq_key q]" "\<lambda>k. k" "\<lambda>_ q. q" "kv_cleanup kv" "\<lambda>w ls. None"
  by unfold_locales (simp_all add: kv_inv)

sublocale client_kv \<subseteq> check_txn_rq: lossless_client_request pd inv "check_txn_status_shards (pd_region_for_key pd)"
  check_txn_status_apply_shard "\<lambda>q. [ctq_primary_key q]" "\<lambda>k. k" "\<lambda>_ q. q" "kv_check_txn_status kv" "\<lambda>w ls. None"
  by unfold_locales (simp_all add: kv_inv)

sublocale client_kv \<subseteq> check_secondary_rq: lossless_client_request pd inv "check_secondary_locks_shards (pd_region_for_key pd)"
  check_secondary_locks_apply_shard csq_keys "\<lambda>k. k" "\<lambda>_ q. q" "kv_check_secondary_locks kv" "\<lambda>w ls. None"
  by unfold_locales (simp_all add: kv_inv)

context client
begin

lemma handle_region_error_inv: "inv w \<Longrightarrow> inv (fst (handle_region_error pd w e st))"
  by (rule handle_region_error_keeps) (simp_all add: invalidate_region_inv invalidate_store_inv update_leader_inv)

end

context client_kv
begin

lemma resolve_in_store_inv: "inv w \<Longrightarrow> inv (fst (resolve_in_store kv w st req))"
proof (cases "apply_to_request st (default_context\<lparr>ctx_request_source := ''unknown''\<rparr>)")
  case (Inr ctx)
  assume "inv w"
  then have "inv (fst (kv_resolve_lock kv w (rst_client st) ctx req))" by (rule kv_inv)
  then show ?thesis using Inr
    by (auto simp: resolve_in_store_def split: prod.splits sum.splits)
qed (simp add: resolve_in_store_def)

lemma resolve_lock_tries_inv:
  "inv w \<Longrightarrow> resolve_lock_tries pd kv key start commit n w b last_error = Some (w', r) \<Longrightarrow> inv w'"
proof (induction n arbitrary: w b last_error)
  case (Suc n)
  obtain w1 r1 where s1: "store_for_key pd w key = (w1, r1)" by fastforce
  have i1: "inv w1" using store_for_key_inv [OF Suc.prems(1), of key] s1 by simp
  show ?case
  proof (cases r1)
    case (Inl e)
    then show ?thesis using Suc.prems(2) s1 i1 by simp
  next
    case (Inr st0)
    let ?st = "st0\<lparr>rst_attempt := RESOLVE_LOCK_RETRY_LIMIT - Suc n\<rparr>"
    obtain w2 r2 where s2: "resolve_in_store kv w1 ?st (new_resolve_lock_request start commit) = (w2, r2)" by fastforce
    have i2: "inv w2" using resolve_in_store_inv [OF i1, of ?st "new_resolve_lock_request start commit"] s2 by simp
    show ?thesis
    proof (cases "\<exists>errors e. r2 = Inl (ExtractedErrors errors) \<and> errors \<noteq> [] \<and> last errors = RegionError e")
      case False
      then show ?thesis using Suc.prems(2) s1 Inr s2 i2
        by (auto simp: Let_def split: sum.splits error.splits if_splits)
    next
      case True
      then obtain errors e where e: "r2 = Inl (ExtractedErrors errors)" "errors \<noteq> []" "last errors = RegionError e" by blast
      obtain w3 r3 where s3: "handle_region_error pd w2 e ?st = (w3, r3)" by fastforce
      have i3: "inv w3" using handle_region_error_inv [OF i2, of e ?st] s3 by simp
      have bo: "inv (ps_world s)" if "back_off pd \<lparr>ps_world = w3, ps_routing = default_read_routing\<rparr> b = Some (s, b')" for s b'
        using back_off_inv [OF _ that] i3 by simp
      show ?thesis using Suc.prems(2) s1 Inr s2 e s3 i3 bo Suc.IH
        by (cases r3) (auto simp: Let_def split: if_splits option.splits)
    qed
  qed
qed simp

lemma run_plan_inv:
  assumes "\<And>s s' r. inv (ps_world s) \<Longrightarrow> retry_multi_region pd ops preserve fuel b s p = Some (s', r) \<Longrightarrow> inv (ps_world s')"
    and "inv w" "run_plan pd ops preserve fuel b w p = Some (w', r)"
  shows "inv w'"
proof -
  obtain s where s: "retry_multi_region pd ops preserve fuel b \<lparr>ps_world = w, ps_routing = fresh_routing pd w\<rparr> p = Some (s, r)"
    "w' = pd_set_store_health pd (rr_store_health (ps_routing s)) (ps_world s)"
    using assms(3) by (auto simp: run_plan_def)
  have "inv (ps_world s)" by (rule assms(1) [OF _ s(1)]) (simp add: assms(2))
  then show ?thesis unfolding s(2) by (rule health_inv)
qed

lemma cleanup_primary_inv:
  assumes "inv w" "cleanup_primary pd kv fuel primary ver w = Some (w', r)"
  shows "inv w'"
proof -
  obtain r' where p: "run_plan pd (dispatch_ops (kv_cleanup kv) (cleanup_shards (pd_region_for_key pd)) cleanup_apply_shard (\<lambda>_ q. q)
      (opt_key_errors \<circ> cls_error) cls_region_error) False fuel DEFAULT_REGION_BACKOFF w
      (new_dispatch (new_cleanup_request primary ver)) = Some (w', r')"
    using assms(2) by (auto simp: cleanup_primary_def)
  show ?thesis by (rule run_plan_inv [OF _ assms(1) p]) (rule cleanup_rq.plain.retry_multi_region_inv)
qed

lemma resolve_expired_inv:
  "inv w \<Longrightarrow> resolve_expired pd kv fuel ls commit_versions clean_regions w = Some (w', r) \<Longrightarrow> inv w'"
proof (induction ls arbitrary: w commit_versions clean_regions)
  case (Cons l ls)
  obtain w1 r1 where s1: "pd_region_for_key pd w (li_primary_lock l) = (w1, r1)" by fastforce
  have i1: "inv w1" using lookup_inv [OF Cons.prems(1), of "li_primary_lock l"] s1 by simp
  show ?case
  proof (cases "(\<exists>e. r1 = Inl e) \<or> (\<exists>region. r1 = Inr region \<and> ver_id region \<in> set (clean_regions (li_lock_version l)))")
    case True
    then show ?thesis using Cons.prems(2) s1 i1 Cons.IH by auto
  next
    case False
    let ?cv = "case commit_versions (li_lock_version l) of Some v \<Rightarrow> Some (w1, Inr v)
      | None \<Rightarrow> cleanup_primary pd kv fuel (li_primary_lock l) (li_lock_version l) w1"
    from False Cons.prems(2) s1 obtain w2 r2 where s2: "?cv = Some (w2, r2)"
      by (cases r1; cases ?cv) (auto split: option.splits)
    have i2: "inv w2" using s2 i1 cleanup_primary_inv [OF i1] by (auto split: option.splits)
    show ?thesis
    proof (cases r2)
      case (Inl e)
      then show ?thesis using False Cons.prems(2) s1 s2 i2 by (cases r1) auto
    next
      case (Inr v)
      have "inv w3" if "resolve_lock_with_retry pd kv (li_key l) (li_lock_version l) v DEFAULT_REGION_BACKOFF w2 = Some (w3, r3)" for w3 r3
        using resolve_lock_tries_inv [OF i2] that by (simp add: resolve_lock_with_retry_def)
      then show ?thesis using False Cons.prems(2) s1 s2 Inr Cons.IH
        by (cases r1) (auto split: option.splits sum.splits)
    qed
  qed
qed simp

lemma resolve_locks_inv:
  assumes "inv w" "resolve_locks pd kv fuel w ls = Some (w', r)"
  shows "inv w'"
proof -
  obtain w1 r1 where s1: "pd_get_timestamp pd w = (w1, r1)" by fastforce
  have "inv w1" using timestamp_inv [OF assms(1)] s1 by simp
  then show ?thesis using assms(2) s1 resolve_expired_inv
    by (cases r1) (auto simp: resolve_locks_def)
qed

end

text \<open>The requests of a transaction, with the locks they meet resolved.\<close>

sublocale client_kv \<subseteq> prewrite_rq: client_request pd inv "prewrite_shards (pd_region_for_key pd)" prewrite_apply_shard
  pw_mutations pm_key prewrite_apply_store "kv_prewrite kv" "resolve_locks pd kv resolve_fuel" for resolve_fuel
  by unfold_locales (simp_all add: kv_inv prewrite_apply_store_def resolve_locks_inv)

sublocale client_kv \<subseteq> commit_rq: client_request pd inv "commit_shards (pd_region_for_key pd)" commit_apply_shard
  cmq_keys "\<lambda>k. k" "\<lambda>_ q. q" "kv_commit kv" "resolve_locks pd kv resolve_fuel" for resolve_fuel
  by unfold_locales (simp_all add: kv_inv resolve_locks_inv)

sublocale client_kv \<subseteq> flush_rq: client_request pd inv "flush_shards (pd_region_for_key pd)" flush_apply_shard
  flq_mutations pm_key "\<lambda>_ q. q" "kv_flush kv" "resolve_locks pd kv resolve_fuel" for resolve_fuel
  by unfold_locales (simp_all add: kv_inv resolve_locks_inv)

sublocale client_kv \<subseteq> batch_rollback_rq: lossless_client_request pd inv "batch_rollback_shards (pd_region_for_key pd)"
  batch_rollback_apply_shard "tagged rbq_start_version rbq_keys" "\<lambda>x. snd x" "\<lambda>_ q. q" "kv_batch_rollback kv" "resolve_locks pd kv resolve_fuel" for resolve_fuel
  by unfold_locales (simp_all add: kv_inv resolve_locks_inv)

sublocale client_kv \<subseteq> pessimistic_rollback_rq: lossless_client_request pd inv "pessimistic_rollback_shards (pd_region_for_key pd)"
  pessimistic_rollback_apply_shard "tagged (\<lambda>q. (prq_start_version q, prq_for_update_ts q)) prq_keys" "\<lambda>x. snd x" "\<lambda>_ q. q"
  "kv_pessimistic_rollback kv" "resolve_locks pd kv resolve_fuel"
  for resolve_fuel
  by unfold_locales (simp_all add: kv_inv resolve_locks_inv)

sublocale client_kv \<subseteq> pessimistic_lock_rq: lossless_client_request pd inv "pessimistic_lock_shards (pd_region_for_key pd)"
  pessimistic_lock_apply_shard plq_mutations pm_key "\<lambda>_ q. q" "kv_pessimistic_lock kv" "resolve_locks pd kv resolve_fuel"
  for resolve_fuel
  by unfold_locales (simp_all add: kv_inv resolve_locks_inv)

sublocale client_kv \<subseteq> heart_beat_rq: lossless_client_request pd inv "heart_beat_shards (pd_region_for_key pd)"
  heart_beat_apply_shard "\<lambda>q. [hbq_primary_lock q]" "\<lambda>k. k" "\<lambda>_ q. q" "kv_heart_beat kv" "resolve_locks pd kv resolve_fuel"
  for resolve_fuel
  by unfold_locales (simp_all add: kv_inv resolve_locks_inv)

sublocale client_kv \<subseteq> get_rq: lossless_client_request pd inv "get_shards (pd_region_for_key pd)"
  get_apply_shard "\<lambda>q. [gq_key q]" "\<lambda>k. k" "\<lambda>_ q. q" "kv_get kv" "resolve_locks pd kv resolve_fuel" for resolve_fuel
  by unfold_locales (simp_all add: kv_inv resolve_locks_inv)

sublocale client_kv \<subseteq> batch_get_rq: lossless_client_request pd inv "batch_get_shards (pd_region_for_key pd)"
  batch_get_apply_shard bgq_keys "\<lambda>k. k" "\<lambda>_ q. q" "kv_batch_get kv" "resolve_locks pd kv resolve_fuel" for resolve_fuel
  by unfold_locales (simp_all add: kv_inv resolve_locks_inv)

subsection \<open>The verdict on an async-commit transaction\<close>

definition lock_missing :: "check_secondary_locks_response \<times> bytes list \<Rightarrow> bool" where
  "lock_missing rs \<longleftrightarrow> length (css_locks (fst rs)) < length (snd rs)"

lemma all_secondaries_determined:
  "all_secondaries rs m True (Some ts) st = Inr out \<Longrightarrow> \<not> sl_fallback_2pc out \<Longrightarrow>
     sl_commit_ts out = try_from_version ts \<and> sl_min_commit_ts out = ts
     \<and> (\<forall>r \<in> set rs. lock_missing r \<longrightarrow> css_commit_ts (fst r) = ts)"
proof (induction rs arbitrary: m)
  case (Cons r rs)
  obtain resp shard where r: "r = (resp, shard)" by fastforce
  then show ?case using Cons
    by (auto simp: lock_missing_def Let_def split: if_splits)
qed auto

text \<open>C18: When \<open>check_all_secondaries\<close> gives a verdict without falling back, either every secondary lock is
  there and the transaction commits at the largest of the minimal commit timestamps, the primary's included,
  or a lock is missing and all answers that miss one agree on the commit timestamp that is used, 0 for a
  rollback.\<close>

theorem secondaries_verdict:
  assumes "all_secondaries rs m False None st = Inr out" "\<not> sl_fallback_2pc out"
  shows "if list_ex lock_missing rs
    then \<exists>ts. sl_commit_ts out = try_from_version ts \<and> sl_min_commit_ts out = ts
      \<and> (\<forall>r \<in> set rs. lock_missing r \<longrightarrow> css_commit_ts (fst r) = ts)
    else sl_commit_ts out = sl_commit_ts st
      \<and> sl_min_commit_ts out = fold max (map li_min_commit_ts (concat (map (css_locks \<circ> fst) rs))) m"
  using assms
proof (induction rs arbitrary: m)
  case Nil
  then show ?case by auto
next
  case (Cons r rs)
  obtain resp shard where r: "r = (resp, shard)" by fastforce
  show ?case
  proof (cases "lock_missing r")
    case True
    then have "all_secondaries rs m True (Some (css_commit_ts resp)) st = Inr out"
      using Cons.prems(1) r by (auto simp: lock_missing_def Let_def split: if_splits)
    then show ?thesis using all_secondaries_determined [OF _ Cons.prems(2)] True r by auto
  next
    case False
    have f: "fold (\<lambda>l m. max m (li_min_commit_ts l)) ls m = fold max (map li_min_commit_ts ls) m" for ls m
      by (induction ls arbitrary: m) (simp_all add: max.commute)
    have "all_secondaries rs (fold max (map li_min_commit_ts (css_locks resp)) m) False None st = Inr out"
      using False Cons.prems r by (auto simp: lock_missing_def f split: if_splits)
    from Cons.IH [OF this Cons.prems(2)] show ?thesis using False r by simp
  qed
qed

definition demo_lock :: "u64 \<Rightarrow> u64 \<Rightarrow> bool \<Rightarrow> lock_info" where
  "demo_lock ver min_ts async = LockInfo [1] ver [2] 3000 1 0 0 async min_ts [] 0 [] False"

definition demo_secondaries :: "(check_secondary_locks_response \<times> bytes list) list" where
  "demo_secondaries = [(\<lparr>css_region_error = None, css_error = None, css_locks = [demo_lock 5 9 True, demo_lock 5 7 True], css_commit_ts = 0\<rparr>, [[2], [3]])]"

theorem secondaries_verdict_witness:
  "map_sum id sl_min_commit_ts (all_secondaries demo_secondaries 6 False None \<lparr>sl_commit_ts = None, sl_min_commit_ts = 6, sl_fallback_2pc = False\<rparr>)
   = Inr (9 :: u64)"
proof -
  let ?st = "\<lparr>sl_commit_ts = None, sl_min_commit_ts = 6, sl_fallback_2pc = False\<rparr>"
  obtain out where o: "all_secondaries demo_secondaries 6 False None ?st = Inr out" "\<not> sl_fallback_2pc out"
    by (simp add: demo_secondaries_def demo_lock_def)
  have "sl_min_commit_ts out = fold max (map li_min_commit_ts (concat (map (css_locks \<circ> fst) demo_secondaries))) 6"
    using secondaries_verdict [OF o] by (simp add: demo_secondaries_def lock_missing_def)
  also have "\<dots> = 9" by (simp add: demo_secondaries_def demo_lock_def)
  finally show ?thesis using o(1) by simp
qed

subsection \<open>Where resolution falls short\<close>

text \<open>A lock of an async-commit transaction that has to fall back to two phases is never cleaned up once
  the first status check was cached: the second check, which would force the transaction to fall back, is
  answered from the cache, and the cleanup ends in \<open>ResolveLockError\<close>.\<close>

theorem fallback_is_answered_from_cache:
  assumes "check_txn_status pd kv fuel (li_lock_version l) (li_primary_lock l) 0 (- 1) True False (is_pessimistic_lock l) (w, c)
      = Some ((w1, c1), Inr st)"
    and "st_kind st = StatusLocked ttl info" "is_cacheable st"
    and "check_all_secondaries display pd kv fuel (li_secondaries info) (li_lock_version l) (li_min_commit_ts info) w1 = Some (w2, Inr sec)"
    and "sl_fallback_2pc sec"
  shows "decide_txn display pd kv fuel l (w, c) = Some ((w2, c1), Inl (ResolveLockError [info]))"
proof -
  have "rc_resolved c1 (li_lock_version l) = Some st"
    using assms(1,3) by (auto simp: check_txn_status_def save_resolved_def Let_def split: option.splits sum.splits prod.splits if_splits)
  then have "check_txn_status pd kv fuel (li_lock_version l) (li_primary_lock l) 0 (- 1) True True (is_pessimistic_lock l) (w2, c1)
      = Some ((w2, c1), Inr st)"
    by (simp add: check_txn_status_def)
  then show ?thesis using assms by (simp add: decide_txn_def Let_def)
qed

end
