(* ===== verification/Example_Client.thy ===== *)
theory Example_Client
  imports Lock_Props
begin

text \<open>
  A concrete client for the examples of the development: a cluster with one region whose leader is on store
  1, reached through the production client with an empty region cache.
\<close>

definition one_region :: region_with_leader where
  "one_region = \<lparr>rl_region = \<lparr>mr_id = 1, mr_start_key = [], mr_end_key = [],
       mr_region_epoch = Some \<lparr>conf_ver = 1, version = 1\<rparr>, mr_peers = [demo_peer 1 False]\<rparr>,
     rl_leader = Some (demo_peer 1 False)\<rparr>"

definition one_region_source :: region_source_state where
  "one_region_source = \<lparr>rs_cache = new_region_cache_map,
     rs_env = \<lparr>env_ttl = \<lparr>base_sec = 0, jitter_sec = 0\<rparr>, env_hash_order = (\<lambda>xs. xs),
       env_pd_key = (\<lambda>k. Inr one_region), env_pd_id = (\<lambda>i. Inl NoCurrentRegions), env_now = 0, env_rnd = 0\<rparr>,
     rs_range_of_version = (\<lambda>v. ([], []))\<rparr>"

lemma one_region_source_inv: "pd_source_inv False one_region_source"
proof -
  have "region_source_inv one_region_source"
    using cache_inv_new by (auto simp: region_source_inv_def one_region_source_def one_region_def pd_valid_def well_ranged_def
        range_of_def contains_half_open in_half_open_def cached_def new_region_cache_map_def start_key_def end_key_def)
  then show ?thesis by (auto simp: pd_source_inv_def one_region_source_def encoded_bound_def)
qed

definition one_store :: store_meta where
  "one_store = \<lparr>sm_id = 1, sm_address = ''s1'', sm_labels = [], sm_state = 0\<rparr>"

definition demo_world :: "'u \<Rightarrow> 'u client_world" where
  "demo_world u = \<lparr>cw_source = one_region_source, cw_stores = (\<lambda>_. None), cw_health = (\<lambda>_. None), cw_outside = u\<rparr>"

definition demo_out :: "timestamp \<Rightarrow> ('u, unit) outside" where
  "demo_out ts = \<lparr>out_pd_store = (\<lambda>u i. Inr one_store), out_pd_all_stores = (\<lambda>u. Inr [one_store]), out_connect = (\<lambda>u a. Inr ()),
     out_get_timestamp = (\<lambda>u. (u, Inr ts)), out_now = (\<lambda>u. 0), out_rnd = (\<lambda>u n. 0), out_sleep = (\<lambda>u d. u), out_order = (\<lambda>u n. [0..<n])\<rparr>"

lemma demo_world_inv: "client_inv False (demo_world u)"
  by (simp add: client_inv_def demo_world_def one_region_source_inv)

text \<open>The same cluster with a clock: what is outside of the client is the time in milliseconds.\<close>

definition clock_out :: "timestamp \<Rightarrow> (int, unit) outside" where
  "clock_out ts = (demo_out ts)\<lparr>out_now := \<lambda>u. u, out_sleep := \<lambda>u d. u + uint d\<rparr>"

text \<open>Stores that accept every request; \<open>min_ts\<close> and \<open>one_pc_ts\<close> are the timestamps of a prewrite.\<close>

definition demo_kv :: "u64 \<Rightarrow> u64 \<Rightarrow> ('u, unit) kv_ops" where
  "demo_kv min_ts one_pc_ts = \<lparr>
     kv_get = (\<lambda>u c ctx q. (u, Inr \<lparr>gs_region_error = None, gs_error = None, gs_value = [], gs_not_found = True, gs_commit_ts = 0\<rparr>)),
     kv_batch_get = (\<lambda>u c ctx q. (u, Inr \<lparr>bgs_region_error = None, bgs_pairs = [], bgs_error = None\<rparr>)),
     kv_scan = (\<lambda>u c ctx q. (u, Inr \<lparr>ss_region_error = None, ss_pairs = [], ss_error = None\<rparr>)),
     kv_prewrite = (\<lambda>u c ctx q. (u, Inr \<lparr>pws_region_error = None, pws_errors = [], pws_min_commit_ts = min_ts, pws_one_pc_commit_ts = one_pc_ts\<rparr>)),
     kv_commit = (\<lambda>u c ctx q. (u, Inr \<lparr>cms_region_error = None, cms_error = None, cms_commit_version = cmq_commit_version q\<rparr>)),
     kv_batch_rollback = (\<lambda>u c ctx q. (u, Inr \<lparr>rbs_region_error = None, rbs_error = None\<rparr>)),
     kv_pessimistic_lock = (\<lambda>u c ctx q. (u, Inr \<lparr>pls_region_error = None, pls_errors = [], pls_commit_ts = 0, pls_value = [],
        pls_values = [], pls_not_founds = [], pls_results = []\<rparr>)),
     kv_pessimistic_rollback = (\<lambda>u c ctx q. (u, Inr \<lparr>prs_region_error = None, prs_errors = []\<rparr>)),
     kv_heart_beat = (\<lambda>u c ctx q. (u, Inr \<lparr>hbs_region_error = None, hbs_error = None, hbs_lock_ttl = hbq_advise_lock_ttl q\<rparr>)),
     kv_cleanup = (\<lambda>u c ctx q. (u, Inr \<lparr>cls_region_error = None, cls_error = None, cls_commit_version = 0\<rparr>)),
     kv_resolve_lock = (\<lambda>u c ctx q. (u, Inr \<lparr>rls_region_error = None, rls_error = None\<rparr>)),
     kv_check_txn_status = (\<lambda>u c ctx q. (u, Inr \<lparr>cts_region_error = None, cts_error = None, cts_lock_ttl = 0, cts_commit_version = 0,
        cts_action = 0, cts_lock_info = None\<rparr>)),
     kv_check_secondary_locks = (\<lambda>u c ctx q. (u, Inr \<lparr>css_region_error = None, css_error = None, css_locks = [], css_commit_ts = 0\<rparr>)),
     kv_flush = (\<lambda>u c ctx q. (u, Inr \<lparr>fls_region_error = None, fls_errors = []\<rparr>)),
     kv_scan_lock = (\<lambda>u c ctx q. (u, Inr \<lparr>sls_region_error = None, sls_error = None, sls_locks = []\<rparr>))\<rparr>"

text \<open>The same cluster behind a client that keeps no state.\<close>

definition plain_client :: "timestamp \<Rightarrow> ('w, unit) pd_client" where
  "plain_client ts = \<lparr>pd_region_for_key = (\<lambda>w k. (w, Inr one_region)),
     pd_region_for_id = (\<lambda>w i. if i = 1 then (w, Inr one_region) else (w, Inl (RegionNotFoundInResponse i))),
     pd_map_region_to_store = (\<lambda>w r. (w, Inr (new_region_store r ()))),
     pd_invalidate_region_cache = (\<lambda>w v. w), pd_invalidate_store_cache = (\<lambda>w i. w), pd_update_leader = (\<lambda>w v p. (w, Inr ())),
     pd_get_timestamp = (\<lambda>w. (w, Inr ts)), pd_all_stores = (\<lambda>w. (w, Inr [()])), pd_store_health = (\<lambda>w _. None),
     pd_set_store_health = (\<lambda>h w. w), rt_now = (\<lambda>w. 0), rt_rnd = (\<lambda>w n. 0), rt_sleep = (\<lambda>w d. w), rt_order = (\<lambda>w n. [0..<n])\<rparr>"

lemma plain_client_sel [simp]:
  "pd_region_for_key (plain_client ts) w k = (w, Inr one_region)"
  "pd_get_timestamp (plain_client ts) w = (w, Inr ts)"
  "pd_set_store_health (plain_client ts) h w = w" "rt_now (plain_client ts) w = 0"
  "pd_map_region_to_store (plain_client ts) w r = (w, Inr (new_region_store r ()))"
  "rt_order (plain_client ts) w n = [0..<n]"
  "pd_invalidate_region_cache (plain_client ts) w v = w" "pd_invalidate_store_cache (plain_client ts) w i = w"
  by (simp_all add: plain_client_def)

lemma one_region_contains [simp]: "contains one_region k"
  by (simp add: contains_half_open in_half_open_def one_region_def start_key_def end_key_def)

lemma dropWhile_True: "dropWhile (\<lambda>_. True) xs = []"
  by (induction xs) auto

lemma group_one_region:
  "ks \<noteq> [] \<Longrightarrow> group_keys_by_region (pd_region_for_key (plain_client ts)) key_of w ks = (w, [Inr (ks, one_region)])"
  by (cases ks) (simp_all add: group_keys_by_region.simps dropWhile_True takeWhile_eq_all_conv [THEN iffD2])

lemma batches_from_small:
  "n + sum_list (map sz xs) < limit \<Longrightarrow> batches_from sz limit n b xs = (if b @ xs = [] then [] else [b @ xs])"
  by (induction xs arbitrary: n b) auto

lemma batches_small: "sum_list (map sz xs) < limit \<Longrightarrow> xs \<noteq> [] \<Longrightarrow> batches sz xs limit = [xs]"
  by (simp add: batches_def batches_from_small)

lemma sort_key_Nil: "sort_key f xs = [] \<longleftrightarrow> xs = []"
  by (metis length_0_conv length_sort)

lemma plain_prewrite_shards:
  assumes "pw_mutations q \<noteq> []" "sum_list (map mutation_size (sort_key pm_key (pw_mutations q))) < TXN_COMMIT_BATCH_SIZE"
  shows "prewrite_shards (pd_region_for_key (plain_client ts)) w q =
    (w, [Inr (\<lparr>psh_mutations = sort_key pm_key (pw_mutations q), psh_txn_size = of_nat (length (pw_mutations q))\<rparr>, one_region)])"
  using assms by (simp add: prewrite_shards_def sorted_groups_def group_one_region sort_key_Nil prewrite_batches_def batches_small)

lemma plain_commit_shards:
  assumes "cmq_keys q \<noteq> []" "sum_list (map length (sort (cmq_keys q))) < TXN_COMMIT_BATCH_SIZE"
  shows "commit_shards (pd_region_for_key (plain_client ts)) w q = (w, [Inr (sort (cmq_keys q), one_region)])"
  using assms by (simp add: commit_shards_def sorted_groups_def group_one_region sort_key_Nil batches_small)

text \<open>A request with one shard that is answered without an error.\<close>

lemma plain_run_from:
  fixes kv :: "'w \<Rightarrow> unit \<Rightarrow> rpc_context \<Rightarrow> 'req \<Rightarrow> 'w \<times> 'resp res"
  assumes "shards w (di_request plan) = (w, [Inr (sh, one_region)])"
    and "\<And>ctx. kv w () ctx (req_store 0 (apply_shard sh (di_request plan))) = (w', Inr resp)"
    and "take_fn resp = ([], resp)" "key_errors resp = None" "region_error resp = None"
  shows "\<exists>p. run_plan (plain_client ts) (resolve_lock_ops (plain_client ts) resolver take_fn reroute lb (Suc fuel)
        (dispatch_ops kv shards apply_shard req_store key_errors region_error)) preserve (Suc fuel) rb w plan
      = Some (w', Inr [(p, Inr resp)]) \<and> di_request p = req_store 0 (apply_shard sh (di_request plan))"
  using assms
  by (simp add: run_plan_def retry_multi_region_def resolve_lock_ops_def resolve_lock_execute_def dispatch_ops_def dispatch_execute_def
      single_shard_step_def attach_store_def fresh_routing_def select_peer_def select_peer_inner_def default_read_routing_def
      one_region_def demo_peer_def Let_def select_target_def request_source_override_def new_region_store_def apply_to_request_def
      apply_pending_def get_store_id_def take_pending_backoff_for_retry_def take_for_retry_def in_order_def
      on_response_def region_id_def)

lemma plain_run:
  fixes kv :: "'w \<Rightarrow> unit \<Rightarrow> rpc_context \<Rightarrow> 'req \<Rightarrow> 'w \<times> 'resp res"
  assumes "shards w q = (w, [Inr (sh, one_region)])"
    and "\<And>ctx. kv w () ctx (req_store 0 (apply_shard sh q)) = (w', Inr resp)"
    and "take_fn resp = ([], resp)" "key_errors resp = None" "region_error resp = None"
  shows "\<exists>p. run_plan (plain_client ts) (resolve_lock_ops (plain_client ts) resolver take_fn reroute lb (Suc fuel)
        (dispatch_ops kv shards apply_shard req_store key_errors region_error)) preserve (Suc fuel) rb w (new_dispatch q)
      = Some (w', Inr [(p, Inr resp)]) \<and> di_request p = req_store 0 (apply_shard sh q)"
proof -
  have d: "di_request (new_dispatch q) = q" by (simp add: new_dispatch_def)
  show ?thesis using plain_run_from [where plan = "new_dispatch q" and shards = shards and kv = kv and req_store = req_store
      and apply_shard = apply_shard and take_fn = take_fn and key_errors = key_errors and region_error = region_error, unfolded d, OF assms] .
qed

text \<open>A request with one shard whose call fails and is not tried again.\<close>

lemma plain_run_error:
  fixes kv :: "'w \<Rightarrow> unit \<Rightarrow> rpc_context \<Rightarrow> 'req \<Rightarrow> 'w \<times> 'resp res"
  assumes "shards w (di_request plan) = (w, [Inr (sh, one_region)])"
    and "\<And>ctx. kv w () ctx (req_store 0 (apply_shard sh (di_request plan))) = (w', Inl e)" "is_grpc_error e"
  shows "run_plan (plain_client ts) (resolve_lock_ops (plain_client ts) resolver take_fn reroute lb (Suc fuel)
        (dispatch_ops kv shards apply_shard req_store key_errors region_error)) False (Suc fuel) no_backoff w plan
      = Some (w', Inl e)"
  using assms
  by (simp add: run_plan_def retry_multi_region_def resolve_lock_ops_def resolve_lock_execute_def dispatch_ops_def dispatch_execute_def
      single_shard_step_def attach_store_def fresh_routing_def select_peer_def select_peer_inner_def default_read_routing_def
      one_region_def demo_peer_def Let_def select_target_def request_source_override_def new_region_store_def apply_to_request_def
      apply_pending_def get_store_id_def take_pending_backoff_for_retry_def take_for_retry_def in_order_def
      on_response_def region_id_def handle_other_error_def no_backoff_def back_off_def next_delay_duration_def)

end
