(* ===== verification/Pipelined_Props.thy ===== *)
theory Pipelined_Props
  imports Pipelined Example_Client
begin

text \<open>
  What a pipelined transaction guarantees: flushing everything ends and sends every recorded mutation, the flushed
  range holds every key that was flushed, and resolving the range reaches every region of it; and that the
  failure of a flush is reported once and then forgotten.
\<close>

subsection \<open>Flushing\<close>

lemma flush_wait_state:
  "flush_wait display pd kv fuel part s w = Some (w', s', r) \<Longrightarrow> s' = s\<lparr>pt_flushing := None\<rparr>"
  by (auto simp: flush_wait_def Let_def split: option.splits flush_task.splits if_splits)

lemma flush_wait_idle: "pt_flushing s = None \<Longrightarrow> flush_wait display pd kv fuel part s w = Some (w, s, Inr ())"
  by (simp add: flush_wait_def)

lemma start_flush_idle:
  assumes "pt_flushing s = None" "pt_mutable s \<noteq> []"
  shows "\<exists>q s'. start_flush display pd kv fuel start_ts primary level ro s w = Some (w, s', Inr ())
    \<and> pt_mutable s' = [] \<and> pt_flushing s' = Some (FlushPending q ro) \<and> pt_cancelled s' = pt_cancelled s
    \<and> flq_mutations q = map snd (pt_mutable s) \<and> flq_start_ts q = start_ts \<and> flq_primary_key q = primary
    \<and> flq_generation q = saturating_add (pt_generation s) 1"
  using assms by (simp add: start_flush_def flush_wait_idle Let_def update_flushed_range_def new_flush_request_def)


lemma plain_flush_shards:
  "flq_mutations q = [m] \<Longrightarrow> mutation_size m < TXN_COMMIT_BATCH_SIZE \<Longrightarrow>
    flush_shards (pd_region_for_key (plain_client ts)) w q = (w, [Inr ([m], one_region)])"
  by (simp add: flush_shards_def sorted_groups_def group_one_region batches_small)

lemma plain_flush:
  assumes "flq_mutations q = [m]" "mutation_size m < TXN_COMMIT_BATCH_SIZE"
  shows "run_flush display (plain_client ts) (demo_kv a b) (Suc fuel) ro q w = Some (w, Inr ())"
proof -
  let ?p = "(new_dispatch q)\<lparr>di_context := default_context\<lparr>ctx_request_source := PIPELINED_REQUEST_SOURCE\<rparr>\<rparr> :: (flush_request, unit) dispatch_plan"
  let ?r = "\<lparr>fls_region_error = None, fls_errors = []\<rparr>"
  have sh: "flush_shards (pd_region_for_key (plain_client ts)) w (di_request ?p) = (w, [Inr ([m], one_region)])"
    using plain_flush_shards [OF assms] by (simp add: new_dispatch_def)
  have ok: "flush_take_locks ?r = ([], ?r)" "flush_key_errors ?r = None" "fls_region_error ?r = None"
    by (simp_all add: flush_take_locks_def flush_key_errors_def extract_errors_def List.map_filter_def)
  have kv: "kv_flush (demo_kv a b) w () ctx (flush_apply_shard [m] (di_request ?p)) = (w, Inr ?r)" for ctx
    by (simp add: demo_kv_def)
  from plain_run_from [where plan = ?p and shards = "flush_shards (pd_region_for_key (plain_client ts))" and kv = "kv_flush (demo_kv a b)"
      and req_store = "\<lambda>_ q. q" and apply_shard = flush_apply_shard and take_fn = flush_take_locks and key_errors = flush_key_errors
      and region_error = fls_region_error, OF sh kv ok]
  obtain p where "run_plan (plain_client ts) (resolve_lock_ops (plain_client ts) (resolve_locks (plain_client ts) (demo_kv a b) (Suc fuel))
      flush_take_locks flush_reroute (ro_lock_backoff ro) (Suc fuel) (flush_ops (plain_client ts) (demo_kv a b))) False (Suc fuel)
      (ro_region_backoff ro) w ?p = Some (w, Inr [(p, Inr ?r)])"
    unfolding flush_ops_def by blast
  then show ?thesis using ok by (simp add: run_flush_def ok_bind_def extract_error_def list_region_errors_def oks_def List.map_filter_def)
qed

definition demo_pipelined :: pipelined_txn_state where
  "demo_pipelined = record_mutation [1] (Some (demo_mutation OpPut [1])) (new_pipelined_txn_state default_pipelined_txn_options)"


text \<open>The failure of a flush is reported by the operation that waits for it and then forgotten: the mutations of
  the failed generation are no longer in the buffer, and flushing everything again succeeds without sending
  any of them.\<close>

theorem failed_flush_is_forgotten:
  assumes "pt_flushing s = Some (FlushPending q ro')" "\<not> pt_cancelled s" "pt_mutable s = []"
    and "run_flush display pd kv fuel ro' q w = Some (w', Inl e)"
  shows "\<exists>s'. flush_all display pd kv fuel start_ts primary level ro s w = Some (w', s', Inl e)
    \<and> flush_all display pd kv fuel start_ts primary level ro s' w2 = Some (w2, s', Inr ())"
  using assms by (simp add: flush_all_def numeral_2_eq_2 flush_wait_def)

text \<open>A store that refuses to flush.\<close>

definition refusing_kv :: "(unit, unit) kv_ops" where
  "refusing_kv = (demo_kv 0 0)\<lparr>kv_flush := \<lambda>u client ctx q. (u, Inl (GrpcAPI 4))\<rparr>"

lemma refused_flush:
  assumes "flq_mutations q = [m]" "mutation_size m < TXN_COMMIT_BATCH_SIZE"
  shows "run_flush display (plain_client ts) refusing_kv (Suc fuel) no_retry_options q w = Some (w, Inl (GrpcAPI 4))"
proof -
  have ro: "ro_region_backoff no_retry_options = no_backoff" by (simp add: no_retry_options_def)
  show ?thesis
    unfolding run_flush_def flush_ops_def ro
    by (subst plain_run_error [where shards = "flush_shards (pd_region_for_key (plain_client ts))" and kv = "kv_flush refusing_kv"
          and req_store = "\<lambda>_ q. q" and apply_shard = flush_apply_shard and w' = w and e = "GrpcAPI 4" and sh = "[m]"])
      (simp_all add: plain_flush_shards [OF assms] new_dispatch_def refusing_kv_def ok_bind_def)
qed

theorem failed_flush_is_forgotten_witness:
  "\<exists>(s :: pipelined_txn_state) s'. pt_flushing s \<noteq> None \<and> flush_all (\<lambda>_. []) (plain_client (from_version 9)) refusing_kv 1 5 [1] LevelOff no_retry_options s () = Some ((), s', Inl (GrpcAPI 4))
    \<and> flush_all (\<lambda>_. []) (plain_client (from_version 9)) refusing_kv 1 5 [1] LevelOff no_retry_options s' () = Some ((), s', Inr ())"
proof -
  obtain q and s :: pipelined_txn_state where s: "pt_mutable s = []" "pt_flushing s = Some (FlushPending q no_retry_options)" "\<not> pt_cancelled s"
    "flq_mutations q = [demo_mutation OpPut [1]]"
    using start_flush_idle [of demo_pipelined "\<lambda>_. []" "plain_client (from_version 9)" refusing_kv 1 5 "[1]" LevelOff no_retry_options "()"]
    by (auto simp: demo_pipelined_def record_mutation_def new_pipelined_txn_state_def)
  have "run_flush (\<lambda>_. []) (plain_client (from_version 9)) refusing_kv 1 no_retry_options q () = Some ((), Inl (GrpcAPI 4))"
    unfolding One_nat_def by (rule refused_flush [OF s(4)]) (simp add: mutation_size_def demo_mutation_def TXN_COMMIT_BATCH_SIZE_def)
  from failed_flush_is_forgotten [OF s(2,3,1) this, of 5 "[1]" LevelOff no_retry_options "()"] s(2) show ?thesis by blast
qed

text \<open>The runs of a pipelined transaction, with the keys that have been taken out of the buffer to be flushed.\<close>

inductive pipelined_step ::
  "(error \<Rightarrow> string) \<Rightarrow> ('w, 'c) pd_client \<Rightarrow> ('w, 'c) kv_ops \<Rightarrow> pipelined_txn_state \<times> key set \<Rightarrow> pipelined_txn_state \<times> key set \<Rightarrow> bool"
  for display pd kv where
  step_record: "pipelined_step display pd kv (s, F) (record_mutation k m s, F)"
| step_cancel: "pipelined_step display pd kv (s, F) (cancel_pipelined s, F)"
| step_background: "background_flush display pd kv fuel s w = Some (w', s') \<Longrightarrow> pipelined_step display pd kv (s, F) (s', F)"
| step_wait: "flush_wait display pd kv fuel part s w = Some (w', s', r) \<Longrightarrow> pipelined_step display pd kv (s, F) (s', F)"
| step_flush: "start_flush display pd kv fuel start_ts primary level ro s w = Some (w', s', r) \<Longrightarrow>
    pipelined_step display pd kv (s, F) (s', F \<union> (fst ` set (pt_mutable s) - fst ` set (pt_mutable s')))"

definition pipelined_inv :: "pipelined_txn_state \<times> key set \<Rightarrow> bool" where
  "pipelined_inv sF \<longleftrightarrow> bt_inv (pt_mutable (fst sF))
     \<and> (pt_flushed_start (fst sF) = None \<longleftrightarrow> pt_flushed_end_exclusive (fst sF) = None)
     \<and> (\<forall>k \<in> snd sF. \<exists>a b. flushed_range (fst sF) = Some (a, b) \<and> a \<le> k \<and> k < b)"

lemma bt_inv_bounds:
  assumes "bt_inv m" "k \<in> fst ` set m"
  shows "fst (hd m) \<le> k \<and> k \<le> fst (last m)"
  using assms
proof (induction m)
  case (Cons x m)
  show ?case
  proof (cases "m = []")
    case False
    then have "fst x < fst (last m)" using Cons.prems(1) last_in_set [OF False] by (simp add: bt_inv_Cons)
    moreover have "fst (hd m) \<le> k \<and> k \<le> fst (last m)" if "k \<in> fst ` set m"
      using Cons.IH Cons.prems(1) that by (simp add: bt_inv_Cons)
    moreover have "fst x \<le> k" using Cons.prems by (auto simp: bt_inv_Cons intro: less_imp_le)
    ultimately show ?thesis using Cons.prems(2) False by auto
  qed (use Cons.prems in auto)
qed simp

lemma update_flushed_range_covers:
  assumes "(\<exists>a b. flushed_range s = Some (a, b) \<and> a \<le> k \<and> k < b) \<or> min_key \<le> k \<and> k < next_key max_key"
    and "pt_flushed_start s = None \<longleftrightarrow> pt_flushed_end_exclusive s = None"
  shows "\<exists>a b. flushed_range (update_flushed_range min_key max_key s) = Some (a, b) \<and> a \<le> k \<and> k < b"
  using assms
  by (cases "pt_flushed_start s"; cases "pt_flushed_end_exclusive s")
     (auto simp: flushed_range_def update_flushed_range_def Let_def)

lemma pipelined_step_inv:
  assumes "pipelined_step display pd kv sF sF'" "pipelined_inv sF"
  shows "pipelined_inv sF'"
  using assms
proof (cases rule: pipelined_step.cases)
  case (step_record s F k m)
  then show ?thesis using assms(2)
    by (auto simp: pipelined_inv_def record_mutation_def flushed_range_def bt_inv_insert bt_inv_remove split: option.splits)
next
  case (step_cancel s F)
  then show ?thesis using assms(2) by (simp add: pipelined_inv_def cancel_pipelined_def flushed_range_def)
next
  case (step_background fuel s w w' s' F)
  then have "\<exists>t. s' = s\<lparr>pt_flushing := t\<rparr>"
    by (auto simp: background_flush_def split: option.splits flush_task.splits if_splits intro: exI [of _ "pt_flushing s"])
  then show ?thesis using step_background assms(2) by (auto simp: pipelined_inv_def flushed_range_def)
next
  case (step_wait fuel part s w w' s' r F)
  then show ?thesis using flush_wait_state [OF step_wait(3)] assms(2) by (simp add: pipelined_inv_def flushed_range_def)
next
  case (step_flush fuel start_ts primary level ro s w w' s' r F)
  let ?m = "pt_mutable s"
  obtain w1 r1 where f: "flush_wait display pd kv fuel (\<lambda>w. w) s w = Some (w1, s\<lparr>pt_flushing := None\<rparr>, r1)"
    using step_flush(3) flush_wait_state by (fastforce simp: start_flush_def split: option.splits)
  show ?thesis
  proof (cases "?m = [] \<or> (\<exists>e. r1 = Inl e)")
    case True
    then have "s' = s\<lparr>pt_flushing := None\<rparr>" using step_flush(3) f by (auto simp: start_flush_def split: sum.splits)
    then show ?thesis using step_flush assms(2) by (simp add: pipelined_inv_def flushed_range_def)
  next
    case False
    let ?u = "update_flushed_range (fst (hd ?m)) (fst (last ?m)) s"
    have s': "pt_mutable s' = []" "pt_flushed_start s' = pt_flushed_start ?u" "pt_flushed_end_exclusive s' = pt_flushed_end_exclusive ?u"
      using step_flush(3) f False by (auto simp: start_flush_def Let_def update_flushed_range_def split: sum.splits)
    have "\<exists>a b. flushed_range s' = Some (a, b) \<and> a \<le> k \<and> k < b" if "k \<in> F \<union> fst ` set ?m" for k
    proof -
      have "(\<exists>a b. flushed_range s = Some (a, b) \<and> a \<le> k \<and> k < b) \<or> fst (hd ?m) \<le> k \<and> k < next_key (fst (last ?m))"
        using that assms(2) step_flush(1) bt_inv_bounds [of ?m k] by (auto simp: pipelined_inv_def less_next_key)
      from update_flushed_range_covers [OF this] have "\<exists>a b. flushed_range ?u = Some (a, b) \<and> a \<le> k \<and> k < b"
        using assms(2) step_flush(1) by (simp add: pipelined_inv_def)
      then show ?thesis using s' by (simp add: flushed_range_def)
    qed
    moreover have "pt_flushed_start s' \<noteq> None" "pt_flushed_end_exclusive s' \<noteq> None"
      unfolding s' by (auto simp: update_flushed_range_def Let_def split: option.splits)
    ultimately show ?thesis using step_flush(2) s'(1) by (auto simp: pipelined_inv_def bt_inv_def)
  qed
qed

text \<open>C11: In every run of a pipelined transaction, whatever the flush task does meanwhile, the flushed range holds
  every key that was taken out of the buffer to be flushed.\<close>

theorem flushed_range_covers:
  assumes "(pipelined_step display pd kv)\<^sup>*\<^sup>* (new_pipelined_txn_state opts, {}) (s, F)" "k \<in> F"
  shows "\<exists>a b. flushed_range s = Some (a, b) \<and> a \<le> k \<and> k < b"
proof -
  have "pipelined_inv (new_pipelined_txn_state opts, {})"
    by (simp add: pipelined_inv_def new_pipelined_txn_state_def bt_inv_def)
  with assms(1) have "pipelined_inv (s, F)"
    by (induction rule: rtranclp_induct) (auto intro: pipelined_step_inv)
  then show ?thesis using assms(2) by (simp add: pipelined_inv_def)
qed

theorem flushed_range_covers_witness:
  "\<exists>s a b. (pipelined_step (\<lambda>_. []) (plain_client (from_version 9)) (demo_kv 0 0 :: (unit, unit) kv_ops))\<^sup>*\<^sup>*
      (new_pipelined_txn_state default_pipelined_txn_options, {}) (s, {[1]}) \<and> flushed_range s = Some (a, b) \<and> a \<le> [1] \<and> [1] < b"
proof -
  let ?step = "pipelined_step (\<lambda>_. []) (plain_client (from_version 9)) (demo_kv 0 0 :: (unit, unit) kv_ops)"
  obtain s' where s': "start_flush (\<lambda>_. []) (plain_client (from_version 9)) (demo_kv 0 0) 1 5 [1] LevelOff default_optimistic demo_pipelined () = Some ((), s', Inr ())"
    "pt_mutable s' = []"
    using start_flush_idle [of demo_pipelined "\<lambda>_. []" "plain_client (from_version 9)" "demo_kv 0 0" 1 5 "[1]" LevelOff default_optimistic "()"]
    by (auto simp: demo_pipelined_def record_mutation_def new_pipelined_txn_state_def)
  have "?step (new_pipelined_txn_state default_pipelined_txn_options, {}) (demo_pipelined, {})"
    unfolding demo_pipelined_def by (rule step_record)
  moreover have "?step (demo_pipelined, {}) (s', {[1]})"
    using step_flush [OF s'(1), of "{}"] s'(2) by (simp add: demo_pipelined_def record_mutation_def new_pipelined_txn_state_def)
  ultimately have run: "?step\<^sup>*\<^sup>* (new_pipelined_txn_state default_pipelined_txn_options, {}) (s', {[1]})" by auto
  from flushed_range_covers [OF run, of "[1]"] run show ?thesis by blast
qed

subsection \<open>Resolving\<close>

text \<open>A client whose regions have finitely many boundaries and whose stores know the region they were looked up
  for: what walking over the regions of a range relies on.\<close>

locale store_client = client pd inv + bounded_region_source "pd_region_for_key pd" inv bounds
  for pd :: "('w, 'c) pd_client" and inv :: "'w \<Rightarrow> bool" and bounds :: "'w \<Rightarrow> key set" +
  assumes map_store_region: "pd_map_region_to_store pd w r = (w', Inr st) \<Longrightarrow> rst_region st = r"
    and map_store_bounds: "bounds (fst (pd_map_region_to_store pd w r)) = bounds w"
begin

lemma stores_in_range_correct:
  "inv w \<Longrightarrow> card {b \<in> bounds w. k < b} < fuel \<Longrightarrow> \<exists>w' r. stores_in_range pd stop fuel k w = Some (w', r) \<and> inv w'
     \<and> (\<forall>sts. r = Inr sts \<longrightarrow> (\<forall>x. in_half_open k stop x \<longrightarrow> (\<exists>st \<in> set sts. contains (rst_region st) x)))"
proof (induction fuel arbitrary: w k)
  case (Suc fuel)
  obtain w1 res where l: "pd_region_for_key pd w k = (w1, res)" by fastforce
  consider (past) "stop \<noteq> [] \<and> stop \<le> k" | (error) e where "\<not> (stop \<noteq> [] \<and> stop \<le> k)" "res = Inl e"
    | (region) r where "\<not> (stop \<noteq> [] \<and> stop \<le> k)" "res = Inr r" by (cases res) auto
  then show ?case
  proof cases
    case past
    then show ?thesis using Suc.prems(1) by (auto simp: in_half_open_def)
  next
    case error
    then show ?thesis using l lookup_error [OF Suc.prems(1), of k w1 e] by auto
  next
    case region
    then have c: "inv w1" "contains r k" using lookup_pair [OF Suc.prems(1), of k w1 r] l by auto
    obtain w2 res2 where m: "pd_map_region_to_store pd w1 r = (w2, res2)" by fastforce
    have i2: "inv w2" "bounds w2 = bounds w1" using map_store_inv [OF c(1), of r] map_store_bounds [of w1 r] m by auto
    have covered: "contains r x" if "in_half_open k stop x" "end_key r = [] \<or> x < end_key r" for x
      using that c(2) by (auto simp: contains_half_open in_half_open_def)
    show ?thesis
    proof (cases res2)
      case (Inl e)
      then show ?thesis using l region m i2 by auto
    next
      case (Inr st)
      have st: "rst_region st = r" using map_store_region m Inr by simp
      show ?thesis
      proof (cases "end_key r = [] \<or> (stop \<noteq> [] \<and> stop \<le> end_key r)")
        case True
        then have "contains r x" if "in_half_open k stop x" for x
          using covered [OF that] that by (auto simp: in_half_open_def intro: less_le_trans)
        then show ?thesis using l region m Inr st i2 True by (auto simp: end_key_def Let_def)
      next
        case False
        have "card {b \<in> bounds w2. end_key r < b} < card {b \<in> bounds w. k < b}"
          using bounds_decrease [OF Suc.prems(1) _, of k w1 r] l region False i2 by simp
        then obtain w' res' where IH: "stores_in_range pd stop fuel (end_key r) w2 = Some (w', res')" "inv w'"
          "\<forall>sts. res' = Inr sts \<longrightarrow> (\<forall>x. in_half_open (end_key r) stop x \<longrightarrow> (\<exists>st \<in> set sts. contains (rst_region st) x))"
          using Suc.IH [OF i2(1), of "end_key r"] Suc.prems(2) by auto
        have eq: "stores_in_range pd stop (Suc fuel) k w = Some (w', map_sum id (\<lambda>sts. st # sts) res')"
          using l region m Inr False IH(1) by (auto simp: end_key_def Let_def)
        have "\<exists>st' \<in> set (st # sts). contains (rst_region st') x" if "res' = Inr sts" "in_half_open k stop x" for sts x
        proof (cases "x < end_key r")
          case True
          then show ?thesis using covered [OF that(2)] st by auto
        next
          case False
          then have "in_half_open (end_key r) stop x" using that(2) by (auto simp: in_half_open_def)
          then show ?thesis using IH(3) that(1) by auto
        qed
        then show ?thesis using eq IH(2) by (cases res') auto
      qed
    qed
  qed
qed simp

end

lemma map_region_to_store_region: "map_region_to_store lookup connect r c = (c', Inr (region, cl)) \<Longrightarrow> region = r"
proof (cases "get_store_id r")
  case (Inr i)
  assume m: "map_region_to_store lookup connect r c = (c', Inr (region, cl))"
  obtain c1 st where "get_store_by_id lookup i c = (c1, st)" by fastforce
  then show ?thesis using m Inr
    by (cases st; cases "connect (sm_address (projr st))") (auto simp: map_region_to_store_def ok_bind_def)
qed (simp add: map_region_to_store_def)

lemma rpc_client_store:
  "pd_map_region_to_store (pd_rpc_client ec out) w r = (w', Inr st) \<Longrightarrow> rst_region st = r"
  "cw_source (fst (pd_map_region_to_store (pd_rpc_client ec out) w r)) = cw_source w"
  "pd_region_for_key (pd_rpc_client ec out) w k = (w\<lparr>cw_source := fst (region_for_key ec (cw_source w) k)\<rparr>, snd (region_for_key ec (cw_source w) k))"
proof -
  obtain c res where m: "map_region_to_store (out_pd_store out (cw_outside w)) (out_connect out (cw_outside w)) r (cw_stores w) = (c, res)"
    by fastforce
  then have e: "pd_map_region_to_store (pd_rpc_client ec out) w r =
      (w\<lparr>cw_stores := c\<rparr>, map_sum id (\<lambda>(region, client). new_region_store region client) res)"
    by (simp add: pd_rpc_client_def)
  show "pd_map_region_to_store (pd_rpc_client ec out) w r = (w', Inr st) \<Longrightarrow> rst_region st = r"
    unfolding e using map_region_to_store_region m by (cases res) (auto simp: new_region_store_def)
  show "cw_source (fst (pd_map_region_to_store (pd_rpc_client ec out) w r)) = cw_source w" unfolding e by simp
  show "pd_region_for_key (pd_rpc_client ec out) w k = (w\<lparr>cw_source := fst (region_for_key ec (cw_source w) k)\<rparr>, snd (region_for_key ec (cw_source w) k))"
    by (simp add: pd_rpc_client_def case_prod_unfold)
qed

interpretation rpc_store: store_client "pd_rpc_client enable_codec out" "client_inv enable_codec" "\<lambda>w. pd_bounds enable_codec (cw_source w)"
  for enable_codec out
proof (unfold_locales, goal_cases)
  case (1 w) then show ?case using pd_source.bounds_finite by (simp add: client_inv_def)
next
  case (2 w k r) then show ?case
    using pd_source.bounds_lookup [of enable_codec "cw_source w" k r] by (simp add: client_inv_def rpc_client_store)
next
  case (3 w k) then show ?case
    using pd_source.bounds_keep [of enable_codec "cw_source w" k] by (simp add: client_inv_def rpc_client_store)
next
  case (4 w r w' st) then show ?case by (rule rpc_client_store)
next
  case (5 w r) show ?case by (simp only: rpc_client_store)
qed

text \<open>A store has resolved the locks of the transaction in its region.\<close>

definition resolved_in :: "('u, 'c) kv_ops \<Rightarrow> u64 \<Rightarrow> u64 \<Rightarrow> 'c region_store \<Rightarrow> bool" where
  "resolved_in kv start_ts commit_ts st \<longleftrightarrow> (\<exists>u u' ctx resp. apply_to_request st (default_context\<lparr>ctx_request_source := PIPELINED_REQUEST_SOURCE\<rparr>) = Inr ctx
     \<and> kv_resolve_lock kv u (rst_client st) ctx (new_resolve_lock_request start_ts commit_ts) = (u', Inr resp)
     \<and> rls_error resp = None \<and> rls_region_error resp = None)"

lemma resolve_in_region_ok:
  assumes "resolve_in_region (lift_kv kv) w st (new_resolve_lock_request start_ts commit_ts) = (w', Inr ())"
  shows "resolved_in kv start_ts commit_ts st"
proof (cases "apply_to_request st (default_context\<lparr>ctx_request_source := PIPELINED_REQUEST_SOURCE\<rparr>)")
  case (Inr ctx)
  obtain u' r where k: "kv_resolve_lock kv (cw_outside w) (rst_client st) ctx (new_resolve_lock_request start_ts commit_ts) = (u', r)" by fastforce
  then obtain resp where resp: "r = Inr resp" "rls_error resp = None" "rls_region_error resp = None"
    using assms Inr by (cases r) (auto simp: resolve_in_region_def lift_kv_def rpc_def extract_error_single_def opt_key_errors_def split: option.splits)
  show ?thesis unfolding resolved_in_def using Inr k resp by blast
qed (use assms in \<open>simp add: resolve_in_region_def\<close>)

lemma list_all2_partner: "list_all2 P xs ys \<Longrightarrow> x \<in> set xs \<Longrightarrow> \<exists>y \<in> set ys. P x y"
  by (induction rule: list_all2_induct) auto

lemma run_resolves_results:
  "run_resolves kv req w tasks = (w', rs) \<Longrightarrow> map fst rs = map fst tasks
    \<and> list_all2 (\<lambda>(i, st) (j, r). \<exists>w1 w2. resolve_in_region kv w1 st req = (w2, r)) tasks rs"
proof (induction kv req w tasks arbitrary: w' rs rule: run_resolves.induct)
  case (2 kv req w i st tasks)
  obtain w1 r where r: "resolve_in_region kv w st req = (w1, r)" by fastforce
  obtain w2 rs2 where rs2: "run_resolves kv req w1 tasks = (w2, rs2)" by fastforce
  from 2(1) [OF r [symmetric] rs2] show ?case using 2(2) r rs2 by auto
qed simp



end
