(* ===== verification/Committer_Props.thy ===== *)
theory Committer_Props
  imports Committer Lock_Props Example_Client
begin

text \<open>
  What the committer guarantees: the timestamps and the lifetime of a prewrite request, the order of the two
  phases, which keys a rollback reaches, and that waiting for a commit timestamp ends.
\<close>

subsection \<open>Timestamps and lifetimes\<close>

lemma calc_txn_lock_ttl_bounds: "DEFAULT_LOCK_TTL \<le> calc_txn_lock_ttl c" "calc_txn_lock_ttl c \<le> MAX_TTL"
  by (auto simp: calc_txn_lock_ttl_def DEFAULT_LOCK_TTL_def MAX_TTL_def word_le_nat_alt max_def min_def)

lemma add_physical_ms_ge: "v \<le> add_physical_ms v d"
  by (simp add: add_physical_ms_def saturating_add_ge)

lemma max_commit_ts_ge: "version_of (cm_start_version c) \<le> max_commit_ts c e"
  using add_physical_ms_ge order_trans unfolding max_commit_ts_def Let_def by blast

lemma unat_extract_physical_ms: "unat (extract_physical_ms v) = unat v div 2 ^ 18"
  by (simp add: extract_physical_ms_def PD_TS_LOGICAL_BITS_def drop_bit_eq_div unat_div_distrib)

lemma extract_physical_small: "unat (extract_physical_ms v) + 1 < 2 ^ 64"
proof -
  have "unat v div 2 ^ 18 \<le> unat v div 2" by (rule div_le_mono2) simp_all
  then show ?thesis using unat_less_exp [of v] by (simp add: unat_extract_physical_ms)
qed

lemma min_commit_ts_gt:
  "version_of (cm_start_version c) < - 1 \<Longrightarrow> version_of (cm_start_version c) < min_commit_ts c"
proof -
  let ?s = "version_of (cm_start_version c)"
  assume "?s < - 1"
  then have "unat ?s + 1 < 2 ^ 64" by (simp add: word_less_nat_alt unsigned_minus_1_eq_mask mask_eq_exp_minus_1)
  then have "?s < saturating_add ?s 1" by (simp add: word_less_nat_alt unat_saturating_add)
  then show ?thesis by (auto simp: min_commit_ts_def Let_def less_max_iff_disj split: transaction_kind.splits)
qed

lemma prewrite_request_sel:
  "pw_max_commit_ts (prewrite_request_for c primary e) =
     (if to_async_commit (cm_options c) \<or> to_try_one_pc (cm_options c) then max_commit_ts c e else 0)"
  "pw_min_commit_ts (prewrite_request_for c primary e) = min_commit_ts c"
  "pw_mutations (prewrite_request_for c primary e) = cm_prewrite_mutations c"
  "saturating_add (calc_txn_lock_ttl c) e \<le> pw_lock_ttl (prewrite_request_for c primary e)"
  by (simp_all add: prewrite_request_for_def Let_def new_pessimistic_prewrite_request_def new_prewrite_request_def
      default_prewrite_request_def split: transaction_kind.splits)

lemma prewrite_request_safe_ttl:
  assumes "to_async_commit (cm_options c)" "is_pessimistic_options (cm_options c)"
  shows "saturating_add (saturating_sub (extract_physical_ms (max_commit_ts c e)) (extract_physical_ms (version_of (cm_start_version c)))) 1
    \<le> pw_lock_ttl (prewrite_request_for c primary e)"
  using assms by (simp add: prewrite_request_for_def Let_def)


definition demo_committer :: "transaction_options \<Rightarrow> committer" where
  "demo_committer options = new_committer (Some [1]) [demo_mutation OpPut [1], demo_mutation OpPut [2]] [[1], [2]]
     (from_version 262144) options Disable 2 0"


subsection \<open>Waiting for a commit timestamp\<close>

text \<open>Time passes while the loop sleeps, and asking PD for a timestamp does not turn the clock back.\<close>

definition clock_runs :: "('w, 'c) pd_client \<Rightarrow> bool" where
  "clock_runs pd \<longleftrightarrow> (\<forall>w. rt_now pd w < rt_now pd (rt_sleep pd w COMMIT_WAIT_UNTIL_TSO_POLL_INTERVAL))
     \<and> (\<forall>w. rt_now pd w \<le> rt_now pd (fst (pd_get_timestamp pd w)))"

lemma fetch_loop_ends:
  assumes "clock_runs pd" "int timeout < rt_now pd w - start + int fuel" "0 < fuel"
  shows "\<exists>w' r. fetch_loop pd tso timeout start fuel w = Some (w', r)
    \<and> (case r of Inr ts \<Rightarrow> tso \<le> version_of ts | Inl e \<Rightarrow> (\<exists>w w1. pd_get_timestamp pd w = (w1, Inl e))
         \<or> (\<exists>ts. e = CommitTsLag ts tso \<and> ts < tso \<and> int timeout \<le> rt_now pd w' - start))"
  using assms(2,3)
proof (induction fuel arbitrary: w)
  case 0
  then show ?case by simp
next
  case (Suc fuel)
  obtain w1 r where g: "pd_get_timestamp pd w = (w1, r)" by fastforce
  let ?w2 = "rt_sleep pd w1 COMMIT_WAIT_UNTIL_TSO_POLL_INTERVAL"
  have now: "rt_now pd w \<le> rt_now pd w1" "rt_now pd w1 < rt_now pd ?w2"
    using assms(1) g unfolding clock_runs_def by (metis fst_conv, blast)
  show ?case
  proof (cases r)
    case (Inl e)
    then show ?thesis using g by auto
  next
    case (Inr ts)
    show ?thesis
    proof (cases "tso \<le> version_of ts \<or> int timeout \<le> rt_now pd w1 - start")
      case True
      then show ?thesis using g Inr by auto
    next
      case False
      have "int timeout < rt_now pd ?w2 - start + int fuel" "0 < fuel" using Suc.prems now False by linarith+
      from Suc.IH [OF this] show ?thesis using False g Inr by simp
    qed
  qed
qed


lemma clock_out_runs: "clock_runs (pd_rpc_client False (clock_out ts))"
  by (simp add: clock_runs_def pd_rpc_client_def clock_out_def demo_out_def COMMIT_WAIT_UNTIL_TSO_POLL_INTERVAL_def)


subsection \<open>The order of the phases\<close>

lemma with_options_sel [simp]:
  "cm_primary_key (with_options f c) = cm_primary_key c" "cm_commit_keys (with_options f c) = cm_commit_keys c"
  "cm_prewrite_mutations (with_options f c) = cm_prewrite_mutations c"
  "cm_start_version (with_options f c) = cm_start_version c" "cm_keyspace (with_options f c) = cm_keyspace c"
  "cm_options (with_options f c) = f (cm_options c)" "cm_undetermined (with_options f c) = cm_undetermined c"
  by (simp_all add: with_options_def)

text \<open>What the committer never changes.\<close>

definition same_txn :: "committer \<Rightarrow> committer \<Rightarrow> bool" where
  "same_txn c c' \<longleftrightarrow> cm_primary_key c' = cm_primary_key c \<and> cm_commit_keys c' = cm_commit_keys c
     \<and> cm_start_version c' = cm_start_version c \<and> cm_keyspace c' = cm_keyspace c
     \<and> to_commit_wait_until_tso (cm_options c') = to_commit_wait_until_tso (cm_options c)
     \<and> to_retry_options (cm_options c') = to_retry_options (cm_options c)"

lemma after_prewrite_same: "after_prewrite rs c = Some (c', r) \<Longrightarrow> same_txn c c'"
  by (auto simp: after_prewrite_def Let_def same_txn_def split: if_splits)

lemma prewrite_same:
  assumes "committer_prewrite display pd kv fuel c w = Some (w', c', r)"
  shows "same_txn c c'" "\<exists>p. cm_primary_key c = Some p"
  using assms after_prewrite_same
  by (auto simp: committer_prewrite_def same_txn_def split: option.splits sum.splits)

lemma fetch_loop_bound: "fetch_loop pd tso timeout start fuel w = Some (w', Inr ts) \<Longrightarrow> tso \<le> version_of ts"
  by (induction fuel arbitrary: w) (auto split: prod.splits sum.splits if_splits)

lemma fetch_commit_timestamp_bound:
  "fetch_commit_timestamp pd fuel options w = Some (w', Inr ts) \<Longrightarrow> commit_wait_until_tso options \<le> version_of ts"
  by (auto simp: fetch_commit_timestamp_def commit_wait_until_tso_def intro: fetch_loop_bound split: option.splits)

definition primary_request :: "committer \<Rightarrow> timestamp \<Rightarrow> commit_request" where
  "primary_request c ts = new_commit_request_with_primary_key (case cm_primary_key c of None \<Rightarrow> [] | Some k \<Rightarrow> [k])
     (cm_primary_key c) (version_of (cm_start_version c)) (version_of ts)"

lemma commit_primary_ok:
  assumes "commit_primary display pd kv fuel c w = Some (w', c', Inr ts)"
  shows "c' = c \<and> commit_wait_until_tso (cm_options c) \<le> version_of ts
    \<and> (\<exists>w1 rs. send_commit display pd kv fuel (to_retry_options (cm_options c)) (primary_request c ts) w1 = Some (w', Inr rs))"
proof -
  obtain w1 where f: "fetch_commit_timestamp pd fuel (cm_options c) w = Some (w1, Inr ts)"
    and s: "c' = c" "\<exists>rs. send_commit display pd kv fuel (to_retry_options (cm_options c)) (primary_request c ts) w1 = Some (w', Inr rs)"
    using assms unfolding primary_request_def commit_primary_def by (auto split: option.splits sum.splits)
  then show ?thesis using fetch_commit_timestamp_bound [OF f] by auto
qed

lemma commit_primary_checked_ok:
  "commit_primary_checked display pd kv fuel c w = Some (w', c', Inr ts) \<longleftrightarrow> commit_primary display pd kv fuel c w = Some (w', c', Inr ts)"
proof (cases "commit_primary display pd kv fuel c w")
  case (Some x)
  obtain w1 c1 r where "x = (w1, c1, r)" by (cases x)
  then show ?thesis using Some by (cases r) (auto simp: commit_primary_checked_def)
qed (simp add: commit_primary_checked_def)


text \<open>A commit on the cluster of the examples.\<close>

lemma plain_send_commit:
  assumes "cmq_keys q \<noteq> []" "sum_list (map length (sort (cmq_keys q))) < TXN_COMMIT_BATCH_SIZE"
    and "\<And>ctx. kv_commit kv w () ctx (q\<lparr>cmq_keys := sort (cmq_keys q)\<rparr>) = (w', Inr resp)"
    and "cms_error resp = None" "cms_region_error resp = None"
  shows "send_commit display (plain_client ts) kv (Suc fuel) ro q w = Some (w', Inr [Inr resp])"
proof -
  have sh: "commit_shards (pd_region_for_key (plain_client ts)) w q = (w, [Inr (sort (cmq_keys q), one_region)])"
    by (rule plain_commit_shards) fact+
  have kv: "kv_commit kv w () ctx (commit_apply_shard (sort (cmq_keys q)) q) = (w', Inr resp)" for ctx
    using assms(3) by (simp add: commit_apply_shard_def)
  have ok: "commit_take_locks resp = ([], resp)" "(opt_key_errors \<circ> cms_error) resp = None"
    using assms(4,5) by (simp_all add: commit_take_locks_def take_locks_opt_def opt_key_errors_def)
  obtain p where "resolving_plan (plain_client ts) kv (Suc fuel) ro commit_take_locks commit_reroute
      (commit_ops (plain_client ts) kv) False q w = Some (w', Inr [(p, Inr resp)])"
    using plain_run [where shards = "commit_shards (pd_region_for_key (plain_client ts))" and kv = "kv_commit kv" and req_store = "\<lambda>_ q. q" and apply_shard = commit_apply_shard
        and take_fn = commit_take_locks and region_error = cms_region_error and key_errors = "opt_key_errors \<circ> cms_error",
        OF sh kv ok assms(5)] unfolding resolving_plan_def commit_ops_def by blast
  then show ?thesis using assms(4,5)
    by (simp add: send_commit_def extract_error_def list_region_errors_def opt_key_errors_def oks_def List.map_filter_def)
qed

lemma plain_prewrite:
  assumes "cm_primary_key c = Some primary" "cm_prewrite_mutations c \<noteq> []"
    and "sum_list (map mutation_size (sort_key pm_key (cm_prewrite_mutations c))) < TXN_COMMIT_BATCH_SIZE"
    and "\<And>ctx q. kv_prewrite kv w () ctx q = (w', Inr resp)"
    and "pws_errors resp = []" "pws_region_error resp = None"
  shows "committer_prewrite display (plain_client ts) kv (Suc fuel) c w = map_option (\<lambda>(c, r). (w', c, r)) (after_prewrite [resp] c)"
proof -
  let ?q = "prewrite_request_for c primary (elapsed_ms (plain_client ts) w c)"
  have sh: "prewrite_shards (pd_region_for_key (plain_client ts)) w ?q = (w, [Inr (\<lparr>psh_mutations = sort_key pm_key (pw_mutations ?q),
      psh_txn_size = of_nat (length (pw_mutations ?q))\<rparr>, one_region)])"
    by (rule plain_prewrite_shards) (simp_all add: prewrite_request_sel assms)
  have ok: "prewrite_take_locks resp = ([], resp)" "prewrite_key_errors resp = None"
    using assms(5) by (simp_all add: prewrite_take_locks_def prewrite_key_errors_def extract_errors_def List.map_filter_def)
  obtain p where "resolving_plan (plain_client ts) kv (Suc fuel) (to_retry_options (cm_options c)) prewrite_take_locks
      prewrite_reroute (prewrite_ops (plain_client ts) kv) False ?q w = Some (w', Inr [(p, Inr resp)])"
    using plain_run [where shards = "prewrite_shards (pd_region_for_key (plain_client ts))" and kv = "kv_prewrite kv" and req_store = prewrite_apply_store and apply_shard = prewrite_apply_shard
        and take_fn = prewrite_take_locks and region_error = pws_region_error and key_errors = prewrite_key_errors,
        OF sh assms(4) ok assms(6)] unfolding resolving_plan_def prewrite_ops_def by blast
  then show ?thesis using assms
    by (simp add: committer_prewrite_def prewrite_results_def collect_error_def extract_error_def list_region_errors_def
        oks_def List.map_filter_def prewrite_key_errors_def extract_errors_def)
qed

lemma demo_commit:
  "committer_commit display (plain_client ts) (demo_kv 0 0) 1 (demo_committer new_optimistic) w =
     Some (w, Inr (Some ts), Some (demo_committer new_optimistic, ts))"
proof -
  have p: "committer_prewrite display (plain_client ts) (demo_kv 0 0) (Suc 0) (demo_committer new_optimistic) w =
      Some (w, demo_committer new_optimistic, Inr None)"
    by (subst plain_prewrite [where w' = w and primary = "[1]"
        and resp = "\<lparr>pws_region_error = None, pws_errors = [], pws_min_commit_ts = 0, pws_one_pc_commit_ts = 0\<rparr>"])
      (simp_all add: demo_committer_def new_committer_def demo_kv_def mutation_size_def demo_mutation_def TXN_COMMIT_BATCH_SIZE_def
        after_prewrite_def Let_def max_of_def new_optimistic_def with_options_def try_from_version_def)
  have "commit_primary display (plain_client ts) (demo_kv 0 0) (Suc 0) (demo_committer new_optimistic) w =
      Some (w, demo_committer new_optimistic, Inr ts)"
    unfolding commit_primary_def fetch_commit_timestamp_def
    apply (simp add: demo_committer_def new_committer_def new_optimistic_def)
    by (subst plain_send_commit [where w' = w
        and resp = "\<lparr>cms_region_error = None, cms_error = None, cms_commit_version = version_of ts\<rparr>"])
      (simp_all add: fetch_commit_timestamp_def demo_committer_def new_committer_def new_optimistic_def demo_kv_def
         new_commit_request_with_primary_key_def new_commit_request_def default_commit_request_def TXN_COMMIT_BATCH_SIZE_def)
  then have "commit_primary_checked display (plain_client ts) (demo_kv 0 0) (Suc 0) (demo_committer new_optimistic) w =
      Some (w, demo_committer new_optimistic, Inr ts)"
    by (simp add: commit_primary_checked_def)
  then show ?thesis using p by (simp add: committer_commit_def demo_committer_def new_committer_def new_optimistic_def)
qed


subsection \<open>What a rollback reaches\<close>

text \<open>The answers \<open>rs\<close>, each with the plan it belongs to: together the plans hold the items \<open>xs\<close>, and every
  answer is the response, free of errors, that a store gave to the request of its plan.\<close>

definition all_answered ::
  "('u \<Rightarrow> 'c \<Rightarrow> rpc_context \<Rightarrow> 'req \<Rightarrow> 'u \<times> 'resp res) \<Rightarrow> ('req \<Rightarrow> 'k list) \<Rightarrow> ('resp \<Rightarrow> bool)
     \<Rightarrow> 'k list \<Rightarrow> (('req, 'c) dispatch_plan \<times> 'resp) list \<Rightarrow> bool" where
  "all_answered kv items ok xs rs \<longleftrightarrow> mset (concat (map (items \<circ> di_request \<circ> fst) rs)) = mset xs
     \<and> list_all (\<lambda>(p, resp). ok resp \<and> (\<exists>u client u'. kv u client (di_context p) (di_request p) = (u', Inr resp))) rs"

lemma all_answered_Nil: "all_answered kv items ok [] []"
  by (simp add: all_answered_def)

lemma rpc_answer: "rpc kv w cl ctx q = (w', Inr resp) \<Longrightarrow> \<exists>u u'. kv u cl ctx q = (u', Inr resp)"
  by (auto simp: rpc_def split: prod.splits)

lemma all_answeredI:
  assumes "covered (\<lambda>p. items (di_request p)) rs = mset xs"
    and "list_all (answered (resolve_lock_ops pd resolver take_fn reroute b fuel
           (dispatch_ops (rpc kv) shards apply_shard req_store key_errors region_error))) rs"
    and "map snd rs = map Inr resps" "region_error reroute \<noteq> None"
    and "\<And>r0 r. take_fn r0 = ([], r) \<Longrightarrow> key_errors r = None \<Longrightarrow> r0 = r"
    and "\<And>r. key_errors r = None \<Longrightarrow> region_error r = None \<Longrightarrow> ok r"
  shows "all_answered kv items ok xs (zip (map fst rs) resps)"
proof -
  have rs: "rs = map (\<lambda>(p, resp). (p, Inr resp)) (zip (map fst rs) resps)"
    using assms(3) by (induction rs arbitrary: resps) (auto simp: Cons_eq_map_conv)
  have "ok resp \<and> (\<exists>u client u'. kv u client (di_context p) (di_request p) = (u', Inr resp))"
    if "(p, resp) \<in> set (zip (map fst rs) resps)" for p resp
  proof -
    have "(p, Inr resp) \<in> set rs" using that by (subst rs) force
    from resolving_answered [OF list_all_iff [THEN iffD1, OF assms(2), rule_format, OF this] assms(4)]
    obtain client w w' resp0 where "key_errors resp = None" "region_error resp = None"
      and k: "rpc kv w client (di_context p) (di_request p) = (w', Inr resp0)" "take_fn resp0 = ([], resp)" by blast
    then show ?thesis using assms(5) [OF k(2)] assms(6) rpc_answer [OF k(1)] by blast
  qed
  moreover have "concat (map (items \<circ> di_request \<circ> fst) (zip (map fst rs) resps)) = concat (map ((\<lambda>p. items (di_request p)) \<circ> fst) rs)"
    by (subst (2) rs) (simp add: comp_def case_prod_unfold)
  ultimately show ?thesis using assms(1) by (auto simp: all_answered_def covered_def list_all_iff)
qed

lemma resolving_plan_ok:
  assumes "map_option (map_prod id (\<lambda>r. ok_bind r (extract_error display key_errors region_error \<circ> map snd)))
       (resolving_plan pd kv fuel ro take_fn reroute ops False q w) = Some (w', Inr xs)"
  obtains s rs resps where
    "retry_multi_region pd (resolve_lock_ops pd (resolve_locks pd kv fuel) take_fn reroute (ro_lock_backoff ro) fuel ops) False fuel
       (ro_region_backoff ro) \<lparr>ps_world = w, ps_routing = fresh_routing pd w\<rparr> (new_dispatch q) = Some (s, Inr rs)"
    "map snd rs = map Inr resps"
proof -
  obtain rs where p: "resolving_plan pd kv fuel ro take_fn reroute ops False q w = Some (w', Inr rs)"
    and "extract_error display key_errors region_error (map snd rs) = Inr xs"
  proof (cases "resolving_plan pd kv fuel ro take_fn reroute ops False q w")
    case (Some x)
    then show ?thesis using assms that by (cases x; cases "snd x") (auto simp: ok_bind_def)
  qed (use assms in simp)
  from extract_error_ok [OF this(2)] run_plan_retry [OF p [unfolded resolving_plan_def]] show thesis using that by blast
qed

lemma truncated_ok:
  "Option.bind x (\<lambda>(w, r). map_option (\<lambda>r. (w, map_sum id (\<lambda>_. ()) r)) (truncate_result ks r)) = Some (w', Inr ())
    \<Longrightarrow> \<exists>xs. x = Some (w', Inr xs)"
proof (cases x)
  case (Some p)
  assume "Option.bind x (\<lambda>(w, r). map_option (\<lambda>r. (w, map_sum id (\<lambda>_. ()) r)) (truncate_result ks r)) = Some (w', Inr ())"
  then show ?thesis using Some by (cases p; cases "snd p") (auto simp: truncate_result_def)
qed simp

definition rolled_back :: "('u, 'c) kv_ops \<Rightarrow> committer \<Rightarrow> bool" where
  "rolled_back kv c \<longleftrightarrow> (let start = version_of (cm_start_version c) in
    case to_kind (cm_options c) of
      TxnOptimistic \<Rightarrow> \<exists>rs. all_answered (kv_batch_rollback kv) (tagged rbq_start_version rbq_keys)
        (\<lambda>r. rbs_error r = None \<and> rbs_region_error r = None) (map (Pair start) (cm_commit_keys c)) rs
    | TxnPessimistic for_update_ts \<Rightarrow> \<exists>rs. all_answered (kv_pessimistic_rollback kv)
        (tagged (\<lambda>q. (prq_start_version q, prq_for_update_ts q)) prq_keys)
        (\<lambda>r. prs_errors r = [] \<and> prs_region_error r = None) (map (Pair (start, version_of for_update_ts)) (cm_commit_keys c)) rs)"

lemma send_batch_rollback_reaches:
  assumes "client_inv ec w"
    and "send_batch_rollback display (pd_rpc_client ec out) (lift_kv kv) fuel ro (new_batch_rollback_request ks start) w = Some (w', Inr xs)"
  shows "\<exists>rs. all_answered (kv_batch_rollback kv) (tagged rbq_start_version rbq_keys)
    (\<lambda>r. rbs_error r = None \<and> rbs_region_error r = None) (map (Pair start) ks) rs"
proof -
  from resolving_plan_ok [OF assms(2) [unfolded send_batch_rollback_def]] obtain s rs resps where
    rs: "retry_multi_region (pd_rpc_client ec out) (resolve_lock_ops (pd_rpc_client ec out)
       (resolve_locks (pd_rpc_client ec out) (lift_kv kv) fuel) batch_rollback_take_locks batch_rollback_reroute (ro_lock_backoff ro) fuel
       (batch_rollback_ops (pd_rpc_client ec out) (lift_kv kv))) False fuel
       (ro_region_backoff ro) \<lparr>ps_world = w, ps_routing = fresh_routing (pd_rpc_client ec out) w\<rparr>
       (new_dispatch (new_batch_rollback_request ks start)) = Some (s, Inr rs)"
    and r: "map snd rs = map Inr resps" .
  have kv: "kv_batch_rollback (lift_kv kv) = rpc (kv_batch_rollback kv)" by (simp add: lift_kv_def)
  note c = rpc_kv.batch_rollback_rq.lossless_resolving.retry_multi_region_complete
    [OF _ rs [unfolded batch_rollback_ops_def], simplified, OF assms(1)]
  have "all_answered (kv_batch_rollback kv) (tagged rbq_start_version rbq_keys)
    (\<lambda>r. rbs_error r = None \<and> rbs_region_error r = None) (map (Pair start) ks) (zip (map fst rs) resps)"
  proof (rule all_answeredI [OF _ c(3) [unfolded kv] r])
    show "covered (\<lambda>p. tagged rbq_start_version rbq_keys (di_request p)) rs = mset (map (Pair start) ks)"
      using c(2) by (simp add: tagged_def new_dispatch_def new_batch_rollback_request_def default_batch_rollback_request_def)
  qed (auto simp: batch_rollback_reroute_def batch_rollback_take_locks_def take_locks_opt_def opt_key_errors_def
      split: option.splits prod.splits)
  then show ?thesis by blast
qed

lemma send_pessimistic_rollback_reaches:
  assumes "client_inv ec w"
    and "send_pessimistic_rollback display (pd_rpc_client ec out) (lift_kv kv) fuel ro
      (new_pessimistic_rollback_request ks start fts) w = Some (w', Inr xs)"
  shows "\<exists>rs. all_answered (kv_pessimistic_rollback kv) (tagged (\<lambda>q. (prq_start_version q, prq_for_update_ts q)) prq_keys)
    (\<lambda>r. prs_errors r = [] \<and> prs_region_error r = None) (map (Pair (start, fts)) ks) rs"
proof -
  from resolving_plan_ok [OF assms(2) [unfolded send_pessimistic_rollback_def]] obtain s rs resps where
    rs: "retry_multi_region (pd_rpc_client ec out) (resolve_lock_ops (pd_rpc_client ec out)
       (resolve_locks (pd_rpc_client ec out) (lift_kv kv) fuel) pessimistic_rollback_take_locks pessimistic_rollback_reroute
       (ro_lock_backoff ro) fuel (pessimistic_rollback_ops (pd_rpc_client ec out) (lift_kv kv))) False fuel
       (ro_region_backoff ro) \<lparr>ps_world = w, ps_routing = fresh_routing (pd_rpc_client ec out) w\<rparr>
       (new_dispatch (new_pessimistic_rollback_request ks start fts)) = Some (s, Inr rs)"
    and r: "map snd rs = map Inr resps" .
  have kv: "kv_pessimistic_rollback (lift_kv kv) = rpc (kv_pessimistic_rollback kv)" by (simp add: lift_kv_def)
  note c = rpc_kv.pessimistic_rollback_rq.lossless_resolving.retry_multi_region_complete
    [OF _ rs [unfolded pessimistic_rollback_ops_def], simplified, OF assms(1)]
  have e: "pessimistic_rollback_key_errors r = None \<longleftrightarrow> prs_errors r = []" for r
    by (simp add: pessimistic_rollback_key_errors_def extract_errors_def List.map_filter_def)
  have "all_answered (kv_pessimistic_rollback kv) (tagged (\<lambda>q. (prq_start_version q, prq_for_update_ts q)) prq_keys)
    (\<lambda>r. prs_errors r = [] \<and> prs_region_error r = None) (map (Pair (start, fts)) ks) (zip (map fst rs) resps)"
  proof (rule all_answeredI [OF _ c(3) [unfolded kv] r])
    show "covered (\<lambda>p. tagged (\<lambda>q. (prq_start_version q, prq_for_update_ts q)) prq_keys (di_request p)) rs = mset (map (Pair (start, fts)) ks)"
      using c(2) by (simp add: tagged_def new_dispatch_def new_pessimistic_rollback_request_def default_pessimistic_rollback_request_def)
  qed (auto simp: e pessimistic_rollback_reroute_def pessimistic_rollback_take_locks_def Let_def
      split: option.splits prod.splits)
  then show ?thesis by blast
qed

text \<open>C6: A rollback that reports success has reached every key: through the client of production, whatever the
  regions do meanwhile, each key to roll back was in exactly one request, with the timestamps of the
  transaction, that a store answered without an error.\<close>

theorem rollback_reaches_every_key:
  assumes "client_inv ec w"
    and "committer_rollback display (pd_rpc_client ec out) (lift_kv kv) fuel c w = Some (w', Inr ())"
  shows "rolled_back kv c"
proof (cases "cm_commit_keys c = []")
  case True
  then show ?thesis by (cases "to_kind (cm_options c)") (auto simp: rolled_back_def Let_def intro!: exI [of _ "[]"] all_answered_Nil)
next
  case False
  show ?thesis
  proof (cases "to_kind (cm_options c)")
    case TxnOptimistic
    with False assms(2) truncated_ok obtain w1 xs where "send_batch_rollback display (pd_rpc_client ec out) (lift_kv kv) fuel
        (to_retry_options (cm_options c)) (new_batch_rollback_request (cm_commit_keys c) (version_of (cm_start_version c))) w = Some (w1, Inr xs)"
      by (fastforce simp: committer_rollback_def Let_def)
    from send_batch_rollback_reaches [OF assms(1) this] show ?thesis by (simp add: rolled_back_def Let_def TxnOptimistic)
  next
    case (TxnPessimistic ts)
    with False assms(2) truncated_ok obtain w1 xs where "send_pessimistic_rollback display (pd_rpc_client ec out) (lift_kv kv) fuel
        (to_retry_options (cm_options c)) (new_pessimistic_rollback_request (cm_commit_keys c) (version_of (cm_start_version c)) (version_of ts)) w
        = Some (w1, Inr xs)"
      by (fastforce simp: committer_rollback_def Let_def)
    from send_pessimistic_rollback_reaches [OF assms(1) this] show ?thesis by (simp add: rolled_back_def Let_def TxnPessimistic)
  qed
qed

definition demo_rollback :: committer where
  "demo_rollback = new_committer (Some [1]) [] [[1], [2]] \<lparr>physical = 1, logical = 0, suffix_bits = 0\<rparr> new_optimistic Disable 2 0"

lemma demo_rollback_runs:
  "map_option snd (committer_rollback (\<lambda>_. []) (pd_rpc_client False (demo_out \<lparr>physical = 1, logical = 1, suffix_bits = 0\<rparr>))
     (lift_kv (demo_kv 0 0)) 2 demo_rollback (demo_world ())) = Some (Inr ())"
  by code_simp

theorem rollback_reaches_every_key_witness: "rolled_back (demo_kv 0 0 :: (unit, unit) kv_ops) demo_rollback"
proof -
  from demo_rollback_runs obtain w' where "committer_rollback (\<lambda>_. []) (pd_rpc_client False (demo_out \<lparr>physical = 1, logical = 1, suffix_bits = 0\<rparr>))
      (lift_kv (demo_kv 0 0)) 2 demo_rollback (demo_world ()) = Some (w', Inr ())" by auto
  from rollback_reaches_every_key [OF demo_world_inv this] show ?thesis .
qed

end
