(* ===== verification/Commit_Gaps.thy ===== *)
theory Commit_Gaps
  imports Committer_Props
begin

text \<open>
  Where a commit reports more than the stores did, or less: lookups that fail, async commits that a region
  declined, the bound on the commit timestamp, and answers that are lost on the way.
\<close>

subsection \<open>Async commit\<close>

lemma fold_max_zero: "fold max xs (m :: u64) = 0 \<longleftrightarrow> m = 0 \<and> list_all (\<lambda>x. x = 0) xs"
proof (induction xs arbitrary: m)
  case (Cons x xs)
  have "max x m = 0 \<longleftrightarrow> x = 0 \<and> m = 0" by (auto simp: max_def)
  then show ?case using Cons by auto
qed simp

text \<open>A region declines an async commit by answering the prewrite with the timestamp 0. The committer falls
  back to two phases only when all regions decline: one that does not is enough to go on with the async
  commit.\<close>

theorem async_fallback_needs_all:
  assumes "\<not> to_try_one_pc (cm_options c)" "list_all (\<lambda>r. pws_one_pc_commit_ts r = 0) rs"
  shows "\<exists>c' min_ts. after_prewrite rs c = Some (c', Inr min_ts) \<and> to_async_commit (cm_options c') = to_async_commit (cm_options c)
    \<and> (min_ts = None \<longleftrightarrow> list_all (\<lambda>r. pws_min_commit_ts r = 0) rs)"
proof -
  let ?m = "Option.bind (max_of (map pws_min_commit_ts rs)) try_from_version"
  have "\<not> list_ex (\<lambda>r. pws_one_pc_commit_ts r \<noteq> 0) rs" using assms(2) by (auto simp: list_ex_iff list_all_iff)
  then have "after_prewrite rs c = Some (with_options (\<lambda>t. t\<lparr>to_try_one_pc := False\<rparr>) c, Inr ?m)"
    using assms(1) by (simp add: after_prewrite_def Let_def)
  moreover have "?m = None \<longleftrightarrow> list_all (\<lambda>r. pws_min_commit_ts r = 0) rs"
    using fold_max_zero [of "map pws_min_commit_ts rs" 0] by (simp add: max_of_def try_from_version_def list.pred_map comp_def)
  ultimately show ?thesis by simp
qed

definition prewrite_answer :: "u64 \<Rightarrow> prewrite_response" where
  "prewrite_answer ts = \<lparr>pws_region_error = None, pws_errors = [], pws_min_commit_ts = ts, pws_one_pc_commit_ts = 0\<rparr>"

theorem async_fallback_needs_all_witness:
  "\<exists>c' min_ts. after_prewrite [prewrite_answer 0, prewrite_answer 7] (demo_committer (use_async_commit new_optimistic)) = Some (c', Inr min_ts)
    \<and> to_async_commit (cm_options c') \<and> min_ts \<noteq> None"
  using async_fallback_needs_all [of "demo_committer (use_async_commit new_optimistic)" "[prewrite_answer 0, prewrite_answer 7]"]
  by (auto simp: prewrite_answer_def demo_committer_def new_committer_def use_async_commit_def new_optimistic_def)

text \<open>The bound set with \<open>set_commit_wait_until_tso\<close> does not hold for an async commit: the commit succeeds at
  the timestamp the stores answered, below the bound.\<close>

theorem async_commit_ignores_bound:
  "let c = demo_committer (set_commit_wait_until_tso 1000 (use_async_commit new_optimistic)) in
   \<exists>task. committer_commit display (plain_client ts) (demo_kv 9 0) 1 c w = Some (w, Inr (Some (from_version 9)), task)
     \<and> version_of (from_version 9) < commit_wait_until_tso (cm_options c)"
proof -
  let ?c = "demo_committer (set_commit_wait_until_tso 1000 (use_async_commit new_optimistic))"
  have "committer_prewrite display (plain_client ts) (demo_kv 9 0) (Suc 0) ?c w = Some (w, ?c, Inr (Some (from_version 9)))"
    by (subst plain_prewrite [where w' = w and primary = "[1]"
        and resp = "\<lparr>pws_region_error = None, pws_errors = [], pws_min_commit_ts = 9, pws_one_pc_commit_ts = 0\<rparr>"])
      (simp_all add: demo_committer_def new_committer_def demo_kv_def mutation_size_def demo_mutation_def TXN_COMMIT_BATCH_SIZE_def
        after_prewrite_def Let_def max_of_def new_optimistic_def set_commit_wait_until_tso_def use_async_commit_def with_options_def
        try_from_version_def)
  then show ?thesis
    by (simp add: committer_commit_def Let_def demo_committer_def new_committer_def new_optimistic_def set_commit_wait_until_tso_def
        use_async_commit_def commit_wait_until_tso_def version_from_version)
qed

subsection \<open>Lookups that fail\<close>

text \<open>The client of the examples while no region can be looked up.\<close>

definition lost_client :: "error \<Rightarrow> timestamp \<Rightarrow> ('w, unit) pd_client" where
  "lost_client e ts = (plain_client ts)\<lparr>pd_region_for_key := \<lambda>w k. (w, Inl e)\<rparr>"

lemma lost_client_sel [simp]:
  "pd_region_for_key (lost_client e ts) w k = (w, Inl e)" "pd_get_timestamp (lost_client e ts) w = (w, Inr ts)"
  "pd_set_store_health (lost_client e ts) h w = w"
  by (simp_all add: lost_client_def plain_client_def)

lemma in_order_Nil [simp]: "in_order is [] = []"
  by (simp add: in_order_def sort_key_Nil)

lemma lost_plan:
  assumes "shards w q = (w, [])"
  shows "resolving_plan (lost_client e ts) kv (Suc fuel) ro take_fn reroute
    (dispatch_ops f shards apply_shard req_store key_errors region_error) preserve q w = Some (w, Inr [])"
  using assms by (simp add: resolving_plan_def run_plan_def retry_multi_region_def resolve_lock_ops_def dispatch_ops_def new_dispatch_def)

lemma lost_send_commit: "send_commit display (lost_client e ts) kv (Suc fuel) ro q w = Some (w, Inr [])"
  unfolding send_commit_def commit_ops_def
  by (subst lost_plan) (simp_all add: batched_shards_failed ok_bind_def extract_error_def list_region_errors_def oks_def List.map_filter_def)

text \<open>C35: While no region can be looked up, a commit of two phases and the commit of its secondary keys succeed,
  whatever the stores would do: no request is sent to any of them, and no error is reported.\<close>

theorem commit_without_requests:
  assumes "cm_primary_key c = Some primary" "\<not> to_async_commit (cm_options c)" "\<not> to_try_one_pc (cm_options c)"
    and "to_commit_wait_until_tso (cm_options c) = None"
  shows "committer_commit display (lost_client e ts) kv (Suc fuel) c w = Some (w, Inr (Some ts), Some (c, ts))
    \<and> commit_secondary display (lost_client e ts) kv (Suc fuel) c ts w = Some (w, Inr ())"
proof -
  have "prewrite_shards (pd_region_for_key (lost_client e ts)) w q = (w, [])" for q
    by (rule batched_shards_failed) simp
  then have "resolving_plan (lost_client e ts) kv (Suc fuel) ro prewrite_take_locks prewrite_reroute
      (prewrite_ops (lost_client e ts) kv) False q w = Some (w, Inr [])" for q ro
    unfolding prewrite_ops_def by (rule lost_plan)
  moreover have "with_options (\<lambda>t. t\<lparr>to_try_one_pc := False\<rparr>) c = c" using assms(3) by (simp add: with_options_def)
  ultimately have p: "committer_prewrite display (lost_client e ts) kv (Suc fuel) c w = Some (w, c, Inr None)"
    using assms(1,3) by (simp add: committer_prewrite_def prewrite_results_def ok_bind_def collect_error_def extract_error_def
        list_region_errors_def oks_def List.map_filter_def after_prewrite_def Let_def max_of_def)
  have "commit_primary_checked display (lost_client e ts) kv (Suc fuel) c w = Some (w, c, Inr ts)"
    using assms by (simp add: commit_primary_checked_def commit_primary_def fetch_commit_timestamp_def lost_send_commit)
  then show ?thesis using p assms
    by (simp add: committer_commit_def commit_secondary_def secondary_request_def lost_send_commit truncate_result_def Let_def)
qed

text \<open>A store that commits the keys it is asked to, at the timestamp of the request, and whose answer never
  arrives: the call ends with a gRPC status, code 4 for a deadline that passed.\<close>

definition losing_kv :: "(u64, unit) kv_ops" where
  "losing_kv = (demo_kv 0 0)\<lparr>kv_commit := \<lambda>committed client ctx q. (cmq_commit_version q, Inl (GrpcAPI 4))\<rparr>"

theorem commit_without_requests_witness:
  "committer_commit (\<lambda>_. []) (lost_client NoCurrentRegions (from_version 9)) losing_kv 1 (demo_committer new_optimistic) 0
    = Some (0, Inr (Some (from_version 9)), Some (demo_committer new_optimistic, from_version 9))"
  using commit_without_requests [of "demo_committer new_optimistic" "[1]" "\<lambda>_. []" NoCurrentRegions "from_version 9" losing_kv 0 0]
  by (simp add: demo_committer_def new_committer_def new_optimistic_def)

subsection \<open>Answers that are lost\<close>

definition impatient :: transaction_options where
  "impatient = new_optimistic\<lparr>to_retry_options := no_retry_options\<rparr>"

lemma impatient_sel:
  "cm_options (demo_committer impatient) = impatient" "cm_primary_key (demo_committer impatient) = Some [1]"
  "cm_undetermined (demo_committer impatient) = False" "to_commit_wait_until_tso impatient = None"
  "to_retry_options impatient = no_retry_options" "\<not> to_try_one_pc impatient" "\<not> to_async_commit impatient"
  by (simp_all add: demo_committer_def new_committer_def impatient_def new_optimistic_def)

lemma plain_losing_commit:
  assumes "cmq_keys q \<noteq> []" "sum_list (map length (sort (cmq_keys q))) < TXN_COMMIT_BATCH_SIZE"
  shows "send_commit display (plain_client ts) losing_kv (Suc fuel) no_retry_options q w = Some (cmq_commit_version q, Inl (GrpcAPI 4))"
proof -
  have sh: "commit_shards (pd_region_for_key (plain_client ts)) w q = (w, [Inr (sort (cmq_keys q), one_region)])"
    by (rule plain_commit_shards) fact+
  have ro: "ro_region_backoff no_retry_options = no_backoff" by (simp add: no_retry_options_def)
  show ?thesis
    unfolding send_commit_def commit_ops_def resolving_plan_def ro
    by (subst plain_run_error [where shards = "commit_shards (pd_region_for_key (plain_client ts))" and kv = "kv_commit losing_kv"
        and req_store = "\<lambda>_ q. q" and apply_shard = commit_apply_shard and w' = "cmq_commit_version q" and e = "GrpcAPI 4" and sh = "sort (cmq_keys q)" and plan = "new_dispatch q"])
      (simp_all add: sh new_dispatch_def losing_kv_def demo_kv_def commit_apply_shard_def no_retry_options_def ok_bind_def)
qed


end
