(* ===== verification/Transaction_Props.thy ===== *)
theory Transaction_Props
  imports Transaction Pipelined_Props Commit_Gaps
begin

text \<open>
  What a transaction guarantees: once it is committed or rolled back it sends nothing more, and what a commit hands
  to the committer is what the buffer holds.
\<close>

subsection \<open>Operations that are not allowed\<close>

lemma txn_bind_simps [simp]:
  "txn_bind None f = None" "txn_bind (Some (w, t, Inl e)) f = Some (w, t, Inl e)" "txn_bind (Some (w, t, Inr x)) f = f w t x"
  by (simp_all add: txn_bind_def)

lemma txn_bind_Some:
  assumes "txn_bind m f = Some (w', t', r)"
  obtains (stops) e where "m = Some (w', t', Inl e)" "r = Inl e"
    | (goes) w t x where "m = Some (w, t, Inr x)" "f w t x = Some (w', t', r)"
proof (cases m)
  case (Some p)
  obtain w t y where "p = (w, t, y)" by (cases p)
  then show ?thesis using assms Some that by (cases y) auto
qed (use assms in simp)

definition finished :: "transaction \<Rightarrow> bool" where
  "finished t \<longleftrightarrow> tx_status t \<in> {TxCommitted, TxRolledback, TxDropped}"

lemma allowed_finished: "finished t \<Longrightarrow> allowed t w m = Some (w, t, Inl OperationAfterCommitError)"
  by (auto simp: finished_def allowed_def check_allow_operation_def)

lemma finished_refuses:
  assumes "finished t"
  shows "txn_get env k t w = Some (w, t, Inl OperationAfterCommitError)"
    "txn_get_with_options env k need t w = Some (w, t, Inl OperationAfterCommitError)"
    "txn_batch_get env ks t w = Some (w, t, Inl OperationAfterCommitError)"
    "txn_batch_get_with_options env ks need t w = Some (w, t, Inl OperationAfterCommitError)"
    "txn_scan env rng limit key_only rev_ord t w = Some (w, t, Inl OperationAfterCommitError)"
    "txn_lock_keys env ks lo t w = Some (w, t, Inl OperationAfterCommitError)"
    "txn_get_for_update env k lo t w = Some (w, t, Inl OperationAfterCommitError)"
    "txn_batch_get_for_update env ks lo t w = Some (w, t, Inl OperationAfterCommitError)"
    "txn_put env k v t w = Some (w, t, Inl OperationAfterCommitError)"
    "txn_insert env k v t w = Some (w, t, Inl OperationAfterCommitError)"
    "txn_delete env k t w = Some (w, t, Inl OperationAfterCommitError)"
    "txn_batch_mutate env ms t w = Some (w, t, Inl OperationAfterCommitError)"
    "send_heart_beat env t w = Some (w, t, Inl OperationAfterCommitError)"
    "txn_commit env t w = Some (w, t, Inl OperationAfterCommitError)"
    "txn_rollback env part t w = Some (w, t, Inl OperationAfterCommitError)"
  unfolding txn_get_def txn_get_with_options_def txn_batch_get_def txn_batch_get_with_options_def txn_scan_def txn_lock_keys_def
    txn_get_for_update_def txn_batch_get_for_update_def txn_put_def txn_insert_def txn_delete_def txn_batch_mutate_def
    send_heart_beat_def txn_commit_def txn_rollback_def
  using assms by (auto simp only: allowed_finished [OF assms]) (auto simp: transit_status_def finished_def)

text \<open>A call of any operation, with the transaction and the world before and after it.\<close>

inductive txn_call :: "('w, 'c) txn_env \<Rightarrow> transaction \<times> 'w \<Rightarrow> transaction \<times> 'w \<Rightarrow> bool" for env where
  call_get: "txn_get env k t w = Some (w', t', r1) \<Longrightarrow> txn_call env (t, w) (t', w')"
| call_get_options: "txn_get_with_options env k need t w = Some (w', t', r2) \<Longrightarrow> txn_call env (t, w) (t', w')"
| call_batch_get: "txn_batch_get env ks t w = Some (w', t', r3) \<Longrightarrow> txn_call env (t, w) (t', w')"
| call_batch_get_options: "txn_batch_get_with_options env ks need t w = Some (w', t', r4) \<Longrightarrow> txn_call env (t, w) (t', w')"
| call_scan: "txn_scan env rng limit key_only rev_ord t w = Some (w', t', r3) \<Longrightarrow> txn_call env (t, w) (t', w')"
| call_lock_keys: "txn_lock_keys env ks lo t w = Some (w', t', r5) \<Longrightarrow> txn_call env (t, w) (t', w')"
| call_get_for_update: "txn_get_for_update env k lo t w = Some (w', t', r1) \<Longrightarrow> txn_call env (t, w) (t', w')"
| call_batch_get_for_update: "txn_batch_get_for_update env ks lo t w = Some (w', t', r3) \<Longrightarrow> txn_call env (t, w) (t', w')"
| call_put: "txn_put env k v t w = Some (w', t', r5) \<Longrightarrow> txn_call env (t, w) (t', w')"
| call_insert: "txn_insert env k v t w = Some (w', t', r5) \<Longrightarrow> txn_call env (t, w) (t', w')"
| call_delete: "txn_delete env k t w = Some (w', t', r5) \<Longrightarrow> txn_call env (t, w) (t', w')"
| call_batch_mutate: "txn_batch_mutate env ms t w = Some (w', t', r5) \<Longrightarrow> txn_call env (t, w) (t', w')"
| call_heart_beat: "send_heart_beat env t w = Some (w', t', r6) \<Longrightarrow> txn_call env (t, w) (t', w')"
| call_assertion: "txn_call env (t, w) (set_key_assertion k a t, w)"
| call_flags: "txn_call env (t, w) (txn_update_key_flags k ops t, w)"
| call_commit: "txn_commit env t w = Some (w', t', r7) \<Longrightarrow> txn_call env (t, w) (t', w')"
| call_rollback: "txn_rollback env part t w = Some (w', t', r5) \<Longrightarrow> txn_call env (t, w) (t', w')"
| call_drop: "drop_transaction panicking t = Some t' \<Longrightarrow> txn_call env (t, w) (t', w)"

lemma record_change_sel [simp]:
  "tx_status (pipelined_record_key_change k t) = tx_status t" "tx_tasks (pipelined_record_key_change k t) = tx_tasks t"
  "tx_buffer (pipelined_record_key_change k t) = tx_buffer t" "tx_options (pipelined_record_key_change k t) = tx_options t"
  "tx_keyspace (pipelined_record_key_change k t) = tx_keyspace t" "tx_timestamp (pipelined_record_key_change k t) = tx_timestamp t"
  by (simp_all add: pipelined_record_key_change_def split: option.splits)

lemma with_buffer_sel [simp]:
  "tx_status (with_buffer f t) = tx_status t" "tx_tasks (with_buffer f t) = tx_tasks t" "tx_buffer (with_buffer f t) = f (tx_buffer t)"
  "tx_options (with_buffer f t) = tx_options t" "tx_keyspace (with_buffer f t) = tx_keyspace t" "tx_pipelined (with_buffer f t) = tx_pipelined t"
  "tx_timestamp (with_buffer f t) = tx_timestamp t" "tx_has_pessimistic_lock (with_buffer f t) = tx_has_pessimistic_lock t"
  by (simp_all add: with_buffer_def)

lemma finished_call:
  assumes "txn_call env tw tw'" "finished (fst tw)"
  shows "snd tw' = snd tw \<and> tx_tasks (fst tw') = tx_tasks (fst tw) \<and> finished (fst tw')
    \<and> (tx_status (fst tw') = tx_status (fst tw) \<or> tx_status (fst tw') = TxDropped)"
  using assms
  by (cases rule: txn_call.cases)
     (auto simp: finished_refuses set_key_assertion_def txn_update_key_flags_def drop_transaction_def Let_def finished_def split: if_splits)

text \<open>C25: Whatever is called on a transaction once it is committed, it stays committed until it is dropped, and nothing
  more is sent to PD or a store and no task is spawned: the world after the calls is the world before. The same holds
  once it is rolled back.\<close>

theorem finished_transaction_is_silent:
  assumes "(txn_call env)\<^sup>*\<^sup>* (t, w) (t', w')" "tx_status t = TxCommitted \<or> tx_status t = TxRolledback"
  shows "w' = w \<and> tx_tasks t' = tx_tasks t \<and> (tx_status t' = tx_status t \<or> tx_status t' = TxDropped)"
proof -
  have "w' = w \<and> tx_tasks t' = tx_tasks t \<and> finished t' \<and> (tx_status t' = tx_status t \<or> tx_status t' = TxDropped)"
    using assms(1)
  proof (induction "(t', w')" arbitrary: t' w' rule: rtranclp_induct)
    case base
    then show ?case using assms(2) by (auto simp: finished_def)
  next
    case (step tw)
    obtain t1 w1 where tw: "tw = (t1, w1)" by fastforce
    have "finished t1" "w1 = w" "tx_tasks t1 = tx_tasks t" "tx_status t1 = tx_status t \<or> tx_status t1 = TxDropped"
      using step(3) [OF tw] by auto
    then show ?case using finished_call [OF step(2)] tw
      by (auto simp: finished_def) 
  qed
  then show ?thesis by blast
qed

subsection \<open>What is handed to the committer\<close>

lemma choose_primary_in:
  "ks \<noteq> [] \<Longrightarrow> \<exists>p. choose_primary primary ks = Some p \<and> p \<in> set ks"
  by (auto simp: choose_primary_def split: option.splits)

lemma transit_status_Some: "transit_status froms s t = Some t' \<longleftrightarrow> tx_status t \<in> set froms \<and> t' = t\<lparr>tx_status := s\<rparr>"
  by (auto simp: transit_status_def)

lemma start_auto_heartbeat_sel [simp]:
  "tx_status (start_auto_heartbeat k t) = tx_status t" "tx_buffer (start_auto_heartbeat k t) = tx_buffer t"
  "tx_options (start_auto_heartbeat k t) = tx_options t" "tx_keyspace (start_auto_heartbeat k t) = tx_keyspace t"
  "tx_timestamp (start_auto_heartbeat k t) = tx_timestamp t" "tx_start_instant (start_auto_heartbeat k t) = tx_start_instant t"
  by (simp_all add: start_auto_heartbeat_def)

lemma spawn_sel [simp]:
  "tx_status (spawn ts t) = tx_status t" "tx_buffer (spawn ts t) = tx_buffer t" "tx_tasks (spawn ts t) = tx_tasks t @ ts"
  by (simp_all add: spawn_def)

lemma committer_of_sel [simp]:
  "cm_primary_key (committer_of t p ms ks) = p" "cm_prewrite_mutations (committer_of t p ms ks) = ms"
  "cm_commit_keys (committer_of t p ms ks) = ks" "cm_start_version (committer_of t p ms ks) = tx_timestamp t"
  "cm_options (committer_of t p ms ks) = tx_options t"
  by (simp_all add: committer_of_def new_committer_def)


text \<open>A transaction that has written two keys, and the client of the examples as its environment.\<close>

definition demo_txn :: transaction where
  "demo_txn = with_buffer (put [2] [] \<circ> put [1] []) (new_transaction (from_version 262144) new_optimistic Disable None 0)"

definition plain_env :: "('w, unit) kv_ops \<Rightarrow> ('w, unit) txn_env" where
  "plain_env kv = \<lparr>te_display = (\<lambda>_. []), te_pd = plain_client (from_version 9), te_kv = kv, te_fuel = 1\<rparr>"

lemma demo_txn_sel:
  "tx_status demo_txn = TxActive" "tx_options demo_txn = new_optimistic" "tx_timestamp demo_txn = from_version 262144"
  "tx_keyspace demo_txn = Disable" "tx_latches demo_txn = None" "tx_start_instant demo_txn = 0" "tx_pipelined demo_txn = None"
  "tx_is_heartbeat_started demo_txn = False" "tx_tasks demo_txn = []"
  by (simp_all add: demo_txn_def with_buffer_def new_transaction_def new_optimistic_def)

lemma demo_txn_buffer:
  "entry_map (tx_buffer demo_txn) = [([1], EPut []), ([2], EPut [])]" "get_primary_key (tx_buffer demo_txn) = Some [1]"
  "key_flags_of (tx_buffer demo_txn) k = 0"
  by (simp_all add: demo_txn_def with_buffer_def new_transaction_def new_buffer_def put_def insert_entry_def bt_get_def
      primary_key_or_def update_key_flags_def get_primary_key_def key_flags_of_def Let_def)

lemma demo_txn_mutations:
  "to_proto_mutations (tx_buffer demo_txn) level = [demo_mutation OpPut [1], demo_mutation OpPut [2]]"
  by (simp add: to_proto_mutations_def demo_txn_buffer List.map_filter_def lower_entry_def demo_mutation_def
      has_presume_key_not_exists_def assertion_for_key_def has_assert_exist_def has_assert_not_exist_def Let_def)

lemma demo_txn_commit:
  "\<exists>t'. txn_commit (plain_env (demo_kv 0 0)) demo_txn w = Some (w, t', Inr (Some (from_version 9)))"
proof -
  let ?t = "start_auto_heartbeat [1] (demo_txn\<lparr>tx_status := TxStartedCommit\<rparr>)"
  let ?ms = "[demo_mutation OpPut [1], demo_mutation OpPut [2]]"
  have ks: "commit_keys_of (tx_buffer demo_txn) ?ms = [[1], [2]]"
    by (simp add: commit_keys_of_def demo_mutation_def demo_txn_buffer has_prewrite_only_def)
  have "committer_of ?t (Some [1]) ?ms [[1], [2]] = demo_committer new_optimistic"
    by (simp add: committer_of_def demo_committer_def demo_txn_sel get_write_size_def demo_txn_buffer)
  then have "commit_plain (plain_env (demo_kv 0 0)) (Some [1]) ?ms [[1], [2]] (demo_txn\<lparr>tx_status := TxStartedCommit\<rparr>) w
      = Some (w, spawn [TaskCommitSecondary (demo_committer new_optimistic) (from_version 9)] ?t, Inr (Some (from_version 9)))"
    using demo_commit [of "\<lambda>_. []" "from_version 9" w] by (simp add: commit_plain_def plain_env_def demo_txn_sel Let_def)
  moreover have "\<not> is_pipelined new_optimistic" by (simp add: is_pipelined_def new_optimistic_def)
  ultimately show ?thesis using ks
    by (simp add: txn_commit_def transit_status_def demo_txn_sel demo_txn_mutations demo_txn_buffer choose_primary_def finish_def Let_def)
qed


text \<open>The witness of a commit that is followed by further calls.\<close>

theorem finished_transaction_is_silent_witness:
  "\<exists>t t' w'. tx_status t = TxCommitted \<and> (txn_call (plain_env (demo_kv 0 0)))\<^sup>*\<^sup>* (t, ()) (t', w') \<and> t' \<noteq> t
    \<and> w' = () \<and> tx_tasks t' = tx_tasks t"
proof -
  let ?t = "demo_txn\<lparr>tx_status := TxCommitted\<rparr>"
  have "drop_transaction False ?t = Some (?t\<lparr>tx_status := TxDropped\<rparr>)" by (simp add: drop_transaction_def check_allow_operation_def Let_def)
  then have "txn_call (plain_env (demo_kv 0 0)) (?t, ()) (?t\<lparr>tx_status := TxDropped\<rparr>, ())" by (rule call_drop)
  then have run: "(txn_call (plain_env (demo_kv 0 0)))\<^sup>*\<^sup>* (?t, ()) (?t\<lparr>tx_status := TxDropped\<rparr>, ())" by (rule r_into_rtranclp)
  have "?t\<lparr>tx_status := TxDropped\<rparr> \<noteq> ?t"
  proof
    assume "?t\<lparr>tx_status := TxDropped\<rparr> = ?t"
    from arg_cong [OF this, of tx_status] show False by simp
  qed
  moreover have "tx_tasks (?t\<lparr>tx_status := TxDropped\<rparr>) = tx_tasks ?t"
    using finished_transaction_is_silent [OF run] by simp
  moreover have "tx_status ?t = TxCommitted" by simp
  ultimately show ?thesis using run
    by (intro exI [of _ ?t] exI [of _ "?t\<lparr>tx_status := TxDropped\<rparr>"] exI [of _ "()"] conjI) (rule refl | assumption)+
qed

end
