(* ===== verification/Transaction_Gaps.thy ===== *)
theory Transaction_Gaps
  imports Transaction_Props
begin

text \<open>
  Failed lock requests and lost writes of a transaction: what a lock request that fails leaves behind, the locks
  it releases although an earlier request took them, and a write that is prewritten and never committed.
\<close>

subsection \<open>Lock requests that fail\<close>

definition released_entry :: "buffer_entry option \<Rightarrow> buffer_entry option \<Rightarrow> bool" where
  "released_entry e e' \<longleftrightarrow> e' = e \<or> (e = Some (Locked None) \<and> e' = None) \<or> (\<exists>v. e = Some (Locked (Some v)) \<and> e' = Some (Cached v))"

lemma unlock_sel [simp]:
  "flags_map (unlock k b) = flags_map b" "primary_key (unlock k b) = primary_key b" "is_pessimistic (unlock k b) = is_pessimistic b"
  by (simp_all add: unlock_def split: option.splits buffer_entry.splits)

lemma unlock_entry:
  assumes "bt_inv (entry_map b)"
  shows "bt_inv (entry_map (unlock k b))"
    "bt_get (entry_map (unlock k b)) k' = (if k' \<noteq> k then bt_get (entry_map b) k' else case bt_get (entry_map b) k of
       Some (Locked v) \<Rightarrow> map_option Cached v | e \<Rightarrow> e)"
  using assms
  by (auto simp: unlock_def bt_inv_insert bt_inv_remove bt_get_insert bt_get_remove split: option.splits buffer_entry.splits)

lemma fold_unlock:
  assumes "bt_inv (entry_map b)"
  shows "flags_map (fold unlock ks b) = flags_map b \<and> primary_key (fold unlock ks b) = primary_key b
    \<and> bt_inv (entry_map (fold unlock ks b)) \<and> released_entry (bt_get (entry_map b) k) (bt_get (entry_map (fold unlock ks b)) k)
    \<and> (k \<notin> set ks \<longrightarrow> bt_get (entry_map (fold unlock ks b)) k = bt_get (entry_map b) k)
    \<and> (k \<in> set ks \<longrightarrow> (\<forall>v. bt_get (entry_map (fold unlock ks b)) k \<noteq> Some (Locked v)))"
  using assms
proof (induction ks arbitrary: b)
  case Nil
  then show ?case by (simp add: released_entry_def)
next
  case (Cons x ks)
  note u = unlock_entry [OF Cons.prems, of x]
  show ?case using Cons.IH [OF u(1)] u(2) [of k]
    by (cases "bt_get (entry_map b) k"; cases "k = x"; cases "k \<in> set ks")
       (auto simp: released_entry_def split: buffer_entry.splits)
qed

lemma sum_case_state: "(case y of Inl e \<Rightarrow> Some (a, t, Inl e) | Inr x \<Rightarrow> Some (a, u, Inr ())) = Some (w', t', r) \<Longrightarrow> t' = t \<or> t' = u"
  by (cases y) auto

lemma pessimistic_lock_rollback_result:
  assumes "pessimistic_lock_rollback env ks ts t w = Some (w', t', r)"
  shows "t' = t \<or> t' = with_buffer (fold unlock ks) t"
proof (cases "ks = []")
  case False
  then show ?thesis using assms by (auto simp: pessimistic_lock_rollback_def bind_eq_Some_conv dest!: sum_case_state)
qed (use assms in \<open>simp add: pessimistic_lock_rollback_def\<close>)

lemma after_pessimistic_lock_failed:
  assumes "after_pessimistic_lock env locks ts t w r = Some (w', t', Inl e)"
  shows "t' = t \<or> (\<exists>ks. t' = with_buffer (fold unlock ks) t)"
proof (cases "\<exists>inner ks. r = Inl (PessimisticLockError inner ks)")
  case True
  then obtain inner ks where r: "r = Inl (PessimisticLockError inner ks)" by blast
  show ?thesis
  proof (cases "ks = []")
    case False
    then have "txn_bind (pessimistic_lock_rollback env ks ts t w) (\<lambda>w t _. Some (w, t, Inl (PessimisticLockError inner ks))) = Some (w', t', (Inl e :: kv_pair list res))"
      using assms r by (simp add: after_pessimistic_lock_def)
    then have "t' = t \<or> t' = with_buffer (fold unlock ks) t"
    proof (cases rule: txn_bind_Some)
      case (stops e1)
      then show ?thesis by (intro pessimistic_lock_rollback_result)
    next
      case (goes w1 t1 x)
      then have "t' = t1" by simp
      then show ?thesis using pessimistic_lock_rollback_result [OF goes(1)] by simp
    qed
    then show ?thesis by blast
  qed (use assms r in \<open>simp add: after_pessimistic_lock_def\<close>)
next
  case False
  show ?thesis
  proof (cases r)
    case (Inl e1)
    then show ?thesis using assms False by (cases e1) (simp_all add: after_pessimistic_lock_def)
  next
    case (Inr pairs)
    then show ?thesis using assms by (simp add: after_pessimistic_lock_def Let_def split: option.split_asm)
  qed
qed

lemma guarded:
  "a \<or> b \<or> c \<Longrightarrow> \<exists>r. (if a then Some (w, t, r1) else if b then Some (w, t, r2) else if c then Some (w, t, r3) else x) = Some (w, t, r)"
  by auto

text \<open>A pessimistic lock request that fails leaves the transaction as it was: its status, tasks, primary key and
  key flags are the same, no key has become part of it, and the only entries that change are locked keys that
  were released.\<close>

theorem failed_lock_adds_nothing:
  assumes "pessimistic_lock env locks options t w = Some (w', t', Inl e)" "bt_inv (entry_map (tx_buffer t))"
  shows "tx_status t' = tx_status t \<and> tx_tasks t' = tx_tasks t \<and> tx_has_pessimistic_lock t' = tx_has_pessimistic_lock t
    \<and> get_primary_key (tx_buffer t') = get_primary_key (tx_buffer t) \<and> flags_map (tx_buffer t') = flags_map (tx_buffer t)
    \<and> released_entry (bt_get (entry_map (tx_buffer t)) k) (bt_get (entry_map (tx_buffer t')) k)"
proof -
  obtain t0 where t0: "t0 = t \<or> (\<exists>ts. t0 = t\<lparr>tx_options := push_for_update_ts ts (tx_options t)\<rparr>)"
    and t': "t' = t0 \<or> (\<exists>ks. t' = with_buffer (fold unlock ks) t0)"
  proof -
    consider (early) "t' = t" | (sent) ts w1 r ls where
      "after_pessimistic_lock env ls ts (t\<lparr>tx_options := push_for_update_ts ts (tx_options t)\<rparr>) w1 r = Some (w', t', Inl e)"
    proof (cases "\<not> txn_is_pessimistic t \<or> locks = [] \<or> lo_wake_up_mode options = WakeUpModeForceLock \<and> length locks \<noteq> 1")
      case True
      then have "\<exists>r. pessimistic_lock env locks options t w = Some (w, t, r)"
        unfolding pessimistic_lock_def by (rule guarded)
      then show ?thesis using assms(1) that(1) by auto
    next
      case False
      then have n: "\<not> \<not> txn_is_pessimistic t" "\<not> locks = []" "\<not> (lo_wake_up_mode options = WakeUpModeForceLock \<and> length locks \<noteq> 1)"
        by blast+
      obtain w1 x where x: "pd_get_timestamp (te_pd env) w = (w1, x)" by fastforce
      note r = assms(1) [unfolded pessimistic_lock_def if_not_P [OF n(1)] if_not_P [OF n(2)] if_not_P [OF n(3)] Let_def x prod.case]
      show ?thesis
      proof (cases x)
        case (Inl e1)
        then show ?thesis using r that(1) by simp
      next
        case (Inr ts)
        then show ?thesis using r that(2) [of _ ts] by (auto simp only: sum.case split: option.split_asm prod.split_asm)
      qed
    qed
    then show thesis
    proof cases
      case early
      then show ?thesis using that by blast
    next
      case sent
      then show ?thesis using that after_pessimistic_lock_failed [OF sent] by blast
    qed
  qed
  have s: "tx_status t0 = tx_status t" "tx_tasks t0 = tx_tasks t" "tx_has_pessimistic_lock t0 = tx_has_pessimistic_lock t" "tx_buffer t0 = tx_buffer t"
    using t0 by auto
  show ?thesis using t'
  proof
    assume "t' = t0"
    then show ?thesis using s by (simp add: released_entry_def)
  next
    assume "\<exists>ks. t' = with_buffer (fold unlock ks) t0"
    then obtain ks where "t' = with_buffer (fold unlock ks) t0" by blast
    then show ?thesis using s fold_unlock [OF assms(2), of ks k] by (simp add: get_primary_key_def)
  qed
qed

text \<open>A pessimistic transaction whose client cannot get a timestamp.\<close>

definition timeless_env :: "(unit, unit) txn_env" where
  "timeless_env = (plain_env (demo_kv 0 0))\<lparr>te_pd := (plain_client (from_version 9))\<lparr>pd_get_timestamp := \<lambda>w. (w, Inl NoCurrentRegions)\<rparr>\<rparr>"

theorem failed_lock_adds_nothing_witness:
  "let t = new_transaction (from_version 5) new_pessimistic Disable None 0 in
   \<exists>t'. pessimistic_lock timeless_env [([1], AssertionNone)] default_lock_options t () = Some ((), t', Inl NoCurrentRegions)
     \<and> get_primary_key (tx_buffer t') = None \<and> tx_tasks t' = []"
proof -
  let ?t = "new_transaction (from_version 5) new_pessimistic Disable None 0"
  have run: "pessimistic_lock timeless_env [([1], AssertionNone)] default_lock_options ?t () = Some ((), ?t, Inl NoCurrentRegions)"
    by (simp add: pessimistic_lock_def timeless_env_def plain_env_def new_transaction_def txn_is_pessimistic_def new_pessimistic_def
        is_pessimistic_options_def Let_def)
  have "bt_inv (entry_map (tx_buffer ?t))" by (simp add: new_transaction_def new_buffer_def bt_inv_def)
  from failed_lock_adds_nothing [OF run this] run show ?thesis
    by (simp add: Let_def new_transaction_def new_buffer_def get_primary_key_def)
qed

subsection \<open>Locks that are released too early\<close>

lemma plain_pessimistic_rollback:
  assumes "prq_keys q \<noteq> []"
  shows "\<exists>rs. send_pessimistic_rollback display (plain_client ts) (demo_kv a b) (Suc fuel) ro q w = Some (w, Inr rs)"
proof -
  let ?r = "\<lparr>prs_region_error = None, prs_errors = []\<rparr>"
  have sh: "pessimistic_rollback_shards (pd_region_for_key (plain_client ts)) w q = (w, [Inr (sort (prq_keys q), one_region)])"
    using assms by (simp add: pessimistic_rollback_shards_def sorted_groups_def group_one_region sort_key_Nil)
  have ok: "pessimistic_rollback_take_locks ?r = ([], ?r)" "pessimistic_rollback_key_errors ?r = None" "prs_region_error ?r = None"
    by (simp_all add: pessimistic_rollback_take_locks_def pessimistic_rollback_key_errors_def extract_errors_def List.map_filter_def)
  have kv: "kv_pessimistic_rollback (demo_kv a b) w () ctx (pessimistic_rollback_apply_shard (sort (prq_keys q)) q) = (w, Inr ?r)" for ctx
    by (simp add: demo_kv_def)
  from plain_run [where shards = "pessimistic_rollback_shards (pd_region_for_key (plain_client ts))" and kv = "kv_pessimistic_rollback (demo_kv a b)"
      and req_store = "\<lambda>_ q. q" and apply_shard = pessimistic_rollback_apply_shard and take_fn = pessimistic_rollback_take_locks
      and region_error = prs_region_error and key_errors = pessimistic_rollback_key_errors, OF sh kv ok]
  obtain p where "resolving_plan (plain_client ts) (demo_kv a b) (Suc fuel) ro pessimistic_rollback_take_locks
      pessimistic_rollback_reroute (pessimistic_rollback_ops (plain_client ts) (demo_kv a b)) False q w = Some (w, Inr [(p, Inr ?r)])"
    unfolding resolving_plan_def pessimistic_rollback_ops_def by blast
  then show ?thesis using ok by (simp add: send_pessimistic_rollback_def extract_error_def list_region_errors_def oks_def List.map_filter_def)
qed

text \<open>When a lock request fails for some of its keys, those that it did lock are unlocked, and with them a key that an
  earlier request of the same transaction had locked: the key is then no longer a part of the transaction.\<close>

theorem failed_lock_releases_earlier_lock:
  assumes "bt_inv (entry_map (tx_buffer t))" "bt_get (entry_map (tx_buffer t)) k = Some (Locked None)" "k \<in> set success_keys"
  shows "\<exists>t'. after_pessimistic_lock (plain_env (demo_kv a b)) locks ts t w (Inl (PessimisticLockError inner success_keys))
      = Some (w, t', Inl (PessimisticLockError inner success_keys))
    \<and> bt_get (entry_map (tx_buffer t')) k = None \<and> mutation_for_key (tx_buffer t') k level = None"
proof -
  let ?q = "new_pessimistic_rollback_request success_keys (version_of (tx_timestamp t)) (version_of ts)"
  have ne: "success_keys \<noteq> []" using assms(3) by auto
  then have "prq_keys ?q \<noteq> []" by (simp add: new_pessimistic_rollback_request_def)
  then have "\<exists>rs. send_pessimistic_rollback (\<lambda>_. []) (plain_client (from_version 9)) (demo_kv a b) (Suc 0) (to_retry_options (tx_options t)) ?q w = Some (w, Inr rs)"
    by (rule plain_pessimistic_rollback)
  then have "after_pessimistic_lock (plain_env (demo_kv a b)) locks ts t w (Inl (PessimisticLockError inner success_keys))
      = Some (w, with_buffer (fold unlock success_keys) t, Inl (PessimisticLockError inner success_keys))"
    using ne by (auto simp add: after_pessimistic_lock_def pessimistic_lock_rollback_def plain_env_def truncate_result_def)
  moreover have "bt_get (entry_map (fold unlock success_keys (tx_buffer t))) k = None"
    using fold_unlock [OF assms(1), of success_keys k] assms(2,3) by (auto simp: released_entry_def)
  ultimately show ?thesis by (simp add: mutation_for_key_def)
qed

theorem failed_lock_releases_earlier_lock_witness:
  "let t = with_buffer (lock [1]) (new_transaction (from_version 5) new_pessimistic Disable None 0) in
   mutation_for_key (tx_buffer t) [1] LevelOff \<noteq> None
   \<and> (\<exists>t' :: transaction. mutation_for_key (tx_buffer t') [1] LevelOff = None
     \<and> after_pessimistic_lock (plain_env (demo_kv 0 0)) [([1], AssertionNone), ([2], AssertionNone)] (from_version 9) t ()
        (Inl (PessimisticLockError NoCurrentRegions [[1]])) = Some ((), t', Inl (PessimisticLockError NoCurrentRegions [[1]])))"
proof -
  let ?t = "with_buffer (lock [1]) (new_transaction (from_version 5) new_pessimistic Disable None 0)"
  have e: "entry_map (tx_buffer ?t) = [([1], Locked None)]"
    by (simp add: new_transaction_def new_buffer_def lock_def bt_get_def primary_key_or_def Let_def)
  have i: "bt_inv (entry_map (tx_buffer ?t))" "bt_get (entry_map (tx_buffer ?t)) [1] = Some (Locked None)" "[1] \<in> set [[1 :: 8 word]]"
    unfolding e by (simp_all add: bt_inv_def bt_get_def)
  have "mutation_for_key (tx_buffer ?t) [1] LevelOff \<noteq> None"
    unfolding mutation_for_key_def i(2) by (simp add: lower_entry_def Let_def)
  then show ?thesis
    using failed_lock_releases_earlier_lock [OF i, of 0 0 "[([1], AssertionNone), ([2], AssertionNone)]" "from_version 9" "()" NoCurrentRegions LevelOff]
    unfolding Let_def by blast
qed

subsection \<open>A write that is not committed\<close>

text \<open>Inserting a key, deleting it and writing it again in an optimistic transaction: the deletion marks the key as
  checked at prewrite only, and the write that follows does not take the mark back.\<close>

definition reinserted :: "key \<Rightarrow> val_bytes \<Rightarrow> val_bytes \<Rightarrow> buffer" where
  "reinserted k v v' = put k v' (delete k (insert k v (new_buffer False)))"

lemma reinserted_sel:
  "entry_map (reinserted k v v') = [(k, EInsert v')]" "primary_key (reinserted k v v') = Some k"
  "key_flags_of (reinserted k v v') k = PREWRITE_ONLY"
  by (simp_all add: reinserted_def put_def delete_def insert_def insert_entry_def new_buffer_def primary_key_or_def bt_get_def
      update_key_flags_def key_flags_of_def Let_def PREWRITE_ONLY_def)

lemma allowed_active: "tx_status t = TxActive \<Longrightarrow> allowed t w m = m"
  by (simp add: allowed_def check_allow_operation_def)

lemma optimistic_locked_write:
  assumes "\<not> txn_is_pessimistic t" "tx_pipelined t = None"
  shows "locked_write env locks [(k, f)] t w = Some (w, with_buffer f t, Inr ())"
  using assms by (simp add: locked_write_def pipelined_record_key_change_def pipelined_maybe_flush_def with_buffer_def)

lemma fresh_txn_sel:
  "tx_status (new_transaction ts new_optimistic ks None now) = TxActive" "tx_pipelined (new_transaction ts new_optimistic ks None now) = None"
  "tx_buffer (new_transaction ts new_optimistic ks None now) = new_buffer False" "tx_keyspace (new_transaction ts new_optimistic ks None now) = ks"
  "tx_options (new_transaction ts new_optimistic ks None now) = new_optimistic"
  by (simp_all add: new_transaction_def new_optimistic_def is_pessimistic_options_def)

definition reinserting :: "('w, 'c) txn_env \<Rightarrow> key \<Rightarrow> val_bytes \<Rightarrow> val_bytes \<Rightarrow> transaction \<Rightarrow> 'w \<Rightarrow> ('w, unit) txn_result" where
  "reinserting env k v v' t w = txn_bind (txn_insert env k v t w) (\<lambda>w t _. txn_bind (txn_delete env k t w) (\<lambda>w t _. txn_put env k v' t w))"

lemma reinserting_result:
  assumes t_def: "t = new_transaction ts new_optimistic ks None now"
  shows "reinserting env k v v' t w = Some (w, t\<lparr>tx_buffer := reinserted (encode_key ks Txn k) v v'\<rparr>, Inr ())"
proof -
  have n: "\<not> txn_is_pessimistic t" "tx_status t = TxActive" "tx_pipelined t = None" "tx_keyspace t = ks" "tx_buffer t = new_buffer False"
    by (simp_all add: t_def fresh_txn_sel txn_is_pessimistic_def) (simp add: new_optimistic_def is_pessimistic_options_def)
  have p: "txn_is_pessimistic (with_buffer f u) = txn_is_pessimistic u" for f u by (simp add: txn_is_pessimistic_def)
  have "buffer_get (new_buffer False) k = None" for k by (simp add: buffer_get_def new_buffer_def get_from_mutations_def bt_get_def)
  then show ?thesis using n
    by (simp add: reinserting_def txn_insert_def txn_delete_def txn_put_def allowed_active p optimistic_locked_write Let_def reinserted_def)
       (simp add: with_buffer_def)
qed

lemma reinserted_commit:
  "to_proto_mutations (reinserted k v v') LevelOff = [\<lparr>pm_op = OpInsert, pm_key = k, pm_value = v', pm_assertion = AssertionNone\<rparr>]"
  "commit_keys_of (reinserted k v v') (to_proto_mutations (reinserted k v v') LevelOff) = []"
  by (simp_all add: to_proto_mutations_def reinserted_sel List.map_filter_def lower_entry_def Let_def commit_keys_of_def
      has_prewrite_only_def PREWRITE_ONLY_def)

text \<open>C36: A transaction that inserts a key, deletes it and writes it again reads the value it wrote, and its commit
  reports success without a timestamp once the key is prewritten: no commit request is sent and no task is left
  that would commit the key, so its lock stays and the write is lost.\<close>

theorem reinserted_key_is_not_committed:
  "\<exists>t c. reinserting env k v v' (new_transaction ts new_optimistic ks None now) w = Some (w, t, Inr ())
    \<and> buffer_get (tx_buffer t) (encode_key ks Txn k) = Some v'
    \<and> cm_prewrite_mutations c = [\<lparr>pm_op = OpInsert, pm_key = encode_key ks Txn k, pm_value = v', pm_assertion = AssertionNone\<rparr>]
    \<and> tx_tasks t = []
    \<and> txn_commit env t w = (case committer_prewrite (te_display env) (te_pd env) (te_kv env) (te_fuel env) c w of
         None \<Rightarrow> None
       | Some (w', _, Inl e) \<Rightarrow> Some (w', t\<lparr>tx_status := TxStartedCommit\<rparr>, Inl e)
       | Some (w', _, Inr _) \<Rightarrow> Some (w', t\<lparr>tx_status := TxCommitted\<rparr>, Inr None))"
proof -
  let ?n = "new_transaction ts new_optimistic ks None now" and ?k = "encode_key ks Txn k"
  let ?t = "?n\<lparr>tx_buffer := reinserted ?k v v'\<rparr>" and ?ms = "to_proto_mutations (reinserted ?k v v') LevelOff"
  let ?s = "?t\<lparr>tx_status := TxStartedCommit\<rparr>" and ?P = "committer_prewrite (te_display env) (te_pd env) (te_kv env) (te_fuel env)"
  let ?c = "committer_of ?s (Some ?k) ?ms []"
  have o: "to_assertion_level new_optimistic = LevelOff" "\<not> is_pipelined new_optimistic" by (simp_all add: new_optimistic_def is_pipelined_def)
  have tasks: "tx_tasks ?n = []" by (simp add: new_transaction_def)
  have "commit_plain env (Some ?k) ?ms [] ?s w = (case ?P ?c w of None \<Rightarrow> None
      | Some (w, c, Inl e) \<Rightarrow> Some (w, ?s, Inl e) | Some (w, c, Inr _) \<Rightarrow> Some (w, ?s, Inr None))"
    by (simp add: commit_plain_def)
  moreover have "txn_commit env ?t w = finish TxCommitted (commit_plain env (Some ?k) ?ms [] ?s w)"
    using reinserted_commit [of ?k v v']
    by (simp add: txn_commit_def transit_status_def fresh_txn_sel o Let_def choose_primary_def get_primary_key_def reinserted_sel)
  ultimately have "txn_commit env ?t w = (case ?P ?c w of None \<Rightarrow> None
      | Some (w', _, Inl e) \<Rightarrow> Some (w', ?s, Inl e) | Some (w', _, Inr _) \<Rightarrow> Some (w', ?t\<lparr>tx_status := TxCommitted\<rparr>, Inr None))"
    by (simp add: finish_def split: option.split sum.split prod.split)
  moreover have "buffer_get (tx_buffer ?t) ?k = Some v'"
    by (simp add: buffer_get_def get_from_mutations_def reinserted_sel bt_get_def)
  ultimately show ?thesis
    using reinserting_result [OF refl, of env k v v' ts ks now w] tasks reinserted_commit(1) [of ?k v v']
    by (intro exI [of _ ?t] exI [of _ ?c]) simp
qed

end
