(* ===== verification/Raw_Requests.thy ===== *)
theory Raw_Requests
  imports Plan_Client
begin

text \<open>
  The requests of the raw interface (\<open>raw/mod.rs\<close>, \<open>raw/requests.rs\<close>, \<open>raw/lowering.rs\<close>): column families, the
  messages, their constructors, how they are split by region and how their responses are read and merged.
\<close>

subsection \<open>Column families\<close>

datatype column_family = CfDefault | CfLock | CfWrite

definition column_family_of :: "string \<Rightarrow> column_family res" where
  "column_family_of s = (if s = ''default'' then Inr CfDefault else if s = ''lock'' then Inr CfLock
     else if s = ''write'' then Inr CfWrite else Inl (ColumnFamilyError s))"

fun show_column_family :: "column_family \<Rightarrow> string" where
  "show_column_family CfDefault = ''default''"
| "show_column_family CfLock = ''lock''"
| "show_column_family CfWrite = ''write''"

text \<open>\<open>maybe_set_cf\<close>: the field of a request, empty by default.\<close>

definition cf_field :: "column_family option \<Rightarrow> string" where
  "cf_field cf = (case cf of None \<Rightarrow> [] | Some c \<Rightarrow> show_column_family c)"

subsection \<open>Messages\<close>

record raw_get_request =
  rgq_key :: bytes
  rgq_cf :: string

record raw_get_response =
  rgs_region_error :: "region_error_msg option"
  rgs_error :: string
  rgs_value :: bytes
  rgs_not_found :: bool

record raw_batch_get_request =
  rbgq_keys :: "bytes list"
  rbgq_cf :: string

record raw_batch_get_response =
  rbgs_region_error :: "region_error_msg option"
  rbgs_pairs :: "proto_kv_pair list"

record raw_get_key_ttl_response =
  rts_region_error :: "region_error_msg option"
  rts_error :: string
  rts_ttl :: u64
  rts_not_found :: bool

record raw_get_key_ttl_request =
  rtq_key :: bytes
  rtq_cf :: string

record raw_put_request =
  rpq_key :: bytes
  rpq_value :: bytes
  rpq_cf :: string
  rpq_ttl :: u64
  rpq_for_cas :: bool

record raw_batch_put_request =
  rbpq_pairs :: "proto_kv_pair list"
  rbpq_cf :: string
  rbpq_ttl :: u64
  rbpq_for_cas :: bool
  rbpq_ttls :: "u64 list"

record raw_delete_request =
  rdq_key :: bytes
  rdq_cf :: string
  rdq_for_cas :: bool

record raw_batch_delete_request =
  rbdq_keys :: "bytes list"
  rbdq_cf :: string
  rbdq_for_cas :: bool

record raw_delete_range_request =
  rrq_start_key :: bytes
  rrq_end_key :: bytes
  rrq_cf :: string

text \<open>The responses of put, delete, batch put, batch delete and delete range have the same fields.\<close>

record raw_write_response =
  rws_region_error :: "region_error_msg option"
  rws_error :: string

record raw_scan_request =
  rsq_start_key :: bytes
  rsq_limit :: u32
  rsq_key_only :: bool
  rsq_cf :: string
  rsq_reverse :: bool
  rsq_end_key :: bytes

record raw_scan_response =
  rss_region_error :: "region_error_msg option"
  rss_kvs :: "proto_kv_pair list"

record raw_checksum_request =
  rcq_algorithm :: int
  rcq_ranges :: "key_range list"

record raw_checksum_response =
  rcs_region_error :: "region_error_msg option"
  rcs_error :: string
  rcs_checksum :: u64
  rcs_total_kvs :: u64
  rcs_total_bytes :: u64

record raw_cas_request =
  casq_key :: bytes
  casq_value :: bytes
  casq_previous_not_exist :: bool
  casq_previous_value :: bytes
  casq_cf :: string
  casq_ttl :: u64

record raw_cas_response =
  cass_region_error :: "region_error_msg option"
  cass_error :: string
  cass_succeed :: bool
  cass_previous_not_exist :: bool
  cass_previous_value :: bytes

record raw_coprocessor_request =
  copq_name :: string
  copq_version_req :: string
  copq_ranges :: "key_range list"
  copq_data :: bytes

record raw_coprocessor_response =
  cops_region_error :: "region_error_msg option"
  cops_error :: string
  cops_data :: bytes

subsection \<open>Constructors\<close>

definition new_raw_get_request :: "key \<Rightarrow> column_family option \<Rightarrow> raw_get_request" where
  "new_raw_get_request k cf = \<lparr>rgq_key = k, rgq_cf = cf_field cf\<rparr>"

definition new_raw_batch_get_request :: "key list \<Rightarrow> column_family option \<Rightarrow> raw_batch_get_request" where
  "new_raw_batch_get_request ks cf = \<lparr>rbgq_keys = ks, rbgq_cf = cf_field cf\<rparr>"

definition new_raw_get_key_ttl_request :: "key \<Rightarrow> column_family option \<Rightarrow> raw_get_key_ttl_request" where
  "new_raw_get_key_ttl_request k cf = \<lparr>rtq_key = k, rtq_cf = cf_field cf\<rparr>"

definition new_raw_put_request :: "key \<Rightarrow> val_bytes \<Rightarrow> column_family option \<Rightarrow> u64 \<Rightarrow> bool \<Rightarrow> raw_put_request" where
  "new_raw_put_request k v cf ttl atomic = \<lparr>rpq_key = k, rpq_value = v, rpq_cf = cf_field cf, rpq_ttl = ttl, rpq_for_cas = atomic\<rparr>"

text \<open>The pairs become messages without an error. The iterator of time-to-lives is a function from the number of
  elements taken to those elements; fewer of them than pairs is an assertion that fails.\<close>

definition proto_pair_of :: "kv_pair \<Rightarrow> proto_kv_pair" where
  "proto_pair_of p = \<lparr>kv_error = None, kv_key = kp_key p, kv_value = kp_value p, kv_commit_ts = kp_commit_ts p\<rparr>"

definition new_raw_batch_put_request ::
  "kv_pair list \<Rightarrow> (nat \<Rightarrow> u64 list) \<Rightarrow> column_family option \<Rightarrow> bool \<Rightarrow> raw_batch_put_request option" where
  "new_raw_batch_put_request pairs ttls cf atomic =
    (let ts = ttls (length pairs)
     in if length ts \<noteq> length pairs then None
        else Some \<lparr>rbpq_pairs = map proto_pair_of pairs, rbpq_cf = cf_field cf, rbpq_ttl = 0, rbpq_for_cas = atomic, rbpq_ttls = ts\<rparr>)"

definition new_raw_delete_request :: "key \<Rightarrow> column_family option \<Rightarrow> bool \<Rightarrow> raw_delete_request" where
  "new_raw_delete_request k cf atomic = \<lparr>rdq_key = k, rdq_cf = cf_field cf, rdq_for_cas = atomic\<rparr>"

definition new_raw_batch_delete_request :: "key list \<Rightarrow> column_family option \<Rightarrow> raw_batch_delete_request" where
  "new_raw_batch_delete_request ks cf = \<lparr>rbdq_keys = ks, rbdq_cf = cf_field cf, rbdq_for_cas = False\<rparr>"

definition new_raw_delete_range_request :: "bound_range \<Rightarrow> column_family option \<Rightarrow> raw_delete_range_request" where
  "new_raw_delete_range_request r cf = (case into_keys r of (s, e) \<Rightarrow>
     \<lparr>rrq_start_key = s, rrq_end_key = (case e of None \<Rightarrow> [] | Some e \<Rightarrow> e), rrq_cf = cf_field cf\<rparr>)"

definition new_raw_scan_request :: "bound_range \<Rightarrow> u32 \<Rightarrow> bool \<Rightarrow> bool \<Rightarrow> column_family option \<Rightarrow> raw_scan_request" where
  "new_raw_scan_request r limit key_only reverse cf =
    (case into_keys r of (s, e) \<Rightarrow>
      (let e = (case e of None \<Rightarrow> [] | Some e \<Rightarrow> e)
       in \<lparr>rsq_start_key = (if reverse then e else s), rsq_limit = limit, rsq_key_only = key_only, rsq_cf = cf_field cf,
           rsq_reverse = reverse, rsq_end_key = (if reverse then s else e)\<rparr>))"

definition new_raw_checksum_request :: "bound_range \<Rightarrow> raw_checksum_request" where
  "new_raw_checksum_request r = \<lparr>rcq_algorithm = 0, rcq_ranges = [key_range_of_bound_range r]\<rparr>"

definition new_cas_request :: "key \<Rightarrow> val_bytes \<Rightarrow> val_bytes option \<Rightarrow> column_family option \<Rightarrow> raw_cas_request" where
  "new_cas_request k v previous cf = \<lparr>casq_key = k, casq_value = v, casq_previous_not_exist = (previous = None),
     casq_previous_value = (case previous of None \<Rightarrow> [] | Some p \<Rightarrow> p), casq_cf = cf_field cf, casq_ttl = 0\<rparr>"

definition new_raw_coprocessor_request :: "string \<Rightarrow> string \<Rightarrow> bound_range list \<Rightarrow> raw_coprocessor_request" where
  "new_raw_coprocessor_request name version_req ranges =
     \<lparr>copq_name = name, copq_version_req = version_req, copq_ranges = map key_range_of_bound_range ranges, copq_data = []\<rparr>"

subsection \<open>Shards\<close>

definition RAW_KV_REQUEST_BATCH_SIZE :: nat where "RAW_KV_REQUEST_BATCH_SIZE = 16 * 1024"

text \<open>The macro \<open>shardable_key\<close> for a request whose key is \<open>key_of\<close>.\<close>

definition single_key_shards ::
  "('s \<Rightarrow> key \<Rightarrow> 's \<times> region_with_leader res) \<Rightarrow> ('req \<Rightarrow> bytes) \<Rightarrow> 's \<Rightarrow> 'req \<Rightarrow> 's \<times> (bytes list \<times> region_with_leader) res list" where
  "single_key_shards lookup key_of s req = group_keys_by_region lookup (\<lambda>k. k) s [key_of req]"

definition raw_get_apply_shard :: "bytes list \<Rightarrow> raw_get_request \<Rightarrow> raw_get_request" where
  "raw_get_apply_shard sh req = req\<lparr>rgq_key := pop_key sh\<rparr>"

definition raw_get_key_ttl_apply_shard :: "bytes list \<Rightarrow> raw_get_key_ttl_request \<Rightarrow> raw_get_key_ttl_request" where
  "raw_get_key_ttl_apply_shard sh req = req\<lparr>rtq_key := pop_key sh\<rparr>"

definition raw_put_apply_shard :: "bytes list \<Rightarrow> raw_put_request \<Rightarrow> raw_put_request" where
  "raw_put_apply_shard sh req = req\<lparr>rpq_key := pop_key sh\<rparr>"

definition raw_delete_apply_shard :: "bytes list \<Rightarrow> raw_delete_request \<Rightarrow> raw_delete_request" where
  "raw_delete_apply_shard sh req = req\<lparr>rdq_key := pop_key sh\<rparr>"

definition raw_cas_apply_shard :: "bytes list \<Rightarrow> raw_cas_request \<Rightarrow> raw_cas_request" where
  "raw_cas_apply_shard sh req = req\<lparr>casq_key := pop_key sh\<rparr>"

definition raw_batch_get_shards ::
  "('s \<Rightarrow> key \<Rightarrow> 's \<times> region_with_leader res) \<Rightarrow> 's \<Rightarrow> raw_batch_get_request \<Rightarrow> 's \<times> (bytes list \<times> region_with_leader) res list" where
  "raw_batch_get_shards lookup s req = sorted_groups lookup (\<lambda>k. k) s (rbgq_keys req)"

definition raw_batch_get_apply_shard :: "bytes list \<Rightarrow> raw_batch_get_request \<Rightarrow> raw_batch_get_request" where
  "raw_batch_get_apply_shard sh req = req\<lparr>rbgq_keys := sh\<rparr>"

definition kv_ttl_key :: "proto_kv_pair \<times> u64 \<Rightarrow> key" where
  "kv_ttl_key x = kv_key (fst x)"

definition kv_ttl_size :: "proto_kv_pair \<times> u64 \<Rightarrow> nat" where
  "kv_ttl_size x = length (kv_key (fst x)) + length (kv_value (fst x))"

definition raw_batch_put_items :: "raw_batch_put_request \<Rightarrow> (proto_kv_pair \<times> u64) list" where
  "raw_batch_put_items req = zip (rbpq_pairs req) (rbpq_ttls req)"

definition raw_batch_put_shards ::
  "('s \<Rightarrow> key \<Rightarrow> 's \<times> region_with_leader res) \<Rightarrow> 's \<Rightarrow> raw_batch_put_request
     \<Rightarrow> 's \<times> ((proto_kv_pair \<times> u64) list \<times> region_with_leader) res list" where
  "raw_batch_put_shards lookup s req =
     map_prod id (flat_batches (\<lambda>xs. batches kv_ttl_size xs RAW_KV_REQUEST_BATCH_SIZE))
       (sorted_groups lookup kv_ttl_key s (raw_batch_put_items req))"

definition raw_batch_put_apply_shard :: "(proto_kv_pair \<times> u64) list \<Rightarrow> raw_batch_put_request \<Rightarrow> raw_batch_put_request" where
  "raw_batch_put_apply_shard sh req = \<lparr>rbpq_pairs = map fst sh, rbpq_cf = rbpq_cf req, rbpq_ttl = 0, rbpq_for_cas = rbpq_for_cas req,
     rbpq_ttls = map snd sh\<rparr>"

definition raw_batch_delete_shards ::
  "('s \<Rightarrow> key \<Rightarrow> 's \<times> region_with_leader res) \<Rightarrow> 's \<Rightarrow> raw_batch_delete_request \<Rightarrow> 's \<times> (bytes list \<times> region_with_leader) res list" where
  "raw_batch_delete_shards lookup s req =
     map_prod id (flat_batches (\<lambda>ks. batches length ks RAW_KV_REQUEST_BATCH_SIZE)) (sorted_groups lookup (\<lambda>k. k) s (rbdq_keys req))"

definition raw_batch_delete_apply_shard :: "bytes list \<Rightarrow> raw_batch_delete_request \<Rightarrow> raw_batch_delete_request" where
  "raw_batch_delete_apply_shard sh req = \<lparr>rbdq_keys = sh, rbdq_cf = rbdq_cf req, rbdq_for_cas = rbdq_for_cas req\<rparr>"

definition raw_delete_range_shards ::
  "('s \<Rightarrow> key \<Rightarrow> 's \<times> region_with_leader res) \<Rightarrow> 's \<Rightarrow> raw_delete_range_request
     \<Rightarrow> ('s \<times> ((key \<times> key) \<times> region_with_leader) res list) option" where
  "raw_delete_range_shards lookup s req = region_stream_for_range lookup (rrq_start_key req, rrq_end_key req) s"

definition raw_delete_range_apply_shard :: "key \<times> key \<Rightarrow> raw_delete_range_request \<Rightarrow> raw_delete_range_request" where
  "raw_delete_range_apply_shard sh req = req\<lparr>rrq_start_key := fst sh, rrq_end_key := snd sh\<rparr>"

definition raw_checksum_shards ::
  "('s \<Rightarrow> key \<Rightarrow> 's \<times> region_with_leader res) \<Rightarrow> 's \<Rightarrow> raw_checksum_request
     \<Rightarrow> ('s \<times> ((key \<times> key) \<times> region_with_leader) res list) option" where
  "raw_checksum_shards lookup s req =
    (case rcq_ranges req of
       [] \<Rightarrow> Some (s, [])
     | rg # _ \<Rightarrow> region_stream_for_range lookup (kr_start_key rg, kr_end_key rg) s)"

definition raw_checksum_apply_shard :: "key \<times> key \<Rightarrow> raw_checksum_request \<Rightarrow> raw_checksum_request" where
  "raw_checksum_apply_shard sh req = req\<lparr>rcq_ranges := [make_key_range (fst sh) (snd sh)]\<rparr>"

definition raw_coprocessor_apply_shard :: "key_range list \<Rightarrow> raw_coprocessor_request \<Rightarrow> raw_coprocessor_request" where
  "raw_coprocessor_apply_shard sh req = req\<lparr>copq_ranges := sh\<rparr>"

subsection \<open>Responses\<close>

definition str_key_errors :: "string \<Rightarrow> error list option" where
  "str_key_errors e = (if e = [] then None else Some [KvError e])"

definition pairs_key_errors :: "proto_kv_pair list \<Rightarrow> error list option" where
  "pairs_key_errors ps = extract_errors (map kv_error ps)"

definition raw_get_value :: "raw_get_response \<Rightarrow> val_bytes option" where
  "raw_get_value r = (if rgs_not_found r then None else Some (rgs_value r))"

definition raw_key_ttl :: "raw_get_key_ttl_response \<Rightarrow> u64 option" where
  "raw_key_ttl r = (if rts_not_found r then None else Some (rts_ttl r))"

definition raw_cas_result :: "raw_cas_response \<Rightarrow> val_bytes option \<times> bool" where
  "raw_cas_result r = (if cass_previous_not_exist r then None else Some (cass_previous_value r), cass_succeed r)"

definition raw_pair_from :: "proto_kv_pair \<Rightarrow> kv_pair" where
  "raw_pair_from p = \<lparr>kp_key = kv_key p, kp_value = kv_value p, kp_commit_ts = kv_commit_ts p\<rparr>"

text \<open>\<open>flat_map_ok\<close> with \<open>collect\<close>: the pairs of all responses, or the first error.\<close>

definition merge_pairs :: "('resp \<Rightarrow> proto_kv_pair list) \<Rightarrow> 'resp res list \<Rightarrow> kv_pair list res" where
  "merge_pairs pairs rs = (case first_error rs of Some e \<Rightarrow> Inl e | None \<Rightarrow> Inr (concat (map (map raw_pair_from \<circ> pairs) (oks rs))))"

record raw_checksum =
  ck_crc64_xor :: u64
  ck_total_kvs :: u64
  ck_total_bytes :: u64

definition default_raw_checksum :: raw_checksum where
  "default_raw_checksum = \<lparr>ck_crc64_xor = 0, ck_total_kvs = 0, ck_total_bytes = 0\<rparr>"

fun merge_checksums :: "raw_checksum \<Rightarrow> raw_checksum_response res list \<Rightarrow> raw_checksum res" where
  "merge_checksums out [] = Inr out"
| "merge_checksums out (Inl e # rs) = Inl e"
| "merge_checksums out (Inr r # rs) = merge_checksums
     \<lparr>ck_crc64_xor = xor (ck_crc64_xor out) (rcs_checksum r), ck_total_kvs = saturating_add (ck_total_kvs out) (rcs_total_kvs r),
      ck_total_bytes = saturating_add (ck_total_bytes out) (rcs_total_bytes r)\<rparr> rs"

definition coprocessor_results :: "(raw_coprocessor_response \<times> key_range list) res list \<Rightarrow> ((key \<times> key) list \<times> bytes) list res" where
  "coprocessor_results rs = (case first_error rs of Some e \<Rightarrow> Inl e
     | None \<Rightarrow> Inr (map (\<lambda>(resp, ranges). (map (\<lambda>r. (kr_start_key r, kr_end_key r)) ranges, cops_data resp)) (oks rs)))"

end
