(* ===== verification/Raw_Client.thy ===== *)
theory Raw_Client
  imports Raw_Requests
begin

text \<open>
  The raw client (\<open>raw/client.rs\<close>): its options and every operation, each the whole plan that the code builds
  for it. The stores are the record \<open>raw_kv\<close>. None is a panic or running out of fuel.
\<close>

record ('w, 'c) raw_kv =
  rk_get :: "'w \<Rightarrow> 'c \<Rightarrow> rpc_context \<Rightarrow> raw_get_request \<Rightarrow> 'w \<times> raw_get_response res"
  rk_batch_get :: "'w \<Rightarrow> 'c \<Rightarrow> rpc_context \<Rightarrow> raw_batch_get_request \<Rightarrow> 'w \<times> raw_batch_get_response res"
  rk_get_key_ttl :: "'w \<Rightarrow> 'c \<Rightarrow> rpc_context \<Rightarrow> raw_get_key_ttl_request \<Rightarrow> 'w \<times> raw_get_key_ttl_response res"
  rk_put :: "'w \<Rightarrow> 'c \<Rightarrow> rpc_context \<Rightarrow> raw_put_request \<Rightarrow> 'w \<times> raw_write_response res"
  rk_batch_put :: "'w \<Rightarrow> 'c \<Rightarrow> rpc_context \<Rightarrow> raw_batch_put_request \<Rightarrow> 'w \<times> raw_write_response res"
  rk_delete :: "'w \<Rightarrow> 'c \<Rightarrow> rpc_context \<Rightarrow> raw_delete_request \<Rightarrow> 'w \<times> raw_write_response res"
  rk_batch_delete :: "'w \<Rightarrow> 'c \<Rightarrow> rpc_context \<Rightarrow> raw_batch_delete_request \<Rightarrow> 'w \<times> raw_write_response res"
  rk_delete_range :: "'w \<Rightarrow> 'c \<Rightarrow> rpc_context \<Rightarrow> raw_delete_range_request \<Rightarrow> 'w \<times> raw_write_response res"
  rk_scan :: "'w \<Rightarrow> 'c \<Rightarrow> rpc_context \<Rightarrow> raw_scan_request \<Rightarrow> 'w \<times> raw_scan_response res"
  rk_checksum :: "'w \<Rightarrow> 'c \<Rightarrow> rpc_context \<Rightarrow> raw_checksum_request \<Rightarrow> 'w \<times> raw_checksum_response res"
  rk_cas :: "'w \<Rightarrow> 'c \<Rightarrow> rpc_context \<Rightarrow> raw_cas_request \<Rightarrow> 'w \<times> raw_cas_response res"
  rk_coprocessor :: "'w \<Rightarrow> 'c \<Rightarrow> rpc_context \<Rightarrow> raw_coprocessor_request \<Rightarrow> 'w \<times> raw_coprocessor_response res"

text \<open>The client: what it is configured with. The request context and the id of the cluster are left out.\<close>

record raw_client =
  rc_cf :: "column_family option"
  rc_backoff :: backoff
  rc_atomic :: bool
  rc_keyspace :: keyspace

definition new_raw_client :: "keyspace \<Rightarrow> raw_client" where
  "new_raw_client ks = \<lparr>rc_cf = None, rc_backoff = DEFAULT_REGION_BACKOFF, rc_atomic = False, rc_keyspace = ks\<rparr>"

definition with_cf :: "column_family \<Rightarrow> raw_client \<Rightarrow> raw_client" where
  "with_cf cf c = c\<lparr>rc_cf := Some cf\<rparr>"

definition with_backoff :: "backoff \<Rightarrow> raw_client \<Rightarrow> raw_client" where
  "with_backoff b c = c\<lparr>rc_backoff := b\<rparr>"

definition with_atomic_for_cas :: "raw_client \<Rightarrow> raw_client" where
  "with_atomic_for_cas c = c\<lparr>rc_atomic := True\<rparr>"

text \<open>Where the client runs: PD and the runtime, the stores, the text of errors, and the fuel of the plans.\<close>

record ('w, 'c) raw_env =
  re_display :: "error \<Rightarrow> string"
  re_pd :: "('w, 'c) pd_client"
  re_kv :: "('w, 'c) raw_kv"
  re_fuel :: nat

type_synonym ('w, 'a) raw_result = "('w \<times> 'a res) option"

definition raw_key :: "raw_client \<Rightarrow> key \<Rightarrow> key" where
  "raw_key c k = encode_key (rc_keyspace c) Raw k"

text \<open>Running a plan, reading its results and truncating the keyspace out of an error.\<close>

definition raw_plan ::
  "('w, 'c) raw_env \<Rightarrow> raw_client \<Rightarrow> ('w, 'c, ('req, 'c) dispatch_plan, 'sh, 'resp) plan_ops
     \<Rightarrow> ((('req, 'c) dispatch_plan \<times> 'resp res) list \<Rightarrow> 'a res) \<Rightarrow> 'req \<Rightarrow> 'w \<Rightarrow> ('w, 'a) raw_result" where
  "raw_plan env c ops read q w =
     Option.bind (run_plan (re_pd env) ops False (re_fuel env) (rc_backoff c) w (new_dispatch q)) (\<lambda>(w, r).
       map_option (Pair w) (truncate_result (rc_keyspace c) (ok_bind r read)))"

definition read_single :: "('resp \<Rightarrow> 'a) \<Rightarrow> ('p \<times> 'resp res) list \<Rightarrow> 'a res" where
  "read_single process rs = map_sum id process (collect_single (map snd rs))"

definition written_single :: "('resp \<Rightarrow> error list option) \<Rightarrow> ('resp \<Rightarrow> region_error_msg option) \<Rightarrow> ('p \<times> 'resp res) list \<Rightarrow> unit res" where
  "written_single key_errors region_error rs =
     map_sum id (\<lambda>_. ()) (ok_bind (collect_single (map snd rs)) (extract_error_single key_errors region_error))"

definition written ::
  "(error \<Rightarrow> string) \<Rightarrow> ('resp \<Rightarrow> error list option) \<Rightarrow> ('resp \<Rightarrow> region_error_msg option) \<Rightarrow> ('p \<times> 'resp res) list \<Rightarrow> unit res" where
  "written display key_errors region_error rs = map_sum id (\<lambda>_. ()) (extract_error display key_errors region_error (map snd rs))"

subsection \<open>Single keys\<close>

definition raw_get_ops :: "('w, 'c) pd_client \<Rightarrow> ('w, 'c) raw_kv
    \<Rightarrow> ('w, 'c, (raw_get_request, 'c) dispatch_plan, bytes list, raw_get_response) plan_ops" where
  "raw_get_ops pd kv = dispatch_ops (rk_get kv) (single_key_shards (pd_region_for_key pd) rgq_key) raw_get_apply_shard (\<lambda>_ q. q)
     (str_key_errors \<circ> rgs_error) rgs_region_error"

definition raw_get :: "('w, 'c) raw_env \<Rightarrow> raw_client \<Rightarrow> key \<Rightarrow> 'w \<Rightarrow> ('w, val_bytes option) raw_result" where
  "raw_get env c k w = raw_plan env c (raw_get_ops (re_pd env) (re_kv env)) (read_single raw_get_value)
     (new_raw_get_request (raw_key c k) (rc_cf c)) w"

definition raw_get_key_ttl_secs :: "('w, 'c) raw_env \<Rightarrow> raw_client \<Rightarrow> key \<Rightarrow> 'w \<Rightarrow> ('w, u64 option) raw_result" where
  "raw_get_key_ttl_secs env c k w = raw_plan env c
     (dispatch_ops (rk_get_key_ttl (re_kv env)) (single_key_shards (pd_region_for_key (re_pd env)) rtq_key) raw_get_key_ttl_apply_shard
        (\<lambda>_ q. q) (str_key_errors \<circ> rts_error) rts_region_error)
     (read_single raw_key_ttl) (new_raw_get_key_ttl_request (raw_key c k) (rc_cf c)) w"

definition raw_put_ops :: "('w, 'c) pd_client \<Rightarrow> ('w, 'c) raw_kv
    \<Rightarrow> ('w, 'c, (raw_put_request, 'c) dispatch_plan, bytes list, raw_write_response) plan_ops" where
  "raw_put_ops pd kv = dispatch_ops (rk_put kv) (single_key_shards (pd_region_for_key pd) rpq_key) raw_put_apply_shard (\<lambda>_ q. q)
     (str_key_errors \<circ> rws_error) rws_region_error"

definition raw_put_with_ttl :: "('w, 'c) raw_env \<Rightarrow> raw_client \<Rightarrow> key \<Rightarrow> val_bytes \<Rightarrow> u64 \<Rightarrow> 'w \<Rightarrow> ('w, unit) raw_result" where
  "raw_put_with_ttl env c k v ttl w = raw_plan env c (raw_put_ops (re_pd env) (re_kv env))
     (written_single (str_key_errors \<circ> rws_error) rws_region_error)
     (new_raw_put_request (raw_key c k) v (rc_cf c) ttl (rc_atomic c)) w"

definition raw_put :: "('w, 'c) raw_env \<Rightarrow> raw_client \<Rightarrow> key \<Rightarrow> val_bytes \<Rightarrow> 'w \<Rightarrow> ('w, unit) raw_result" where
  "raw_put env c k v w = raw_put_with_ttl env c k v 0 w"

definition raw_delete :: "('w, 'c) raw_env \<Rightarrow> raw_client \<Rightarrow> key \<Rightarrow> 'w \<Rightarrow> ('w, unit) raw_result" where
  "raw_delete env c k w = raw_plan env c
     (dispatch_ops (rk_delete (re_kv env)) (single_key_shards (pd_region_for_key (re_pd env)) rdq_key) raw_delete_apply_shard
        (\<lambda>_ q. q) (str_key_errors \<circ> rws_error) rws_region_error)
     (written_single (str_key_errors \<circ> rws_error) rws_region_error) (new_raw_delete_request (raw_key c k) (rc_cf c) (rc_atomic c)) w"

definition assert_non_atomic :: "raw_client \<Rightarrow> unit res" where
  "assert_non_atomic c = (if \<not> rc_atomic c then Inr () else Inl UnsupportedMode)"

definition assert_atomic :: "raw_client \<Rightarrow> unit res" where
  "assert_atomic c = (if rc_atomic c then Inr () else Inl UnsupportedMode)"

definition guarded_by :: "unit res \<Rightarrow> 'w \<Rightarrow> ('w, 'a) raw_result \<Rightarrow> ('w, 'a) raw_result" where
  "guarded_by r w m = (case r of Inl e \<Rightarrow> Some (w, Inl e) | Inr _ \<Rightarrow> m)"

definition compare_and_swap ::
  "('w, 'c) raw_env \<Rightarrow> raw_client \<Rightarrow> key \<Rightarrow> val_bytes option \<Rightarrow> val_bytes \<Rightarrow> 'w \<Rightarrow> ('w, val_bytes option \<times> bool) raw_result" where
  "compare_and_swap env c k previous v w = guarded_by (assert_atomic c) w (raw_plan env c
     (dispatch_ops (rk_cas (re_kv env)) (single_key_shards (pd_region_for_key (re_pd env)) casq_key) raw_cas_apply_shard
        (\<lambda>_ q. q) (str_key_errors \<circ> cass_error) cass_region_error)
     (read_single raw_cas_result) (new_cas_request (raw_key c k) v previous (rc_cf c)) w)"

subsection \<open>Many keys\<close>

definition raw_batch_get_ops :: "('w, 'c) pd_client \<Rightarrow> ('w, 'c) raw_kv
    \<Rightarrow> ('w, 'c, (raw_batch_get_request, 'c) dispatch_plan, bytes list, raw_batch_get_response) plan_ops" where
  "raw_batch_get_ops pd kv = dispatch_ops (rk_batch_get kv) (raw_batch_get_shards (pd_region_for_key pd)) raw_batch_get_apply_shard
     (\<lambda>_ q. q) (pairs_key_errors \<circ> rbgs_pairs) rbgs_region_error"

definition raw_batch_get :: "('w, 'c) raw_env \<Rightarrow> raw_client \<Rightarrow> key list \<Rightarrow> 'w \<Rightarrow> ('w, kv_pair list) raw_result" where
  "raw_batch_get env c ks w =
     map_option (map_prod id (map_sum id (map (truncate_kv_pair (rc_keyspace c)))))
       (raw_plan env c (raw_batch_get_ops (re_pd env) (re_kv env)) (merge_pairs rbgs_pairs \<circ> map snd)
          (new_raw_batch_get_request (map (raw_key c) ks) (rc_cf c)) w)"

definition raw_batch_put_ops :: "('w, 'c) pd_client \<Rightarrow> ('w, 'c) raw_kv
    \<Rightarrow> ('w, 'c, (raw_batch_put_request, 'c) dispatch_plan, (proto_kv_pair \<times> u64) list, raw_write_response) plan_ops" where
  "raw_batch_put_ops pd kv = dispatch_ops (rk_batch_put kv) (raw_batch_put_shards (pd_region_for_key pd)) raw_batch_put_apply_shard
     (\<lambda>_ q. q) (str_key_errors \<circ> rws_error) rws_region_error"

definition raw_batch_put_with_ttl ::
  "('w, 'c) raw_env \<Rightarrow> raw_client \<Rightarrow> kv_pair list \<Rightarrow> (nat \<Rightarrow> u64 list) \<Rightarrow> 'w \<Rightarrow> ('w, unit) raw_result" where
  "raw_batch_put_with_ttl env c pairs ttls w =
     Option.bind (new_raw_batch_put_request (map (encode_kv_pair (rc_keyspace c) Raw) pairs) ttls (rc_cf c) (rc_atomic c)) (\<lambda>q.
       raw_plan env c (raw_batch_put_ops (re_pd env) (re_kv env)) (written (re_display env) (str_key_errors \<circ> rws_error) rws_region_error) q w)"

definition raw_batch_put :: "('w, 'c) raw_env \<Rightarrow> raw_client \<Rightarrow> kv_pair list \<Rightarrow> 'w \<Rightarrow> ('w, unit) raw_result" where
  "raw_batch_put env c pairs w = raw_batch_put_with_ttl env c pairs (\<lambda>n. replicate n 0) w"

definition raw_batch_delete_ops :: "('w, 'c) pd_client \<Rightarrow> ('w, 'c) raw_kv
    \<Rightarrow> ('w, 'c, (raw_batch_delete_request, 'c) dispatch_plan, bytes list, raw_write_response) plan_ops" where
  "raw_batch_delete_ops pd kv = dispatch_ops (rk_batch_delete kv) (raw_batch_delete_shards (pd_region_for_key pd)) raw_batch_delete_apply_shard
     (\<lambda>_ q. q) (str_key_errors \<circ> rws_error) rws_region_error"

definition raw_batch_delete :: "('w, 'c) raw_env \<Rightarrow> raw_client \<Rightarrow> key list \<Rightarrow> 'w \<Rightarrow> ('w, unit) raw_result" where
  "raw_batch_delete env c ks w = guarded_by (assert_non_atomic c) w
     (raw_plan env c (raw_batch_delete_ops (re_pd env) (re_kv env)) (written (re_display env) (str_key_errors \<circ> rws_error) rws_region_error)
        (new_raw_batch_delete_request (map (raw_key c) ks) (rc_cf c)) w)"

subsection \<open>Ranges\<close>

text \<open>A range whose end is not after its start is answered without a request.\<close>

definition nothing_in_range :: "bound_range \<Rightarrow> bool" where
  "nothing_in_range r = (case into_keys r of (s, Some e) \<Rightarrow> s \<ge> e | (s, None) \<Rightarrow> False)"

definition raw_delete_range_ops :: "('w, 'c) pd_client \<Rightarrow> ('w, 'c) raw_kv
    \<Rightarrow> ('w, 'c, (raw_delete_range_request, 'c) dispatch_plan, key \<times> key, raw_write_response) plan_ops" where
  "raw_delete_range_ops pd kv = (dispatch_ops (rk_delete_range kv) (\<lambda>w q. (w, [])) raw_delete_range_apply_shard (\<lambda>_ q. q)
     (str_key_errors \<circ> rws_error) rws_region_error)\<lparr>op_shards := \<lambda>w p. raw_delete_range_shards (pd_region_for_key pd) w (di_request p)\<rparr>"

definition raw_delete_range :: "('w, 'c) raw_env \<Rightarrow> raw_client \<Rightarrow> bound_range \<Rightarrow> 'w \<Rightarrow> ('w, unit) raw_result" where
  "raw_delete_range env c r w = guarded_by (assert_non_atomic c) w
    (let r = encode_bound_range (rc_keyspace c) Raw r
     in if nothing_in_range r then Some (w, Inr ())
        else raw_plan env c (raw_delete_range_ops (re_pd env) (re_kv env))
          (written (re_display env) (str_key_errors \<circ> rws_error) rws_region_error) (new_raw_delete_range_request r (rc_cf c)) w)"

definition raw_checksum_ops :: "('w, 'c) pd_client \<Rightarrow> ('w, 'c) raw_kv
    \<Rightarrow> ('w, 'c, (raw_checksum_request, 'c) dispatch_plan, key \<times> key, raw_checksum_response) plan_ops" where
  "raw_checksum_ops pd kv = (dispatch_ops (rk_checksum kv) (\<lambda>w q. (w, [])) raw_checksum_apply_shard (\<lambda>_ q. q)
     (str_key_errors \<circ> rcs_error) rcs_region_error)\<lparr>op_shards := \<lambda>w p. raw_checksum_shards (pd_region_for_key pd) w (di_request p)\<rparr>"

definition raw_client_checksum :: "('w, 'c) raw_env \<Rightarrow> raw_client \<Rightarrow> bound_range \<Rightarrow> 'w \<Rightarrow> ('w, raw_checksum) raw_result" where
  "raw_client_checksum env c r w =
    (let r = encode_bound_range (rc_keyspace c) Raw r
     in if nothing_in_range r then Some (w, Inr default_raw_checksum)
        else raw_plan env c (raw_checksum_ops (re_pd env) (re_kv env)) (merge_checksums default_raw_checksum \<circ> map snd)
          (new_raw_checksum_request r) w)"

text \<open>The coprocessor request takes its data from the region it is sent to; \<open>valid_semver\<close> is the parser of
  version requirements.\<close>

definition raw_coprocessor_ops :: "('w, 'c) pd_client \<Rightarrow> ('w, 'c) raw_kv \<Rightarrow> (metapb_region \<Rightarrow> (key \<times> key) list \<Rightarrow> bytes)
    \<Rightarrow> ('w, 'c, (raw_coprocessor_request, 'c) dispatch_plan, key_range list, raw_coprocessor_response) plan_ops" where
  "raw_coprocessor_ops pd kv build =
    (let ops = dispatch_ops (rk_coprocessor kv) (\<lambda>w q. (w, [])) raw_coprocessor_apply_shard (\<lambda>_ q. q)
           (str_key_errors \<circ> cops_error) cops_region_error
     in ops\<lparr>op_shards := \<lambda>w p. group_ranges_by_region (pd_region_for_key pd) w (copq_ranges (di_request p)),
            op_apply_store := \<lambda>st p. ok_bind (op_apply_store ops st p) (\<lambda>p. Inr (p\<lparr>di_request := (di_request p)\<lparr>copq_data :=
              build (rl_region (rst_region st)) (map (\<lambda>r. (kr_start_key r, kr_end_key r)) (copq_ranges (di_request p)))\<rparr>\<rparr>))\<rparr>)"

definition raw_coprocessor ::
  "('w, 'c) raw_env \<Rightarrow> (string \<Rightarrow> bool) \<Rightarrow> raw_client \<Rightarrow> string \<Rightarrow> string \<Rightarrow> bound_range list \<Rightarrow> (metapb_region \<Rightarrow> (key \<times> key) list \<Rightarrow> bytes)
     \<Rightarrow> 'w \<Rightarrow> ('w, ((key \<times> key) list \<times> bytes) list) raw_result" where
  "raw_coprocessor env valid_semver c name version_req ranges build w =
    (if \<not> valid_semver version_req then Some (w, Inl InvalidSemver)
     else map_option (map_prod id (map_sum id (map (map_prod (truncate_ranges (rc_keyspace c)) id))))
       (raw_plan env c (raw_coprocessor_ops (re_pd env) (re_kv env) (\<lambda>region rs. build region (map (truncate_range (rc_keyspace c)) rs)))
          (coprocessor_results \<circ> map (\<lambda>(p, x). map_sum id (\<lambda>resp. (resp, copq_ranges (di_request p))) x))
          (new_raw_coprocessor_request name version_req (map (encode_bound_range (rc_keyspace c) Raw) ranges)) w))"

subsection \<open>Scans\<close>

definition MAX_RAW_KV_SCAN_LIMIT :: u32 where "MAX_RAW_KV_SCAN_LIMIT = 10240"

record scan_inner_args =
  sa_start_key :: key
  sa_end_key :: "key option"
  sa_limit :: u32
  sa_key_only :: bool
  sa_reverse :: bool
  sa_backoff :: backoff

definition do_store_scan ::
  "('w, 'c) raw_env \<Rightarrow> 'c region_store \<Rightarrow> raw_scan_request \<Rightarrow> 'w \<Rightarrow> 'w \<times> raw_scan_response res" where
  "do_store_scan env st q w =
    (case apply_to_request st (default_context\<lparr>ctx_request_source := ''unknown''\<rparr>) of
       Inl e \<Rightarrow> (w, Inl e)
     | Inr ctx \<Rightarrow> rk_scan (re_kv env) w (rst_client st) ctx q)"

primrec retryable_scan ::
  "('w, 'c) raw_env \<Rightarrow> raw_client \<Rightarrow> nat \<Rightarrow> scan_inner_args \<Rightarrow> 'w \<Rightarrow> ('w, raw_scan_response \<times> key) raw_result" where
  "retryable_scan env c 0 = (\<lambda>args w. None)"
| "retryable_scan env c (Suc fuel) = (\<lambda>args w.
    case pd_region_for_key (re_pd env) w (sa_start_key args) of
      (w, Inl e) \<Rightarrow> Some (w, Inl e)
    | (w, Inr region) \<Rightarrow>
       (case store_for_id (re_pd env) w (region_id region) of
          (w, Inl e) \<Rightarrow> Some (w, Inl e)
        | (w, Inr st) \<Rightarrow>
           (case do_store_scan env st (new_raw_scan_request (from_opt_pair (sa_start_key args) (sa_end_key args)) (sa_limit args)
                   (sa_key_only args) (sa_reverse args) (rc_cf c)) w of
              (w, Inl e) \<Rightarrow> Some (w, Inl e)
            | (w, Inr r) \<Rightarrow>
               (case rss_region_error r of
                  None \<Rightarrow> Some (w, Inr (r, end_key region))
                | Some err \<Rightarrow>
                   (case handle_region_error (re_pd env) w err st of
                      (w, Inl e) \<Rightarrow> Some (w, Inl e)
                    | (w, Inr True) \<Rightarrow> retryable_scan env c fuel args w
                    | (w, Inr False) \<Rightarrow>
                       (case next_delay_duration (rt_rnd (re_pd env) w) (sa_backoff args) of
                          None \<Rightarrow> None
                        | Some (b, Some d) \<Rightarrow> retryable_scan env c fuel (args\<lparr>sa_backoff := b\<rparr>) (rt_sleep (re_pd env) w d)
                        | Some (b, None) \<Rightarrow> Some (w, Inl (RegionError err))))))))"

text \<open>The loop over the regions of a scan. The limit that is left is a \<open>u32\<close> and the subtraction wraps, as it does
  in a release build.\<close>

primrec raw_scan_loop ::
  "('w, 'c) raw_env \<Rightarrow> raw_client \<Rightarrow> key option \<Rightarrow> bool \<Rightarrow> bool \<Rightarrow> nat \<Rightarrow> key \<Rightarrow> u32 \<Rightarrow> kv_pair list \<Rightarrow> 'w \<Rightarrow> ('w, kv_pair list) raw_result" where
  "raw_scan_loop env c stop key_only rev_ord 0 = (\<lambda>current limit result w. None)"
| "raw_scan_loop env c stop key_only rev_ord (Suc fuel) = (\<lambda>current limit result w.
    if limit = 0 then Some (w, Inr result)
    else
     (case retryable_scan env c (re_fuel env) \<lparr>sa_start_key = current, sa_end_key = stop, sa_limit = limit, sa_key_only = key_only,
             sa_reverse = rev_ord, sa_backoff = rc_backoff c\<rparr> w of
        None \<Rightarrow> None
      | Some (w, Inl e) \<Rightarrow> Some (w, Inl e)
      | Some (w, Inr (r, next)) \<Rightarrow>
         (let kvs = map raw_pair_from (rss_kvs r);
              limit = (if kvs = [] then limit else limit - of_nat (length kvs));
              result = result @ kvs
          in if (case stop of None \<Rightarrow> False | Some e \<Rightarrow> e \<le> next) then Some (w, Inr result)
             else raw_scan_loop env c stop key_only rev_ord fuel next limit result w)))"

definition raw_scan_inner ::
  "('w, 'c) raw_env \<Rightarrow> raw_client \<Rightarrow> nat \<Rightarrow> bound_range \<Rightarrow> u32 \<Rightarrow> bool \<Rightarrow> bool \<Rightarrow> 'w \<Rightarrow> ('w, kv_pair list) raw_result" where
  "raw_scan_inner env c fuel r limit key_only rev_ord w =
    (if limit > MAX_RAW_KV_SCAN_LIMIT then Some (w, Inl (MaxScanLimitExceeded limit MAX_RAW_KV_SCAN_LIMIT))
     else case into_keys (encode_bound_range (rc_keyspace c) Raw r) of (start, stop) \<Rightarrow>
       map_option (map_prod id (map_sum id (\<lambda>kvs. truncate_kv_pairs (rc_keyspace c) (take (unat limit) kvs))))
         (raw_scan_loop env c stop key_only rev_ord fuel start limit [] w))"

definition raw_scan :: "('w, 'c) raw_env \<Rightarrow> raw_client \<Rightarrow> nat \<Rightarrow> bound_range \<Rightarrow> u32 \<Rightarrow> 'w \<Rightarrow> ('w, kv_pair list) raw_result" where
  "raw_scan env c fuel r limit w = raw_scan_inner env c fuel r limit False False w"

definition raw_scan_reverse :: "('w, 'c) raw_env \<Rightarrow> raw_client \<Rightarrow> nat \<Rightarrow> bound_range \<Rightarrow> u32 \<Rightarrow> 'w \<Rightarrow> ('w, kv_pair list) raw_result" where
  "raw_scan_reverse env c fuel r limit w = raw_scan_inner env c fuel r limit False True w"

definition raw_scan_keys :: "('w, 'c) raw_env \<Rightarrow> raw_client \<Rightarrow> nat \<Rightarrow> bound_range \<Rightarrow> u32 \<Rightarrow> 'w \<Rightarrow> ('w, key list) raw_result" where
  "raw_scan_keys env c fuel r limit w = map_option (map_prod id (map_sum id (map kp_key))) (raw_scan_inner env c fuel r limit True False w)"

definition raw_scan_keys_reverse :: "('w, 'c) raw_env \<Rightarrow> raw_client \<Rightarrow> nat \<Rightarrow> bound_range \<Rightarrow> u32 \<Rightarrow> 'w \<Rightarrow> ('w, key list) raw_result" where
  "raw_scan_keys_reverse env c fuel r limit w = map_option (map_prod id (map_sum id (map kp_key))) (raw_scan_inner env c fuel r limit True True w)"

text \<open>\<open>try_join_all\<close> over the ranges; the scans are run one after the other, and the first error ends them.\<close>

fun raw_scan_all ::
  "('w, 'c) raw_env \<Rightarrow> raw_client \<Rightarrow> nat \<Rightarrow> bool \<Rightarrow> u32 \<Rightarrow> bound_range list \<Rightarrow> 'w \<Rightarrow> ('w, kv_pair list) raw_result" where
  "raw_scan_all env c fuel key_only limit [] w = Some (w, Inr [])"
| "raw_scan_all env c fuel key_only limit (r # rs) w =
    (case raw_scan_inner env c fuel r limit key_only False w of
       None \<Rightarrow> None
     | Some (w, Inl e) \<Rightarrow> Some (w, Inl e)
     | Some (w, Inr kvs) \<Rightarrow> map_option (map_prod id (map_sum id (\<lambda>more. kvs @ more))) (raw_scan_all env c fuel key_only limit rs w))"

definition raw_batch_scan_inner ::
  "('w, 'c) raw_env \<Rightarrow> raw_client \<Rightarrow> nat \<Rightarrow> bound_range list \<Rightarrow> u32 \<Rightarrow> bool \<Rightarrow> 'w \<Rightarrow> ('w, kv_pair list) raw_result" where
  "raw_batch_scan_inner env c fuel rs each_limit key_only w =
    (if each_limit > MAX_RAW_KV_SCAN_LIMIT then Some (w, Inl (MaxScanLimitExceeded each_limit MAX_RAW_KV_SCAN_LIMIT))
     else raw_scan_all env c fuel key_only each_limit rs w)"

definition raw_batch_scan ::
  "('w, 'c) raw_env \<Rightarrow> raw_client \<Rightarrow> nat \<Rightarrow> bound_range list \<Rightarrow> u32 \<Rightarrow> 'w \<Rightarrow> ('w, kv_pair list) raw_result" where
  "raw_batch_scan env c fuel rs each_limit w = raw_batch_scan_inner env c fuel rs each_limit False w"

definition raw_batch_scan_keys ::
  "('w, 'c) raw_env \<Rightarrow> raw_client \<Rightarrow> nat \<Rightarrow> bound_range list \<Rightarrow> u32 \<Rightarrow> 'w \<Rightarrow> ('w, key list) raw_result" where
  "raw_batch_scan_keys env c fuel rs each_limit w =
     map_option (map_prod id (map_sum id (map kp_key))) (raw_batch_scan_inner env c fuel rs each_limit True w)"

end
