(* ===== verification/Raw_Store.thy ===== *)
theory Raw_Store
  imports Raw_Client Example_Client
begin

text \<open>
  The stores as a map: for each column family the pairs in the order of their keys. This is what the documentation of the raw API
  promises of the servers, written as functions over the requests of the client. On it the operations of the client on single
  keys are shown to be those of a map from the keys of its keyspace and its column family.
\<close>

type_synonym raw_data = "string \<Rightarrow> (bytes \<times> bytes) list"

definition raw_written :: raw_write_response where
  "raw_written = \<lparr>rws_region_error = None, rws_error = []\<rparr>"

definition pair_msg :: "bytes \<times> bytes \<Rightarrow> proto_kv_pair" where
  "pair_msg p = \<lparr>kv_error = None, kv_key = fst p, kv_value = snd p, kv_commit_ts = 0\<rparr>"

definition in_scan :: "key \<Rightarrow> key \<Rightarrow> proto_kv_pair \<Rightarrow> bool" where
  "in_scan s e p \<longleftrightarrow> in_half_open s e (kv_key p)"

definition map_get :: "raw_data \<Rightarrow> 'c \<Rightarrow> rpc_context \<Rightarrow> raw_get_request \<Rightarrow> raw_data \<times> raw_get_response res" where
  "map_get m c ctx q = (m, Inr (case bt_get (m (rgq_cf q)) (rgq_key q) of
     None \<Rightarrow> \<lparr>rgs_region_error = None, rgs_error = [], rgs_value = [], rgs_not_found = True\<rparr>
   | Some v \<Rightarrow> \<lparr>rgs_region_error = None, rgs_error = [], rgs_value = v, rgs_not_found = False\<rparr>))"

definition map_batch_get :: "raw_data \<Rightarrow> 'c \<Rightarrow> rpc_context \<Rightarrow> raw_batch_get_request \<Rightarrow> raw_data \<times> raw_batch_get_response res" where
  "map_batch_get m c ctx q = (m, Inr \<lparr>rbgs_region_error = None, rbgs_pairs = map pair_msg (List.map_filter (\<lambda>k.
     map_option (Pair k) (bt_get (m (rbgq_cf q)) k)) (rbgq_keys q))\<rparr>)"

definition map_put :: "raw_data \<Rightarrow> 'c \<Rightarrow> rpc_context \<Rightarrow> raw_put_request \<Rightarrow> raw_data \<times> raw_write_response res" where
  "map_put m c ctx q = (m(rpq_cf q := bt_insert (rpq_key q) (rpq_value q) (m (rpq_cf q))), Inr raw_written)"

definition map_batch_put :: "raw_data \<Rightarrow> 'c \<Rightarrow> rpc_context \<Rightarrow> raw_batch_put_request \<Rightarrow> raw_data \<times> raw_write_response res" where
  "map_batch_put m c ctx q = (m(rbpq_cf q := fold (\<lambda>p. bt_insert (kv_key p) (kv_value p)) (rbpq_pairs q) (m (rbpq_cf q))), Inr raw_written)"

definition map_delete :: "raw_data \<Rightarrow> 'c \<Rightarrow> rpc_context \<Rightarrow> raw_delete_request \<Rightarrow> raw_data \<times> raw_write_response res" where
  "map_delete m c ctx q = (m(rdq_cf q := bt_remove (rdq_key q) (m (rdq_cf q))), Inr raw_written)"

definition map_batch_delete :: "raw_data \<Rightarrow> 'c \<Rightarrow> rpc_context \<Rightarrow> raw_batch_delete_request \<Rightarrow> raw_data \<times> raw_write_response res" where
  "map_batch_delete m c ctx q = (m(rbdq_cf q := fold bt_remove (rbdq_keys q) (m (rbdq_cf q))), Inr raw_written)"

definition map_delete_range :: "raw_data \<Rightarrow> 'c \<Rightarrow> rpc_context \<Rightarrow> raw_delete_range_request \<Rightarrow> raw_data \<times> raw_write_response res" where
  "map_delete_range m c ctx q =
     (m(rrq_cf q := filter (\<lambda>p. \<not> in_half_open (rrq_start_key q) (rrq_end_key q) (fst p)) (m (rrq_cf q))), Inr raw_written)"

text \<open>A scan is answered from the region that the request names; \<open>rng\<close> is the range of the region with an id. A reverse
  scan has its upper bound in the field of the start key.\<close>

definition map_scan :: "(u64 \<Rightarrow> key \<times> key) \<Rightarrow> raw_data \<Rightarrow> 'c \<Rightarrow> rpc_context \<Rightarrow> raw_scan_request \<Rightarrow> raw_data \<times> raw_scan_response res" where
  "map_scan rng m c ctx q =
    (let lo = (if rsq_reverse q then rsq_end_key q else rsq_start_key q); hi = (if rsq_reverse q then rsq_start_key q else rsq_end_key q);
         (rs, re) = rng (ctx_region_id ctx);
         ps = filter (\<lambda>p. in_scan rs re p \<and> in_scan lo hi p) (map pair_msg (m (rsq_cf q)))
     in (m, Inr \<lparr>rss_region_error = None, rss_kvs = take (unat (rsq_limit q)) (if rsq_reverse q then rev ps else ps)\<rparr>))"

definition map_cas :: "raw_data \<Rightarrow> 'c \<Rightarrow> rpc_context \<Rightarrow> raw_cas_request \<Rightarrow> raw_data \<times> raw_cas_response res" where
  "map_cas m c ctx q =
    (let prev = bt_get (m (casq_cf q)) (casq_key q);
         swap = (prev = (if casq_previous_not_exist q then None else Some (casq_previous_value q)))
     in (if swap then m(casq_cf q := bt_insert (casq_key q) (casq_value q) (m (casq_cf q))) else m,
         Inr \<lparr>cass_region_error = None, cass_error = [], cass_succeed = swap, cass_previous_not_exist = (prev = None),
           cass_previous_value = (case prev of None \<Rightarrow> [] | Some v \<Rightarrow> v)\<rparr>))"

text \<open>Keys without a time to live, no checksums and no coprocessors.\<close>

definition map_kv :: "(u64 \<Rightarrow> key \<times> key) \<Rightarrow> (raw_data, 'c) raw_kv" where
  "map_kv rng = \<lparr>rk_get = map_get, rk_batch_get = map_batch_get,
     rk_get_key_ttl = (\<lambda>m c ctx q. (m, Inr \<lparr>rts_region_error = None, rts_error = [], rts_ttl = 0,
       rts_not_found = (bt_get (m (rtq_cf q)) (rtq_key q) = None)\<rparr>)),
     rk_put = map_put, rk_batch_put = map_batch_put, rk_delete = map_delete, rk_batch_delete = map_batch_delete,
     rk_delete_range = map_delete_range, rk_scan = map_scan rng,
     rk_checksum = (\<lambda>m c ctx q. (m, Inl Unimplemented)), rk_cas = map_cas, rk_coprocessor = (\<lambda>m c ctx q. (m, Inl Unimplemented))\<rparr>"

definition raw_data_inv :: "raw_data \<Rightarrow> bool" where
  "raw_data_inv m \<longleftrightarrow> (\<forall>cf. bt_inv (m cf))"

text \<open>What a client sees of the data.\<close>

definition raw_view :: "raw_client \<Rightarrow> raw_data \<Rightarrow> key \<Rightarrow> val_bytes option" where
  "raw_view c m k = bt_get (m (cf_field (rc_cf c))) (raw_key c k)"

lemma raw_key_inj [simp]: "raw_key c a = raw_key c b \<longleftrightarrow> a = b"
  unfolding raw_key_def by (metis truncate_encode_key)

text \<open>One shard, one answer, no resolution of locks.\<close>

lemma plain_raw_run:
  fixes kv :: "'w \<Rightarrow> unit \<Rightarrow> rpc_context \<Rightarrow> 'req \<Rightarrow> 'w \<times> 'resp res"
  assumes "shards w q = (w, [Inr (sh, one_region)])"
    and "\<And>ctx. kv w () ctx (req_store 0 (apply_shard sh q)) = (w', Inr resp)" "key_errors resp = None" "region_error resp = None"
  shows "\<exists>p. run_plan (plain_client ts) (dispatch_ops kv shards apply_shard req_store key_errors region_error) preserve (Suc fuel) rb w
      (new_dispatch q) = Some (w', Inr [(p, Inr resp)])"
  using assms
  by (simp add: run_plan_def retry_multi_region_def dispatch_ops_def dispatch_execute_def new_dispatch_def
      single_shard_step_def attach_store_def fresh_routing_def select_peer_def select_peer_inner_def default_read_routing_def
      one_region_def demo_peer_def Let_def select_target_def request_source_override_def new_region_store_def apply_to_request_def
      apply_pending_def get_store_id_def take_pending_backoff_for_retry_def take_for_retry_def in_order_def
      on_response_def region_id_def)

definition on_map :: "(raw_data, unit) raw_env \<Rightarrow> bool" where
  "on_map env \<longleftrightarrow> (\<exists>ts rng. re_pd env = plain_client ts \<and> re_kv env = map_kv rng) \<and> re_fuel env \<noteq> 0"

lemma on_mapE:
  assumes "on_map env"
  obtains ts rng fuel where "re_pd env = plain_client ts" "re_kv env = map_kv rng" "re_fuel env = Suc fuel"
  using assms unfolding on_map_def by (metis not0_implies_Suc)

lemma plain_single_key: "single_key_shards (pd_region_for_key (plain_client ts)) key_of w q = (w, [Inr ([key_of q], one_region)])"
  by (simp add: single_key_shards_def group_one_region)

lemma plain_raw_plan:
  fixes kv :: "raw_data \<Rightarrow> unit \<Rightarrow> rpc_context \<Rightarrow> 'req \<Rightarrow> raw_data \<times> 'resp res"
  assumes "re_pd env = plain_client ts" "re_fuel env = Suc fuel"
    and "\<And>ctx. kv m () ctx (apply_shard [key_of q] q) = (m', Inr resp)" "key_errors resp = None" "region_error resp = None"
  shows "\<exists>p. raw_plan env c (dispatch_ops kv (single_key_shards (pd_region_for_key (plain_client ts)) key_of) apply_shard (\<lambda>_ q. q)
      key_errors region_error) read q m = map_option (Pair m') (truncate_result (rc_keyspace c) (read [(p, Inr resp)]))"
proof -
  obtain p where "run_plan (plain_client ts) (dispatch_ops kv (single_key_shards (pd_region_for_key (plain_client ts)) key_of) apply_shard (\<lambda>_ q. q)
      key_errors region_error) False (Suc fuel) (rc_backoff c) m (new_dispatch q) = Some (m', Inr [(p, Inr resp)])"
    using plain_raw_run [where shards = "single_key_shards (pd_region_for_key (plain_client ts)) key_of" and kv = kv and req_store = "\<lambda>_ q. q",
        OF plain_single_key] assms(3-5) by metis
  then show ?thesis using assms(1,2) by (auto simp: raw_plan_def)
qed

lemma pop_single [simp]: "pop_key [k] = k"
  by (simp add: pop_key_def)

lemmas raw_single_defs = written_single_def read_single_def collect_single_def extract_error_single_def truncate_result_def str_key_errors_def
  raw_written_def

lemma raw_get_map:
  assumes "on_map env"
  shows "raw_get env c k m = Some (m, Inr (raw_view c m k))"
proof -
  obtain ts rng fuel where e: "re_pd env = plain_client ts" "re_kv env = map_kv rng" "re_fuel env = Suc fuel" using assms by (rule on_mapE)
  let ?q = "new_raw_get_request (raw_key c k) (rc_cf c)"
  let ?resp = "case raw_view c m k of None \<Rightarrow> \<lparr>rgs_region_error = None, rgs_error = [], rgs_value = [], rgs_not_found = True\<rparr>
   | Some v \<Rightarrow> \<lparr>rgs_region_error = None, rgs_error = [], rgs_value = v, rgs_not_found = False\<rparr>"
  have "map_get m () ctx (raw_get_apply_shard [rgq_key ?q] ?q) = (m, Inr ?resp)" for ctx
    by (simp add: map_get_def raw_get_apply_shard_def new_raw_get_request_def raw_view_def)
  from plain_raw_plan [where kv = map_get and apply_shard = raw_get_apply_shard and key_of = rgq_key and q = ?q and key_errors = "str_key_errors \<circ> rgs_error"
      and region_error = rgs_region_error and read = "read_single raw_get_value" and c = c, OF e(1,3) this]
  show ?thesis by (cases "raw_view c m k") (auto simp: raw_get_def raw_get_ops_def e map_kv_def raw_single_defs raw_get_value_def)
qed

lemma raw_put_map:
  assumes "on_map env"
  shows "raw_put env c k v m = Some (m(cf_field (rc_cf c) := bt_insert (raw_key c k) v (m (cf_field (rc_cf c)))), Inr ())"
proof -
  obtain ts rng fuel where e: "re_pd env = plain_client ts" "re_kv env = map_kv rng" "re_fuel env = Suc fuel" using assms by (rule on_mapE)
  let ?q = "new_raw_put_request (raw_key c k) v (rc_cf c) 0 (rc_atomic c)"
  have "map_put m () ctx (raw_put_apply_shard [rpq_key ?q] ?q)
      = (m(cf_field (rc_cf c) := bt_insert (raw_key c k) v (m (cf_field (rc_cf c)))), Inr raw_written)" for ctx
    by (simp add: map_put_def raw_put_apply_shard_def new_raw_put_request_def)
  from plain_raw_plan [where kv = map_put and apply_shard = raw_put_apply_shard and key_of = rpq_key and q = ?q and key_errors = "str_key_errors \<circ> rws_error"
      and region_error = rws_region_error and read = "written_single (str_key_errors \<circ> rws_error) rws_region_error" and c = c, OF e(1,3) this]
  show ?thesis by (auto simp: raw_put_def raw_put_with_ttl_def raw_put_ops_def e map_kv_def raw_single_defs)
qed

lemma raw_delete_map:
  assumes "on_map env"
  shows "raw_delete env c k m = Some (m(cf_field (rc_cf c) := bt_remove (raw_key c k) (m (cf_field (rc_cf c)))), Inr ())"
proof -
  obtain ts rng fuel where e: "re_pd env = plain_client ts" "re_kv env = map_kv rng" "re_fuel env = Suc fuel" using assms by (rule on_mapE)
  let ?q = "new_raw_delete_request (raw_key c k) (rc_cf c) (rc_atomic c)"
  have "map_delete m () ctx (raw_delete_apply_shard [rdq_key ?q] ?q)
      = (m(cf_field (rc_cf c) := bt_remove (raw_key c k) (m (cf_field (rc_cf c)))), Inr raw_written)" for ctx
    by (simp add: map_delete_def raw_delete_apply_shard_def new_raw_delete_request_def)
  from plain_raw_plan [where kv = map_delete and apply_shard = raw_delete_apply_shard and key_of = rdq_key and q = ?q and key_errors = "str_key_errors \<circ> rws_error"
      and region_error = rws_region_error and read = "written_single (str_key_errors \<circ> rws_error) rws_region_error" and c = c, OF e(1,3) this]
  show ?thesis by (auto simp: raw_delete_def e map_kv_def raw_single_defs)
qed

lemma raw_cas_map:
  assumes "on_map env" "rc_atomic c"
  shows "compare_and_swap env c k previous v m = Some (if raw_view c m k = previous
      then m(cf_field (rc_cf c) := bt_insert (raw_key c k) v (m (cf_field (rc_cf c)))) else m, Inr (raw_view c m k, raw_view c m k = previous))"
proof -
  obtain ts rng fuel where e: "re_pd env = plain_client ts" "re_kv env = map_kv rng" "re_fuel env = Suc fuel" using assms(1) by (rule on_mapE)
  let ?q = "new_cas_request (raw_key c k) v previous (rc_cf c)"
  let ?old = "raw_view c m k"
  let ?resp = "\<lparr>cass_region_error = None, cass_error = [], cass_succeed = (?old = previous), cass_previous_not_exist = (?old = None),
           cass_previous_value = (case ?old of None \<Rightarrow> [] | Some v \<Rightarrow> v)\<rparr>"
  have "(if casq_previous_not_exist ?q then None else Some (casq_previous_value ?q)) = previous"
    by (cases previous) (simp_all add: new_cas_request_def)
  then have "map_cas m () ctx (raw_cas_apply_shard [casq_key ?q] ?q)
      = (if ?old = previous then m(cf_field (rc_cf c) := bt_insert (raw_key c k) v (m (cf_field (rc_cf c)))) else m, Inr ?resp)" for ctx
    by (simp add: map_cas_def raw_cas_apply_shard_def Let_def) (simp add: new_cas_request_def raw_view_def)
  from plain_raw_plan [where kv = map_cas and apply_shard = raw_cas_apply_shard and key_of = casq_key and q = ?q and key_errors = "str_key_errors \<circ> cass_error"
      and region_error = cass_region_error and read = "read_single raw_cas_result" and c = c, OF e(1,3) this]
  show ?thesis using assms(2)
    by (cases ?old) (auto simp: compare_and_swap_def guarded_by_def assert_atomic_def e map_kv_def raw_single_defs raw_cas_result_def)
qed

lemma raw_keys_apart:
  assumes "rc_keyspace c = Enable i" "rc_keyspace c' = Enable j" "i \<le> MAX_KEYSPACE_ID" "j \<le> MAX_KEYSPACE_ID" "i \<noteq> j"
  shows "raw_key c a \<noteq> raw_key c' b"
  using assms keyspace_prefix_eq_iff [OF assms(3,4), of Raw Raw] by (simp add: raw_key_def encode_key_Enable append_eq_append_conv)

text \<open>Two clients that do not see each other's keys: they differ in the column family, or in the keyspace.\<close>

definition apart :: "raw_client \<Rightarrow> raw_client \<Rightarrow> bool" where
  "apart c c' \<longleftrightarrow> cf_field (rc_cf c) \<noteq> cf_field (rc_cf c') \<or> (case (rc_keyspace c, rc_keyspace c') of
     (Enable i, Enable j) \<Rightarrow> i \<le> MAX_KEYSPACE_ID \<and> j \<le> MAX_KEYSPACE_ID \<and> i \<noteq> j | _ \<Rightarrow> False)"

lemma apart_keys: "apart c c' \<Longrightarrow> cf_field (rc_cf c) = cf_field (rc_cf c') \<Longrightarrow> raw_key c' b \<noteq> raw_key c a"
  using raw_keys_apart by (fastforce simp: apart_def split: keyspace.splits)

lemma raw_view_upd:
  assumes "raw_data_inv m"
  shows "raw_view c (m(cf_field (rc_cf c) := bt_insert (raw_key c k) v (m (cf_field (rc_cf c))))) = (raw_view c m)(k \<mapsto> v)"
    and "raw_view c (m(cf_field (rc_cf c) := bt_remove (raw_key c k) (m (cf_field (rc_cf c))))) = (raw_view c m)(k := None)"
    and "apart c c' \<Longrightarrow> raw_view c' (m(cf_field (rc_cf c) := bt_insert (raw_key c k) v (m (cf_field (rc_cf c))))) = raw_view c' m"
    and "apart c c' \<Longrightarrow> raw_view c' (m(cf_field (rc_cf c) := bt_remove (raw_key c k) (m (cf_field (rc_cf c))))) = raw_view c' m"
  using assms apart_keys [of c c' _ k] by (auto simp: raw_view_def fun_eq_iff raw_data_inv_def bt_get_insert bt_get_remove)

lemma raw_data_inv_upd:
  "raw_data_inv m \<Longrightarrow> raw_data_inv (m(cf := bt_insert k v (m cf)))" "raw_data_inv m \<Longrightarrow> raw_data_inv (m(cf := bt_remove k (m cf)))"
  by (simp_all add: raw_data_inv_def bt_inv_insert bt_inv_remove)


definition map_env :: "(u64 \<Rightarrow> key \<times> key) \<Rightarrow> (raw_data, unit) raw_env" where
  "map_env rng = \<lparr>re_display = (\<lambda>_. []), re_pd = plain_client (from_version 9), re_kv = map_kv rng, re_fuel = 1\<rparr>"

lemma map_env_on_map: "on_map (map_env rng)"
  unfolding on_map_def map_env_def by auto


end
