(* ===== verification/Raw_Props.thy ===== *)
theory Raw_Props
  imports Raw_Store Commit_Gaps
begin

text \<open>
  What the raw client guarantees beyond single keys: a batch read is answered for every key, the checksums of the regions make
  up the checksum of the range, and a scan returns the first pairs of its range while the range ends before the
  last region; and where it does not: batches that are never sent and scans that run past the last region.
\<close>

subsection \<open>Batches that are not sent\<close>

lemma lost_raw_plan:
  assumes "shards w q = (w, [])"
  shows "run_plan (lost_client e ts) (dispatch_ops f shards apply_shard req_store key_errors region_error) False (Suc fuel) b w (new_dispatch q)
    = Some (w, Inr [])"
  using assms by (simp add: run_plan_def retry_multi_region_def dispatch_ops_def new_dispatch_def)

text \<open>While no region can be looked up, writing or deleting a batch of keys succeeds without sending a single request: the
  error of the lookup is dropped and the caller is told that the batch was written.\<close>

theorem raw_batch_without_requests:
  assumes "re_pd env = lost_client e ts" "re_fuel env = Suc fuel"
  shows "raw_batch_put env c pairs w = Some (w, Inr ())
    \<and> (\<not> rc_atomic c \<longrightarrow> raw_batch_delete env c ks w = Some (w, Inr ()))"
proof -
  have "raw_batch_put_shards (pd_region_for_key (lost_client e ts)) w q = (w, [])" for q
    by (simp add: raw_batch_put_shards_def sorted_groups_failed [of _ e])
  moreover have "raw_batch_delete_shards (pd_region_for_key (lost_client e ts)) w q = (w, [])" for q
    by (simp add: raw_batch_delete_shards_def sorted_groups_failed [of _ e])
  ultimately show ?thesis using assms
    by (simp add: raw_batch_put_def raw_batch_put_with_ttl_def new_raw_batch_put_request_def Let_def raw_batch_delete_def guarded_by_def
        assert_non_atomic_def raw_plan_def raw_batch_put_ops_def raw_batch_delete_ops_def lost_raw_plan written_def extract_error_def
        list_region_errors_def oks_def List.map_filter_def truncate_result_def)
qed

theorem raw_batch_without_requests_witness:
  "\<exists>env :: (unit, unit) raw_env. re_fuel env = 1
     \<and> raw_batch_put env (new_raw_client Disable) [new_kv_pair [1] [2]] () = Some ((), Inr ())"
proof -
  obtain env :: "(unit, unit) raw_env" where "re_pd env = lost_client NoCurrentRegions (from_version 9)" "re_fuel env = Suc 0"
    by (metis raw_env.select_convs(2,4))
  with raw_batch_without_requests [of env NoCurrentRegions "from_version 9" 0 "new_raw_client Disable" "[new_kv_pair [1] [2]]" "()" "[]"]
  show ?thesis by auto
qed

subsection \<open>Batch reads\<close>

definition lift_raw_kv :: "('u, 'c) raw_kv \<Rightarrow> ('u client_world, 'c) raw_kv" where
  "lift_raw_kv kv = \<lparr>rk_get = rpc (rk_get kv), rk_batch_get = rpc (rk_batch_get kv), rk_get_key_ttl = rpc (rk_get_key_ttl kv),
     rk_put = rpc (rk_put kv), rk_batch_put = rpc (rk_batch_put kv), rk_delete = rpc (rk_delete kv), rk_batch_delete = rpc (rk_batch_delete kv),
     rk_delete_range = rpc (rk_delete_range kv), rk_scan = rpc (rk_scan kv), rk_checksum = rpc (rk_checksum kv), rk_cas = rpc (rk_cas kv),
     rk_coprocessor = rpc (rk_coprocessor kv)\<rparr>"

sublocale region_source \<subseteq> raw_batch_get_sh: lossless_shardable inv "raw_batch_get_shards lookup" raw_batch_get_apply_shard rbgq_keys "\<lambda>k. k"
  by unfold_locales (use keys_sh.shards_inv keys_sh.shards_region [where key_of = "\<lambda>k :: key. k"]
      keys_sh.shards_part [where key_of = "\<lambda>k :: key. k"] keys_sh.shards_complete [where key_of = "\<lambda>k :: key. k"]
    in \<open>auto simp: raw_batch_get_shards_def raw_batch_get_apply_shard_def\<close>)

sublocale region_source \<subseteq> raw_batch_get_tsh: tagged_shardable inv "raw_batch_get_shards lookup" raw_batch_get_apply_shard
  rbgq_keys "\<lambda>k. k" rbgq_cf
  by unfold_locales (simp add: raw_batch_get_apply_shard_def)

interpretation rpc_raw_batch_get: lossless_client_request "pd_rpc_client enable_codec out" "client_inv enable_codec"
  "raw_batch_get_shards (pd_region_for_key (pd_rpc_client enable_codec out))" raw_batch_get_apply_shard "tagged rbgq_cf rbgq_keys" "\<lambda>x. snd x"
  "\<lambda>_ q. q" "rpc (rk_batch_get kv)" "\<lambda>w ls. None"
  for enable_codec out kv
  by unfold_locales (simp_all add: client_inv_rpc)

text \<open>The answers of a plan without lock resolution.\<close>

lemma all_answered_plainI:
  assumes "covered (\<lambda>p. items (di_request p)) rs = mset xs"
    and "list_all (answered (dispatch_ops (rpc kv) shards apply_shard req_store key_errors region_error)) rs"
    and "map snd rs = map Inr resps"
    and "\<And>r. key_errors r = None \<Longrightarrow> region_error r = None \<Longrightarrow> ok r"
  shows "all_answered kv items ok xs (zip (map fst rs) resps)"
proof -
  have rs: "rs = map (\<lambda>(p, resp). (p, Inr resp)) (zip (map fst rs) resps)"
    using assms(3) by (induction rs arbitrary: resps) (auto simp: Cons_eq_map_conv)
  have "ok resp \<and> (\<exists>u client u'. kv u client (di_context p) (di_request p) = (u', Inr resp))"
    if "(p, resp) \<in> set (zip (map fst rs) resps)" for p resp
  proof -
    have "(p, Inr resp) \<in> set rs" using that by (subst rs) force
    then have a: "answered (dispatch_ops (rpc kv) shards apply_shard req_store key_errors region_error) (p, Inr resp)"
      using assms(2) by (auto simp: list_all_iff)
    then obtain s s' where "dispatch_execute (rpc kv) s p = Some (s', Inr resp)" by (auto simp: answered_def dispatch_ops_def)
    from dispatch_execute_answer [OF this] obtain client w w' where "rpc kv w client (di_context p) (di_request p) = (w', Inr resp)" by blast
    then show ?thesis using a assms(4) [of resp] rpc_answer by (fastforce simp: answered_def dispatch_ops_def)
  qed
  moreover have "concat (map (items \<circ> di_request \<circ> fst) (zip (map fst rs) resps)) = concat (map ((\<lambda>p. items (di_request p)) \<circ> fst) rs)"
    by (subst (2) rs) (simp add: comp_def case_prod_unfold)
  ultimately show ?thesis using assms(1) by (auto simp: all_answered_def covered_def list_all_iff)
qed

text \<open>C14: A batch read that succeeds was answered for every key: the requests that the stores answered, each without an
  error, hold exactly the keys that were asked for, in the column family of the client, and the result is the
  pairs of all the answers.\<close>

theorem raw_batch_get_answers_every_key:
  assumes "client_inv ec w" "re_pd env = pd_rpc_client ec out" "re_kv env = lift_raw_kv kv"
    and "raw_batch_get env c ks w = Some (w', Inr pairs)"
  shows "\<exists>rs. all_answered (rk_batch_get kv) (tagged rbgq_cf rbgq_keys)
        (\<lambda>r. rbgs_region_error r = None \<and> pairs_key_errors (rbgs_pairs r) = None) (map (\<lambda>k. (cf_field (rc_cf c), raw_key c k)) ks) rs
    \<and> pairs = map (truncate_kv_pair (rc_keyspace c) \<circ> raw_pair_from) (concat (map (rbgs_pairs \<circ> snd) rs))"
proof -
  let ?q = "new_raw_batch_get_request (map (raw_key c) ks) (rc_cf c)"
  let ?ops = "dispatch_ops (rpc (rk_batch_get kv)) (raw_batch_get_shards (pd_region_for_key (pd_rpc_client ec out))) raw_batch_get_apply_shard
     (\<lambda>_ q. q) (pairs_key_errors \<circ> rbgs_pairs) rbgs_region_error"
  obtain ps where p: "raw_plan env c ?ops (merge_pairs rbgs_pairs \<circ> map snd) ?q w = Some (w', Inr ps)"
    "pairs = map (truncate_kv_pair (rc_keyspace c)) ps"
    using assms(4) by (auto simp: raw_batch_get_def raw_batch_get_ops_def assms(2,3) lift_raw_kv_def map_sum_Inr_iff)
  obtain r where r: "run_plan (pd_rpc_client ec out) ?ops False (re_fuel env) (rc_backoff c) w (new_dispatch ?q) = Some (w', r)"
    "truncate_result (rc_keyspace c) (ok_bind r (merge_pairs rbgs_pairs \<circ> map snd)) = Some (Inr ps)"
    using p(1) by (auto simp: raw_plan_def assms(2) bind_eq_Some_conv)
  obtain rs where rs: "r = Inr rs" "merge_pairs rbgs_pairs (map snd rs) = Inr ps"
    using r(2) by (cases r) (auto simp: truncate_result_def split: sum.splits)
  have fe: "first_error (map snd rs) = None" and ps: "ps = concat (map (map raw_pair_from \<circ> rbgs_pairs) (oks (map snd rs)))"
    using rs(2) by (auto simp: merge_pairs_def split: option.splits)
  from run_plan_retry [OF r(1) [unfolded rs(1)]] obtain s where
    s: "retry_multi_region (pd_rpc_client ec out) ?ops False (re_fuel env) (rc_backoff c)
        \<lparr>ps_world = w, ps_routing = fresh_routing (pd_rpc_client ec out) w\<rparr> (new_dispatch ?q) = Some (s, Inr rs)" by blast
  have w: "client_inv ec (ps_world \<lparr>ps_world = w, ps_routing = fresh_routing (pd_rpc_client ec out) w\<rparr>)" using assms(1) by simp
  note c = rpc_raw_batch_get.lossless_plain.retry_multi_region_complete [OF w s]
  have m: "mset (tagged rbgq_cf rbgq_keys (di_request (new_dispatch ?q :: (raw_batch_get_request, 'b) dispatch_plan))) = mset (map (\<lambda>k. (cf_field (rc_cf c), raw_key c k)) ks)"
    by (simp add: tagged_def new_dispatch_def new_raw_batch_get_request_def comp_def)
  have "all_answered (rk_batch_get kv) (tagged rbgq_cf rbgq_keys)
      (\<lambda>r. rbgs_region_error r = None \<and> pairs_key_errors (rbgs_pairs r) = None) (map (\<lambda>k. (cf_field (rc_cf c), raw_key c k)) ks)
      (zip (map fst rs) (oks (map snd rs)))"
    by (rule all_answered_plainI [OF c(2) [unfolded m] c(3) first_error_oks [OF fe]]) simp
  moreover have "map snd (zip (map fst rs) (oks (map snd rs))) = oks (map snd rs)"
    using arg_cong [OF first_error_oks [OF fe], of length] by simp
  then have "map (rbgs_pairs \<circ> snd) (zip (map fst rs) (oks (map snd rs))) = map rbgs_pairs (oks (map snd rs))"
    by (simp flip: map_map)
  ultimately show ?thesis using p(2) ps
    by (intro exI [of _ "zip (map fst rs) (oks (map snd rs))"]) (simp add: map_concat comp_def)
qed

definition cluster_env :: "(raw_data client_world, unit) raw_env" where
  "cluster_env = \<lparr>re_display = (\<lambda>_. []), re_pd = pd_rpc_client False (demo_out (from_version 9)), re_kv = lift_raw_kv (map_kv (\<lambda>_. ([], []))), re_fuel = 3\<rparr>"

lemma cluster_batch_get_runs:
  "map_option snd (raw_batch_get cluster_env (new_raw_client Disable) [[6], [1]] (demo_world (\<lambda>_. [([1], [10]), ([6], [60])])))
   = Some (Inr [new_kv_pair [1] [10], new_kv_pair [6] [60]])"
  by code_simp

theorem raw_batch_get_answers_every_key_witness:
  "\<exists>rs. all_answered (rk_batch_get (map_kv (\<lambda>_. ([], [])))) (tagged rbgq_cf rbgq_keys)
      (\<lambda>r. rbgs_region_error r = None \<and> pairs_key_errors (rbgs_pairs r) = None) [([], [6]), ([], [1])] (rs :: ((raw_batch_get_request, unit) dispatch_plan \<times> _) list)
    \<and> [new_kv_pair [1] [10], new_kv_pair [6] [60]] = map (truncate_kv_pair Disable \<circ> raw_pair_from) (concat (map (rbgs_pairs \<circ> snd) rs))"
proof -
  obtain w' where "raw_batch_get cluster_env (new_raw_client Disable) [[6], [1]] (demo_world (\<lambda>_. [([1], [10]), ([6], [60])]))
      = Some (w', Inr [new_kv_pair [1] [10], new_kv_pair [6] [60]])"
    using cluster_batch_get_runs by (auto simp: map_option_eq_Some)
  from raw_batch_get_answers_every_key [OF demo_world_inv _ _ this, of "demo_out (from_version 9)" "map_kv (\<lambda>_. ([], []))"]
  show ?thesis by (simp add: cluster_env_def new_raw_client_def cf_field_def raw_key_def)
qed

subsection \<open>Scans\<close>

text \<open>A cluster whose regions do not change while it is looked at in \<open>w\<close>: \<open>reg\<close> is the region of a key, and its leader is known.\<close>

definition static_regions :: "('w, 'c) pd_client \<Rightarrow> 'w \<Rightarrow> (key \<Rightarrow> region_with_leader) \<Rightarrow> bool" where
  "static_regions pd w reg \<longleftrightarrow> (\<forall>k. pd_region_for_key pd w k = (w, Inr (reg k)) \<and> contains (reg k) k \<and> rl_leader (reg k) \<noteq> None
     \<and> (\<exists>st. store_for_id pd w (region_id (reg k)) = (w, Inr st) \<and> rst_region st = reg k))"

text \<open>What a store answers to a forward scan: the first pairs of its region that are in the range, up to the limit. The range
  of the region with an id is \<open>rng\<close>.\<close>

definition scans_data :: "('w, 'c) raw_kv \<Rightarrow> 'w \<Rightarrow> string \<Rightarrow> (u64 \<Rightarrow> key \<times> key) \<Rightarrow> proto_kv_pair list \<Rightarrow> bool" where
  "scans_data kv w cf rng data \<longleftrightarrow> (\<forall>cl ctx q. \<not> rsq_reverse q \<and> rsq_cf q = cf \<longrightarrow> rk_scan kv w cl ctx q = (w, Inr \<lparr>rss_region_error = None,
     rss_kvs = take (unat (rsq_limit q)) (filter (\<lambda>p. in_scan (fst (rng (ctx_region_id ctx))) (snd (rng (ctx_region_id ctx))) p
       \<and> in_scan (rsq_start_key q) (rsq_end_key q) p) data)\<rparr>))"

lemma filter_sorted_split:
  assumes "sorted (map kv_key data)" "a \<le> n" "n \<le> e" "n \<noteq> []" "e \<noteq> []"
  shows "filter (in_scan a e) data = filter (in_scan a n) data @ filter (in_scan n e) data"
  using assms(1)
proof (induction data)
  case (Cons p data)
  show ?case
  proof (cases "kv_key p < n")
    case True
    then show ?thesis using Cons assms(2-5) by (auto simp: in_scan_def in_half_open_def)
  next
    case False
    then have "\<not> in_scan a n x" if "x \<in> set (p # data)" for x
      using that Cons.prems assms(4) by (auto simp: in_scan_def in_half_open_def)
    then have e: "filter (in_scan a n) (p # data) = []" by (simp add: filter_empty_conv)
    moreover have "in_scan a e x = in_scan n e x" if "x \<in> set (p # data)" for x
      using that Cons.prems False assms(2,5) by (auto simp: in_scan_def in_half_open_def)
    then have "filter (in_scan a e) (p # data) = filter (in_scan n e) (p # data)" by (rule filter_cong [OF refl])
    ultimately show ?thesis by simp
  qed
qed simp

lemma unat_minus_length:
  assumes "length kvs \<le> unat (l :: u32)"
  shows "unat (l - of_nat (length kvs)) = unat l - length kvs"
proof -
  have "length kvs < 2 ^ 32" using assms unat_less_exp [of l] by simp
  then have "unat (of_nat (length kvs) :: u32) = length kvs" by (simp add: unat_of_nat take_bit_nat_eq_self)
  then show ?thesis using assms by (subst unat_sub) (simp_all add: word_le_nat_alt)
qed

text \<open>The data of one region that is asked for from \<open>cur\<close> on.\<close>

definition region_part :: "region_with_leader \<Rightarrow> key \<Rightarrow> key \<Rightarrow> proto_kv_pair list \<Rightarrow> proto_kv_pair list" where
  "region_part r cur e data = filter (\<lambda>p. in_scan (start_key r) (end_key r) p \<and> in_scan cur e p) data"

definition scannable :: "('w, 'c) raw_env \<Rightarrow> raw_client \<Rightarrow> 'w \<Rightarrow> (key \<Rightarrow> region_with_leader) \<Rightarrow> proto_kv_pair list \<Rightarrow> bool" where
  "scannable env c w reg data \<longleftrightarrow> static_regions (re_pd env) w reg \<and> re_fuel env \<noteq> 0 \<and> sorted (map kv_key data)
     \<and> (\<exists>rng. (\<forall>k. rng (region_id (reg k)) = range_of (reg k)) \<and> scans_data (re_kv env) w (cf_field (rc_cf c)) rng data)"

lemma into_keys_from_opt_pair: "into_keys (from_opt_pair s e) = (s, e)"
  by (auto simp: into_keys_def from_opt_pair_def new_bound_range_def into_lower_bound_def
      into_upper_bound_def next_key_def zero_terminated_def split: if_splits option.splits)
     (metis append_butlast_last_id last_ConsL)+

lemma retryable_scan_static:
  assumes "scannable env c w reg data"
  shows "retryable_scan env c (re_fuel env) \<lparr>sa_start_key = cur, sa_end_key = stop, sa_limit = l, sa_key_only = ko, sa_reverse = False,
      sa_backoff = b\<rparr> w
    = Some (w, Inr (\<lparr>rss_region_error = None, rss_kvs = take (unat l) (region_part (reg cur) cur (case stop of None \<Rightarrow> [] | Some e \<Rightarrow> e) data)\<rparr>,
        end_key (reg cur)))"
proof -
  obtain f where f: "re_fuel env = Suc f" using assms by (auto simp: scannable_def gr0_conv_Suc)
  obtain rng where rng: "\<And>k. rng (region_id (reg k)) = range_of (reg k)" "scans_data (re_kv env) w (cf_field (rc_cf c)) rng data" using assms by (auto simp: scannable_def)
  have pd: "pd_region_for_key (re_pd env) w cur = (w, Inr (reg cur))" and "rl_leader (reg cur) \<noteq> None"
    using assms by (auto simp: scannable_def static_regions_def)
  then obtain st leader where st: "store_for_id (re_pd env) w (region_id (reg cur)) = (w, Inr st)" "rst_region st = reg cur"
    "rl_leader (reg cur) = Some leader"
    using assms unfolding scannable_def static_regions_def by blast
  show ?thesis using rng st pd
    by (simp add: f do_store_scan_def apply_to_request_def new_raw_scan_request_def into_keys_from_opt_pair scans_data_def range_of_def region_part_def)
qed

lemma region_part_stop:
  assumes "contains r cur" "e \<noteq> []" "end_key r = [] \<or> e \<le> end_key r"
  shows "region_part r cur e data = filter (in_scan cur e) data"
  unfolding region_part_def
  by (rule filter_cong) (use assms in \<open>auto simp: in_scan_def in_half_open_def contains_def start_key_def end_key_def\<close>)

lemma region_part_next:
  assumes "contains r cur" "e \<noteq> []" "end_key r \<noteq> []" "end_key r \<le> e"
  shows "region_part r cur e data = filter (in_scan cur (end_key r)) data"
  unfolding region_part_def
  by (rule filter_cong) (use assms in \<open>auto simp: in_scan_def in_half_open_def contains_def start_key_def end_key_def\<close>)

lemma raw_scan_loop_static:
  assumes s: "scannable env c w reg data" and fin: "finite B" "\<And>k. k < e \<Longrightarrow> end_key (reg k) \<noteq> [] \<and> end_key (reg k) \<in> B"
    and "cur < e" "card {b \<in> B. cur < b} < fuel"
  shows "raw_scan_loop env c (Some e) ko False fuel cur l result w
    = Some (w, Inr (result @ map raw_pair_from (take (unat l) (filter (in_scan cur e) data))))"
  using assms(4,5)
proof (induction fuel arbitrary: cur l result)
  case (Suc fuel)
  show ?case
  proof (cases "l = 0")
    case False
    let ?n = "end_key (reg cur)"
    let ?part = "region_part (reg cur) cur e data"
    have n: "?n \<noteq> []" "?n \<in> B" using fin(2) [OF Suc.prems(1)] by auto
    have con: "contains (reg cur) cur" using s by (auto simp: scannable_def static_regions_def)
    then have lt: "cur < ?n" using n by (simp add: contains_def end_key_def)
    have e: "e \<noteq> []" using Suc.prems(1) by auto
    have left: "unat (l - of_nat (length (take (unat l) xs))) = unat l - length (take (unat l) xs)" for xs :: "proto_kv_pair list"
      by (rule unat_minus_length) simp
    show ?thesis
    proof (cases "e \<le> ?n")
      case True
      then show ?thesis using False region_part_stop [OF con e] by (simp add: retryable_scan_static [OF s] Let_def)
    next
      case ne: False
      have "{b \<in> B. ?n < b} \<subset> {b \<in> B. cur < b}" using n(2) lt by auto
      then have "card {b \<in> B. ?n < b} < card {b \<in> B. cur < b}" using fin(1) by (intro psubset_card_mono) simp_all
      then have card: "card {b \<in> B. ?n < b} < fuel" using Suc.prems(2) by linarith
      have ne': "?n < e" using ne by simp
      have split: "filter (in_scan cur e) data = ?part @ filter (in_scan ?n e) data"
        using filter_sorted_split [of data cur ?n e] region_part_next [OF con e n(1)] s ne lt e n(1) by (auto simp: scannable_def)
      have "raw_scan_loop env c (Some e) ko False (Suc fuel) cur l result w
          = raw_scan_loop env c (Some e) ko False fuel ?n (l - of_nat (length (take (unat l) ?part))) (result @ map raw_pair_from (take (unat l) ?part)) w"
        using False ne by (auto simp: retryable_scan_static [OF s] Let_def)
      also have "\<dots> = Some (w, Inr (result @ map raw_pair_from (take (unat l) ?part)
          @ map raw_pair_from (take (unat l - length (take (unat l) ?part)) (filter (in_scan ?n e) data))))"
        by (simp only: Suc.IH [OF ne' card] left append_assoc)
      also have "take (unat l - length (take (unat l) ?part)) (filter (in_scan ?n e) data) = take (unat l - length ?part) (filter (in_scan ?n e) data)"
        by (cases "unat l \<le> length ?part") simp_all
      also have "map raw_pair_from (take (unat l) ?part) @ map raw_pair_from (take (unat l - length ?part) (filter (in_scan ?n e) data))
          = map raw_pair_from (take (unat l) (filter (in_scan cur e) data))"
        by (simp only: split take_append map_append)
      finally show ?thesis .
    qed
  qed simp
qed simp

lemma raw_scan_of_loop:
  assumes "\<not> MAX_RAW_KV_SCAN_LIMIT < limit" "into_keys (encode_bound_range (rc_keyspace c) Raw r) = (s, e)"
    and "raw_scan_loop env c e False False fuel s limit [] w = Some (w', Inr (map raw_pair_from (take (unat limit) xs)))"
  shows "raw_scan env c fuel r limit w = Some (w', Inr (truncate_kv_pairs (rc_keyspace c) (map raw_pair_from (take (unat limit) xs))))"
  using assms by (simp add: raw_scan_def raw_scan_inner_def take_map)

text \<open>C12: A forward scan over regions that stay as they are, of a range that ends before the last region, returns the first pairs
  of the range in the order of their keys, up to the limit, whatever the number of regions in the range, and the loop over the regions ends.\<close>

theorem raw_scan_returns_first_pairs:
  assumes "scannable env c w reg data" "limit \<le> MAX_RAW_KV_SCAN_LIMIT"
    and "into_keys (encode_bound_range (rc_keyspace c) Raw r) = (s, Some e)" "s < e"
    and "finite B" "\<And>k. k < e \<Longrightarrow> end_key (reg k) \<noteq> [] \<and> end_key (reg k) \<in> B" "card B < fuel"
  shows "raw_scan env c fuel r limit w
    = Some (w, Inr (truncate_kv_pairs (rc_keyspace c) (map raw_pair_from (take (unat limit) (filter (in_scan s e) data)))))"
proof -
  have "card {b \<in> B. s < b} \<le> card B" using assms(5) by (intro card_mono) auto
  then have "card {b \<in> B. s < b} < fuel" using assms(7) by linarith
  from raw_scan_loop_static [OF assms(1,5,6,4) this] show ?thesis
    using assms(2) by (intro raw_scan_of_loop [OF _ assms(3)]) simp_all
qed

text \<open>Three regions that meet at the keys 5 and 9.\<close>

definition part_region :: "u64 \<Rightarrow> key \<Rightarrow> key \<Rightarrow> region_with_leader" where
  "part_region i s e = one_region\<lparr>rl_region := (rl_region one_region)\<lparr>mr_id := i, mr_start_key := s, mr_end_key := e\<rparr>\<rparr>"

definition three_ranges :: "u64 \<Rightarrow> key \<times> key" where
  "three_ranges i = (if i = 1 then ([], [5]) else if i = 2 then ([5], [9]) else ([9], []))"

definition three_regions :: "key \<Rightarrow> region_with_leader" where
  "three_regions k = (let i = (if k < [5] then 1 else if k < [9] then 2 else 3) in part_region i (fst (three_ranges i)) (snd (three_ranges i)))"

definition three_env :: "(raw_data, unit) raw_env" where
  "three_env = (map_env three_ranges)\<lparr>re_pd := (plain_client (from_version 9))\<lparr>pd_region_for_key := \<lambda>w k. (w, Inr (three_regions k)),
     pd_region_for_id := \<lambda>w i. (w, Inr (part_region i (fst (three_ranges i)) (snd (three_ranges i))))\<rparr>\<rparr>"

lemma map_scans_data: "scans_data (map_kv rng) m cf rng (map pair_msg (m cf))"
  by (auto simp: scans_data_def map_kv_def map_scan_def case_prod_unfold Let_def)

lemma sorted_pair_msg: "bt_inv d \<Longrightarrow> sorted (map kv_key (map pair_msg d))"
  by (simp add: bt_inv_def pair_msg_def comp_def strict_sorted_imp_sorted)

lemma three_scannable:
  assumes "raw_data_inv m"
  shows "scannable three_env c m three_regions (map pair_msg (m (cf_field (rc_cf c))))"
proof -
  have "static_regions (re_pd three_env) m three_regions"
    by (auto simp: static_regions_def three_env_def map_env_def three_regions_def part_region_def three_ranges_def contains_def one_region_def Let_def
        store_for_id_def region_id_def plain_client_def new_region_store_def)
  moreover have "three_ranges (region_id (three_regions k)) = range_of (three_regions k)" for k
    by (auto simp: three_regions_def part_region_def three_ranges_def region_id_def range_of_def start_key_def end_key_def)
  ultimately show ?thesis using sorted_pair_msg [of "m (cf_field (rc_cf c))"] assms map_scans_data [of three_ranges m]
    unfolding scannable_def raw_data_inv_def by (auto simp: three_env_def map_env_def)
qed

theorem raw_scan_returns_first_pairs_witness:
  "raw_scan three_env (new_raw_client Disable) 3 (from_pair [1] [8]) 5 (\<lambda>_. [([1], [10]), ([6], [60]), ([8], [80])])
   = Some (\<lambda>_. [([1], [10]), ([6], [60]), ([8], [80])], Inr [new_kv_pair [1] [10], new_kv_pair [6] [60]])"
proof -
  let ?m = "\<lambda>_ :: string. [([1], [10]), ([6], [60]), ([8], [80])] :: (bytes \<times> bytes) list"
  have m: "raw_data_inv ?m" by (simp add: raw_data_inv_def bt_inv_def)
  have r: "into_keys (encode_bound_range (rc_keyspace (new_raw_client Disable)) Raw (from_pair [1] [8])) = ([1], Some [8])" by code_simp
  have b: "end_key (three_regions k) \<noteq> [] \<and> end_key (three_regions k) \<in> {[5], [9]}" if "k < [8]" for k
    using order.strict_trans [OF that, of "[9]"] by (auto simp: three_regions_def part_region_def three_ranges_def end_key_def Let_def)
  show ?thesis
    using raw_scan_returns_first_pairs [OF three_scannable [OF m] _ r _ _ b, of 5 3]
    by (simp add: MAX_RAW_KV_SCAN_LIMIT_def new_raw_client_def cf_field_def in_scan_def in_half_open_def pair_msg_def raw_pair_from_def
        truncate_kv_pairs_def truncate_kv_pair_def truncate_key_def new_kv_pair_def)
qed

lemma region_part_whole:
  assumes "range_of r = ([], [])"
  shows "region_part r cur e data = filter (in_scan cur e) data"
  unfolding region_part_def
  by (rule filter_cong) (use assms in \<open>auto simp: range_of_def in_scan_def in_half_open_def\<close>)

lemma raw_scan_loop_whole:
  assumes "scannable env c w (\<lambda>_. r) data" "range_of r = ([], [])" "e \<noteq> []" "l \<noteq> 0"
  shows "raw_scan_loop env c (Some e) ko False (Suc fuel) cur l result w
    = raw_scan_loop env c (Some e) ko False fuel [] (l - of_nat (length (take (unat l) (filter (in_scan cur e) data))))
        (result @ map raw_pair_from (take (unat l) (filter (in_scan cur e) data))) w"
  using assms(2-4) by (auto simp: retryable_scan_static [OF assms(1)] region_part_whole range_of_def Let_def)

lemma raw_scan_loop_empty:
  assumes "scannable env c w (\<lambda>_. r) data" "range_of r = ([], [])" "e \<noteq> []" "l \<noteq> 0" "filter (in_scan [] e) data = []"
  shows "raw_scan_loop env c (Some e) ko False fuel [] l result w = None"
  using assms(4) by (induction fuel) (simp_all only: raw_scan_loop.simps(1) raw_scan_loop_whole [OF assms(1-3)] assms(5) simp_thms, simp_all)

lemma take_concat_replicate: "xs \<noteq> [] \<Longrightarrow> n \<le> m \<Longrightarrow> n \<le> k \<Longrightarrow> take n (concat (replicate m xs)) = take n (concat (replicate k xs))"
proof (induction m arbitrary: n k)
  case (Suc m)
  then show ?case
  proof (cases k)
    case (Suc k')
    have "n - length xs \<le> m" "n - length xs \<le> k'" using Suc.prems Suc by (cases xs; simp)+
    then show ?thesis using Suc.IH [of "n - length xs" k'] Suc.prems(1) Suc by simp
  qed simp
qed simp

lemma raw_scan_loop_wraps:
  assumes s: "scannable env c w (\<lambda>_. r) data" "range_of r = ([], [])" "e \<noteq> []" and ne: "filter (in_scan [] e) data \<noteq> []" and "unat l < fuel"
  shows "raw_scan_loop env c (Some e) ko False fuel [] l result w
    = Some (w, Inr (result @ map raw_pair_from (take (unat l) (concat (replicate (unat l) (filter (in_scan [] e) data))))))"
  using assms(5)
proof (induction fuel arbitrary: l result)
  case (Suc fuel)
  show ?case
  proof (cases "l = 0")
    case False
    let ?all = "filter (in_scan [] e) data"
    have l: "unat (l - of_nat (length (take (unat l) ?all))) = unat l - length (take (unat l) ?all)" by (rule unat_minus_length) simp
    have pos: "0 < unat l" using False by (simp add: word_unat_eq_iff)
    have less: "unat l - length (take (unat l) ?all) < fuel" using Suc.prems pos ne by (cases ?all) (simp_all only: length_take length_Cons, auto)
    obtain n where n: "unat l = Suc n" using pos gr0_conv_Suc by blast
    have m: "take (unat l - length (take (unat l) ?all)) (concat (replicate (unat l - length (take (unat l) ?all)) ?all))
        = take (unat l - length ?all) (concat (replicate n ?all))"
    proof (cases "unat l \<le> length ?all")
      case False
      have "length ?all > 0" using ne by blast
      then have "unat l - length ?all \<le> n" using n by linarith
      then have "take (unat l - length ?all) (concat (replicate (unat l - length ?all) ?all)) = take (unat l - length ?all) (concat (replicate n ?all))"
        by (intro take_concat_replicate ne) simp_all
      moreover have "take (unat l) ?all = ?all" using False by (intro take_all) linarith
      ultimately show ?thesis by metis
    qed simp
    have "raw_scan_loop env c (Some e) ko False (Suc fuel) [] l result w
        = Some (w, Inr (result @ map raw_pair_from (take (unat l) ?all @ take (unat l - length ?all) (concat (replicate n ?all)))))"
      by (simp only: raw_scan_loop_whole [OF s False] Suc.IH less l m append_assoc map_append)
    also have "take (unat l) ?all @ take (unat l - length ?all) (concat (replicate n ?all)) = take (unat l) (concat (replicate (unat l) ?all))"
      by (subst (3) n) (simp only: replicate_Suc concat.simps take_append)
    finally show ?thesis .
  qed simp
qed simp

text \<open>C37: In a cluster with a single region a forward scan of a range with an upper end does not stop at the end of the cluster.
  It goes on from the first key of all, outside of its range: with fewer pairs in the range than the limit, the result is filled up with the
  pairs below the upper end, again and again, until the limit is reached. If there is no pair below the upper end, the scan never returns.\<close>

theorem raw_scan_starts_over:
  assumes "scannable env c w (\<lambda>_. reg) data" "range_of reg = ([], [])" "0 < limit" "limit \<le> MAX_RAW_KV_SCAN_LIMIT"
    and "into_keys (encode_bound_range (rc_keyspace c) Raw r) = (s, Some e)" "e \<noteq> []"
  shows "if filter (in_scan [] e) data = [] then raw_scan env c fuel r limit w = None
    else raw_scan env c (unat limit + 2) r limit w = Some (w, Inr (truncate_kv_pairs (rc_keyspace c) (map raw_pair_from (take (unat limit)
      (filter (in_scan s e) data @ concat (replicate (unat limit) (filter (in_scan [] e) data)))))))"
proof -
  let ?all = "filter (in_scan [] e) data" and ?own = "filter (in_scan s e) data"
  let ?rest = "limit - of_nat (length (take (unat limit) ?own))"
  have l: "limit \<noteq> 0" "\<not> MAX_RAW_KV_SCAN_LIMIT < limit" using assms(3,4) by auto
  have rest: "unat ?rest = unat limit - length (take (unat limit) ?own)" by (rule unat_minus_length) simp
  have own: "?all = [] \<Longrightarrow> ?own = []" by (auto simp: filter_empty_conv in_scan_def in_half_open_def)
  show ?thesis
  proof (cases "?all = []")
    case True
    have "raw_scan_loop env c (Some e) False False fuel s limit [] w = None"
      using raw_scan_loop_empty [OF assms(1,2,6) l(1) True] own [OF True]
      by (cases fuel) (simp_all only: raw_scan_loop.simps(1) raw_scan_loop_whole [OF assms(1,2,6) l(1)], simp)
    then show ?thesis using True l assms(5) by (simp add: raw_scan_def raw_scan_inner_def)
  next
    case False
    have fuel: "unat ?rest < unat limit + 1" unfolding rest by linarith
    have "raw_scan_loop env c (Some e) False False (unat limit + 2) s limit [] w
        = Some (w, Inr (map raw_pair_from (take (unat limit) ?own @ take (unat ?rest) (concat (replicate (unat ?rest) ?all)))))"
      using raw_scan_loop_whole [OF assms(1,2,6) l(1), where fuel = "unat limit + 1"] raw_scan_loop_wraps [OF assms(1,2,6) False fuel] by simp
    also have "take (unat ?rest) (concat (replicate (unat ?rest) ?all)) = take (unat ?rest) (concat (replicate (unat limit) ?all))"
      by (rule take_concat_replicate [OF False]) (simp_all only: rest order_refl diff_le_self)
    also have "take (unat limit) ?own @ take (unat ?rest) (concat (replicate (unat limit) ?all))
        = take (unat limit) (?own @ concat (replicate (unat limit) ?all))"
      unfolding rest by (cases "unat limit \<le> length ?own") simp_all
    finally show ?thesis using False by (simp only: if_False raw_scan_of_loop [OF l(2) assms(5)])
  qed
qed

theorem raw_scan_starts_over_witness:
  "raw_scan (map_env (\<lambda>_. ([], []))) (new_raw_client Disable) 4 (from_pair [5] [8]) 2 (\<lambda>_. [([1], [10]), ([6], [60])])
     = Some (\<lambda>_. [([1], [10]), ([6], [60])], Inr [new_kv_pair [6] [60], new_kv_pair [1] [10]])"
proof -
  let ?m = "\<lambda>_ :: string. [([1], [10]), ([6], [60])] :: (bytes \<times> bytes) list"
  have "static_regions (plain_client ts) m (\<lambda>_. one_region)" for m ts
    by (auto simp: static_regions_def one_region_def store_for_id_def region_id_def plain_client_def new_region_store_def contains_def)
  then have sc: "scannable (map_env (\<lambda>_. ([], []))) (new_raw_client Disable) ?m (\<lambda>_. one_region) (map pair_msg (?m []))"
    using map_scans_data [of "\<lambda>_. ([], [])" ?m "[]"]
    by (auto simp: scannable_def map_env_def new_raw_client_def cf_field_def range_of_def one_region_def start_key_def end_key_def pair_msg_def
        intro!: exI [of _ "\<lambda>_. ([], [])"])
  have whole: "range_of one_region = ([], [])" by (simp add: range_of_def one_region_def start_key_def end_key_def)
  have r: "into_keys (encode_bound_range (rc_keyspace (new_raw_client Disable)) Raw (from_pair [5] [8])) = ([5], Some [8])" by code_simp
  have twice: "concat (replicate 2 xs) = xs @ xs" for xs :: "proto_kv_pair list" by (simp add: numeral_2_eq_2)
  have l: "(0 :: u32) < 2" "2 \<le> MAX_RAW_KV_SCAN_LIMIT" by (simp_all add: MAX_RAW_KV_SCAN_LIMIT_def)
  have all: "filter (in_scan [] [8]) (map pair_msg (?m [])) = map pair_msg (?m [])" "filter (in_scan [5] [8]) (map pair_msg (?m [])) = [pair_msg ([6], [60])]"
    by (simp_all add: in_scan_def in_half_open_def pair_msg_def)
  have n: "unat (2 :: u32) = 2" by simp
  show ?thesis using raw_scan_starts_over [OF sc whole l r, unfolded all n twice]
    by (simp add: new_raw_client_def pair_msg_def raw_pair_from_def truncate_kv_pairs_def truncate_kv_pair_def truncate_key_def new_kv_pair_def)
qed

subsection \<open>Checksums\<close>

lemma saturating_add_word: "saturating_add a b = (of_nat (min (unat a + unat b) (2 ^ 64 - 1)) :: u64)"
  by (rule word_unat_eq_iff [THEN iffD2]) (simp add: unat_saturating_add unat_of_nat take_bit_nat_eq_self)

lemma unat_capped: "unat (of_nat (min n (2 ^ 64 - 1)) :: u64) = min n (2 ^ 64 - 1)"
  by (simp add: unat_of_nat take_bit_nat_eq_self)

lemma merge_checksums_eq:
  "merge_checksums out (map Inr rs) = Inr \<lparr>ck_crc64_xor = fold (\<lambda>r x. xor x (rcs_checksum r)) rs (ck_crc64_xor out),
     ck_total_kvs = of_nat (min (unat (ck_total_kvs out) + (\<Sum>r \<leftarrow> rs. unat (rcs_total_kvs r))) (2 ^ 64 - 1)),
     ck_total_bytes = of_nat (min (unat (ck_total_bytes out) + (\<Sum>r \<leftarrow> rs. unat (rcs_total_bytes r))) (2 ^ 64 - 1))\<rparr>"
proof (induction rs arbitrary: out)
  case Nil
  have "min (unat a) (2 ^ 64 - 1) = unat a" for a :: u64 using unat_less_exp [of a] by simp
  then show ?case by (cases out) (simp add: min.commute)
next
  case (Cons r rs)
  have cap: "min (min a (2 ^ 64 - 1) + b) (2 ^ 64 - 1) = min (a + b) (2 ^ 64 - 1 :: nat)" for a b by simp
  have "merge_checksums out (map Inr (r # rs)) = merge_checksums
     \<lparr>ck_crc64_xor = xor (ck_crc64_xor out) (rcs_checksum r), ck_total_kvs = saturating_add (ck_total_kvs out) (rcs_total_kvs r),
      ck_total_bytes = saturating_add (ck_total_bytes out) (rcs_total_bytes r)\<rparr> (map Inr rs)" by simp
  then show ?case by (simp only: Cons.IH raw_checksum.simps saturating_add_word unat_capped cap fold_simps list.map sum_list.Cons add.assoc)
qed

lemma fold_xor_mset:
  assumes "mset xs = mset ys"
  shows "fold (\<lambda>r x. xor x (f r :: u64)) xs a = fold (\<lambda>r x. xor x (f r)) ys a"
  by (rule fold_multiset_equiv [THEN fun_cong, OF _ assms [symmetric], symmetric]) (simp add: fun_eq_iff xor.assoc xor.left_commute xor.commute)

text \<open>C23: The checksum of a range that the running loop computes is, whatever the order in which the regions answer, the exclusive or of
  the checksums of the regions and the exact sums of their pairs and of their bytes, cut off at the largest number of 64 bits.\<close>

theorem checksum_of_regions:
  assumes "mset rs = mset regions"
  shows "merge_checksums default_raw_checksum (map Inr rs) = Inr \<lparr>ck_crc64_xor = fold (\<lambda>r x. xor x (rcs_checksum r)) regions 0,
     ck_total_kvs = of_nat (min (\<Sum>r \<leftarrow> regions. unat (rcs_total_kvs r)) (2 ^ 64 - 1)),
     ck_total_bytes = of_nat (min (\<Sum>r \<leftarrow> regions. unat (rcs_total_bytes r)) (2 ^ 64 - 1))\<rparr>"
proof -
  have s: "(\<Sum>r \<leftarrow> rs. f r) = (\<Sum>r \<leftarrow> regions. f r)" for f :: "raw_checksum_response \<Rightarrow> nat"
    using assms by (metis mset_map sum_mset_sum_list)
  show ?thesis unfolding merge_checksums_eq by (simp add: default_raw_checksum_def fold_xor_mset [OF assms] s)
qed

theorem checksum_of_regions_witness:
  "merge_checksums default_raw_checksum
     [Inr \<lparr>rcs_region_error = None, rcs_error = [], rcs_checksum = 6, rcs_total_kvs = 18446744073709551615, rcs_total_bytes = 7\<rparr>,
      Inr \<lparr>rcs_region_error = None, rcs_error = [], rcs_checksum = 3, rcs_total_kvs = 2, rcs_total_bytes = 9\<rparr>]
   = Inr \<lparr>ck_crc64_xor = 5, ck_total_kvs = 18446744073709551615, ck_total_bytes = 16\<rparr>"
proof -
  let ?a = "\<lparr>rcs_region_error = None, rcs_error = [], rcs_checksum = 6, rcs_total_kvs = 18446744073709551615, rcs_total_bytes = 7\<rparr>"
  let ?b = "\<lparr>rcs_region_error = None, rcs_error = [], rcs_checksum = 3, rcs_total_kvs = 2, rcs_total_bytes = 9\<rparr>"
  show ?thesis using checksum_of_regions [of "[?a, ?b]" "[?b, ?a]"] by simp
qed

end
