(* ===== verification/Cleanup_Locks.thy ===== *)
theory Cleanup_Locks
  imports Example_Client
begin

text \<open>
  The cleanup of the locks of a range (\<open>CleanupLocks\<close> in \<open>request/plan.rs\<close>): the locks of a region are scanned in batches, and each
  batch is handed to \<open>cleanup_locks\<close> of the lock resolver before the scan goes on. The tables of the resolver are shared by the
  shards of the plan, so they are part of the world that the plan runs on.
\<close>

subsection \<open>The world with the tables of the resolver\<close>

definition on_fst :: "('w \<Rightarrow> 'w \<times> 'a) \<Rightarrow> 'w \<times> 'x \<Rightarrow> ('w \<times> 'x) \<times> 'a" where
  "on_fst f wc = (case f (fst wc) of (w, a) \<Rightarrow> ((w, snd wc), a))"

definition with_context :: "('w, 'c) pd_client \<Rightarrow> ('w \<times> 'x, 'c) pd_client" where
  "with_context pd = \<lparr>pd_region_for_key = (\<lambda>wc k. on_fst (\<lambda>w. pd_region_for_key pd w k) wc),
     pd_region_for_id = (\<lambda>wc i. on_fst (\<lambda>w. pd_region_for_id pd w i) wc),
     pd_map_region_to_store = (\<lambda>wc r. on_fst (\<lambda>w. pd_map_region_to_store pd w r) wc),
     pd_invalidate_region_cache = (\<lambda>wc v. (pd_invalidate_region_cache pd (fst wc) v, snd wc)),
     pd_invalidate_store_cache = (\<lambda>wc i. (pd_invalidate_store_cache pd (fst wc) i, snd wc)),
     pd_update_leader = (\<lambda>wc v p. on_fst (\<lambda>w. pd_update_leader pd w v p) wc),
     pd_get_timestamp = on_fst (pd_get_timestamp pd), pd_all_stores = on_fst (pd_all_stores pd),
     pd_store_health = (\<lambda>wc. pd_store_health pd (fst wc)), pd_set_store_health = (\<lambda>h wc. (pd_set_store_health pd h (fst wc), snd wc)),
     rt_now = (\<lambda>wc. rt_now pd (fst wc)), rt_rnd = (\<lambda>wc n. rt_rnd pd (fst wc) n), rt_sleep = (\<lambda>wc d. (rt_sleep pd (fst wc) d, snd wc)),
     rt_order = (\<lambda>wc n. rt_order pd (fst wc) n)\<rparr>"

definition with_context_op ::
  "('w \<Rightarrow> 'c \<Rightarrow> rpc_context \<Rightarrow> 'req \<Rightarrow> 'w \<times> 'resp res) \<Rightarrow> 'w \<times> 'x \<Rightarrow> 'c \<Rightarrow> rpc_context \<Rightarrow> 'req \<Rightarrow> ('w \<times> 'x) \<times> 'resp res" where
  "with_context_op f wc c ctx q = on_fst (\<lambda>w. f w c ctx q) wc"

subsection \<open>The plan\<close>

record resolve_locks_options =
  ro_async_commit_only :: bool
  ro_batch_size :: u32

definition DEFAULT_SCAN_LOCK_BATCH_SIZE :: u32 where "DEFAULT_SCAN_LOCK_BATCH_SIZE = 1024"

definition default_resolve_locks_options :: resolve_locks_options where
  "default_resolve_locks_options = \<lparr>ro_async_commit_only = False, ro_batch_size = DEFAULT_SCAN_LOCK_BATCH_SIZE\<rparr>"

text \<open>The field \<open>resolved_locks\<close> is a number in the code; here it is the locks themselves, of which the code has the count.\<close>

record cleanup_locks_result =
  cl_region_error :: "region_error_msg option"
  cl_key_error :: "error list option"
  cl_resolved_locks :: "lock_info list"

definition default_cleanup_locks_result :: cleanup_locks_result where
  "default_cleanup_locks_result = \<lparr>cl_region_error = None, cl_key_error = None, cl_resolved_locks = []\<rparr>"

record 'c cleanup_plan =
  cp_inner :: "(scan_lock_request, 'c) dispatch_plan"
  cp_store :: "'c region_store option"

definition next_scan_range :: "region_with_leader \<Rightarrow> key \<Rightarrow> scan_lock_response \<Rightarrow> (bytes \<times> bytes) option" where
  "next_scan_range region stop resp =
    (case scan_lock_has_next_batch resp of
       None \<Rightarrow> None
     | Some r \<Rightarrow> if contains region (fst r) \<and> (stop = [] \<or> fst r < stop) then Some r else None)"

text \<open>Errors of the resolver that the retry over regions handles.\<close>

definition extracted_result :: "error list \<Rightarrow> cleanup_locks_result \<Rightarrow> cleanup_locks_result res" where
  "extracted_result errors result =
    (if errors = [] then Inl (InternalError ''ExtractedErrors was empty'')
     else case last errors of
        RegionError e \<Rightarrow> Inr (result\<lparr>cl_region_error := Some e,
          cl_key_error := (if butlast errors = [] then cl_key_error result else Some (butlast errors))\<rparr>)
      | _ \<Rightarrow> Inr (result\<lparr>cl_key_error := Some errors\<rparr>))"

text \<open>The loop over the batches. \<open>scan\<close> sends one scan request, \<open>resolver\<close> is \<open>cleanup_locks\<close> of the lock resolver for the region.\<close>

primrec cleanup_loop ::
  "('v, 'c) pd_client \<Rightarrow> ('v \<Rightarrow> 'c \<Rightarrow> rpc_context \<Rightarrow> scan_lock_request \<Rightarrow> 'v \<times> scan_lock_response res)
     \<Rightarrow> ('v \<Rightarrow> lock_info list \<Rightarrow> ('v \<times> unit res) option) \<Rightarrow> resolve_locks_options \<Rightarrow> region_with_leader \<Rightarrow> nat
     \<Rightarrow> 'v plan_state \<Rightarrow> (scan_lock_request, 'c) dispatch_plan \<Rightarrow> backoff \<Rightarrow> cleanup_locks_result
     \<Rightarrow> ('v plan_state \<times> cleanup_locks_result res) option" where
  "cleanup_loop pd scan resolver options region 0 = (\<lambda>s inner b result. None)"
| "cleanup_loop pd scan resolver options region (Suc fuel) = (\<lambda>s inner b result.
    case dispatch_execute scan s inner of
      None \<Rightarrow> None
    | Some (s, Inl e) \<Rightarrow> Some (s, Inl e)
    | Some (s, Inr resp) \<Rightarrow>
       (case opt_key_errors (sls_error resp) of
          Some es \<Rightarrow> Some (s, Inr (result\<lparr>cl_key_error := Some es\<rparr>))
        | None \<Rightarrow>
       (case sls_region_error resp of
          Some e \<Rightarrow> Some (s, Inr (result\<lparr>cl_region_error := Some e\<rparr>))
        | None \<Rightarrow>
           (let next_range = next_scan_range region (slq_end_key (di_request inner)) resp;
                locks = fst (scan_lock_take_locks resp)
            in if locks = [] then Some (s, Inr result)
               else
                (let more = next_range \<noteq> None \<and> \<not> length locks < unat (ro_batch_size options);
                     advanced = (case next_range of Some r \<Rightarrow> if more then inner\<lparr>di_request := scan_lock_next_batch r (di_request inner)\<rparr> else inner
                       | None \<Rightarrow> inner);
                     locks = (if ro_async_commit_only options then filter li_use_async_commit locks else locks)
                 in if locks = [] then
                      (if more then cleanup_loop pd scan resolver options region fuel s advanced b result else Some (s, Inr result))
                    else
                      (case resolver (ps_world s) locks of
                         None \<Rightarrow> None
                       | Some (v, Inr _) \<Rightarrow>
                          (let s = set_world v s; result = result\<lparr>cl_resolved_locks := cl_resolved_locks result @ locks\<rparr>
                           in if more then cleanup_loop pd scan resolver options region fuel s advanced b result else Some (s, Inr result))
                       | Some (v, Inl (ResolveLockError live)) \<Rightarrow>
                          (case back_off pd (set_world v s) b of
                             None \<Rightarrow> None
                           | Some (s, Some b) \<Rightarrow> cleanup_loop pd scan resolver options region fuel s inner b result
                           | Some (s, None) \<Rightarrow> Some (s, Inl (ResolveLockError live)))
                       | Some (v, Inl (ExtractedErrors errors)) \<Rightarrow> Some (set_world v s, extracted_result errors result)
                       | Some (v, Inl e) \<Rightarrow> Some (set_world v s, Inl e)))))))"

definition cleanup_execute ::
  "(error \<Rightarrow> string) \<Rightarrow> ('w, 'c) pd_client \<Rightarrow> ('w, 'c) kv_ops \<Rightarrow> resolve_locks_options \<Rightarrow> backoff \<Rightarrow> nat
     \<Rightarrow> ('w \<times> resolve_locks_context) plan_state \<Rightarrow> 'c cleanup_plan \<Rightarrow> (('w \<times> resolve_locks_context) plan_state \<times> cleanup_locks_result res) option" where
  "cleanup_execute display pd kv options b fuel s p =
    (case cp_store p of
       None \<Rightarrow> Some (s, Inl (InternalError ''CleanupLocks executed without an attached store''))
     | Some st \<Rightarrow> cleanup_loop (with_context pd) (with_context_op (kv_scan_lock kv)) (\<lambda>wc ls. cleanup_locks display pd kv fuel st ls wc)
         options (rst_region st) fuel s (cp_inner p) b default_cleanup_locks_result)"

definition scan_lock_ops :: "('w, 'c) pd_client \<Rightarrow> ('w, 'c) kv_ops
    \<Rightarrow> ('w \<times> resolve_locks_context, 'c, (scan_lock_request, 'c) dispatch_plan, key \<times> key, scan_lock_response) plan_ops" where
  "scan_lock_ops pd kv = (dispatch_ops (with_context_op (kv_scan_lock kv)) (\<lambda>wc _. (wc, [])) scan_lock_apply_shard (\<lambda>_ q. q)
     (opt_key_errors \<circ> sls_error) sls_region_error)
     \<lparr>op_shards := \<lambda>wc p. scan_lock_shards (pd_region_for_key (with_context pd)) wc (di_request p)\<rparr>"

definition cleanup_ops ::
  "(error \<Rightarrow> string) \<Rightarrow> ('w, 'c) pd_client \<Rightarrow> ('w, 'c) kv_ops \<Rightarrow> resolve_locks_options \<Rightarrow> backoff \<Rightarrow> nat
     \<Rightarrow> ('w \<times> resolve_locks_context, 'c, 'c cleanup_plan, key \<times> key, cleanup_locks_result) plan_ops" where
  "cleanup_ops display pd kv options b fuel =
    \<lparr>op_shards = (\<lambda>wc p. op_shards (scan_lock_ops pd kv) wc (cp_inner p)),
     op_apply_shard = (\<lambda>sh p. p\<lparr>cp_inner := op_apply_shard (scan_lock_ops pd kv) sh (cp_inner p)\<rparr>),
     op_apply_store = (\<lambda>st p. map_sum id (\<lambda>inner. p\<lparr>cp_inner := inner, cp_store := Some st\<rparr>)
        (op_apply_store (scan_lock_ops pd kv) st (cp_inner p))),
     op_execute = cleanup_execute display pd kv options b fuel, op_key_errors = cl_key_error, op_region_error = cl_region_error\<rparr>"

text \<open>\<open>Merge\<close> with \<open>Collect\<close>: the sum of the counts, here the locks of all results.\<close>

definition merge_cleanup :: "cleanup_locks_result res list \<Rightarrow> cleanup_locks_result res" where
  "merge_cleanup rs = (case first_error rs of Some e \<Rightarrow> Inl e
     | None \<Rightarrow> Inr (default_cleanup_locks_result\<lparr>cl_resolved_locks := concat (map cl_resolved_locks (oks rs))\<rparr>))"

subsection \<open>No lock is passed over\<close>

text \<open>The locks that a scan request asks for.\<close>

definition asked_for :: "scan_lock_request \<Rightarrow> lock_info \<Rightarrow> bool" where
  "asked_for q l \<longleftrightarrow> in_half_open (slq_start_key q) (slq_end_key q) (li_key l) \<and> li_lock_version l \<le> slq_max_version q"

text \<open>What is relied on of the stores: \<open>locks_of\<close> are the locks that are there, in the order of their keys, a scan without an error
  answers with the first of those that are asked for, and locks below the safepoint disappear and are not made.\<close>

definition locks_shrink :: "('v \<Rightarrow> lock_info list) \<Rightarrow> 'v \<Rightarrow> 'v \<Rightarrow> bool" where
  "locks_shrink locks_of v v' \<longleftrightarrow> set (locks_of v') \<subseteq> set (locks_of v)"

definition answers_scans ::
  "('v \<Rightarrow> 'c \<Rightarrow> rpc_context \<Rightarrow> scan_lock_request \<Rightarrow> 'v \<times> scan_lock_response res) \<Rightarrow> ('v \<Rightarrow> lock_info list) \<Rightarrow> bool" where
  "answers_scans scan locks_of \<longleftrightarrow> (\<forall>v. sorted_wrt (\<lambda>a b. li_key a < li_key b) (locks_of v))
     \<and> (\<forall>v c ctx q v' r. scan v c ctx q = (v', r) \<longrightarrow> locks_shrink locks_of v v'
        \<and> (case r of Inl e \<Rightarrow> True | Inr resp \<Rightarrow> sls_error resp = None \<and> sls_region_error resp = None \<longrightarrow>
             sls_locks resp = take (unat (slq_limit q)) (filter (asked_for q) (locks_of v))))"

definition keeps_locks :: "('v, 'c) pd_client \<Rightarrow> ('v \<Rightarrow> lock_info list \<Rightarrow> ('v \<times> unit res) option) \<Rightarrow> ('v \<Rightarrow> lock_info list) \<Rightarrow> bool" where
  "keeps_locks pd resolver locks_of \<longleftrightarrow> (\<forall>v ls v' r. resolver v ls = Some (v', r) \<longrightarrow> locks_shrink locks_of v v')
     \<and> (\<forall>v d. locks_shrink locks_of v (rt_sleep pd v d))"

lemma locks_shrink_trans: "locks_shrink f a b \<Longrightarrow> locks_shrink f b c \<Longrightarrow> locks_shrink f a c"
  by (auto simp: locks_shrink_def)

lemma locks_shrink_refl: "locks_shrink f a a"
  by (simp add: locks_shrink_def)

lemma extracted_result_error:
  "extracted_result errors result = Inr result' \<Longrightarrow> cl_key_error result' \<noteq> None \<or> cl_region_error result' \<noteq> None"
  unfolding extracted_result_def by (cases "last errors") (auto split: if_splits)

lemma take_sorted_below:
  assumes "sorted_wrt (\<lambda>a b. f a < (f b :: 'k :: linorder)) xs" "x \<in> set xs" "take n xs \<noteq> []" "f x \<le> f (last (take n xs))"
  shows "x \<in> set (take n xs)"
proof (rule ccontr)
  assume "x \<notin> set (take n xs)"
  then have "x \<in> set (drop n xs)" using assms(2) by (metis Un_iff append_take_drop_id set_append)
  moreover have "last (take n xs) \<in> set (take n xs)" using assms(3) by (rule last_in_set)
  moreover have "sorted_wrt (\<lambda>a b. f a < f b) (take n xs @ drop n xs)" using assms(1) by simp
  ultimately have "f (last (take n xs)) < f x" unfolding sorted_wrt_append by blast
  then show False using assms(4) by simp
qed

text \<open>The rest of a scan after a batch: what is asked for is in the batch or is asked for by the next scan.\<close>

lemma batch_or_rest:
  assumes "sorted_wrt (\<lambda>a b. li_key a < li_key b) locks" "l \<in> set locks" "asked_for q l"
    and ys: "ys = take (unat (slq_limit q)) (filter (asked_for q) locks)" "ys \<noteq> []"
  shows "l \<in> set ys \<or> asked_for (q\<lparr>slq_start_key := li_key (last ys) @ [0]\<rparr>) l \<and> li_key (last ys) @ [0] \<le> li_key l"
proof -
  have "sorted_wrt (\<lambda>a b. li_key a < li_key b) (filter (asked_for q) locks)" using assms(1) by (rule sorted_wrt_filter)
  from take_sorted_below [OF this, of l "unat (slq_limit q)"] have "l \<in> set ys \<or> \<not> li_key l \<le> li_key (last ys)"
    using assms(2,3) ys by auto
  then show ?thesis using assms(3) bytes_snoc0_le_iff [of "li_key (last ys)" "li_key l"]
    by (auto simp: asked_for_def in_half_open_def)
qed

lemma short_batch_is_all:
  assumes "ys = take n xs" "length ys < n"
  shows "ys = xs"
  using assms by simp

definition wanted_locks :: "resolve_locks_options \<Rightarrow> lock_info list \<Rightarrow> lock_info list" where
  "wanted_locks options locks = (if ro_async_commit_only options then filter li_use_async_commit locks else locks)"

definition more_batches :: "resolve_locks_options \<Rightarrow> (bytes \<times> bytes) option \<Rightarrow> lock_info list \<Rightarrow> bool" where
  "more_batches options next_range locks \<longleftrightarrow> next_range \<noteq> None \<and> \<not> length locks < unat (ro_batch_size options)"

lemma unchanged_state: "set_world (ps_world s) s = s" "result\<lparr>cl_resolved_locks := cl_resolved_locks result @ []\<rparr> = result"
  by (simp_all add: set_world_def)

text \<open>What one turn of the loop does when the cleanup ends without an error.\<close>

lemma cleanup_loop_turn:
  assumes run: "cleanup_loop pd scan resolver options region (Suc fuel) s inner b result = Some (s', Inr result')"
    and ok: "cl_key_error result' = None" "cl_region_error result' = None"
  obtains (nothing) resp where "dispatch_execute scan s inner = Some (s', Inr resp)" "sls_error resp = None" "sls_region_error resp = None"
      "sls_locks resp = []" "result' = result"
    | (again) s1 resp v live s2 b2 where "dispatch_execute scan s inner = Some (s1, Inr resp)"
      "resolver (ps_world s1) (wanted_locks options (sls_locks resp)) = Some (v, Inl (ResolveLockError live))"
      "back_off pd (set_world v s1) b = Some (s2, Some b2)" "cleanup_loop pd scan resolver options region fuel s2 inner b2 result = Some (s', Inr result')"
    | (last) s1 resp v where "dispatch_execute scan s inner = Some (s1, Inr resp)" "sls_error resp = None" "sls_region_error resp = None"
      "sls_locks resp \<noteq> []" "if wanted_locks options (sls_locks resp) = [] then v = ps_world s1 else resolver (ps_world s1) (wanted_locks options (sls_locks resp)) = Some (v, Inr ())"
      "\<not> more_batches options (next_scan_range region (slq_end_key (di_request inner)) resp) (sls_locks resp)"
      "s' = set_world v s1" "result' = result\<lparr>cl_resolved_locks := cl_resolved_locks result @ wanted_locks options (sls_locks resp)\<rparr>"
    | (next_one) s1 resp v r where "dispatch_execute scan s inner = Some (s1, Inr resp)" "sls_error resp = None" "sls_region_error resp = None"
      "sls_locks resp \<noteq> []" "if wanted_locks options (sls_locks resp) = [] then v = ps_world s1 else resolver (ps_world s1) (wanted_locks options (sls_locks resp)) = Some (v, Inr ())"
      "next_scan_range region (slq_end_key (di_request inner)) resp = Some r"
      "cleanup_loop pd scan resolver options region fuel (set_world v s1) (inner\<lparr>di_request := scan_lock_next_batch r (di_request inner)\<rparr>) b
         (result\<lparr>cl_resolved_locks := cl_resolved_locks result @ wanted_locks options (sls_locks resp)\<rparr>) = Some (s', Inr result')"
proof -
  obtain s1 resp where e: "dispatch_execute scan s inner = Some (s1, Inr resp)"
    using run by (auto split: option.splits prod.splits sum.splits)
  have ne: "sls_error resp = None" using run ok e by (cases "sls_error resp") (auto simp: opt_key_errors_def)
  have nr: "sls_region_error resp = None" using run ok e ne by (cases "sls_region_error resp") (auto simp: opt_key_errors_def)
  let ?next = "next_scan_range region (slq_end_key (di_request inner)) resp"
  let ?more = "more_batches options ?next (sls_locks resp)"
  let ?adv = "case ?next of Some r \<Rightarrow> if ?more then inner\<lparr>di_request := scan_lock_next_batch r (di_request inner)\<rparr> else inner | None \<Rightarrow> inner"
  let ?ls = "wanted_locks options (sls_locks resp)"
  let ?res = "result\<lparr>cl_resolved_locks := cl_resolved_locks result @ ?ls\<rparr>"
  show thesis
  proof (cases "sls_locks resp = []")
    case True
    then have same: "s1 = s'" "result' = result" using run e ne nr by (auto simp: opt_key_errors_def scan_lock_take_locks_def)
    show thesis by (rule that(1) [OF _ ne nr True]) (simp_all add: same e)
  next
    case locks: False
    note step = run [unfolded cleanup_loop.simps e option.case prod.case sum.case ne nr opt_key_errors_def Let_def scan_lock_take_locks_def fst_conv
      if_not_P [OF locks], folded wanted_locks_def more_batches_def]
    have go: thesis if v: "if wanted_locks options (sls_locks resp) = [] then v = ps_world s1 else resolver (ps_world s1) (wanted_locks options (sls_locks resp)) = Some (v, Inr ())"
      and r: "(if ?more then cleanup_loop pd scan resolver options region fuel (set_world v s1) ?adv b ?res else Some (set_world v s1, Inr ?res)) = Some (s', Inr result')" for v
    proof (cases ?more)
      case True
      then obtain r where nx: "?next = Some r" by (auto simp: more_batches_def)
      show thesis by (rule next_one [OF e ne nr locks v nx]) (use r True nx in simp)
    next
      case False
      show thesis by (rule last [OF e ne nr locks v False]) (use r False in auto)
    qed
    show thesis
    proof (cases "?ls = []")
      case True
      show thesis by (rule go [of "ps_world s1"]) (use step True in \<open>simp_all add: unchanged_state split: if_splits\<close>)
    next
      case wanted: False
      obtain v x where res: "resolver (ps_world s1) ?ls = Some (v, x)" using step wanted by (auto split: option.splits)
      show thesis
      proof (cases x)
        case (Inr u)
        show thesis by (rule go [of v]) (use step wanted res Inr in \<open>auto split: if_splits\<close>)
      next
        case (Inl err)
        show thesis
        proof (cases "\<exists>live. err = ResolveLockError live")
          case True
          then obtain live where live: "err = ResolveLockError live" by blast
          then obtain s2 b2 where "back_off pd (set_world v s1) b = Some (s2, Some b2)"
            "cleanup_loop pd scan resolver options region fuel s2 inner b2 result = Some (s', Inr result')"
            using step wanted res Inl by (auto split: option.splits)
          with again e res Inl live show thesis by blast
        next
          case False
          then have "Inr result' = (case err of ExtractedErrors errors \<Rightarrow> extracted_result errors result | _ \<Rightarrow> Inl err)"
            using step wanted res Inl by (cases err) auto
          then obtain errors where "extracted_result errors result = Inr result'" by (cases err) auto
          from extracted_result_error [OF this] ok show thesis by blast
        qed
      qed
    qed
  qed
qed

lemma dispatch_scan:
  assumes "dispatch_execute scan s inner = Some (s1, Inr resp)"
  obtains c where "scan (ps_world s) c (di_context inner) (di_request inner) = (ps_world s1, Inr resp)"
  using assms by (auto simp: dispatch_execute_def set_world_def split: option.splits prod.splits)

lemma back_off_shrinks:
  assumes "keeps_locks pd resolver locks_of" "back_off pd s b = Some (s', x)"
  shows "locks_shrink locks_of (ps_world s) (ps_world s')"
  using assms by (auto simp: back_off_def keeps_locks_def set_world_def locks_shrink_refl split: option.splits prod.splits)

definition of_interest :: "resolve_locks_options \<Rightarrow> scan_lock_request \<Rightarrow> lock_info \<Rightarrow> bool" where
  "of_interest options q l \<longleftrightarrow> asked_for q l \<and> (ro_async_commit_only options \<longrightarrow> li_use_async_commit l)"

definition shard_in_region :: "region_with_leader \<Rightarrow> scan_lock_request \<Rightarrow> bool" where
  "shard_in_region region q \<longleftrightarrow> (\<forall>k. in_half_open (slq_start_key q) (slq_end_key q) k \<longrightarrow> contains region k)"

text \<open>When there is no further batch, the batch holds everything that was asked for.\<close>

lemma last_batch_is_all:
  assumes sorted: "sorted_wrt (\<lambda>a b. li_key a < li_key b) locks" and l: "l \<in> set locks" "asked_for q l"
    and ys: "sls_locks resp = take (unat (slq_limit q)) (filter (asked_for q) locks)" "sls_locks resp \<noteq> []"
    and stop: "\<not> more_batches options (next_scan_range region (slq_end_key q) resp) (sls_locks resp)"
    and region: "shard_in_region region q" and limit: "slq_limit q = ro_batch_size options"
  shows "l \<in> set (sls_locks resp)"
proof (cases "length (sls_locks resp) < unat (slq_limit q)")
  case True
  from short_batch_is_all [OF ys(1) True] l show ?thesis by simp
next
  case False
  then have none: "next_scan_range region (slq_end_key q) resp = None" using stop limit unfolding more_batches_def by metis
  let ?k = "li_key (last (sls_locks resp)) @ [0]"
  show ?thesis
  proof (rule ccontr)
    assume "l \<notin> set (sls_locks resp)"
    then have r: "asked_for (q\<lparr>slq_start_key := ?k\<rparr>) l" "?k \<le> li_key l" using batch_or_rest [OF sorted l ys] by auto
    have "last (sls_locks resp) \<in> set (sls_locks resp)" using ys(2) by (rule last_in_set)
    then have "asked_for q (last (sls_locks resp))" unfolding ys(1) by (auto dest: in_set_takeD)
    then have "slq_start_key q \<le> ?k" by (auto simp: asked_for_def in_half_open_def intro: order_trans [OF _ le_append])
    moreover have below: "slq_end_key q = [] \<or> ?k < slq_end_key q" using r l(2) by (auto simp: asked_for_def in_half_open_def)
    ultimately have "contains region ?k" using region by (simp add: shard_in_region_def in_half_open_def)
    then show False using none below ys(2) by (simp add: next_scan_range_def scan_lock_has_next_batch_def)
  qed
qed

lemma next_range_start:
  assumes "next_scan_range region stop resp = Some r" "sls_locks resp \<noteq> []"
  shows "fst r = li_key (last (sls_locks resp)) @ [0]"
  using assms by (auto simp: next_scan_range_def scan_lock_has_next_batch_def split: if_splits)

lemma scan_answer:
  assumes scans: "answers_scans scan locks_of" and ex: "dispatch_execute scan s inner = Some (s1, Inr resp)"
  shows "locks_shrink locks_of (ps_world s) (ps_world s1)"
    and "sls_error resp = None \<Longrightarrow> sls_region_error resp = None \<Longrightarrow>
      sls_locks resp = take (unat (slq_limit (di_request inner))) (filter (asked_for (di_request inner)) (locks_of (ps_world s)))"
proof -
  obtain c where "scan (ps_world s) c (di_context inner) (di_request inner) = (ps_world s1, Inr resp)" using ex by (rule dispatch_scan)
  note answer = conjunct2 [OF scans [unfolded answers_scans_def], THEN spec, THEN spec, THEN spec, THEN spec, THEN spec, THEN spec, THEN mp, OF this]
  show "locks_shrink locks_of (ps_world s) (ps_world s1)"
    and "sls_error resp = None \<Longrightarrow> sls_region_error resp = None \<Longrightarrow>
      sls_locks resp = take (unat (slq_limit (di_request inner))) (filter (asked_for (di_request inner)) (locks_of (ps_world s)))"
    using answer by simp_all
qed

lemma resolved_shrinks:
  assumes "keeps_locks pd resolver locks_of" "if ls = [] then v = w else resolver w ls = Some (v, Inr ())"
  shows "locks_shrink locks_of w v"
  using assms unfolding keeps_locks_def by (auto simp: locks_shrink_refl split: if_splits)

lemma ps_world_set_world [simp]: "ps_world (set_world v s) = v"
  by (simp add: set_world_def)

lemma still_there: "locks_shrink locks_of v v' \<Longrightarrow> l \<in> set (locks_of v') \<Longrightarrow> l \<in> set (locks_of v)"
  by (auto simp: locks_shrink_def)

lemma next_batch_in_region:
  assumes region: "shard_in_region region q" and ys: "sls_locks resp = take n (filter (asked_for q) locks)" "sls_locks resp \<noteq> []"
  shows "shard_in_region region (q\<lparr>slq_start_key := li_key (last (sls_locks resp)) @ [0]\<rparr>)"
proof -
  have "last (sls_locks resp) \<in> set (sls_locks resp)" using ys(2) by (rule last_in_set)
  then have "asked_for q (last (sls_locks resp))" unfolding ys by (auto dest: in_set_takeD)
  then have "slq_start_key q \<le> li_key (last (sls_locks resp)) @ [0]" by (auto simp: asked_for_def in_half_open_def intro: order_trans [OF _ le_append])
  then show ?thesis using region by (auto simp: shard_in_region_def in_half_open_def)
qed

lemma cleanup_loop_complete:
  assumes scans: "answers_scans scan locks_of" and keeps: "keeps_locks pd resolver locks_of" and pos: "ro_batch_size options \<noteq> 0"
    and limit: "slq_limit (di_request inner) = ro_batch_size options" and region: "shard_in_region region (di_request inner)"
    and run: "cleanup_loop pd scan resolver options region fuel s inner b result = Some (s', Inr result')"
    and ok: "cl_key_error result' = None" "cl_region_error result' = None"
  shows "locks_shrink locks_of (ps_world s) (ps_world s') \<and> set (cl_resolved_locks result) \<subseteq> set (cl_resolved_locks result')
    \<and> (\<forall>l \<in> set (locks_of (ps_world s')). of_interest options (di_request inner) l \<longrightarrow> l \<in> set (cl_resolved_locks result'))"
  using limit region run
proof (induction fuel arbitrary: s inner b result)
  case (Suc fuel)
  let ?q = "di_request inner"
  have sorted: "sorted_wrt (\<lambda>a b. li_key a < li_key b) (locks_of v)" for v using scans by (simp add: answers_scans_def)
  note scanned = scan_answer [OF scans] and cleaned = resolved_shrinks [OF keeps]
  show ?case
  proof (rule cleanup_loop_turn [OF Suc.prems(3) ok], goal_cases)
    case (1 resp)
    have "take (unat (slq_limit ?q)) (filter (asked_for ?q) (locks_of (ps_world s))) = []" using scanned(2) [OF 1(1-3)] 1(4) by simp
    then have "filter (asked_for ?q) (locks_of (ps_world s)) = []" using pos Suc.prems(1) by (simp add: word_unat_eq_iff)
    then have "\<not> of_interest options ?q l" if "l \<in> set (locks_of (ps_world s'))" for l
      using still_there [OF scanned(1) [OF 1(1)] that] by (auto simp: of_interest_def filter_empty_conv)
    then show ?case using scanned(1) [OF 1(1)] 1(5) by simp
  next
    case (2 s1 resp v live s2 b2)
    have "locks_shrink locks_of (ps_world s1) v" using 2(2) keeps by (auto simp: keeps_locks_def)
    from locks_shrink_trans [OF scanned(1) [OF 2(1)] locks_shrink_trans [OF this back_off_shrinks [OF keeps 2(3), simplified]]]
    have "locks_shrink locks_of (ps_world s) (ps_world s2)" .
    then show ?case using Suc.IH [OF Suc.prems(1,2) 2(4)] locks_shrink_trans [of locks_of "ps_world s" "ps_world s2" "ps_world s'"] by simp
  next
    case (3 s1 resp v)
    have sh: "locks_shrink locks_of (ps_world s) (ps_world s')"
      using locks_shrink_trans [OF scanned(1) [OF 3(1)] cleaned [OF 3(5)]] 3(7) by simp
    have "l \<in> set (cl_resolved_locks result')" if l: "l \<in> set (locks_of (ps_world s'))" "of_interest options ?q l" for l
    proof -
      have "asked_for ?q l" using l(2) by (simp add: of_interest_def)
      from last_batch_is_all [OF sorted still_there [OF sh l(1)] this scanned(2) [OF 3(1-3)] 3(4,6) Suc.prems(2,1)]
      show ?thesis using l(2) 3(8) by (auto simp: wanted_locks_def of_interest_def)
    qed
    then show ?case using sh 3(8) by simp
  next
    case (4 s1 resp v r)
    let ?q' = "scan_lock_next_batch r ?q"
    have q': "?q' = ?q\<lparr>slq_start_key := li_key (last (sls_locks resp)) @ [0]\<rparr>"
      by (simp add: scan_lock_next_batch_def next_range_start [OF 4(6,4)])
    note ys = scanned(2) [OF 4(1-3)]
    have reg: "shard_in_region region ?q'" unfolding q' by (rule next_batch_in_region [OF Suc.prems(2) ys 4(4)])
    have lim: "slq_limit ?q' = ro_batch_size options" using Suc.prems(1) by (simp add: q')
    note IH = Suc.IH [of "inner\<lparr>di_request := ?q'\<rparr>", simplified, OF lim reg 4(7)]
    have sh: "locks_shrink locks_of (ps_world s) (ps_world s')"
      by (rule locks_shrink_trans [OF locks_shrink_trans [OF scanned(1) [OF 4(1)] cleaned [OF 4(5)]]]) (use IH in simp)
    have "l \<in> set (cl_resolved_locks result')" if l: "l \<in> set (locks_of (ps_world s'))" "of_interest options ?q l" for l
    proof -
      have "asked_for ?q l" using l(2) by (simp add: of_interest_def)
      from batch_or_rest [OF sorted still_there [OF sh l(1)] this ys 4(4)]
      consider "l \<in> set (sls_locks resp)" | "asked_for ?q' l" unfolding q' by blast
      then show ?thesis using IH l by cases (auto simp: wanted_locks_def of_interest_def)
    qed
    then show ?case using sh IH by simp
  qed
qed simp

subsection \<open>Every transaction is marked\<close>

text \<open>Something that is said of a lock and stays true, and that a successful cleanup makes true of its locks.\<close>

definition stays_marked ::
  "('v, 'c) pd_client \<Rightarrow> ('v \<Rightarrow> 'c \<Rightarrow> rpc_context \<Rightarrow> scan_lock_request \<Rightarrow> 'v \<times> scan_lock_response res)
     \<Rightarrow> ('v \<Rightarrow> lock_info list \<Rightarrow> ('v \<times> unit res) option) \<Rightarrow> ('v \<Rightarrow> lock_info \<Rightarrow> bool) \<Rightarrow> bool" where
  "stays_marked pd scan resolver marked \<longleftrightarrow> (\<forall>v c ctx q l. marked v l \<longrightarrow> marked (fst (scan v c ctx q)) l)
     \<and> (\<forall>v ls v' r l. resolver v ls = Some (v', r) \<longrightarrow> marked v l \<longrightarrow> marked v' l) \<and> (\<forall>v d l. marked v l \<longrightarrow> marked (rt_sleep pd v d) l)
     \<and> (\<forall>v ls v' l. resolver v ls = Some (v', Inr ()) \<longrightarrow> l \<in> set ls \<longrightarrow> marked v' l)"

lemma dispatch_marked:
  assumes "stays_marked pd scan resolver marked" "dispatch_execute scan s inner = Some (s1, Inr resp)" "marked (ps_world s) l"
  shows "marked (ps_world s1) l"
proof -
  obtain c where "scan (ps_world s) c (di_context inner) (di_request inner) = (ps_world s1, Inr resp)" using assms(2) by (rule dispatch_scan)
  then show ?thesis using assms(1,3) unfolding stays_marked_def by (metis fst_conv)
qed

lemma back_off_marked:
  assumes "stays_marked pd scan resolver marked" "back_off pd s b = Some (s', x)" "marked (ps_world s) l"
  shows "marked (ps_world s') l"
  using assms by (auto simp: back_off_def stays_marked_def set_world_def split: option.splits prod.splits)

lemma batch_marked:
  assumes "stays_marked pd scan resolver marked" "if ls = [] then v = w else resolver w ls = Some (v, Inr ())"
    and "\<forall>l \<in> set xs. marked w l" "l \<in> set (xs @ ls)"
  shows "marked v l"
proof (cases "ls = []")
  case False
  then have "resolver w ls = Some (v, Inr ())" using assms(2) by simp
  then show ?thesis using assms(1,3,4) unfolding stays_marked_def by (metis Un_iff set_append)
qed (use assms in simp)

lemma cleanup_loop_marks:
  assumes m: "stays_marked pd scan resolver marked"
    and run: "cleanup_loop pd scan resolver options region fuel s inner b result = Some (s', Inr result')"
    and ok: "cl_key_error result' = None" "cl_region_error result' = None"
    and before: "\<forall>l \<in> set (cl_resolved_locks result). marked (ps_world s) l"
  shows "\<forall>l \<in> set (cl_resolved_locks result'). marked (ps_world s') l"
  using run before
proof (induction fuel arbitrary: s inner b result)
  case (Suc fuel)
  note step = dispatch_marked [OF m]
  show ?case
  proof (rule cleanup_loop_turn [OF Suc.prems(1) ok], goal_cases)
    case (1 resp)
    then show ?case using step [OF 1(1)] Suc.prems(2) by blast
  next
    case (2 s1 resp v live s2 b2)
    have "marked v l" if "marked (ps_world s1) l" for l using m 2(2) that unfolding stays_marked_def by blast
    then have "\<forall>l \<in> set (cl_resolved_locks result). marked (ps_world s2) l"
      using Suc.prems(2) step [OF 2(1)] back_off_marked [OF m 2(3)] by simp
    then show ?case using Suc.IH [OF 2(4)] by blast
  next
    case (3 s1 resp v)
    have "\<forall>l \<in> set (cl_resolved_locks result). marked (ps_world s1) l" using step [OF 3(1)] Suc.prems(2) by blast
    from batch_marked [OF m 3(5) this] show ?case using 3(7,8) by simp
  next
    case (4 s1 resp v r)
    have "\<forall>l \<in> set (cl_resolved_locks result). marked (ps_world s1) l" using step [OF 4(1)] Suc.prems(2) by blast
    from batch_marked [OF m 4(5) this]
    have "\<forall>l \<in> set (cl_resolved_locks (result\<lparr>cl_resolved_locks := cl_resolved_locks result @ wanted_locks options (sls_locks resp)\<rparr>)).
      marked (ps_world (set_world v s1)) l" by simp
    then show ?case using Suc.IH [OF 4(7)] by blast
  qed
qed simp

text \<open>The tables of the resolver.\<close>

lemma check_txn_status_clean:
  "check_txn_status pd kv fuel txn primary caller current rb force pess wc = Some (wc', r) \<Longrightarrow> rc_clean_regions (snd wc') = rc_clean_regions (snd wc)"
  by (auto simp: check_txn_status_def save_resolved_def Let_def split: prod.splits option.splits sum.splits if_splits)

lemma decide_txn_clean:
  assumes "decide_txn display pd kv fuel l wc = Some (wc', r)"
  shows "rc_clean_regions (snd wc') = rc_clean_regions (snd wc)"
proof -
  obtain wc1 x where c: "check_txn_status pd kv fuel (li_lock_version l) (li_primary_lock l) 0 (- 1) True False (is_pessimistic_lock l) wc = Some (wc1, x)"
    using assms by (auto simp: decide_txn_def Let_def split: option.splits)
  note clean = check_txn_status_clean [OF c]
  show ?thesis using assms clean
    by (auto simp: decide_txn_def Let_def c dest!: check_txn_status_clean split: option.splits prod.splits sum.splits txn_status_kind.splits if_splits)
qed

lemma collect_txn_infos_covers:
  "collect_txn_infos display pd kv fuel region ls infos wc = Some (wc', Inr infos') \<Longrightarrow>
     rc_clean_regions (snd wc') = rc_clean_regions (snd wc) \<and> set infos \<subseteq> set infos'
     \<and> (\<forall>l \<in> set ls. li_lock_version l \<in> fst ` set infos' \<or> is_region_cleaned (snd wc') (li_lock_version l) region)"
proof (induction ls arbitrary: infos wc)
  case (Cons l ls)
  show ?case
  proof (cases "li_lock_version l \<in> fst ` set infos \<or> is_region_cleaned (snd wc) (li_lock_version l) region")
    case True
    then have "collect_txn_infos display pd kv fuel region ls infos wc = Some (wc', Inr infos')" using Cons.prems by simp
    from Cons.IH [OF this] True show ?thesis by (auto simp: is_region_cleaned_def)
  next
    case False
    then obtain wc1 ts where d: "decide_txn display pd kv fuel l wc = Some (wc1, Inr ts)"
      "collect_txn_infos display pd kv fuel region ls (infos @ [(li_lock_version l, ts)]) wc1 = Some (wc', Inr infos')"
      using Cons.prems by (auto split: option.splits sum.splits prod.splits if_splits)
    from Cons.IH [OF d(2)] decide_txn_clean [OF d(1)] show ?thesis by (auto simp: image_iff) force
  qed
qed simp

lemma collect_txn_infos_clean:
  "collect_txn_infos display pd kv fuel region ls infos wc = Some (wc', r) \<Longrightarrow> rc_clean_regions (snd wc') = rc_clean_regions (snd wc)"
proof (induction ls arbitrary: infos wc)
  case (Cons l ls)
  then show ?case by (auto dest!: Cons.IH decide_txn_clean split: option.splits sum.splits prod.splits if_splits)
qed simp

lemma fold_save_cleaned:
  "is_region_cleaned (fold (\<lambda>(txn, _). save_cleaned_region txn v) infos c) t u \<longleftrightarrow> is_region_cleaned c t u \<or> t \<in> fst ` set infos \<and> u = v"
proof (induction infos arbitrary: c)
  case (Cons p infos)
  obtain t' x where p: "p = (t', x)" by fastforce
  have "is_region_cleaned (save_cleaned_region t' v c) t u \<longleftrightarrow> is_region_cleaned c t u \<or> t = t' \<and> u = v"
    by (auto simp: is_region_cleaned_def save_cleaned_region_def)
  then show ?case unfolding p fold_simps prod.case Cons.IH by auto
qed simp

lemma batch_resolve_region: "batch_resolve_locks kv w st infos = (w', Inr cleaned) \<Longrightarrow> cleaned = ver_id (rst_region st)"
  unfolding batch_resolve_locks_def by (auto simp: ok_bind_Inr_iff split: sum.splits prod.splits)

lemma cleanup_locks_marks:
  assumes "cleanup_locks display pd kv fuel st ls wc = Some (wc', Inr ())" "l \<in> set ls"
  shows "is_region_cleaned (snd wc') (li_lock_version l) (ver_id (rst_region st))"
proof -
  have ne: "ls \<noteq> []" using assms(2) by auto
  then obtain w c infos w2 cleaned where i: "collect_txn_infos display pd kv fuel (ver_id (rst_region st)) ls [] wc = Some ((w, c), Inr infos)"
    "batch_resolve_locks kv w st (map (\<lambda>(txn, ts). \<lparr>ti_txn = txn, ti_status = ts, ti_is_txn_file = False\<rparr>) infos) = (w2, Inr cleaned)"
    "wc' = (w2, fold (\<lambda>(txn, _). save_cleaned_region txn cleaned) infos c)"
    using assms(1) by (auto simp: cleanup_locks_def split: option.splits prod.splits sum.splits)
  show ?thesis using collect_txn_infos_covers [OF i(1)] assms(2) batch_resolve_region [OF i(2)] by (auto simp: i(3) fold_save_cleaned)
qed

lemma cleanup_locks_keeps_marks:
  assumes "cleanup_locks display pd kv fuel st ls wc = Some (wc', r)" "is_region_cleaned (snd wc) t v"
  shows "is_region_cleaned (snd wc') t v"
proof (cases "ls = []")
  case False
  then obtain w c x where i: "collect_txn_infos display pd kv fuel (ver_id (rst_region st)) ls [] wc = Some ((w, c), x)"
    using assms(1) by (auto simp: cleanup_locks_def split: option.splits)
  have "is_region_cleaned c t v" using collect_txn_infos_clean [OF i] assms(2) by (simp add: is_region_cleaned_def)
  then show ?thesis using assms(1) False i by (auto simp: cleanup_locks_def fold_save_cleaned split: sum.splits prod.splits)
qed (use assms in \<open>simp add: cleanup_locks_def\<close>)

lemma cleanup_stays_marked:
  "stays_marked (with_context pd) (with_context_op scan) (\<lambda>wc ls. cleanup_locks display pd kv fuel st ls wc)
     (\<lambda>wc l. is_region_cleaned (snd wc) (li_lock_version l) (ver_id (rst_region st)))"
  unfolding stays_marked_def
  by (auto simp: with_context_op_def on_fst_def with_context_def case_prod_unfold dest: cleanup_locks_marks cleanup_locks_keeps_marks)

text \<open>C16: Cleaning up the locks of one region for garbage collection passes over none of them: when it ends without an error, every lock of the
  scanned range that is not newer than the safepoint and is still there belongs to a transaction that was resolved in this region. It does not
  matter how many batches it took, how often a batch was tried again, and that transactions finish in the meantime.\<close>

theorem cleanup_passes_over_no_lock:
  assumes "answers_scans (with_context_op (kv_scan_lock kv)) locks_of"
    and "keeps_locks (with_context pd) (\<lambda>wc ls. cleanup_locks display pd kv fuel st ls wc) locks_of"
    and "ro_batch_size options \<noteq> 0" "slq_limit (di_request (cp_inner p)) = ro_batch_size options"
    and "shard_in_region (rst_region st) (di_request (cp_inner p))" "cp_store p = Some st"
    and "cleanup_execute display pd kv options b fuel s p = Some (s', Inr result)" "cl_key_error result = None" "cl_region_error result = None"
    and "l \<in> set (locks_of (ps_world s'))" "of_interest options (di_request (cp_inner p)) l"
  shows "l \<in> set (cl_resolved_locks result) \<and> is_region_cleaned (snd (ps_world s')) (li_lock_version l) (ver_id (rst_region st))"
proof -
  have run: "cleanup_loop (with_context pd) (with_context_op (kv_scan_lock kv)) (\<lambda>wc ls. cleanup_locks display pd kv fuel st ls wc)
      options (rst_region st) fuel s (cp_inner p) b default_cleanup_locks_result = Some (s', Inr result)"
    using assms(6,7) by (simp add: cleanup_execute_def)
  have l: "l \<in> set (cl_resolved_locks result)"
    using cleanup_loop_complete [OF assms(1-5) run assms(8,9)] assms(10,11) by blast
  moreover have "\<forall>l \<in> set (cl_resolved_locks result). is_region_cleaned (snd (ps_world s')) (li_lock_version l) (ver_id (rst_region st))"
    by (rule cleanup_loop_marks [OF cleanup_stays_marked run assms(8,9)]) (simp add: default_cleanup_locks_result_def)
  ultimately show ?thesis by blast
qed

text \<open>Two locks of one region, scanned one at a time.\<close>

definition example_locks :: "lock_info list" where
  "example_locks = [LockInfo [1] 5 [1] 0 0 0 0 False 0 [] 0 [] False, LockInfo [1] 5 [2] 0 0 0 0 False 0 [] 0 [] False]"

definition locks_kv :: "(unit, unit) kv_ops" where
  "locks_kv = (demo_kv 0 0)\<lparr>kv_scan_lock := \<lambda>u c ctx q. (u, Inr \<lparr>sls_region_error = None, sls_error = None,
     sls_locks = take (unat (slq_limit q)) (filter (asked_for q) example_locks)\<rparr>)\<rparr>"

definition example_cleanup :: "unit cleanup_plan" where
  "example_cleanup = \<lparr>cp_inner = (new_dispatch (new_scan_lock_request [] [] 9 1))\<lparr>di_client := Some ()\<rparr>, cp_store = Some (new_region_store one_region ())\<rparr>"

definition example_state :: "(unit \<times> resolve_locks_context) plan_state" where
  "example_state = \<lparr>ps_world = ((), new_resolve_locks_context), ps_routing = default_read_routing\<rparr>"

lemma example_cleanup_runs:
  "map_option snd (cleanup_execute (\<lambda>_. []) (plain_client (from_version 9)) locks_kv \<lparr>ro_async_commit_only = False, ro_batch_size = 1\<rparr> no_backoff 4
     example_state example_cleanup)
   = Some (Inr \<lparr>cl_region_error = None, cl_key_error = None, cl_resolved_locks = example_locks\<rparr>)"
  by code_simp

theorem cleanup_passes_over_no_lock_witness:
  "\<exists>s'. map_option fst (cleanup_execute (\<lambda>_. []) (plain_client (from_version 9)) locks_kv \<lparr>ro_async_commit_only = False, ro_batch_size = 1\<rparr> no_backoff 4
     example_state example_cleanup) = Some s' \<and> is_region_cleaned (snd (ps_world s')) 5 (ver_id one_region)"
proof -
  let ?pd = "plain_client (from_version 9) :: (unit, unit) pd_client" and ?o = "\<lparr>ro_async_commit_only = False, ro_batch_size = 1\<rparr>"
  obtain s' where run: "cleanup_execute (\<lambda>_. []) ?pd locks_kv ?o no_backoff 4 example_state example_cleanup
      = Some (s', Inr \<lparr>cl_region_error = None, cl_key_error = None, cl_resolved_locks = example_locks\<rparr>)"
    using example_cleanup_runs by (auto simp: map_option_eq_Some)
  have scans: "answers_scans (with_context_op (kv_scan_lock locks_kv)) (\<lambda>_ :: unit \<times> resolve_locks_context. example_locks)"
    by (auto simp: answers_scans_def with_context_op_def on_fst_def locks_kv_def locks_shrink_def example_locks_def)
  have keeps: "keeps_locks (with_context ?pd) r (\<lambda>_ :: unit \<times> resolve_locks_context. example_locks)" for r
    by (simp add: keeps_locks_def locks_shrink_def)
  have region: "shard_in_region (rst_region (new_region_store one_region ())) (di_request (cp_inner example_cleanup))"
    by (simp add: shard_in_region_def new_region_store_def)
  have l: "hd example_locks \<in> set example_locks" "of_interest ?o (di_request (cp_inner example_cleanup)) (hd example_locks)"
    by (simp_all add: example_locks_def of_interest_def asked_for_def example_cleanup_def new_dispatch_def new_scan_lock_request_def
        default_scan_lock_request_def in_half_open_def)
  have "is_region_cleaned (snd (ps_world s')) (li_lock_version (hd example_locks)) (ver_id (rst_region (new_region_store one_region ())))"
    by (rule cleanup_passes_over_no_lock [OF scans keeps _ _ region _ run _ _ l, THEN conjunct2])
      (simp_all add: example_cleanup_def new_dispatch_def new_scan_lock_request_def default_scan_lock_request_def)
  then show ?thesis using run by (simp add: example_locks_def new_region_store_def)
qed

end
