(* ===== verification/Txn_Client.thy ===== *)
theory Txn_Client
  imports Transaction Cleanup_Locks Raw_Requests
begin

text \<open>
  The transactional client (\<open>transaction/client.rs\<close>), the snapshots it hands out (\<open>transaction/snapshot.rs\<close>), and the plan over all stores
  (\<open>RetryableAllStores\<close> in \<open>request/plan.rs\<close>). The safepoint of PD and the one request that goes to stores instead of regions are
  fields of the environment. None is a panic or running out of fuel.
\<close>

subsection \<open>Plans over all stores\<close>

record unsafe_destroy_range_request =
  udq_start_key :: bytes
  udq_end_key :: bytes

record unsafe_destroy_range_response =
  uds_region_error :: "region_error_msg option"
  uds_error :: string

definition new_unsafe_destroy_range_request :: "bound_range \<Rightarrow> unsafe_destroy_range_request" where
  "new_unsafe_destroy_range_request r = (case into_keys r of (s, e) \<Rightarrow>
     \<lparr>udq_start_key = s, udq_end_key = (case e of None \<Rightarrow> [] | Some e \<Rightarrow> e)\<rparr>)"

text \<open>One store: a call that fails in the transport is tried again after a delay, until the delays are used up.\<close>

primrec single_store_handler ::
  "('w, 'c) pd_client \<Rightarrow> ('w \<Rightarrow> 'w \<times> 'resp res) \<Rightarrow> ('resp \<Rightarrow> error list option) \<Rightarrow> ('resp \<Rightarrow> region_error_msg option)
     \<Rightarrow> nat \<Rightarrow> backoff \<Rightarrow> 'w \<Rightarrow> ('w \<times> 'resp res) option" where
  "single_store_handler pd execute key_errors region_error 0 = (\<lambda>b w. None)"
| "single_store_handler pd execute key_errors region_error (Suc fuel) = (\<lambda>b w.
    case execute w of
      (w, Inr resp) \<Rightarrow>
       (case key_errors resp of
          Some es \<Rightarrow> Some (w, Inl (MultipleKeyErrors es))
        | None \<Rightarrow>
           (case region_error resp of
              Some e \<Rightarrow> Some (w, Inl (RegionError e))
            | None \<Rightarrow> Some (w, Inr resp)))
    | (w, Inl e) \<Rightarrow>
       (if is_grpc_error e then
          (case next_delay_duration (rt_rnd pd w) b of
             None \<Rightarrow> None
           | Some (b, Some d) \<Rightarrow> single_store_handler pd execute key_errors region_error fuel b (rt_sleep pd w d)
           | Some (b, None) \<Rightarrow> Some (w, Inl e))
        else Some (w, Inl e)))"

fun run_stores ::
  "('w, 'c) pd_client \<Rightarrow> ('c \<Rightarrow> 'w \<Rightarrow> 'w \<times> 'resp res) \<Rightarrow> ('resp \<Rightarrow> error list option) \<Rightarrow> ('resp \<Rightarrow> region_error_msg option)
     \<Rightarrow> nat \<Rightarrow> backoff \<Rightarrow> 'c list \<Rightarrow> 'w \<Rightarrow> ('w \<times> ('c \<times> 'resp res) list) option" where
  "run_stores pd execute key_errors region_error fuel b [] w = Some (w, [])"
| "run_stores pd execute key_errors region_error fuel b (c # cs) w =
    (case single_store_handler pd (execute c) key_errors region_error fuel b w of
       None \<Rightarrow> None
     | Some (w, r) \<Rightarrow> map_option (map_prod id (\<lambda>rs. (c, r) # rs)) (run_stores pd execute key_errors region_error fuel b cs w))"

text \<open>The results stand in the order in which the stores finish, each with the store it came from, which the code does not keep.\<close>

definition retryable_all_stores ::
  "('w, 'c) pd_client \<Rightarrow> ('c \<Rightarrow> 'w \<Rightarrow> 'w \<times> 'resp res) \<Rightarrow> ('resp \<Rightarrow> error list option) \<Rightarrow> ('resp \<Rightarrow> region_error_msg option)
     \<Rightarrow> nat \<Rightarrow> backoff \<Rightarrow> 'w \<Rightarrow> ('w \<times> ('c \<times> 'resp res) list res) option" where
  "retryable_all_stores pd execute key_errors region_error fuel b w =
    (case pd_all_stores pd w of
       (w, Inl e) \<Rightarrow> Some (w, Inl e)
     | (w, Inr stores) \<Rightarrow>
        map_option (map_prod id Inr) (run_stores pd execute key_errors region_error fuel b (in_order (rt_order pd w (length stores)) stores) w))"

subsection \<open>The client\<close>

record txn_client =
  tc_keyspace :: keyspace
  tc_latches :: "(u64 \<Rightarrow> bytes list \<Rightarrow> bool) option"

record ('w, 'c) client_env =
  ce_env :: "('w, 'c) txn_env"
  ce_min_ts :: "'w \<Rightarrow> 'w \<times> timestamp res"
  ce_update_safepoint :: "'w \<Rightarrow> u64 \<Rightarrow> 'w \<times> bool res"
  ce_destroy_range :: "'w \<Rightarrow> 'c \<Rightarrow> unsafe_destroy_range_request \<Rightarrow> 'w \<times> unsafe_destroy_range_response res"

definition with_txn_local_latches :: "(u64 \<Rightarrow> bytes list \<Rightarrow> bool) \<Rightarrow> txn_client \<Rightarrow> txn_client" where
  "with_txn_local_latches latches c = c\<lparr>tc_latches := Some latches\<rparr>"

definition current_timestamp :: "('w, 'c) client_env \<Rightarrow> 'w \<Rightarrow> 'w \<times> timestamp res" where
  "current_timestamp env w = pd_get_timestamp (te_pd (ce_env env)) w"

definition current_min_timestamp :: "('w, 'c) client_env \<Rightarrow> 'w \<Rightarrow> 'w \<times> timestamp res" where
  "current_min_timestamp env w = ce_min_ts env w"

definition client_new_transaction :: "('w, 'c) client_env \<Rightarrow> txn_client \<Rightarrow> timestamp \<Rightarrow> transaction_options \<Rightarrow> 'w \<Rightarrow> transaction" where
  "client_new_transaction env c ts options w = new_transaction ts options (tc_keyspace c) (tc_latches c) (rt_now (te_pd (ce_env env)) w)"

definition begin_at_current :: "('w, 'c) client_env \<Rightarrow> txn_client \<Rightarrow> transaction_options \<Rightarrow> 'w \<Rightarrow> 'w \<times> transaction res" where
  "begin_at_current env c options w =
    (case current_timestamp env w of (w, r) \<Rightarrow> (w, map_sum id (\<lambda>ts. client_new_transaction env c ts options w) r))"

definition begin_optimistic :: "('w, 'c) client_env \<Rightarrow> txn_client \<Rightarrow> 'w \<Rightarrow> 'w \<times> transaction res" where
  "begin_optimistic env c w = begin_at_current env c new_optimistic w"

definition begin_pessimistic :: "('w, 'c) client_env \<Rightarrow> txn_client \<Rightarrow> 'w \<Rightarrow> 'w \<times> transaction res" where
  "begin_pessimistic env c w = begin_at_current env c new_pessimistic w"

definition begin_with_options ::
  "(f64 \<Rightarrow> string) \<Rightarrow> ('w, 'c) client_env \<Rightarrow> txn_client \<Rightarrow> transaction_options \<Rightarrow> 'w \<Rightarrow> 'w \<times> transaction res" where
  "begin_with_options show_f64 env c options w =
    (case validate show_f64 options of Inl e \<Rightarrow> (w, Inl e) | Inr _ \<Rightarrow> begin_at_current env c options w)"

definition CLEANUP_BACKOFF :: backoff where
  "CLEANUP_BACKOFF = equal_jitter_backoff 100 10000 50"

definition client_cleanup_locks ::
  "('w, 'c) client_env \<Rightarrow> txn_client \<Rightarrow> bound_range \<Rightarrow> timestamp \<Rightarrow> resolve_locks_options \<Rightarrow> 'w \<Rightarrow> ('w \<times> cleanup_locks_result res) option" where
  "client_cleanup_locks env c r safepoint options w =
    (let e = ce_env env; rg = key_range_of_bound_range (encode_bound_range (tc_keyspace c) Txn r);
         q = new_scan_lock_request (kr_start_key rg) (kr_end_key rg) (version_of safepoint) (ro_batch_size options)
     in Option.bind (run_plan (with_context (te_pd e)) (cleanup_ops (te_display e) (te_pd e) (te_kv e) options CLEANUP_BACKOFF (te_fuel e)) False
            (te_fuel e) DEFAULT_REGION_BACKOFF (w, new_resolve_locks_context) \<lparr>cp_inner = new_dispatch q, cp_store = None\<rparr>) (\<lambda>(wc, x).
          map_option (Pair (fst wc)) (truncate_result (tc_keyspace c)
            (ok_bind x (\<lambda>rs. ok_bind (extract_error (te_display e) cl_key_error cl_region_error (map snd rs)) merge_cleanup)))))"

definition gc :: "('w, 'c) client_env \<Rightarrow> txn_client \<Rightarrow> timestamp \<Rightarrow> 'w \<Rightarrow> ('w \<times> bool res) option" where
  "gc env c safepoint w =
    (case client_cleanup_locks env c (new_bound_range Unbounded Unbounded) safepoint default_resolve_locks_options w of
       None \<Rightarrow> None
     | Some (w, Inl e) \<Rightarrow> Some (w, Inl e)
     | Some (w, Inr _) \<Rightarrow> Some (ce_update_safepoint env w (version_of safepoint)))"

definition unsafe_destroy_range :: "('w, 'c) client_env \<Rightarrow> txn_client \<Rightarrow> bound_range \<Rightarrow> 'w \<Rightarrow> ('w \<times> unit res) option" where
  "unsafe_destroy_range env c r w =
    (let q = new_unsafe_destroy_range_request (encode_bound_range (tc_keyspace c) Txn r)
     in Option.bind (retryable_all_stores (te_pd (ce_env env)) (\<lambda>st w. ce_destroy_range env w st q) (str_key_errors \<circ> uds_error) uds_region_error
            (te_fuel (ce_env env)) DEFAULT_STORE_BACKOFF w) (\<lambda>(w, x).
          map_option (Pair w) (truncate_result (tc_keyspace c) (ok_bind x (\<lambda>rs. map_sum id (\<lambda>_. ()) (collect_error (map snd rs)))))))"

subsection \<open>Snapshots\<close>

text \<open>A snapshot is a transaction with the status of a reader; its reads are those of the transaction.\<close>

record snapshot =
  sn_transaction :: transaction

definition client_snapshot :: "('w, 'c) client_env \<Rightarrow> txn_client \<Rightarrow> timestamp \<Rightarrow> transaction_options \<Rightarrow> 'w \<Rightarrow> snapshot" where
  "client_snapshot env c ts options w = \<lparr>sn_transaction = client_new_transaction env c ts (read_only options) w\<rparr>"

definition on_transaction :: "(transaction \<Rightarrow> ('w, 'a) txn_result) \<Rightarrow> snapshot \<Rightarrow> ('w \<times> snapshot \<times> 'a res) option" where
  "on_transaction f s = map_option (\<lambda>(w, t, r). (w, \<lparr>sn_transaction = t\<rparr>, r)) (f (sn_transaction s))"

definition snapshot_get :: "('w, 'c) txn_env \<Rightarrow> key \<Rightarrow> snapshot \<Rightarrow> 'w \<Rightarrow> ('w \<times> snapshot \<times> val_bytes option res) option" where
  "snapshot_get env k s w = on_transaction (\<lambda>t. txn_get env k t w) s"

definition snapshot_get_with_options ::
  "('w, 'c) txn_env \<Rightarrow> key \<Rightarrow> bool \<Rightarrow> snapshot \<Rightarrow> 'w \<Rightarrow> ('w \<times> snapshot \<times> value_entry option res) option" where
  "snapshot_get_with_options env k need_commit_ts s w = on_transaction (\<lambda>t. txn_get_with_options env k need_commit_ts t w) s"

definition snapshot_batch_get_with_options ::
  "('w, 'c) txn_env \<Rightarrow> key list \<Rightarrow> bool \<Rightarrow> snapshot \<Rightarrow> 'w \<Rightarrow> ('w \<times> snapshot \<times> (key \<rightharpoonup> value_entry) res) option" where
  "snapshot_batch_get_with_options env ks need_commit_ts s w = on_transaction (\<lambda>t. txn_batch_get_with_options env ks need_commit_ts t w) s"

definition snapshot_key_exists :: "('w, 'c) txn_env \<Rightarrow> key \<Rightarrow> snapshot \<Rightarrow> 'w \<Rightarrow> ('w \<times> snapshot \<times> bool res) option" where
  "snapshot_key_exists env k s w = on_transaction (\<lambda>t. txn_key_exists env k t w) s"

definition snapshot_batch_get :: "('w, 'c) txn_env \<Rightarrow> key list \<Rightarrow> snapshot \<Rightarrow> 'w \<Rightarrow> ('w \<times> snapshot \<times> kv_pair list res) option" where
  "snapshot_batch_get env ks s w = on_transaction (\<lambda>t. txn_batch_get env ks t w) s"

definition snapshot_scan :: "('w, 'c) txn_env \<Rightarrow> bound_range \<Rightarrow> u32 \<Rightarrow> snapshot \<Rightarrow> 'w \<Rightarrow> ('w \<times> snapshot \<times> kv_pair list res) option" where
  "snapshot_scan env r limit s w = on_transaction (\<lambda>t. txn_scan env r limit False False t w) s"

definition snapshot_scan_reverse :: "('w, 'c) txn_env \<Rightarrow> bound_range \<Rightarrow> u32 \<Rightarrow> snapshot \<Rightarrow> 'w \<Rightarrow> ('w \<times> snapshot \<times> kv_pair list res) option" where
  "snapshot_scan_reverse env r limit s w = on_transaction (\<lambda>t. txn_scan env r limit False True t w) s"

definition snapshot_scan_keys :: "('w, 'c) txn_env \<Rightarrow> bound_range \<Rightarrow> u32 \<Rightarrow> snapshot \<Rightarrow> 'w \<Rightarrow> ('w \<times> snapshot \<times> key list res) option" where
  "snapshot_scan_keys env r limit s w =
     map_option (map_prod id (map_prod id (map_sum id (map kp_key)))) (on_transaction (\<lambda>t. txn_scan env r limit True False t w) s)"

definition snapshot_scan_keys_reverse :: "('w, 'c) txn_env \<Rightarrow> bound_range \<Rightarrow> u32 \<Rightarrow> snapshot \<Rightarrow> 'w \<Rightarrow> ('w \<times> snapshot \<times> key list res) option" where
  "snapshot_scan_keys_reverse env r limit s w =
     map_option (map_prod id (map_prod id (map_sum id (map kp_key)))) (on_transaction (\<lambda>t. txn_scan env r limit True True t w) s)"

subsection \<open>Every store is reached\<close>

lemma single_store_ok:
  assumes "single_store_handler pd execute key_errors region_error fuel b w = Some (w', Inr resp)"
  shows "key_errors resp = None \<and> region_error resp = None \<and> (\<exists>u u'. execute u = (u', Inr resp))"
  using assms
proof (induction fuel arbitrary: b w)
  case (Suc fuel)
  obtain w1 x where e: "execute w = (w1, x)" by fastforce
  show ?case
  proof (cases x)
    case (Inr r)
    then show ?thesis using Suc.prems e by (auto split: option.splits)
  next
    case (Inl err)
    then obtain b' d where "single_store_handler pd execute key_errors region_error fuel b' (rt_sleep pd w1 d) = Some (w', Inr resp)"
      using Suc.prems e by (auto split: option.splits if_splits)
    then show ?thesis by (rule Suc.IH)
  qed
qed simp

lemma run_stores_ok:
  assumes "run_stores pd execute key_errors region_error fuel b cs w = Some (w', rs)"
  shows "map fst rs = cs \<and> (\<forall>(c, r) \<in> set rs. \<forall>resp. r = Inr resp \<longrightarrow>
    key_errors resp = None \<and> region_error resp = None \<and> (\<exists>u u'. execute c u = (u', Inr resp)))"
  using assms
proof (induction cs arbitrary: w rs)
  case (Cons c cs)
  then obtain w1 r rs' where r: "single_store_handler pd (execute c) key_errors region_error fuel b w = Some (w1, r)"
    "run_stores pd execute key_errors region_error fuel b cs w1 = Some (w', rs')" "rs = (c, r) # rs'"
    by (auto split: option.splits)
  have "key_errors resp = None \<and> region_error resp = None \<and> (\<exists>u u'. execute c u = (u', Inr resp))" if "r = Inr resp" for resp
    by (rule single_store_ok [OF r(1) [unfolded that]])
  then show ?case using Cons.IH [OF r(2)] r(3) by auto
qed simp

lemma collect_error_ok: "collect_error rs = Inr xs \<Longrightarrow> rs = map Inr xs"
  using first_error_oks [of rs] by (auto simp: collect_error_def split: option.splits)

text \<open>C17: When the deletion of a range succeeds, every store that PD knows has answered the request for this range without an error: no store is
  left out, whatever the order in which the stores finish and how often a call had to be repeated.\<close>

theorem destroy_range_reaches_every_store:
  assumes "unsafe_destroy_range env c r w = Some (w', Inr ())"
  shows "\<exists>w1 stores rs. pd_all_stores (te_pd (ce_env env)) w = (w1, Inr stores) \<and> mset (map fst rs) = mset stores
    \<and> list_all (\<lambda>(st, resp). uds_error resp = [] \<and> uds_region_error resp = None
        \<and> (\<exists>u u'. ce_destroy_range env u st (new_unsafe_destroy_range_request (encode_bound_range (tc_keyspace c) Txn r)) = (u', Inr resp))) rs"
proof -
  let ?q = "new_unsafe_destroy_range_request (encode_bound_range (tc_keyspace c) Txn r)"
  let ?ex = "\<lambda>st w. ce_destroy_range env w st ?q"
  obtain w2 x where x: "retryable_all_stores (te_pd (ce_env env)) ?ex (str_key_errors \<circ> uds_error) uds_region_error (te_fuel (ce_env env))
      DEFAULT_STORE_BACKOFF w = Some (w2, x)"
    and t: "truncate_result (tc_keyspace c) (ok_bind x (\<lambda>rs. map_sum id (\<lambda>_. ()) (collect_error (map snd rs)))) = Some (Inr ())"
    using assms by (auto simp: unsafe_destroy_range_def Let_def bind_eq_Some_conv)
  obtain rs where rs: "x = Inr rs" "map_sum id (\<lambda>_. ()) (collect_error (map snd rs)) = Inr ()"
    using t by (cases x) (auto simp: truncate_result_def split: sum.splits)
  then obtain resps where resps: "map snd rs = map Inr resps" using collect_error_ok by (cases "collect_error (map snd rs)") auto
  obtain w1 stores where st: "pd_all_stores (te_pd (ce_env env)) w = (w1, Inr stores)"
    and run: "run_stores (te_pd (ce_env env)) ?ex (str_key_errors \<circ> uds_error) uds_region_error (te_fuel (ce_env env)) DEFAULT_STORE_BACKOFF
      (in_order (rt_order (te_pd (ce_env env)) w1 (length stores)) stores) w1 = Some (w2, rs)"
    using x rs(1) by (auto simp: retryable_all_stores_def split: sum.splits prod.splits)
  note ok = run_stores_ok [OF run]
  have eq: "rs = map (\<lambda>(c, resp). (c, Inr resp)) (zip (map fst rs) resps)"
    using resps by (induction rs arbitrary: resps) (auto simp: Cons_eq_map_conv)
  have len: "length resps = length rs" using arg_cong [OF resps, of length] by simp
  have "map fst (zip (map fst rs) resps) = map fst rs" using len by simp
  then have "mset (map fst (zip (map fst rs) resps)) = mset stores" using conjunct1 [OF ok] mset_in_order by metis
  moreover have "list_all (\<lambda>(st, resp). uds_error resp = [] \<and> uds_region_error resp = None
      \<and> (\<exists>u u'. ce_destroy_range env u st ?q = (u', Inr resp))) (zip (map fst rs) resps)"
  proof -
    have "uds_error resp = [] \<and> uds_region_error resp = None \<and> (\<exists>u u'. ce_destroy_range env u st ?q = (u', Inr resp))"
      if "(st, resp) \<in> set (zip (map fst rs) resps)" for st resp
    proof -
      have "(st, Inr resp) \<in> set rs" using that by (subst eq) force
      then show ?thesis using ok by (auto simp: str_key_errors_def split: if_splits)
    qed
    then show ?thesis by (auto simp: list_all_iff)
  qed
  ultimately show ?thesis using st by blast
qed

subsection \<open>A snapshot stays a snapshot\<close>

text \<open>A buffer that only caches what was read.\<close>

definition only_cached :: "buffer \<Rightarrow> bool" where
  "only_cached b \<longleftrightarrow> buffer_inv b \<and> primary_key b = None"

lemma only_cached_entries: "only_cached b \<Longrightarrow> bt_get (entry_map b) k = Some e \<Longrightarrow> is_cached e"
  unfolding only_cached_def buffer_inv_def by blast

lemma update_cache_all_primary: "primary_key (fst (update_cache_all ps b)) = primary_key b"
proof (induction ps b rule: update_cache_all.induct)
  case (2 k v ps b)
  obtain b1 r where u: "update_cache k (Some v) b = (b1, r)" by fastforce
  then have "primary_key b1 = primary_key b" using update_cache_sel(1) [of k "Some v" b] by simp
  then show ?case using 2 u by (cases r) simp_all
qed simp

lemma only_cached_reads:
  assumes "only_cached b"
  shows "only_cached (fst (get_or_else k f b))" "only_cached (fst (batch_get_or_else ks g b))"
    and "scan_and_fetch rng limit upd rv h b = Some out \<Longrightarrow> only_cached (fst out)"
    and "update_read_cache k v ts b = (b', r) \<Longrightarrow> only_cached b'"
proof -
  have i: "buffer_inv b" "primary_key b = None" using assms by (auto simp: only_cached_def)
  show "only_cached (fst (get_or_else k f b))"
    using keeps_get_or_else [OF i(1)] get_or_else_buffer [of k f b] i(2) by (auto simp: only_cached_def keeps_def)
  show "only_cached (fst (batch_get_or_else ks g b))"
    using keeps_batch_get [OF i(1)] batch_get_buffer [of ks g b] i(2) update_cache_all_primary by (auto simp: only_cached_def keeps_def)
  show "only_cached (fst out)" if "scan_and_fetch rng limit upd rv h b = Some out"
    using keeps_scan [OF i(1) that] scan_buffer [OF that] i(2) update_cache_all_primary by (auto simp: only_cached_def keeps_def)
  show "only_cached b'" if u: "update_read_cache k v ts b = (b', r)"
  proof -
    obtain b1 x where c: "update_cache k v b = (b1, x)" by fastforce
    then have "primary_key b1 = primary_key b" using update_cache_sel(1) [of k v b] by simp
    then have "primary_key b' = primary_key b" using u by (auto simp: update_read_cache_def c split: sum.splits if_splits)
    then show ?thesis using keeps_read_cache [OF i(1) u] i(2) by (simp add: only_cached_def keeps_def)
  qed
qed

lemma only_cached_pairs: "only_cached b \<Longrightarrow> only_cached (fst (cache_pairs ks need ps b out))"
proof (induction ps arbitrary: b out)
  case (Cons p ps)
  then show ?case by (auto simp: Let_def dest: only_cached_reads(4) split: prod.splits sum.splits)
qed simp

definition snapshot_inv :: "timestamp \<Rightarrow> transaction \<Rightarrow> bool" where
  "snapshot_inv ts t \<longleftrightarrow> tx_status t = TxReadOnly \<and> tx_timestamp t = ts \<and> tx_tasks t = [] \<and> only_cached (tx_buffer t)"

lemma snapshot_inv_upd: "snapshot_inv ts t \<Longrightarrow> only_cached b \<Longrightarrow> snapshot_inv ts (t\<lparr>tx_buffer := b\<rparr>)"
  by (simp add: snapshot_inv_def)

lemma allowed_reader: "snapshot_inv ts t \<Longrightarrow> allowed t w m = m"
  by (simp add: snapshot_inv_def allowed_def check_allow_operation_def)

lemma txn_get_reader:
  assumes "snapshot_inv ts t" "txn_get env k t w = Some (w', t', r)"
  shows "snapshot_inv ts t'"
proof -
  have "only_cached (tx_buffer t)" using assms(1) by (simp add: snapshot_inv_def)
  then show ?thesis using assms(2) snapshot_inv_upd [OF assms(1)] assms(1)
    by (auto simp: txn_get_def allowed_reader [OF assms(1)] Let_def through_buffer_def only_cached_reads bind_eq_Some_conv split: mutation_value.splits)
qed

lemma txn_scan_reader:
  assumes "snapshot_inv ts t" "txn_scan env rng limit ko rv t w = Some (w', t', r)"
  shows "snapshot_inv ts t'"
proof -
  have c: "only_cached (tx_buffer t)" using assms(1) by (simp add: snapshot_inv_def)
  show ?thesis using assms(2) snapshot_inv_upd [OF assms(1)]
    by (auto simp: txn_scan_def allowed_reader [OF assms(1)] Let_def through_buffer_def bind_eq_Some_conv dest: only_cached_reads(3) [OF c] split: if_splits)
qed

lemma txn_batch_get_reader:
  assumes "snapshot_inv ts t" "txn_batch_get env ks t w = Some (w', t', r)"
  shows "snapshot_inv ts t'"
proof -
  have "only_cached (tx_buffer t)" using assms(1) by (simp add: snapshot_inv_def)
  then show ?thesis using assms(2) snapshot_inv_upd [OF assms(1)]
    by (auto simp: txn_batch_get_def allowed_reader [OF assms(1)] Let_def through_buffer_def only_cached_reads bind_eq_Some_conv)
qed

lemma txn_get_with_options_reader:
  assumes "snapshot_inv ts t" "txn_get_with_options env k need t w = Some (w', t', r)"
  shows "snapshot_inv ts t'"
proof (cases "local_entry need (tx_buffer t) (encode_key (tx_keyspace t) Txn k)")
  case None
  have "only_cached (tx_buffer t)" using assms(1) by (simp add: snapshot_inv_def)
  then have c: "only_cached (fst (update_read_cache k v cts (tx_buffer t)))" for k v cts
    using only_cached_reads(4) by (metis prod.collapse)
  obtain w1 x where f: "fetch_get env t need (encode_key (tx_keyspace t) Txn k) w = Some (w1, x)"
    using assms(2) None by (auto simp: txn_get_with_options_def allowed_reader [OF assms(1)] Let_def bind_eq_Some_conv)
  show ?thesis using assms None f snapshot_inv_upd [OF assms(1) c]
    by (cases x) (auto simp: txn_get_with_options_def allowed_reader [OF assms(1)] Let_def through_buffer_def)
qed (use assms in \<open>simp add: txn_get_with_options_def allowed_reader [OF assms(1)] Let_def\<close>)

lemma txn_batch_get_with_options_reader:
  assumes "snapshot_inv ts t" "txn_batch_get_with_options env ks need t w = Some (w', t', r)"
  shows "snapshot_inv ts t'"
proof (cases "filter (\<lambda>k. local_entry need (tx_buffer t) k = None) (map (encode_key (tx_keyspace t) Txn) ks) = []")
  case False
  have c: "only_cached (tx_buffer t)" using assms(1) by (simp add: snapshot_inv_def)
  note run = assms(2) [unfolded txn_batch_get_with_options_def allowed_reader [OF assms(1)] Let_def if_not_P [OF False]]
  obtain w1 x where f: "fetch_batch_get env t need (filter (\<lambda>k. local_entry need (tx_buffer t) k = None) (map (encode_key (tx_keyspace t) Txn) ks)) w = Some (w1, x)"
    using run by (auto simp: bind_eq_Some_conv)
  show ?thesis using run f assms(1) snapshot_inv_upd [OF assms(1) only_cached_pairs [OF c]]
    by (cases x) (auto simp: through_buffer_def)
qed (use assms in \<open>simp add: txn_batch_get_with_options_def allowed_reader [OF assms(1)] Let_def\<close>)

text \<open>The reads of a snapshot, in any order and with any answers of the stores.\<close>

inductive snapshot_reads :: "('w, 'c) txn_env \<Rightarrow> snapshot \<Rightarrow> snapshot \<Rightarrow> bool" for env where
  start: "snapshot_reads env s s"
| get: "snapshot_reads env s0 s \<Longrightarrow> snapshot_get env k s w = Some (w', s', r) \<Longrightarrow> snapshot_reads env s0 s'"
| get_with_options: "snapshot_reads env s0 s \<Longrightarrow> snapshot_get_with_options env k need s w = Some (w', s', r2) \<Longrightarrow> snapshot_reads env s0 s'"
| key_exists: "snapshot_reads env s0 s \<Longrightarrow> snapshot_key_exists env k s w = Some (w', s', r3) \<Longrightarrow> snapshot_reads env s0 s'"
| batch_get: "snapshot_reads env s0 s \<Longrightarrow> snapshot_batch_get env ks s w = Some (w', s', r4) \<Longrightarrow> snapshot_reads env s0 s'"
| batch_get_with_options:
    "snapshot_reads env s0 s \<Longrightarrow> snapshot_batch_get_with_options env ks need s w = Some (w', s', r5) \<Longrightarrow> snapshot_reads env s0 s'"
| scan: "snapshot_reads env s0 s \<Longrightarrow> snapshot_scan env rng limit s w = Some (w', s', r6) \<Longrightarrow> snapshot_reads env s0 s'"
| scan_reverse: "snapshot_reads env s0 s \<Longrightarrow> snapshot_scan_reverse env rng limit s w = Some (w', s', r7) \<Longrightarrow> snapshot_reads env s0 s'"
| scan_keys: "snapshot_reads env s0 s \<Longrightarrow> snapshot_scan_keys env rng limit s w = Some (w', s', r8) \<Longrightarrow> snapshot_reads env s0 s'"
| scan_keys_reverse: "snapshot_reads env s0 s \<Longrightarrow> snapshot_scan_keys_reverse env rng limit s w = Some (w', s', r9) \<Longrightarrow> snapshot_reads env s0 s'"

lemma on_transaction_Some: "on_transaction f s = Some (w', s', r) \<Longrightarrow> f (sn_transaction s) = Some (w', sn_transaction s', r)"
  by (auto simp: on_transaction_def)

lemma key_exists_reader: "snapshot_inv ts t \<Longrightarrow> txn_key_exists env k t w = Some (w', t', r) \<Longrightarrow> snapshot_inv ts t'"
  by (auto simp: txn_key_exists_def txn_bind_def dest: txn_get_reader split: option.splits sum.splits prod.splits)

lemma snapshot_reads_inv: "snapshot_reads env s0 s \<Longrightarrow> snapshot_inv ts (sn_transaction s0) \<Longrightarrow> snapshot_inv ts (sn_transaction s)"
proof (induction rule: snapshot_reads.induct)
  case (scan_keys s0 s rng limit w w' s' r8)
  then show ?case by (auto simp: snapshot_scan_keys_def dest!: on_transaction_Some dest: txn_scan_reader)
next
  case (scan_keys_reverse s0 s rng limit w w' s' r9)
  then show ?case by (auto simp: snapshot_scan_keys_reverse_def dest!: on_transaction_Some dest: txn_scan_reader)
qed (auto simp: snapshot_get_def snapshot_get_with_options_def snapshot_key_exists_def snapshot_batch_get_def snapshot_batch_get_with_options_def
    snapshot_scan_def snapshot_scan_reverse_def dest!: on_transaction_Some
    dest: txn_get_reader txn_get_with_options_reader key_exists_reader txn_batch_get_reader txn_batch_get_with_options_reader txn_scan_reader)

text \<open>C26: A snapshot stays what it is: whatever is read through it and whatever the stores answer, it keeps its timestamp and the status
  of a reader, starts no task, and its buffer holds nothing but values that were read, never a write or a lock.\<close>

theorem snapshot_never_writes:
  assumes "snapshot_reads tenv (client_snapshot env c ts options w) s"
  shows "tx_status (sn_transaction s) = TxReadOnly \<and> tx_timestamp (sn_transaction s) = ts \<and> tx_tasks (sn_transaction s) = []
    \<and> (\<forall>k e. bt_get (entry_map (tx_buffer (sn_transaction s))) k = Some e \<longrightarrow> is_cached e)"
proof -
  have "only_cached (new_buffer p)" for p
    by (auto simp: only_cached_def buffer_inv_def new_buffer_def bt_inv_def bt_get_def)
  then have "snapshot_inv ts (sn_transaction (client_snapshot env c ts options w))"
    by (simp add: snapshot_inv_def client_snapshot_def client_new_transaction_def new_transaction_def read_only_def)
  from snapshot_reads_inv [OF assms this] show ?thesis using only_cached_entries unfolding snapshot_inv_def by blast
qed

subsection \<open>Examples\<close>

definition example_env :: "(unit, unit) client_env" where
  "example_env = \<lparr>ce_env = \<lparr>te_display = (\<lambda>_. []), te_pd = plain_client (from_version 9), te_kv = demo_kv 0 0, te_fuel = 3\<rparr>,
     ce_min_ts = (\<lambda>w. (w, Inr (from_version 9))), ce_update_safepoint = (\<lambda>w v. (w, Inr True)),
     ce_destroy_range = (\<lambda>w c q. (w, Inr \<lparr>uds_region_error = None, uds_error = []\<rparr>))\<rparr>"

definition example_client :: txn_client where
  "example_client = \<lparr>tc_keyspace = Disable, tc_latches = None\<rparr>"

lemma example_destroy_runs: "unsafe_destroy_range example_env example_client (from_pair [1] [2]) () = Some ((), Inr ())"
  by (simp add: unsafe_destroy_range_def example_env_def example_client_def retryable_all_stores_def plain_client_def in_order_def
      str_key_errors_def collect_error_def truncate_result_def Let_def numeral_3_eq_3)

theorem destroy_range_reaches_every_store_witness:
  "\<exists>stores rs. pd_all_stores (te_pd (ce_env example_env)) () = ((), Inr stores) \<and> mset (map fst rs) = mset stores
    \<and> list_all (\<lambda>(st :: unit, resp :: unsafe_destroy_range_response). uds_error resp = [] \<and> uds_region_error resp = None) rs"
  using destroy_range_reaches_every_store [OF example_destroy_runs] by (auto simp: list_all_iff case_prod_unfold)

lemma example_snapshot_reads:
  "map_option (\<lambda>_. ()) (snapshot_batch_get (ce_env example_env) [] (client_snapshot example_env example_client (from_version 9) new_optimistic ()) ()) = Some ()"
  by (simp add: snapshot_batch_get_def on_transaction_def client_snapshot_def client_new_transaction_def new_transaction_def read_only_def txn_batch_get_def
      allowed_def check_allow_operation_def fetch_batch_get_def read_plan_def retry_multi_region_def resolve_lock_ops_def batch_get_ops_def dispatch_ops_def
      new_dispatch_def batch_get_shards_def sorted_groups_def group_keys_by_region.simps example_env_def through_buffer_def Let_def numeral_3_eq_3
      new_batch_get_request_with_need_commit_ts_def default_batch_get_request_def in_order_def run_shards.simps collect_pairs_def map_filter_simps set_world_def)

theorem snapshot_never_writes_witness:
  "\<exists>w' s' r. snapshot_batch_get (ce_env example_env) [] (client_snapshot example_env example_client (from_version 9) new_optimistic ()) () = Some (w', s', r)
     \<and> tx_status (sn_transaction s') = TxReadOnly \<and> tx_timestamp (sn_transaction s') = from_version 9"
proof -
  obtain w' s' r where g: "snapshot_batch_get (ce_env example_env) [] (client_snapshot example_env example_client (from_version 9) new_optimistic ()) () = Some (w', s', r)"
    using example_snapshot_reads by auto
  from snapshot_never_writes [OF snapshot_reads.batch_get [OF snapshot_reads.start g]] g show ?thesis by auto
qed

end
