(* ===== verification/Spec2Isabelle.thy ===== *)
theory Spec2Isabelle
  imports Txn_Scan Region_Inflight Tso Latch_Props Transaction_Gaps Raw_Props Txn_Client
begin

text \<open>
  A model of the Rust client of TiKV and the theorems that show what it guarantees. Paths are relative to the directory
  of the crate's sources.

  \<^bold>\<open>The program.\<close> A user holds a \<open>Transaction\<close> or a raw \<open>Client\<close>. A transaction collects its writes in a buffer and
  reads through it; at the end a committer runs the two phases of the commit, or one of its shortcuts. Every request goes
  through a plan, which splits the request by region and batch size, sends the shards to the stores, resolves the locks that
  it meets, handles the errors of regions, and merges the answers. Regions come from a cache in front of PD, the placement
  driver. Local latches order the transactions of one process that write the same keys.

  \<^bold>\<open>Conventions.\<close> A \<open>Result\<close> is a sum whose left part is an \<open>error\<close>. None is a panic, or running out of fuel where an
  operation takes fuel. Integers with a width are words; \<open>i64\<close> with range checks is an integer. A \<open>BTreeMap\<close> is an association
  list with increasing keys, a \<open>HashMap\<close> a partial function. The world outside (PD, stores, the clock, random numbers, the
  order in which concurrent requests finish) is a parameter over an abstract state, so a theorem holds for all of them. Spawned
  tasks are values of the state together with the function that each of them runs. Interleaved tasks are step relations.

  \<^bold>\<open>The theories and what they model.\<close>
  \<^item> \<open>Prelude\<close>, \<open>BTree_Map\<close>: bytes, results, saturating integers; ordered maps behind the locale \<open>ordered_map\<close>.
  \<^item> \<open>Proto\<close>, \<open>Proto_Requests\<close>, \<open>Raw_Requests\<close> (generated messages), \<open>Errors\<close> (\<open>common/errors.rs\<close>).
  \<^item> \<open>Kv_Codec\<close>, \<open>Kv_Key\<close> (\<open>kv/\<close>), \<open>Keyspace\<close> (\<open>request/keyspace.rs\<close>), \<open>Timestamp\<close> (\<open>timestamp.rs\<close>): the codec and its order, key
    ranges, the prefix of a keyspace and its removal, the packing of timestamps. Encoding and decoding are inverse, the codec
    keeps the order of keys, keyspaces are disjoint and their ranges exact.
  \<^item> \<open>Key_Flags\<close>, \<open>Txn_Buffer\<close>, \<open>Txn_Scan\<close> (\<open>transaction/key_flags.rs\<close>, \<open>transaction/buffer.rs\<close>): a transaction reads its own writes, a
    scan returns the first pairs of the overlaid range, every key has one mutation.
  \<^item> \<open>Region\<close>, \<open>Region_Cache\<close>, \<open>Region_Inflight\<close> (\<open>region.rs\<close>, \<open>region_cache.rs\<close>): the cache keeps its index in step with its regions
    and answers with the region of the key; one lookup in flight is shared.
  \<^item> \<open>Latch\<close>, \<open>Latch_Spec\<close>, \<open>Latch_Refine\<close>, \<open>Latch_Props\<close> (\<open>transaction/latch.rs\<close>): the slots refine a table with one owner per key; mutual
    exclusion, no deadlock, staleness; what a cancelled wait leaks.
  \<^item> \<open>Pd_Client\<close>, \<open>Txn_Requests\<close>, \<open>Sharding\<close> (\<open>pd/client.rs\<close>, \<open>transaction/requests.rs\<close>, \<open>transaction/lowering.rs\<close>,
    \<open>request/shard.rs\<close>): keys and ranges are grouped by region without loss; the requests and how each of them is split.
  \<^item> \<open>Backoff\<close>, \<open>Read_Routing\<close> (\<open>backoff.rs\<close>, \<open>request/read_routing.rs\<close>, \<open>store/health.rs\<close>): delays and the choice of a peer.
  \<^item> \<open>Plan_Types\<close>, \<open>Plan\<close>, \<open>Plan_Props\<close>, \<open>Plan_Client\<close> (\<open>request/plan.rs\<close>, \<open>request/plan_builder.rs\<close>, \<open>store/errors.rs\<close>): plans, the region error
    handler, and the production client over its caches. A plan that succeeds was answered for every key.
  \<^item> \<open>Lock_Resolver\<close>, \<open>Lock_Props\<close> (\<open>transaction/lock.rs\<close>): the fate of the transactions behind locks.
  \<^item> \<open>Txn_Options\<close>, \<open>Committer\<close>, \<open>Committer_Props\<close>, \<open>Commit_Gaps\<close> (\<open>transaction/transaction.rs\<close>): the order of the phases, the bounds of the
    timestamps, the reach of a rollback; and where a commit reports something else than the stores did.
  \<^item> \<open>Pipelined\<close>, \<open>Pipelined_Props\<close> (\<open>transaction/pipelined.rs\<close>): every mutation is flushed, and the locks of everything that was flushed
    are resolved.
  \<^item> \<open>Transaction\<close>, \<open>Transaction_Props\<close>, \<open>Transaction_Gaps\<close> (\<open>transaction/transaction.rs\<close>, \<open>kv/value_entry.rs\<close>): a finished transaction is silent,
    a commit hands over what the buffer holds; where locks and writes are lost.
  \<^item> \<open>Raw_Client\<close>, \<open>Raw_Store\<close>, \<open>Raw_Props\<close> (\<open>raw/\<close>): on stores that keep a map the client is a map for its keyspace and column
    family; batch reads, scans and checksums; where batches are not sent and scans start over.
  \<^item> \<open>Tso\<close> (\<open>pd/timestamp.rs\<close>): the oracle gives every request a timestamp of its own, in the order in which the requests came.
  \<^item> \<open>Cleanup_Locks\<close> (\<open>request/plan.rs\<close>, \<open>request/shard.rs\<close>): the plan that scans and resolves the locks of a range passes over no lock.
  \<^item> \<open>Txn_Client\<close> (\<open>transaction/client.rs\<close>, \<open>transaction/snapshot.rs\<close>): the destruction of a range reaches every store; a snapshot reads at
    its timestamp and writes nothing.
  \<^item> \<open>Example_Client\<close>: a cluster with one region and stores that accept every request, for the examples.

  \<^bold>\<open>Interfaces.\<close> The locale \<open>region_source\<close> is what plans ask of a region lookup; \<open>shardable\<close>, \<open>lossless_shardable\<close> and
  \<open>tagged_shardable\<close> are the trait \<open>Shardable\<close>; \<open>region_plan\<close> is a plan over regions; \<open>client\<close>, \<open>client_request\<close>, \<open>client_kv\<close> and
  \<open>store_client\<close> are the client with its requests. Each of them is interpreted on the cached lookup and the production client.

  \<^bold>\<open>Fuel and bounds.\<close> Plans retry as often as stores report errors that are retried at once, so they take fuel, and theorems about
  results hold for every amount of fuel with which the plan returns; the theorems on concrete clusters say how much is enough.
  The wait for a commit timestamp ends after the timeout in polls, which is proved. The loop of a raw scan ends after as many turns as
  there are ends of regions below the end of its range, which is proved where it holds and refuted where it does not.

  \<^bold>\<open>Not modelled.\<close> Connections to PD and to stores and the batching of commands: network code whose effect is the
  parameter for PD and stores. The validation of read timestamps, the low resolution timestamps and the safe timestamps of stores, which sit
  between that network code and the client. Constructors of clients that connect. Limits on the number of concurrent requests, which
  change the order of requests only. Metrics, tracing, interceptors, resource control and request contexts, which only decorate requests.
  Encoding of messages, which is generated.
\<close>

end
